(* ===== verification/Prelude.thy ===== *)
theory Prelude
  imports Main "HOL-Library.Word"
begin

text \<open>
  Shared vocabulary of the development: machine integers, byte strings, the outcome type of a
  fallible Rust function, big-endian encodings, and the two map types of the program
  (\<^verbatim>\<open>BTreeMap\<close> and \<^verbatim>\<open>HashMap\<close>) as association lists behind one interface, the locale
  \<open>finite_map\<close>. Every other theory imports this one.
\<close>

section \<open>Machine integers and bytes\<close>

text \<open>Rust's fixed-width integers. Arithmetic wraps, as it does in a release build.\<close>

type_synonym u8 = "8 word"
type_synonym u16 = "16 word"
type_synonym u32 = "32 word"
type_synonym u64 = "64 word"
type_synonym u128 = "128 word"
type_synonym bytes = "8 word list"

section \<open>Outcomes of fallible functions\<close>

text \<open>
  \<open>Ok\<close> and \<open>Err\<close> are the two constructors of Rust's \<^verbatim>\<open>Result\<close>; \<open>Panic\<close> is the
  third way a call can end (an \<^verbatim>\<open>unwrap\<close> on an error, a missing map key, an index out of
  range, a failed \<^verbatim>\<open>assert!\<close>).
\<close>

datatype ('e, 'a) outcome = Ok 'a | Err 'e | Panic

text \<open>The question-mark operator: continue with the value, or return what went wrong.\<close>

fun obind :: "('e, 'a) outcome \<Rightarrow> ('a \<Rightarrow> ('e, 'b) outcome) \<Rightarrow> ('e, 'b) outcome" where
  "obind (Ok a) f = f a"
| "obind (Err e) f = Err e"
| "obind Panic f = Panic"

text \<open>\<^verbatim>\<open>map_err\<close> and the implicit \<^verbatim>\<open>From\<close> conversions of the question-mark operator.\<close>

fun map_err :: "('e \<Rightarrow> 'f) \<Rightarrow> ('e, 'a) outcome \<Rightarrow> ('f, 'a) outcome" where
  "map_err f (Ok a) = Ok a"
| "map_err f (Err e) = Err (f e)"
| "map_err f Panic = Panic"

text \<open>\<^verbatim>\<open>ok_or\<close>: an absent value as an error; \<open>unwrap\<close>: an absent value as a panic.\<close>

fun ok_or :: "'e \<Rightarrow> 'a option \<Rightarrow> ('e, 'a) outcome" where
  "ok_or e (Some a) = Ok a"
| "ok_or e None = Err e"

fun unwrap :: "'a option \<Rightarrow> ('e, 'a) outcome" where
  "unwrap (Some a) = Ok a"
| "unwrap None = Panic"

fun is_ok :: "('e, 'a) outcome \<Rightarrow> bool" where
  "is_ok (Ok a) = True"
| "is_ok (Err e) = False"
| "is_ok Panic = False"

lemma obind_Ok_iff: "obind r f = Ok b \<longleftrightarrow> (\<exists>a. r = Ok a \<and> f a = Ok b)"
  by (cases r) auto

lemma map_err_Ok_iff [simp]: "map_err g r = Ok a \<longleftrightarrow> r = Ok a"
  by (cases r) auto

lemma ok_or_Ok_iff [simp]: "ok_or e x = Ok a \<longleftrightarrow> x = Some a"
  by (cases x) auto

lemma unwrap_Ok_iff [simp]: "unwrap x = Ok a \<longleftrightarrow> x = Some a"
  by (cases x) auto

lemma unwrap_not_Err [simp]: "unwrap x \<noteq> Err e"
  by (cases x) auto

lemma is_ok_iff: "is_ok r \<longleftrightarrow> (\<exists>a. r = Ok a)"
  by (cases r) auto

section \<open>Big-endian encodings\<close>

text \<open>\<open>be_bytes n x\<close> is \<^verbatim>\<open>x.to_be_bytes()\<close> for an \<open>n\<close>-byte unsigned integer.\<close>

fun be_bytes :: "nat \<Rightarrow> nat \<Rightarrow> bytes" where
  "be_bytes 0 x = []"
| "be_bytes (Suc n) x = be_bytes n (x div 256) @ [of_nat x]"

definition u32_be :: "u32 \<Rightarrow> bytes" where
  "u32_be w = be_bytes 4 (unat w)"

definition u64_be :: "u64 \<Rightarrow> bytes" where
  "u64_be w = be_bytes 8 (unat w)"

fun be_value :: "bytes \<Rightarrow> nat" where
  "be_value bs = foldl (\<lambda>acc b. 256 * acc + unat b) 0 bs"

lemma length_be_bytes [simp]: "length (be_bytes n x) = n"
  by (induction n x rule: be_bytes.induct) auto

lemma be_value_be_bytes: "be_value (be_bytes n x) = x mod 256 ^ n"
proof (induction n arbitrary: x)
  case 0
  then show ?case by simp
next
  case (Suc n)
  have "be_value (be_bytes (Suc n) x) = 256 * ((x div 256) mod 256 ^ n) + x mod 256"
    using Suc.IH [of "x div 256"] by (simp add: unat_of_nat)
  also have "\<dots> = x mod 256 ^ Suc n"
    by (simp add: mod_mult2_eq)
  finally show ?case .
qed

lemma length_u32_be [simp]: "length (u32_be w) = 4"
  by (simp add: u32_be_def)

lemma length_u64_be [simp]: "length (u64_be w) = 8"
  by (simp add: u64_be_def)

lemma u32_be_inject [simp]: "u32_be a = u32_be b \<longleftrightarrow> a = b"
proof
  assume "u32_be a = u32_be b"
  then have "unat a mod 256 ^ 4 = unat b mod 256 ^ 4"
    unfolding u32_be_def by (metis be_value_be_bytes)
  then show "a = b"
    using unsigned_less [of a, where ?'a = nat] unsigned_less [of b, where ?'a = nat]
    by (simp add: word_unat_eq_iff)
qed simp

lemma u64_be_inject [simp]: "u64_be a = u64_be b \<longleftrightarrow> a = b"
proof
  assume "u64_be a = u64_be b"
  then have "unat a mod 256 ^ 8 = unat b mod 256 ^ 8"
    unfolding u64_be_def by (metis be_value_be_bytes)
  then show "a = b"
    using unsigned_less [of a, where ?'a = nat] unsigned_less [of b, where ?'a = nat]
    by (simp add: word_unat_eq_iff)
qed simp

text \<open>Fixed-width fields at the front of two equal byte strings are equal.\<close>

lemma u32_be_append_inject [simp]: "u32_be a @ xs = u32_be b @ ys \<longleftrightarrow> a = b \<and> xs = ys"
  by (simp add: append_eq_append_conv)

lemma u64_be_append_inject [simp]: "u64_be a @ xs = u64_be b @ ys \<longleftrightarrow> a = b \<and> xs = ys"
  by (simp add: append_eq_append_conv)

lemma concat_map_fixed_inject:
  assumes "inj f" and "\<And>x. length (f x) = n" and "0 < n"
  shows "concat (map f xs) = concat (map f ys) \<longleftrightarrow> xs = ys"
proof (induction xs arbitrary: ys)
  case Nil
  show ?case
    using assms(2,3) by (cases ys) (auto, metis length_greater_0_conv)
next
  case (Cons x xs)
  show ?case
  proof (cases ys)
    case Nil
    then show ?thesis using assms(2,3) by (auto, metis length_greater_0_conv)
  next
    case (Cons y ys')
    then show ?thesis
      using Cons.IH [of ys'] assms(1,2) by (auto simp: append_eq_append_conv dest: injD)
  qed
qed

section \<open>Maps as association lists\<close>

text \<open>
  The interface the components rely on: what a lookup returns after an insert, how the number of
  entries changes, and the invariant that every insert keeps. \<open>keys\<close> lists the keys in the
  iteration order of the map.
\<close>

locale finite_map =
  fixes empty :: "'m"
    and insert :: "'k \<Rightarrow> 'v \<Rightarrow> 'm \<Rightarrow> 'm"
    and lookup :: "'m \<Rightarrow> 'k \<Rightarrow> 'v option"
    and keys :: "'m \<Rightarrow> 'k list"
    and invar :: "'m \<Rightarrow> bool"
  assumes invar_empty: "invar empty"
    and invar_insert: "invar m \<Longrightarrow> invar (insert k v m)"
    and keys_empty: "keys empty = []"
    and distinct_keys: "invar m \<Longrightarrow> distinct (keys m)"
    and lookup_insert: "invar m \<Longrightarrow> lookup (insert k v m) = (lookup m)(k \<mapsto> v)"
    and keys_lookup: "invar m \<Longrightarrow> k \<in> set (keys m) \<longleftrightarrow> lookup m k \<noteq> None"
begin

lemma keys_insert: "invar m \<Longrightarrow> set (keys (insert k v m)) = Set.insert k (set (keys m))"
  by (auto simp: keys_lookup invar_insert lookup_insert split: if_splits)

lemma size_insert:
  assumes "invar m"
  shows "length (keys (insert k v m))
    = (if k \<in> set (keys m) then length (keys m) else Suc (length (keys m)))"
proof -
  have "length (keys (insert k v m)) = card (Set.insert k (set (keys m)))"
    using assms by (metis distinct_card distinct_keys invar_insert keys_insert)
  also have "\<dots> = (if k \<in> set (keys m) then length (keys m) else Suc (length (keys m)))"
    using assms by (simp add: card_insert_if distinct_card distinct_keys insert_absorb)
  finally show ?thesis .
qed

lemma keys_fold_insert:
  assumes "invar m"
  shows "set (keys (fold (\<lambda>(k, v). insert k v) kvs m)) = set (map fst kvs) \<union> set (keys m)"
  using assms
proof (induction kvs arbitrary: m)
  case Nil
  then show ?case by simp
next
  case (Cons kv kvs)
  then show ?case by (cases kv) (auto simp: keys_insert invar_insert)
qed

lemma size_determines_keys:
  assumes "invar m" and "set (keys m) \<subseteq> S" and "finite S" and "length (keys m) = card S"
  shows "set (keys m) = S"
  using assms by (metis card_subset_eq distinct_card distinct_keys)

end

text \<open>
  \<^verbatim>\<open>BTreeMap\<close>: the entries in strictly ascending key order, which is the order in which
  \<^verbatim>\<open>iter\<close>, \<^verbatim>\<open>keys\<close> and \<^verbatim>\<open>values\<close> visit them.
\<close>

fun bt_insert :: "'k::linorder \<Rightarrow> 'v \<Rightarrow> ('k \<times> 'v) list \<Rightarrow> ('k \<times> 'v) list" where
  "bt_insert k v [] = [(k, v)]"
| "bt_insert k v ((k', v') # m) =
     (if k < k' then (k, v) # (k', v') # m
      else if k = k' then (k, v) # m
      else (k', v') # bt_insert k v m)"

definition bt_sorted :: "('k::linorder \<times> 'v) list \<Rightarrow> bool" where
  "bt_sorted m \<longleftrightarrow> sorted_wrt (<) (map fst m)"

lemma bt_set_keys [simp]: "set (map fst (bt_insert k v m)) = insert k (set (map fst m))"
  by (induction k v m rule: bt_insert.induct) auto

lemma bt_lookup_insert: "map_of (bt_insert k v m) = (map_of m)(k \<mapsto> v)"
  by (induction k v m rule: bt_insert.induct) auto

lemma bt_sorted_insert [simp]: "bt_sorted m \<Longrightarrow> bt_sorted (bt_insert k v m)"
proof (induction k v m rule: bt_insert.induct)
  case (2 k v k' v' m)
  then show ?case
    using bt_set_keys [of k v m] unfolding bt_sorted_def by (auto simp del: bt_set_keys set_map)
qed (simp add: bt_sorted_def)

interpretation bt: finite_map "[]" bt_insert map_of "map fst" bt_sorted
proof unfold_locales
  fix m :: "('a \<times> 'b) list"
  show "bt_sorted m \<Longrightarrow> distinct (map fst m)"
    by (simp add: bt_sorted_def strict_sorted_iff)
qed (auto simp: bt_lookup_insert map_of_eq_None_iff bt_sorted_def [of "[]"])

text \<open>
  \<^verbatim>\<open>HashMap\<close>: the entries in some order. Rust leaves the iteration order open; the model
  keeps a replaced entry in its place and appends a new one. No property below depends on it
  except up to reordering.
\<close>

fun hm_insert :: "'k \<Rightarrow> 'v \<Rightarrow> ('k \<times> 'v) list \<Rightarrow> ('k \<times> 'v) list" where
  "hm_insert k v [] = [(k, v)]"
| "hm_insert k v ((k', v') # m) =
     (if k = k' then (k, v) # m else (k', v') # hm_insert k v m)"

definition hm_distinct :: "('k \<times> 'v) list \<Rightarrow> bool" where
  "hm_distinct m \<longleftrightarrow> distinct (map fst m)"

lemma hm_set_keys [simp]: "set (map fst (hm_insert k v m)) = insert k (set (map fst m))"
  by (induction k v m rule: hm_insert.induct) auto

lemma hm_lookup_insert: "map_of (hm_insert k v m) = (map_of m)(k \<mapsto> v)"
  by (induction k v m rule: hm_insert.induct) auto

lemma hm_distinct_insert [simp]: "hm_distinct m \<Longrightarrow> hm_distinct (hm_insert k v m)"
proof (induction k v m rule: hm_insert.induct)
  case (2 k v k' v' m)
  then show ?case
    using hm_set_keys [of k v m] unfolding hm_distinct_def by (auto simp del: hm_set_keys set_map)
qed (simp add: hm_distinct_def)

lemma hm_insert_fresh: "k \<notin> fst ` set m \<Longrightarrow> hm_insert k v m = m @ [(k, v)]"
  by (induction k v m rule: hm_insert.induct) auto

interpretation hm: finite_map "[]" hm_insert map_of "map fst" hm_distinct
proof unfold_locales
  fix m :: "('a \<times> 'b) list"
  show "hm_distinct m \<Longrightarrow> distinct (map fst m)"
    by (simp add: hm_distinct_def)
qed (auto simp: hm_lookup_insert map_of_eq_None_iff hm_distinct_def [of "[]"])

text \<open>The size of either map is the number of its keys.\<close>

lemma bt_size: "bt_sorted m \<Longrightarrow> length m = card (fst ` set m)"
  using distinct_card [OF bt.distinct_keys] by force

lemma hm_size: "hm_distinct m \<Longrightarrow> length m = card (fst ` set m)"
  using distinct_card [OF hm.distinct_keys] by force

lemma bt_fst_insert: "fst ` set (bt_insert k v m) = insert k (fst ` set m)"
  using bt_set_keys [of k v m] by simp

lemma hm_fst_insert: "fst ` set (hm_insert k v m) = insert k (fst ` set m)"
  using hm_set_keys [of k v m] by simp

end
