(* ===== verification/Http.thy ===== *)
theory Http
  imports Prelude
begin

text \<open>
  The HTTP layer of \<^verbatim>\<open>yarpc\<close> (\<^verbatim>\<open>yarpc/src/http\<close>, \<^verbatim>\<open>yarpc/src/read_ex.rs\<close>): methods,
  URL queries, reading and writing of requests and responses on a byte stream.

  A reader is a function from the bytes not yet consumed to its result and the bytes left. A Rust
  \<^verbatim>\<open>String\<close> is a \<open>string\<close> whose characters are the code points below 256: these are the only
  ones that \<^verbatim>\<open>read_string_until\<close> can produce, since it casts single bytes to \<^verbatim>\<open>char\<close>. Writing
  goes through \<open>as_bytes\<close>, the UTF-8 encoding, as \<^verbatim>\<open>String::as_bytes\<close> does.
\<close>

section \<open>Characters, bytes and numbers as text\<close>

datatype io_error = UnexpectedEof | InvalidData string

definition as_char :: "u8 \<Rightarrow> char" where
  "as_char b = char_of (unat b)"

definition char_bytes :: "char \<Rightarrow> bytes" where
  "char_bytes c = (let n = (of_char c :: nat) in
     if n < 128 then [of_nat n] else [of_nat (192 + n div 64), of_nat (128 + n mod 64)])"

definition as_bytes :: "string \<Rightarrow> bytes" where
  "as_bytes s = concat (map char_bytes s)"

definition is_ascii :: "string \<Rightarrow> bool" where
  "is_ascii s \<longleftrightarrow> (\<forall>c \<in> set s. (of_char c :: nat) < 128)"

text \<open>\<^verbatim>\<open>char::is_whitespace\<close> and \<^verbatim>\<open>char::to_lowercase\<close> on the code points below 256.\<close>

definition is_whitespace :: "char \<Rightarrow> bool" where
  "is_whitespace c = (let n = (of_char c :: nat) in
     9 \<le> n \<and> n \<le> 13 \<or> n = 32 \<or> n = 133 \<or> n = 160)"

definition lower_char :: "char \<Rightarrow> char" where
  "lower_char c = (let n = (of_char c :: nat) in
     if 65 \<le> n \<and> n \<le> 90 \<or> 192 \<le> n \<and> n \<le> 222 \<and> n \<noteq> 215 then char_of (n + 32) else c)"

definition to_lowercase :: "string \<Rightarrow> string" where
  "to_lowercase s = map lower_char s"

definition trim :: "string \<Rightarrow> string" where
  "trim s = rev (dropWhile is_whitespace (rev (dropWhile is_whitespace s)))"

text \<open>\<^verbatim>\<open>str::split\<close> and \<^verbatim>\<open>str::split_once\<close> with a character, \<^verbatim>\<open>join\<close> with a character.\<close>

fun split_char :: "char \<Rightarrow> string \<Rightarrow> string list" where
  "split_char d [] = [[]]"
| "split_char d (c # s) =
     (if c = d then [] # split_char d s
      else (case split_char d s of [] \<Rightarrow> [[c]] | w # ws \<Rightarrow> (c # w) # ws))"

fun split_once :: "char \<Rightarrow> string \<Rightarrow> (string \<times> string) option" where
  "split_once d [] = None"
| "split_once d (c # s) =
     (if c = d then Some ([], s)
      else map_option (\<lambda>(a, b). (c # a, b)) (split_once d s))"

fun join_char :: "char \<Rightarrow> string list \<Rightarrow> string" where
  "join_char d [] = []"
| "join_char d [w] = w"
| "join_char d (w # ws) = w @ d # join_char d ws"

text \<open>\<^verbatim>\<open>to_string\<close> and \<^verbatim>\<open>parse\<close> of an unsigned integer below \<open>bound\<close>.\<close>

definition digit_char :: "nat \<Rightarrow> char" where
  "digit_char d = char_of (48 + d)"

fun show_nat :: "nat \<Rightarrow> string" where
  "show_nat n = (if n < 10 then [digit_char n] else show_nat (n div 10) @ [digit_char (n mod 10)])"

declare show_nat.simps [simp del]

definition digit_val :: "char \<Rightarrow> nat option" where
  "digit_val c = (let n = (of_char c :: nat) in if 48 \<le> n \<and> n \<le> 57 then Some (n - 48) else None)"

fun parse_digits :: "nat \<Rightarrow> string \<Rightarrow> nat option" where
  "parse_digits acc [] = Some acc"
| "parse_digits acc (c # s) =
     (case digit_val c of None \<Rightarrow> None | Some d \<Rightarrow> parse_digits (10 * acc + d) s)"

definition parse_uint :: "nat \<Rightarrow> string \<Rightarrow> nat option" where
  "parse_uint bound s =
     (let ds = (case s of c # r \<Rightarrow> if c = CHR ''+'' then r else s | [] \<Rightarrow> []) in
      if ds = [] then None
      else (case parse_digits 0 ds of None \<Rightarrow> None
            | Some n \<Rightarrow> if n < bound then Some n else None))"

section \<open>Methods and URL queries\<close>

datatype Method = GET | POST

fun method_to_str :: "Method \<Rightarrow> string" where
  "method_to_str GET = ''GET''"
| "method_to_str POST = ''POST''"

definition method_from_str :: "string \<Rightarrow> (io_error, Method) outcome" where
  "method_from_str s =
     (if s = ''GET'' then Ok GET
      else if s = ''POST'' then Ok POST
      else Err (InvalidData ''unknown HTTP method''))"

type_synonym string_map = "(string \<times> string) list"

definition url_query :: "string \<Rightarrow> string_map" where
  "url_query url =
     (case split_once CHR ''?'' url of
        Some (l, right) \<Rightarrow>
          if right \<noteq> [] then
            fold (\<lambda>(k, v). hm_insert k v)
              (map (\<lambda>v. case split_once CHR ''='' v of Some kv \<Rightarrow> kv | None \<Rightarrow> (v, []))
                (split_char CHR ''&'' right)) []
          else []
      | None \<Rightarrow> [])"

section \<open>Reading from a byte stream\<close>

definition usize_bound :: nat where
  "usize_bound = 2 ^ 64"

definition isize_bound :: nat where
  "isize_bound = 2 ^ 63"

fun read_byte :: "bytes \<Rightarrow> (io_error, u8 \<times> bytes) outcome" where
  "read_byte [] = Err UnexpectedEof"
| "read_byte (b # bs) = Ok (b, bs)"

fun read_string_until :: "char \<Rightarrow> bytes \<Rightarrow> (io_error, string \<times> bytes) outcome" where
  "read_string_until d [] = Err UnexpectedEof"
| "read_string_until d (b # bs) =
     (let c = as_char b in
      if c = d then Ok ([], bs)
      else obind (read_string_until d bs) (\<lambda>(s, rest). Ok (c # s, rest)))"

text \<open>\<^verbatim>\<open>vec![0; len]\<close> panics with a capacity overflow when \<^verbatim>\<open>len\<close> exceeds \<^verbatim>\<open>isize::MAX\<close>.\<close>

definition read_exact_vec :: "nat \<Rightarrow> bytes \<Rightarrow> (io_error, bytes \<times> bytes) outcome" where
  "read_exact_vec len bs =
     (if isize_bound \<le> len then Panic
      else if len \<le> length bs then Ok (take len bs, drop len bs)
      else Err UnexpectedEof)"

definition read_line :: "bytes \<Rightarrow> (io_error, string \<times> bytes) outcome" where
  "read_line bs =
     obind (read_string_until (CHR 0x0D) bs) (\<lambda>(result, bs1).
     obind (read_byte bs1) (\<lambda>(b, bs2).
       if b \<noteq> 10 then Err (InvalidData ''invalid HTTP line'') else Ok (result, bs2)))"

lemma read_string_until_shorter:
  "read_string_until d bs = Ok (s, rest) \<Longrightarrow> length rest < length bs"
  by (induction d bs arbitrary: s rest rule: read_string_until.induct)
    (auto simp: Let_def obind_Ok_iff split: if_splits, fastforce)

lemma read_line_shorter:
  assumes "read_line bs = Ok (s, rest)"
  shows "length rest < length bs"
proof -
  from assms obtain bs1 b where l1: "read_string_until (CHR 0x0D) bs = Ok (s, bs1)"
    and l2: "read_byte bs1 = Ok (b, rest)"
    unfolding read_line_def by (auto simp: obind_Ok_iff split: if_splits)
  from l2 have "length rest < length bs1"
    by (cases bs1) auto
  with read_string_until_shorter [OF l1] show ?thesis by simp
qed

section \<open>Messages\<close>

definition CONTENT_LENGTH :: string where
  "CONTENT_LENGTH = ''content-length''"

definition PROTOCOL :: string where
  "PROTOCOL = ''HTTP/1.1''"

text \<open>The header loop of \<^verbatim>\<open>Message::read\<close>: lines until an empty one; a repeated header replaces the
  earlier one, and the length of the content is taken out of the header map.\<close>

function read_headers ::
  "nat \<Rightarrow> string_map \<Rightarrow> bytes \<Rightarrow> (io_error, nat \<times> string_map \<times> bytes) outcome" where
  "read_headers content_length headers bs =
     (case read_line bs of
        Err e \<Rightarrow> Err e
      | Panic \<Rightarrow> Panic
      | Ok (line, rest) \<Rightarrow>
          if line = [] then Ok (content_length, headers, rest)
          else (case split_once CHR '':'' line of
              None \<Rightarrow> Err (InvalidData ''option'')
            | Some (n, v) \<Rightarrow>
                let name = to_lowercase n; value = trim v in
                if name = CONTENT_LENGTH then
                  (case parse_uint usize_bound value of
                     None \<Rightarrow> Err (InvalidData ''invalid digit found in string'')
                   | Some len \<Rightarrow> read_headers len headers rest)
                else read_headers content_length (hm_insert name value headers) rest))"
  by pat_completeness auto
termination
  by (relation "measure (\<lambda>(n, h, bs). length bs)") (auto dest: read_line_shorter)

declare read_headers.simps [simp del]

definition read_message ::
  "bytes \<Rightarrow> (io_error, string list \<times> string_map \<times> bytes \<times> bytes) outcome" where
  "read_message bs =
     obind (read_line bs) (\<lambda>(line, bs1).
     obind (read_headers 0 [] bs1) (\<lambda>(content_length, headers, bs2).
     obind (read_exact_vec content_length bs2) (\<lambda>(content, bs3).
       Ok (split_char CHR '' '' line, headers, content, bs3))))"

definition EOL :: bytes where
  "EOL = [13, 10]"

definition write_header :: "string \<Rightarrow> string \<Rightarrow> bytes" where
  "write_header k v = as_bytes k @ as_bytes '':'' @ as_bytes v @ EOL"

definition write_message :: "string list \<Rightarrow> string_map \<Rightarrow> bytes \<Rightarrow> bytes" where
  "write_message first_line headers content =
     as_bytes (join_char CHR '' '' first_line) @ EOL @
     concat (map (\<lambda>(k, v). write_header k v) headers) @
     (if 0 < length content then write_header CONTENT_LENGTH (show_nat (length content)) else []) @
     EOL @ content"

section \<open>Requests and responses\<close>

record Request =
  rq_method :: Method
  rq_url :: string
  rq_protocol :: string
  rq_headers :: string_map
  rq_content :: bytes

definition Request_new :: "Method \<Rightarrow> string \<Rightarrow> string_map \<Rightarrow> bytes \<Rightarrow> Request" where
  "Request_new method url headers content =
     \<lparr>rq_method = method, rq_url = url, rq_protocol = PROTOCOL,
      rq_headers = headers, rq_content = content\<rparr>"

definition next_word :: "string list \<Rightarrow> (io_error, string \<times> string list) outcome" where
  "next_word i = (case i of [] \<Rightarrow> Err (InvalidData ''option'') | w # ws \<Rightarrow> Ok (w, ws))"

definition Request_parse ::
  "string list \<Rightarrow> string_map \<Rightarrow> bytes \<Rightarrow> (io_error, Request) outcome" where
  "Request_parse first_line headers content =
     obind (next_word first_line) (\<lambda>(m, i1).
     obind (method_from_str m) (\<lambda>method.
     obind (next_word i1) (\<lambda>(url, i2).
     obind (next_word i2) (\<lambda>(protocol, i3).
       Ok \<lparr>rq_method = method, rq_url = url, rq_protocol = protocol,
           rq_headers = headers, rq_content = content\<rparr>))))"

definition Request_first_line :: "Request \<Rightarrow> string list" where
  "Request_first_line r = [method_to_str (rq_method r), rq_url r, rq_protocol r]"

definition Request_read :: "bytes \<Rightarrow> (io_error, Request \<times> bytes) outcome" where
  "Request_read bs =
     obind (read_message bs) (\<lambda>(first_line, headers, content, rest).
     obind (Request_parse first_line headers content) (\<lambda>r. Ok (r, rest)))"

definition Request_write :: "Request \<Rightarrow> bytes" where
  "Request_write r = write_message (Request_first_line r) (rq_headers r) (rq_content r)"

record Response =
  rs_protocol :: string
  rs_code :: u16
  rs_phrase :: string
  rs_headers :: string_map
  rs_content :: bytes

definition Response_new :: "u16 \<Rightarrow> string \<Rightarrow> string_map \<Rightarrow> bytes \<Rightarrow> Response" where
  "Response_new code phrase headers content =
     \<lparr>rs_protocol = PROTOCOL, rs_code = code, rs_phrase = phrase,
      rs_headers = headers, rs_content = content\<rparr>"

definition Response_parse ::
  "string list \<Rightarrow> string_map \<Rightarrow> bytes \<Rightarrow> (io_error, Response) outcome" where
  "Response_parse first_line headers content =
     obind (next_word first_line) (\<lambda>(protocol, i1).
     obind (next_word i1) (\<lambda>(c, i2).
     obind (ok_or (InvalidData ''invalid digit found in string'') (parse_uint (2 ^ 16) c)) (\<lambda>code.
       Ok \<lparr>rs_protocol = protocol, rs_code = of_nat code,
           rs_phrase = (case i2 of [] \<Rightarrow> [] | w # ws \<Rightarrow> w),
           rs_headers = headers, rs_content = content\<rparr>)))"

definition Response_first_line :: "Response \<Rightarrow> string list" where
  "Response_first_line r = [rs_protocol r, show_nat (unat (rs_code r)), rs_phrase r]"

definition Response_read :: "bytes \<Rightarrow> (io_error, Response \<times> bytes) outcome" where
  "Response_read bs =
     obind (read_message bs) (\<lambda>(first_line, headers, content, rest).
     obind (Response_parse first_line headers content) (\<lambda>r. Ok (r, rest)))"

definition Response_write :: "Response \<Rightarrow> bytes" where
  "Response_write r = write_message (Response_first_line r) (rs_headers r) (rs_content r)"

section \<open>What reads back what\<close>

text \<open>The texts that survive a round trip: ASCII, without the delimiter that ends them.\<close>

definition wf_word :: "string \<Rightarrow> bool" where
  "wf_word w \<longleftrightarrow> is_ascii w \<and> CHR '' '' \<notin> set w \<and> CHR 0x0D \<notin> set w"

definition wf_header :: "string \<times> string \<Rightarrow> bool" where
  "wf_header h \<longleftrightarrow>
     is_ascii (fst h) \<and> is_ascii (snd h) \<and>
     CHR '':'' \<notin> set (fst h) \<and> CHR 0x0D \<notin> set (fst h) \<and> CHR 0x0D \<notin> set (snd h) \<and>
     to_lowercase (fst h) = fst h \<and> trim (snd h) = snd h \<and> fst h \<noteq> CONTENT_LENGTH"

definition wf_headers :: "string_map \<Rightarrow> bool" where
  "wf_headers hs \<longleftrightarrow> list_all wf_header hs \<and> distinct (map fst hs)"

definition wf_Request :: "Request \<Rightarrow> bool" where
  "wf_Request r \<longleftrightarrow> wf_word (rq_url r) \<and> wf_word (rq_protocol r) \<and>
     wf_headers (rq_headers r) \<and> length (rq_content r) < isize_bound"

definition wf_Response :: "Response \<Rightarrow> bool" where
  "wf_Response r \<longleftrightarrow> wf_word (rs_protocol r) \<and> wf_word (rs_phrase r) \<and>
     wf_headers (rs_headers r) \<and> length (rs_content r) < isize_bound"

lemma of_char_less_256 [simp]: "(of_char c :: nat) < 256"
  by (metis char_of_eq_iff nat_of_char_less_256 of_char_of)

lemma as_char_of_char [simp]: "as_char (of_nat (of_char c)) = c"
  by (simp add: as_char_def unat_of_nat take_bit_eq_mod)

lemma as_bytes_Nil [simp]: "as_bytes [] = []"
  by (simp add: as_bytes_def)

lemma as_bytes_append [simp]: "as_bytes (s @ t) = as_bytes s @ as_bytes t"
  by (simp add: as_bytes_def)

lemma as_bytes_Cons_ascii:
  "(of_char c :: nat) < 128 \<Longrightarrow> as_bytes (c # s) = of_nat (of_char c) # as_bytes s"
  by (simp add: as_bytes_def char_bytes_def Let_def)

lemma is_ascii_simps [simp]:
  "is_ascii []"
  "is_ascii (c # s) \<longleftrightarrow> (of_char c :: nat) < 128 \<and> is_ascii s"
  "is_ascii (s @ t) \<longleftrightarrow> is_ascii s \<and> is_ascii t"
  by (auto simp: is_ascii_def)

lemma read_string_until_as_bytes:
  assumes "is_ascii s" and "d \<notin> set s" and "as_char b = d"
  shows "read_string_until d (as_bytes s @ b # rest) = Ok (s, rest)"
  using assms by (induction s) (auto simp: as_bytes_Cons_ascii)

lemma read_line_as_bytes:
  assumes "is_ascii s" and "CHR 0x0D \<notin> set s"
  shows "read_line (as_bytes s @ EOL @ rest) = Ok (s, rest)"
proof -
  have "as_char 13 = CHR 0x0D"
    by (simp add: as_char_def char_of_def bit_simps)
  then have "read_string_until (CHR 0x0D) (as_bytes s @ 13 # 10 # rest) = Ok (s, 10 # rest)"
    using assms by (intro read_string_until_as_bytes)
  then show ?thesis
    by (simp add: read_line_def EOL_def)
qed

lemma split_char_fresh: "d \<notin> set w \<Longrightarrow> split_char d w = [w]"
  by (induction w) auto

lemma split_char_append: "d \<notin> set w \<Longrightarrow> split_char d (w @ d # s) = w # split_char d s"
  by (induction w) auto

lemma split_char_join:
  "ws \<noteq> [] \<Longrightarrow> \<forall>w \<in> set ws. d \<notin> set w \<Longrightarrow> split_char d (join_char d ws) = ws"
  by (induction d ws rule: join_char.induct) (auto simp: split_char_fresh split_char_append)

lemma split_once_append: "d \<notin> set a \<Longrightarrow> split_once d (a @ d # b) = Some (a, b)"
  by (induction a) auto

lemma split_once_fresh: "d \<notin> set a \<Longrightarrow> split_once d a = None"
  by (induction a) auto

lemma digit_val_digit_char [simp]: "d < 10 \<Longrightarrow> digit_val (digit_char d) = Some d"
  by (simp add: digit_val_def digit_char_def Let_def)

lemma parse_digits_append:
  "parse_digits acc (s @ t) = (case parse_digits acc s of None \<Rightarrow> None | Some n \<Rightarrow> parse_digits n t)"
  by (induction acc s rule: parse_digits.induct) (auto split: option.splits)

lemma parse_digits_show_nat: "parse_digits 0 (show_nat n) = Some n"
proof (induction n rule: show_nat.induct)
  case (1 n)
  then show ?case
    by (subst show_nat.simps) (auto simp: parse_digits_append)
qed

text \<open>The characters of a decimal number are the ten digits.\<close>

lemma set_show_nat: "set (show_nat n) \<subseteq> digit_char ` {..<10}"
proof (induction n rule: show_nat.induct)
  case (1 n)
  then show ?case by (subst show_nat.simps) auto
qed

lemma show_nat_not_Nil [simp]: "show_nat n \<noteq> []"
  by (subst show_nat.simps) simp

lemma of_char_digit_char [simp]: "d < 10 \<Longrightarrow> (of_char (digit_char d) :: nat) = 48 + d"
  by (simp add: digit_char_def)

lemma show_nat_chars:
  assumes "c \<in> set (show_nat n)"
  shows "48 \<le> (of_char c :: nat) \<and> (of_char c :: nat) \<le> 57"
  using assms set_show_nat [of n] by auto

lemma parse_uint_show_nat:
  assumes "n < bound"
  shows "parse_uint bound (show_nat n) = Some n"
proof -
  obtain c s where cs: "show_nat n = c # s"
    by (cases "show_nat n") auto
  then have "c \<noteq> CHR ''+''"
    using show_nat_chars [of c n] by auto
  with cs show ?thesis
    using assms parse_digits_show_nat [of n] by (simp add: parse_uint_def Let_def)
qed

lemma is_ascii_show_nat [simp]: "is_ascii (show_nat n)"
  using show_nat_chars [of _ n] by (force simp: is_ascii_def)

lemma show_nat_no_char: "(of_char c :: nat) < 48 \<or> 57 < (of_char c :: nat) \<Longrightarrow> c \<notin> set (show_nat n)"
  using show_nat_chars [of c n] by auto

lemma trim_show_nat [simp]: "trim (show_nat n) = show_nat n"
proof -
  have nws: "\<not> is_whitespace c" if "c \<in> set (show_nat n)" for c
    using show_nat_chars [OF that] by (auto simp: is_whitespace_def Let_def)
  then have "dropWhile is_whitespace (show_nat n) = show_nat n"
    by (cases "show_nat n") auto
  moreover have "dropWhile is_whitespace (rev (show_nat n)) = rev (show_nat n)"
    using nws by (simp add: dropWhile_eq_self_iff last_in_set hd_rev)
  ultimately show ?thesis by (simp add: trim_def)
qed

section \<open>Round trips\<close>

lemma read_headers_Nil: "read_headers n acc (EOL @ rest) = Ok (n, acc, rest)"
  using read_line_as_bytes [of "[]" rest] by (subst read_headers.simps) simp

lemma read_line_header:
  assumes "is_ascii k" "is_ascii v" "CHR 0x0D \<notin> set k" "CHR 0x0D \<notin> set v"
  shows "read_line (write_header k v @ rest) = Ok (k @ CHR '':'' # v, rest)"
proof -
  have "read_line (as_bytes (k @ CHR '':'' # v) @ EOL @ rest) = Ok (k @ CHR '':'' # v, rest)"
    using assms by (intro read_line_as_bytes) auto
  moreover have "as_bytes (k @ CHR '':'' # v) = as_bytes k @ as_bytes '':'' @ as_bytes v"
    by (simp add: as_bytes_def)
  ultimately show ?thesis
    by (simp add: write_header_def)
qed

lemma read_headers_Cons:
  assumes "wf_header h"
  shows "read_headers n acc (write_header (fst h) (snd h) @ rest)
    = read_headers n (hm_insert (fst h) (snd h) acc) rest"
  using assms unfolding wf_header_def
  by (subst read_headers.simps) (cases h, simp add: read_line_header split_once_append Let_def)

lemma read_headers_write:
  assumes "list_all wf_header hs"
  shows "read_headers n acc (concat (map (\<lambda>(k, v). write_header k v) hs) @ rest)
    = read_headers n (fold (\<lambda>(k, v). hm_insert k v) hs acc) rest"
  using assms
proof (induction hs arbitrary: acc)
  case Nil
  then show ?case by simp
next
  case (Cons h hs)
  then show ?case
    using read_headers_Cons [of h n acc] by (simp add: case_prod_beta)
qed

lemma fold_hm_insert_distinct:
  assumes "distinct (map fst (acc @ hs))"
  shows "fold (\<lambda>(k, v). hm_insert k v) hs acc = acc @ hs"
  using assms
proof (induction hs arbitrary: acc)
  case Nil
  then show ?case by simp
next
  case (Cons h hs)
  then have "hm_insert (fst h) (snd h) acc = acc @ [h]"
    by (subst hm_insert_fresh) auto
  with Cons show ?case by (simp add: case_prod_beta)
qed

lemma read_headers_content_length:
  assumes "len < usize_bound"
  shows "read_headers n acc (write_header CONTENT_LENGTH (show_nat len) @ rest)
    = read_headers len acc rest"
proof -
  have "read_line (write_header CONTENT_LENGTH (show_nat len) @ rest)
      = Ok (CONTENT_LENGTH @ CHR '':'' # show_nat len, rest)"
    by (rule read_line_header) (auto simp: CONTENT_LENGTH_def show_nat_no_char)
  moreover have "split_once CHR '':'' (CONTENT_LENGTH @ CHR '':'' # show_nat len)
      = Some (CONTENT_LENGTH, show_nat len)"
    by (rule split_once_append) (simp add: CONTENT_LENGTH_def)
  moreover have "to_lowercase CONTENT_LENGTH = CONTENT_LENGTH"
    by (simp add: CONTENT_LENGTH_def to_lowercase_def lower_char_def)
  ultimately show ?thesis
    using assms by (subst read_headers.simps) (simp add: parse_uint_show_nat Let_def)
qed

lemma read_exact_vec_append:
  "length content < isize_bound \<Longrightarrow>
     read_exact_vec (length content) (content @ rest) = Ok (content, rest)"
  by (simp add: read_exact_vec_def)

text \<open>The generic round trip of \<^verbatim>\<open>Message::write\<close> and \<^verbatim>\<open>Message::read\<close>, shared by both kinds of
  message: the first line splits into its words, the headers and the content come back, and what
  follows the message in the stream is left alone.\<close>

lemma read_message_write:
  assumes words: "first_line \<noteq> []" "\<forall>w \<in> set first_line. wf_word w"
    and hs: "wf_headers hs" and len: "length content < isize_bound"
  shows "read_message (write_message first_line hs content @ rest)
    = Ok (first_line, hs, content, rest)"
proof -
  let ?line = "join_char CHR '' '' first_line"
  let ?tail = "EOL @ content @ rest"
  have line: "is_ascii ?line \<and> CHR 0x0D \<notin> set ?line"
    using words(2) by (induction "CHR '' ''" first_line rule: join_char.induct)
      (auto simp: wf_word_def)
  have split: "split_char CHR '' '' ?line = first_line"
    using words by (intro split_char_join) (auto simp: wf_word_def)
  have hdrs: "read_headers 0 [] (concat (map (\<lambda>(k, v). write_header k v) hs) @ t)
      = read_headers 0 hs t" for t
    using hs read_headers_write [of hs 0 "[]" t] fold_hm_insert_distinct [of "[]" hs]
    by (simp add: wf_headers_def)
  have "read_headers 0 hs
      ((if 0 < length content then write_header CONTENT_LENGTH (show_nat (length content)) else [])
        @ ?tail) = Ok (length content, hs, content @ rest)"
    using len read_headers_Nil
    by (auto simp: read_headers_content_length usize_bound_def isize_bound_def)
  with hdrs line split len show ?thesis
    by (simp add: read_message_def write_message_def read_line_as_bytes read_exact_vec_append)
qed

lemma method_from_to_str [simp]: "method_from_str (method_to_str m) = Ok m"
  by (cases m) (auto simp: method_from_str_def)

lemma wf_word_method [simp]: "wf_word (method_to_str m)"
  by (cases m) (auto simp: wf_word_def)

lemma wf_word_show_nat [simp]: "wf_word (show_nat n)"
  by (auto simp: wf_word_def show_nat_no_char)

lemma Request_read_write:
  assumes "wf_Request r"
  shows "Request_read (Request_write r @ rest) = Ok (r, rest)"
  using assms read_message_write [of "Request_first_line r" "rq_headers r" "rq_content r" rest]
  by (auto simp: Request_read_def Request_write_def Request_first_line_def Request_parse_def
      next_word_def wf_Request_def)

lemma Response_read_write:
  assumes "wf_Response r"
  shows "Response_read (Response_write r @ rest) = Ok (r, rest)"
proof -
  have "unat (rs_code r) < 2 ^ 16"
    using unsigned_less [of "rs_code r", where ?'a = nat] by simp
  with assms read_message_write [of "Response_first_line r" "rs_headers r" "rs_content r" rest]
  show ?thesis
    by (auto simp: Response_read_def Response_write_def Response_first_line_def Response_parse_def
        next_word_def wf_Response_def parse_uint_show_nat)
qed

lemmas wf_simps = wf_Request_def wf_Response_def wf_word_def wf_headers_def wf_header_def
  to_lowercase_def lower_char_def trim_def is_whitespace_def CONTENT_LENGTH_def isize_bound_def

text \<open>
  C32. Round trip of HTTP requests. Reading back what \<^verbatim>\<open>Request::write\<close> put on the stream returns
  the request itself and consumes exactly its bytes: method, URL, protocol, every header and the
  content are recovered, whatever bytes the content holds and whatever follows on the stream. The
  request's texts must be ones the format can carry: ASCII, a URL and a protocol without spaces,
  distinct lower-case header names without a colon, trimmed header values.
\<close>

theorem Request_roundtrip:
  assumes "wf_Request r"
  shows "Request_read (Request_write r @ rest) = Ok (r, rest)"
  using assms by (rule Request_read_write)

theorem Request_roundtrip_witness:
  "Request_read (Request_write
      (Request_new POST ''/'' [(''hello'', ''someThing'')] [72, 105, 255]) @ [1, 2])
    = Ok (Request_new POST ''/'' [(''hello'', ''someThing'')] [72, 105, 255], [1, 2])"
  by (rule Request_roundtrip) (simp add: wf_simps Request_new_def PROTOCOL_def)

text \<open>
  Round trip of HTTP responses: the same for \<^verbatim>\<open>Response::write\<close> and \<^verbatim>\<open>Response::read\<close>; the status
  code comes back at its 16-bit width, for a phrase that is a single word.
\<close>

theorem Response_roundtrip:
  assumes "wf_Response r"
  shows "Response_read (Response_write r @ rest) = Ok (r, rest)"
  using assms by (rule Response_read_write)

theorem Response_roundtrip_witness:
  "Response_read (Response_write (Response_new 200 ''OK'' [] [0, 13, 10]) @ [7])
    = Ok (Response_new 200 ''OK'' [] [0, 13, 10], [7])"
  by (rule Response_roundtrip) (simp add: wf_simps Response_new_def PROTOCOL_def)

end
