(* ===== verification/FrostConfig.thy ===== *)
theory FrostConfig
  imports Http
begin

text \<open>
  The configuration of signers and coordinator (\<^verbatim>\<open>frost-signer/src/config.rs\<close>): the raw TOML
  structure, the tables of public keys and key ids built from it, and the checked configuration.
  Parsing a public key and a private key is done by the \<^verbatim>\<open>p256k1\<close> crate; the two parsers are
  arguments. Types \<open>'pk\<close> and \<open>'sc\<close> are its public keys and scalars.
\<close>

datatype config_error =
    IO string
  | Toml string
  | InvalidPublicKey
  | InvalidPrivateKey
  | InvalidKeyID

record RawSigners =
  rsg_public_key :: string
  rsg_key_ids :: "u32 list"

record RawConfig =
  rc_http_relay_url :: string
  rc_keys_threshold :: u32
  rc_network_private_key :: string
  rc_signers :: "RawSigners list"
  rc_coordinator_public_key :: string

type_synonym SignerKeyIds = "(u32 \<times> u32 list) list"

record 'pk PublicKeys =
  signers :: "(u32 \<times> 'pk) list"
  key_ids :: "(u32 \<times> 'pk) list"

definition PublicKeys_default :: "'pk PublicKeys" where
  "PublicKeys_default = \<lparr>signers = [], key_ids = []\<rparr>"

record ('pk, 'sc) Config =
  http_relay_url :: string
  keys_threshold :: u32
  network_private_key :: 'sc
  public_keys :: "'pk PublicKeys"
  signer_key_ids :: SignerKeyIds
  coordinator_public_key :: 'pk
  total_signers :: u32
  total_keys :: u32

text \<open>The parsers of the \<^verbatim>\<open>p256k1\<close> crate: \<open>None\<close> where they return an error.\<close>

record ('pk, 'sc) key_parsers =
  parse_pk :: "string \<Rightarrow> 'pk option"
  parse_sk :: "string \<Rightarrow> 'sc option"

definition parse_public_key ::
  "('pk, 'sc) key_parsers \<Rightarrow> string \<Rightarrow> (config_error, 'pk) outcome" where
  "parse_public_key kp s = ok_or InvalidPublicKey (parse_pk kp s)"

section \<open>The tables of keys\<close>

text \<open>\<^verbatim>\<open>usize\<close> to \<^verbatim>\<open>u32\<close>: \<^verbatim>\<open>try_from(..).unwrap()\<close> panics when the value does not fit.\<close>

definition u32_try_from :: "nat \<Rightarrow> (config_error, u32) outcome" where
  "u32_try_from n = (if n < 2 ^ 32 then Ok (of_nat n) else Panic)"

text \<open>The inner loop of \<^verbatim>\<open>RawConfig::public_keys\<close>: a key id of 0 is refused.\<close>

fun add_key_ids ::
  "'pk \<Rightarrow> u32 list \<Rightarrow> 'pk PublicKeys \<Rightarrow> (config_error, 'pk PublicKeys) outcome" where
  "add_key_ids pk [] keys = Ok keys"
| "add_key_ids pk (k # ks) keys =
     (if k = 0 then Err InvalidKeyID
      else add_key_ids pk ks (keys\<lparr>key_ids := hm_insert k pk (key_ids keys)\<rparr>))"

text \<open>The outer loop, at index \<open>i\<close> of the signers.\<close>

fun add_signers ::
  "('pk, 'sc) key_parsers \<Rightarrow> nat \<Rightarrow> RawSigners list \<Rightarrow> 'pk PublicKeys
    \<Rightarrow> (config_error, 'pk PublicKeys) outcome" where
  "add_signers kp i [] keys = Ok keys"
| "add_signers kp i (s # ss) keys =
     obind (parse_public_key kp (rsg_public_key s)) (\<lambda>signer_public_key.
     obind (add_key_ids signer_public_key (rsg_key_ids s) keys) (\<lambda>keys1.
     obind (u32_try_from i) (\<lambda>iw.
       add_signers kp (Suc i) ss
         (keys1\<lparr>signers := hm_insert (iw + 1) signer_public_key (signers keys1)\<rparr>))))"

definition RawConfig_public_keys ::
  "('pk, 'sc) key_parsers \<Rightarrow> RawConfig \<Rightarrow> (config_error, 'pk PublicKeys) outcome" where
  "RawConfig_public_keys kp c = add_signers kp 0 (rc_signers c) PublicKeys_default"

fun add_signer_key_ids ::
  "nat \<Rightarrow> RawSigners list \<Rightarrow> SignerKeyIds \<Rightarrow> (config_error, SignerKeyIds) outcome" where
  "add_signer_key_ids i [] m = Ok m"
| "add_signer_key_ids i (s # ss) m =
     obind (u32_try_from (i + 1)) (\<lambda>iw. add_signer_key_ids (Suc i) ss (hm_insert iw (rsg_key_ids s) m))"

definition RawConfig_signer_key_ids :: "RawConfig \<Rightarrow> (config_error, SignerKeyIds) outcome" where
  "RawConfig_signer_key_ids c = add_signer_key_ids 0 (rc_signers c) []"

definition RawConfig_coordinator_public_key ::
  "('pk, 'sc) key_parsers \<Rightarrow> RawConfig \<Rightarrow> (config_error, 'pk) outcome" where
  "RawConfig_coordinator_public_key kp c = parse_public_key kp (rc_coordinator_public_key c)"

definition RawConfig_network_private_key ::
  "('pk, 'sc) key_parsers \<Rightarrow> RawConfig \<Rightarrow> (config_error, 'sc) outcome" where
  "RawConfig_network_private_key kp c = ok_or InvalidPrivateKey (parse_sk kp (rc_network_private_key c))"

section \<open>The checked configuration\<close>

definition Config_new ::
  "u32 \<Rightarrow> 'pk \<Rightarrow> 'pk PublicKeys \<Rightarrow> SignerKeyIds \<Rightarrow> 'sc \<Rightarrow> string
    \<Rightarrow> (config_error, ('pk, 'sc) Config) outcome" where
  "Config_new threshold coordinator_pk pks skids private_key url =
     obind (u32_try_from (length (signers pks))) (\<lambda>ts.
     obind (u32_try_from (length (key_ids pks))) (\<lambda>tk.
       Ok \<lparr>http_relay_url = url, keys_threshold = threshold, network_private_key = private_key,
           public_keys = pks, signer_key_ids = skids, coordinator_public_key = coordinator_pk,
           total_signers = ts, total_keys = tk\<rparr>))"

definition Config_try_from ::
  "('pk, 'sc) key_parsers \<Rightarrow> RawConfig \<Rightarrow> (config_error, ('pk, 'sc) Config) outcome" where
  "Config_try_from kp raw =
     obind (RawConfig_coordinator_public_key kp raw) (\<lambda>cpk.
     obind (RawConfig_public_keys kp raw) (\<lambda>pks.
     obind (RawConfig_signer_key_ids raw) (\<lambda>skids.
     obind (RawConfig_network_private_key kp raw) (\<lambda>sk.
       Config_new (rc_keys_threshold raw) cpk pks skids sk (rc_http_relay_url raw)))))"

text \<open>\<^verbatim>\<open>Config::from_path\<close>: the file's content and the TOML parser come from outside.\<close>

definition Config_from_path ::
  "('pk, 'sc) key_parsers \<Rightarrow> (string \<Rightarrow> string option) \<Rightarrow> (string \<Rightarrow> RawConfig option) \<Rightarrow> string
    \<Rightarrow> (config_error, ('pk, 'sc) Config) outcome" where
  "Config_from_path kp read_to_string toml_from_str path =
     obind (ok_or (IO path) (read_to_string path)) (\<lambda>content.
     obind (ok_or (Toml content) (toml_from_str content)) (\<lambda>raw. Config_try_from kp raw))"

section \<open>What a successful load guarantees\<close>

lemma add_key_ids_Ok_iff:
  "add_key_ids pk ks keys = Ok keys' \<longleftrightarrow>
     0 \<notin> set ks \<and> keys' = keys\<lparr>key_ids := fold (\<lambda>k. hm_insert k pk) ks (key_ids keys)\<rparr>"
  by (induction pk ks keys rule: add_key_ids.induct) auto

lemma fold_hm_insert_const:
  assumes "hm_distinct m"
  shows "hm_distinct (fold (\<lambda>k. hm_insert k v) ks m)
    \<and> set (map fst (fold (\<lambda>k. hm_insert k v) ks m)) = set ks \<union> set (map fst m)"
  using assms
proof (induction ks arbitrary: m)
  case Nil
  then show ?case by simp
next
  case (Cons k ks)
  show ?case
    using Cons.IH [OF hm_distinct_insert [OF Cons.prems]] hm_set_keys [of k v m] by auto
qed

text \<open>The signer ids assigned from index \<open>i\<close> on.\<close>

definition ids_from :: "nat \<Rightarrow> nat \<Rightarrow> u32 list" where
  "ids_from i n = map (\<lambda>j. of_nat j + 1) [i..<i + n]"

lemma ids_from_Cons: "ids_from i (Suc n) = (of_nat i + 1) # ids_from (Suc i) n"
  by (simp add: ids_from_def upt_rec)

lemma add_signers_keys:
  assumes "add_signers kp i ss keys = Ok keys'"
    and "hm_distinct (key_ids keys)" and "hm_distinct (signers keys)"
  shows "hm_distinct (key_ids keys') \<and> hm_distinct (signers keys')
    \<and> set (map fst (signers keys')) = set (ids_from i (length ss)) \<union> set (map fst (signers keys))
    \<and> set (map fst (key_ids keys')) = \<Union> (set ` rsg_key_ids ` set ss) \<union> set (map fst (key_ids keys))
    \<and> 0 \<notin> \<Union> (set ` rsg_key_ids ` set ss)"
  using assms
proof (induction kp i ss keys rule: add_signers.induct)
  case (1 kp i keys)
  then show ?case by (simp add: ids_from_def)
next
  case (2 kp i s ss keys)
  from "2.prems"(1) obtain pk keys1 where pk: "parse_public_key kp (rsg_public_key s) = Ok pk"
    and keys1: "add_key_ids pk (rsg_key_ids s) keys = Ok keys1"
    and i: "u32_try_from i = Ok (of_nat i)"
    and rec: "add_signers kp (Suc i) ss
      (keys1\<lparr>signers := hm_insert (of_nat i + 1) pk (signers keys1)\<rparr>) = Ok keys'"
    by (auto simp: obind_Ok_iff u32_try_from_def split: if_splits)
  note folded = fold_hm_insert_const [OF "2.prems"(2), of pk "rsg_key_ids s"]
  from keys1 have k1: "0 \<notin> set (rsg_key_ids s)"
    "keys1 = keys\<lparr>key_ids := fold (\<lambda>k. hm_insert k pk) (rsg_key_ids s) (key_ids keys)\<rparr>"
    by (simp_all add: add_key_ids_Ok_iff)
  have "hm_distinct (key_ids keys') \<and> hm_distinct (signers keys')
    \<and> set (map fst (signers keys')) = set (ids_from (Suc i) (length ss))
        \<union> set (map fst (hm_insert (of_nat i + 1) pk (signers keys)))
    \<and> set (map fst (key_ids keys')) = \<Union> (set ` rsg_key_ids ` set ss) \<union> set (map fst (key_ids keys1))
    \<and> 0 \<notin> \<Union> (set ` rsg_key_ids ` set ss)"
    using "2.IH" [OF rec] k1 folded "2.prems"(3) by simp
  with k1 folded show ?case
    using hm_set_keys [of "of_nat i + 1 :: u32" pk "signers keys"]
    by (auto simp del: hm_set_keys set_map simp add: ids_from_Cons)
qed

lemma add_signer_key_ids_keys:
  assumes "add_signer_key_ids i ss m = Ok m'" and "hm_distinct m"
  shows "hm_distinct m' \<and> set (map fst m') = set (ids_from i (length ss)) \<union> set (map fst m)"
  using assms
proof (induction i ss m rule: add_signer_key_ids.induct)
  case (1 i m)
  then show ?case by (simp add: ids_from_def)
next
  case (2 i s ss m)
  from "2.prems"(1) have i: "u32_try_from (i + 1) = Ok (of_nat (i + 1))"
    and rec: "add_signer_key_ids (Suc i) ss (hm_insert (of_nat (i + 1)) (rsg_key_ids s) m) = Ok m'"
    by (auto simp: obind_Ok_iff u32_try_from_def split: if_splits)
  have "hm_distinct m' \<and> set (map fst m') = set (ids_from (Suc i) (length ss))
      \<union> set (map fst (hm_insert (of_nat (i + 1)) (rsg_key_ids s) m))"
    using "2.IH" [OF rec] "2.prems"(2) by simp
  then show ?case
    using hm_set_keys [of "of_nat (i + 1) :: u32" "rsg_key_ids s" m]
    by (auto simp del: hm_set_keys set_map simp add: ids_from_Cons add.commute)
qed

lemma u32_try_from_unat: "u32_try_from n = Ok w \<Longrightarrow> unat w = n"
  by (auto simp: u32_try_from_def unat_of_nat split: if_splits)

lemma inj_on_of_nat_u32: "inj_on (\<lambda>j. of_nat j + 1 :: u32) {..<2 ^ 32}"
  by (auto simp: inj_on_def of_nat_eq_iff word_of_nat_eq_iff take_bit_eq_mod)

lemma card_ids_from:
  assumes "n \<le> 2 ^ 32"
  shows "card (set (ids_from 0 n)) = n"
proof -
  have "inj_on (\<lambda>j. of_nat j + 1 :: u32) {0..<n}"
    using assms by (intro inj_on_subset [OF inj_on_of_nat_u32]) auto
  then show ?thesis
    by (simp add: ids_from_def card_image)
qed

text \<open>
  C36. A configuration that loads is consistent. Every signer of the file has an entry in the table of
  public keys and in the table of key ids, under the ids \<open>1, 2, \<dots>\<close>; there are no others;
  \<^verbatim>\<open>total_signers\<close> is their number; the key ids known are exactly those listed in the file, none is
  0, and \<^verbatim>\<open>total_keys\<close> is the number of distinct ones.
\<close>

theorem Config_try_from_consistent:
  assumes "Config_try_from kp raw = Ok c" and "length (rc_signers raw) \<le> 2 ^ 32"
  shows "fst ` set (signers (public_keys c)) = set (ids_from 0 (length (rc_signers raw)))
    \<and> fst ` set (signer_key_ids c) = set (ids_from 0 (length (rc_signers raw)))
    \<and> unat (total_signers c) = length (rc_signers raw)
    \<and> fst ` set (key_ids (public_keys c)) = \<Union> (set ` rsg_key_ids ` set (rc_signers raw))
    \<and> 0 \<notin> fst ` set (key_ids (public_keys c))
    \<and> unat (total_keys c) = card (\<Union> (set ` rsg_key_ids ` set (rc_signers raw)))"
proof -
  from assms(1) obtain pks skids ts tk where
    pks: "add_signers kp 0 (rc_signers raw) PublicKeys_default = Ok pks"
    and skids: "add_signer_key_ids 0 (rc_signers raw) [] = Ok skids"
    and ts: "u32_try_from (length (signers pks)) = Ok ts"
    and tk: "u32_try_from (length (key_ids pks)) = Ok tk"
    and c: "public_keys c = pks" "signer_key_ids c = skids" "total_signers c = ts" "total_keys c = tk"
    by (auto simp: Config_try_from_def Config_new_def RawConfig_public_keys_def
        RawConfig_signer_key_ids_def obind_Ok_iff)
  have keys: "hm_distinct (key_ids pks) \<and> hm_distinct (signers pks)
    \<and> fst ` set (signers pks) = set (ids_from 0 (length (rc_signers raw)))
    \<and> fst ` set (key_ids pks) = \<Union> (set ` rsg_key_ids ` set (rc_signers raw))
    \<and> 0 \<notin> \<Union> (set ` rsg_key_ids ` set (rc_signers raw))"
    using add_signers_keys [OF pks] by (simp add: PublicKeys_default_def hm_distinct_def)
  then have "length (signers pks) = length (rc_signers raw)"
    and "length (key_ids pks) = card (\<Union> (set ` rsg_key_ids ` set (rc_signers raw)))"
    using card_ids_from [OF assms(2)] distinct_card [of "map fst (signers pks)"]
      distinct_card [of "map fst (key_ids pks)"] by (auto simp: hm_distinct_def)
  with ts tk have "unat ts = length (rc_signers raw)"
    and "unat tk = card (\<Union> (set ` rsg_key_ids ` set (rc_signers raw)))"
    by (simp_all add: u32_try_from_unat)
  with keys c add_signer_key_ids_keys [OF skids] show ?thesis
    by (simp add: hm_distinct_def)
qed

definition demo_raw :: RawConfig where
  "demo_raw = \<lparr>rc_http_relay_url = ''u'', rc_keys_threshold = 2, rc_network_private_key = ''9'',
     rc_signers = [\<lparr>rsg_public_key = ''A'', rsg_key_ids = [1, 2]\<rparr>,
                   \<lparr>rsg_public_key = ''B'', rsg_key_ids = [3]\<rparr>],
     rc_coordinator_public_key = ''C''\<rparr>"

definition demo_parsers :: "(string, string) key_parsers" where
  "demo_parsers = \<lparr>parse_pk = (\<lambda>s. if s = [] then None else Some s), parse_sk = Some\<rparr>"

theorem Config_try_from_consistent_witness:
  "\<exists>c. Config_try_from demo_parsers demo_raw = Ok c
    \<and> unat (total_signers c) = 2 \<and> unat (total_keys c) = card {1 :: u32, 2, 3}"
proof -
  obtain c where c: "Config_try_from demo_parsers demo_raw = Ok c"
    by (simp add: Config_try_from_def RawConfig_coordinator_public_key_def RawConfig_public_keys_def
        RawConfig_signer_key_ids_def RawConfig_network_private_key_def Config_new_def
        parse_public_key_def PublicKeys_default_def demo_raw_def demo_parsers_def u32_try_from_def)
  have "length (rc_signers demo_raw) \<le> 2 ^ 32"
    by (simp add: demo_raw_def)
  moreover have "\<Union> (set ` rsg_key_ids ` set (rc_signers demo_raw)) = {1 :: u32, 2, 3}"
    by (auto simp: demo_raw_def)
  ultimately show ?thesis
    using Config_try_from_consistent [OF c] c by (auto simp: demo_raw_def)
qed

end
