(* ===== verification/FrostMessages.thy ===== *)
theory FrostMessages
  imports FrostConfig
begin

text \<open>
  The messages of the signing protocol, their signatures and their verification
  (\<^verbatim>\<open>frost-signer/src/signing_round.rs\<close>, the \<^verbatim>\<open>Signable\<close> implementations;
  \<^verbatim>\<open>frost-signer/src/signer.rs\<close>, \<^verbatim>\<open>verify_msg\<close>; \<^verbatim>\<open>frost-signer/src/net.rs\<close>, \<^verbatim>\<open>Message\<close>).

  Points, scalars and polynomial ids are values of the \<^verbatim>\<open>p256k1\<close> and \<^verbatim>\<open>wsts\<close> crates: the type
  variables \<open>'pt\<close>, \<open>'sc\<close> and \<open>'id\<close>. What the code uses of these crates and of SHA-256 is the record
  \<open>crypto\<close>, an argument of every definition that needs it.
\<close>

section \<open>Message types\<close>

record ('id, 'pt) PolyCommitment =
  pc_id :: 'id
  pc_A :: "'pt list"

record 'pt PublicNonce =
  pn_D :: 'pt
  pn_E :: 'pt

record 'sc SignatureShare =
  ss_id :: u32
  ss_z_i :: 'sc

datatype DkgStatus = Success | Failure string

record ('id, 'pt) DkgPublicShare =
  dps_dkg_id :: u64
  dps_dkg_public_id :: u64
  dps_party_id :: u32
  dps_public_share :: "('id, 'pt) PolyCommitment"

record DkgPrivateShares =
  dpv_dkg_id :: u64
  dpv_key_id :: u32
  dpv_private_shares :: "(u32 \<times> bytes) list"

record DkgBegin =
  db_dkg_id :: u64

record DkgEnd =
  de_dkg_id :: u64
  de_signer_id :: u32
  de_status :: DkgStatus

record NonceRequest =
  nq_dkg_id :: u64
  nq_sign_id :: u64
  nq_sign_nonce_id :: u64

record 'pt NonceResponse =
  nr_dkg_id :: u64
  nr_sign_id :: u64
  nr_sign_nonce_id :: u64
  nr_signer_id :: u32
  nr_key_ids :: "u32 list"
  nr_nonces :: "'pt PublicNonce list"

record 'pt SignatureShareRequest =
  sq_dkg_id :: u64
  sq_sign_id :: u64
  sq_correlation_id :: u64
  sq_nonce_responses :: "'pt NonceResponse list"
  sq_message :: bytes

record 'sc SignatureShareResponse =
  sr_dkg_id :: u64
  sr_sign_id :: u64
  sr_correlation_id :: u64
  sr_signer_id :: u32
  sr_signature_shares :: "'sc SignatureShare list"

datatype ('id, 'pt, 'sc) MessageTypes =
    DkgBegin DkgBegin
  | DkgPrivateBegin DkgBegin
  | DkgEnd DkgEnd
  | DkgPublicEnd DkgEnd
  | DkgPublicShare "('id, 'pt) DkgPublicShare"
  | DkgPrivateShares DkgPrivateShares
  | NonceRequest NonceRequest
  | NonceResponse "'pt NonceResponse"
  | SignShareRequest "'pt SignatureShareRequest"
  | SignShareResponse "'sc SignatureShareResponse"

record ('id, 'pt, 'sc) Message =
  msg :: "('id, 'pt, 'sc) MessageTypes"
  sig :: bytes

text \<open>
  \<open>sign_hash\<close> is \<^verbatim>\<open>ecdsa::Signature::new(..).to_bytes()\<close> (\<open>None\<close> for its error), \<open>sig_parses\<close>
  is whether \<^verbatim>\<open>ecdsa::Signature::try_from\<close> accepts the bytes, \<open>verify_hash\<close> is
  \<^verbatim>\<open>Signature::verify\<close> of the parsed signature.
\<close>

record ('pt, 'sc, 'pk) crypto =
  sha256 :: "bytes \<Rightarrow> bytes"
  compress :: "'pt \<Rightarrow> bytes"
  scalar_bytes :: "'sc \<Rightarrow> bytes"
  sign_hash :: "bytes \<Rightarrow> 'sc \<Rightarrow> bytes option"
  sig_parses :: "bytes \<Rightarrow> bool"
  verify_hash :: "bytes \<Rightarrow> bytes \<Rightarrow> 'pk \<Rightarrow> bool"

section \<open>What is hashed\<close>

definition hash_DkgPublicShare ::
  "('pt, 'sc, 'pk) crypto \<Rightarrow> ('id, 'pt) DkgPublicShare \<Rightarrow> bytes" where
  "hash_DkgPublicShare cr m =
     as_bytes ''DKG_PUBLIC_SHARE'' @ u64_be (dps_dkg_id m) @ u64_be (dps_dkg_public_id m) @
     u32_be (dps_party_id m) @ concat (map (compress cr) (pc_A (dps_public_share m)))"

text \<open>The shares are visited under the ids \<open>0, 1, \<dots>\<close>; indexing with a missing one panics.\<close>

fun hash_shares :: "(u32 \<times> bytes) list \<Rightarrow> u32 list \<Rightarrow> (unit, bytes) outcome" where
  "hash_shares m [] = Ok []"
| "hash_shares m (i # ids) =
     obind (unwrap (map_of m i)) (\<lambda>share.
     obind (hash_shares m ids) (\<lambda>rest. Ok (u32_be i @ share @ rest)))"

definition hash_DkgPrivateShares :: "DkgPrivateShares \<Rightarrow> (unit, bytes) outcome" where
  "hash_DkgPrivateShares m =
     obind (hash_shares (dpv_private_shares m) (map of_nat [0..<length (dpv_private_shares m)]))
       (\<lambda>rest. Ok (as_bytes ''DKG_PRIVATE_SHARES'' @ u64_be (dpv_dkg_id m) @ u32_be (dpv_key_id m) @ rest))"

definition hash_DkgBegin :: "DkgBegin \<Rightarrow> bytes" where
  "hash_DkgBegin m = as_bytes ''DKG_BEGIN'' @ u64_be (db_dkg_id m)"

definition hash_DkgEnd :: "DkgEnd \<Rightarrow> bytes" where
  "hash_DkgEnd m = as_bytes ''DKG_END'' @ u64_be (de_dkg_id m) @ u32_be (de_signer_id m)"

definition hash_NonceRequest :: "NonceRequest \<Rightarrow> bytes" where
  "hash_NonceRequest m =
     as_bytes ''NONCE_REQUEST'' @ u64_be (nq_dkg_id m) @ u64_be (nq_sign_id m) @ u64_be (nq_sign_nonce_id m)"

definition hash_NonceResponse :: "('pt, 'sc, 'pk) crypto \<Rightarrow> 'pt NonceResponse \<Rightarrow> bytes" where
  "hash_NonceResponse cr m =
     as_bytes ''NONCE_RESPONSE'' @ u64_be (nr_dkg_id m) @ u64_be (nr_sign_id m) @
     u64_be (nr_sign_nonce_id m) @ u32_be (nr_signer_id m) @
     concat (map u32_be (nr_key_ids m)) @
     concat (map (\<lambda>n. compress cr (pn_D n) @ compress cr (pn_E n)) (nr_nonces m))"

definition hash_SignatureShareRequest ::
  "('pt, 'sc, 'pk) crypto \<Rightarrow> 'pt SignatureShareRequest \<Rightarrow> bytes" where
  "hash_SignatureShareRequest cr m =
     as_bytes ''SIGNATURE_SHARE_REQUEST'' @ u64_be (sq_dkg_id m) @ u64_be (sq_sign_id m) @
     u64_be (sq_correlation_id m) @
     concat (map (hash_NonceResponse cr) (sq_nonce_responses m)) @ sq_message m"

definition hash_SignatureShareResponse ::
  "('pt, 'sc, 'pk) crypto \<Rightarrow> 'sc SignatureShareResponse \<Rightarrow> bytes" where
  "hash_SignatureShareResponse cr m =
     as_bytes ''SIGNATURE_SHARE_RESPONSE'' @ u64_be (sr_dkg_id m) @ u64_be (sr_sign_id m) @
     u64_be (sr_correlation_id m) @ u32_be (sr_signer_id m) @
     concat (map (\<lambda>s. u32_be (ss_id s) @ scalar_bytes cr (ss_z_i s)) (sr_signature_shares m))"

text \<open>The bytes fed to the hasher by the implementation of \<^verbatim>\<open>Signable\<close> of the message's payload.\<close>

fun signable :: "('pt, 'sc, 'pk) crypto \<Rightarrow> ('id, 'pt, 'sc) MessageTypes \<Rightarrow> (unit, bytes) outcome" where
  "signable cr (DkgBegin m) = Ok (hash_DkgBegin m)"
| "signable cr (DkgPrivateBegin m) = Ok (hash_DkgBegin m)"
| "signable cr (DkgEnd m) = Ok (hash_DkgEnd m)"
| "signable cr (DkgPublicEnd m) = Ok (hash_DkgEnd m)"
| "signable cr (DkgPublicShare m) = Ok (hash_DkgPublicShare cr m)"
| "signable cr (DkgPrivateShares m) = hash_DkgPrivateShares m"
| "signable cr (NonceRequest m) = Ok (hash_NonceRequest m)"
| "signable cr (NonceResponse m) = Ok (hash_NonceResponse cr m)"
| "signable cr (SignShareRequest m) = Ok (hash_SignatureShareRequest cr m)"
| "signable cr (SignShareResponse m) = Ok (hash_SignatureShareResponse cr m)"

section \<open>Signing and verifying\<close>

definition Signable_sign ::
  "('pt, 'sc, 'pk) crypto \<Rightarrow> (unit, bytes) outcome \<Rightarrow> 'sc \<Rightarrow> (unit, bytes) outcome" where
  "Signable_sign cr hashed private_key =
     obind hashed (\<lambda>input. ok_or () (sign_hash cr (sha256 cr input) private_key))"

definition Signable_verify ::
  "('pt, 'sc, 'pk) crypto \<Rightarrow> (unit, bytes) outcome \<Rightarrow> bytes \<Rightarrow> 'pk \<Rightarrow> (unit, bool) outcome" where
  "Signable_verify cr hashed signature public_key =
     obind hashed (\<lambda>input.
       if sig_parses cr signature then Ok (verify_hash cr signature (sha256 cr input) public_key)
       else Ok False)"

text \<open>The \<^verbatim>\<open>sign(..).expect(..)\<close> of every sender: a failure to sign is a panic.\<close>

definition sign_message_type ::
  "('pt, 'sc, 'pk) crypto \<Rightarrow> 'sc \<Rightarrow> ('id, 'pt, 'sc) MessageTypes
    \<Rightarrow> ('e, ('id, 'pt, 'sc) Message) outcome" where
  "sign_message_type cr private_key m =
     (case Signable_sign cr (signable cr m) private_key of
        Ok s \<Rightarrow> Ok \<lparr>msg = m, sig = s\<rparr>
      | Err e \<Rightarrow> Panic
      | Panic \<Rightarrow> Panic)"

definition verify_with ::
  "('pt, 'sc, 'pk) crypto \<Rightarrow> ('id, 'pt, 'sc) Message \<Rightarrow> 'pk option \<Rightarrow> (unit, bool) outcome" where
  "verify_with cr m key =
     (case key of
        Some public_key \<Rightarrow> Signable_verify cr (signable cr (msg m)) (sig m) public_key
      | None \<Rightarrow> Ok False)"

definition verify_msg ::
  "('pt, 'sc, 'pk) crypto \<Rightarrow> ('id, 'pt, 'sc) Message \<Rightarrow> 'pk PublicKeys \<Rightarrow> 'pk \<Rightarrow> (unit, bool) outcome" where
  "verify_msg cr m pks coordinator_pk =
     (case msg m of
        DkgBegin p \<Rightarrow> verify_with cr m (Some coordinator_pk)
      | DkgPrivateBegin p \<Rightarrow> verify_with cr m (Some coordinator_pk)
      | DkgEnd p \<Rightarrow> verify_with cr m (map_of (signers pks) (de_signer_id p))
      | DkgPublicEnd p \<Rightarrow> verify_with cr m (map_of (signers pks) (de_signer_id p))
      | DkgPublicShare p \<Rightarrow> verify_with cr m (map_of (key_ids pks) (dps_party_id p))
      | DkgPrivateShares p \<Rightarrow> verify_with cr m (map_of (key_ids pks) (dpv_key_id p + 1))
      | NonceRequest p \<Rightarrow> verify_with cr m (Some coordinator_pk)
      | NonceResponse p \<Rightarrow> verify_with cr m (map_of (signers pks) (nr_signer_id p))
      | SignShareRequest p \<Rightarrow> verify_with cr m (Some coordinator_pk)
      | SignShareResponse p \<Rightarrow> verify_with cr m (map_of (signers pks) (sr_signer_id p)))"

section \<open>Properties\<close>

text \<open>The specification: who must have signed a message for it to be accepted.\<close>

datatype role = Coordinator | Signer_of_id u32 | Owner_of_key u32

fun sender :: "('id, 'pt, 'sc) MessageTypes \<Rightarrow> role" where
  "sender (DkgBegin m) = Coordinator"
| "sender (DkgPrivateBegin m) = Coordinator"
| "sender (DkgEnd m) = Signer_of_id (de_signer_id m)"
| "sender (DkgPublicEnd m) = Signer_of_id (de_signer_id m)"
| "sender (DkgPublicShare m) = Owner_of_key (dps_party_id m)"
| "sender (DkgPrivateShares m) = Owner_of_key (dpv_key_id m + 1)"
| "sender (NonceRequest m) = Coordinator"
| "sender (NonceResponse m) = Signer_of_id (nr_signer_id m)"
| "sender (SignShareRequest m) = Coordinator"
| "sender (SignShareResponse m) = Signer_of_id (sr_signer_id m)"

fun role_key :: "'pk PublicKeys \<Rightarrow> 'pk \<Rightarrow> role \<Rightarrow> 'pk option" where
  "role_key pks cpk Coordinator = Some cpk"
| "role_key pks cpk (Signer_of_id i) = map_of (signers pks) i"
| "role_key pks cpk (Owner_of_key k) = map_of (key_ids pks) k"

lemma verify_msg_role: "verify_msg cr m pks cpk = verify_with cr m (role_key pks cpk (sender (msg m)))"
  by (cases "msg m") (simp_all add: verify_msg_def)

lemma verify_msg_Ok_True:
  "verify_msg cr m pks cpk = Ok True \<longleftrightarrow>
     (\<exists>pk input. role_key pks cpk (sender (msg m)) = Some pk \<and> signable cr (msg m) = Ok input
        \<and> sig_parses cr (sig m) \<and> verify_hash cr (sig m) (sha256 cr input) pk)"
  by (cases "signable cr (msg m)")
    (auto simp: verify_msg_role verify_with_def Signable_verify_def split: option.splits)


text \<open>
  Honest messages are accepted. Let the signature scheme be correct for a key pair: a
  signature made with the private key parses and verifies under the public key. Then a message
  signed by \<^verbatim>\<open>sign(..).expect(..)\<close> with the private key passes \<^verbatim>\<open>verify_msg\<close> at every receiver that
  has the public key registered for the message's sender.
\<close>

theorem signed_messages_verify:
  assumes correct: "\<forall>h s. sign_hash cr h sk = Some s \<longrightarrow> sig_parses cr s \<and> verify_hash cr s h pk"
    and signed: "sign_message_type cr sk m = Ok wire"
    and known: "role_key pks cpk (sender m) = Some pk"
  shows "msg wire = m \<and> verify_msg cr wire pks cpk = Ok True"
proof -
  from signed obtain input s where "signable cr m = Ok input"
    and "sign_hash cr (sha256 cr input) sk = Some s" and "wire = \<lparr>msg = m, sig = s\<rparr>"
    by (auto simp: sign_message_type_def Signable_sign_def obind_Ok_iff split: outcome.splits)
  with correct known show ?thesis
    by (simp add: verify_msg_Ok_True)
qed

text \<open>A toy scheme for witnesses: a key pair is a number and its double, a signature is the hash with
  the key in front.\<close>

definition demo_crypto :: "(u8, nat, nat) crypto" where
  "demo_crypto = \<lparr>sha256 = (\<lambda>bs. rev bs), compress = (\<lambda>p. [p]), scalar_bytes = (\<lambda>n. [of_nat n]),
     sign_hash = (\<lambda>h sk. Some (of_nat (2 * sk) # h)), sig_parses = (\<lambda>s. s \<noteq> []),
     verify_hash = (\<lambda>s h pk. s = of_nat pk # h)\<rparr>"

definition demo_keys :: "nat PublicKeys" where
  "demo_keys = \<lparr>signers = [(1, 4), (2, 6)], key_ids = [(1, 4), (2, 4), (3, 6)]\<rparr>"

theorem signed_messages_verify_witness:
  "\<exists>wire. sign_message_type demo_crypto 3
        (DkgPrivateShares \<lparr>dpv_dkg_id = 1, dpv_key_id = 2, dpv_private_shares = [(0, [5])]\<rparr>
          :: (unit, u8, nat) MessageTypes) = (Ok wire :: (unit, _) outcome)
      \<and> verify_msg demo_crypto wire demo_keys 8 = Ok True"
proof -
  let ?m = "DkgPrivateShares \<lparr>dpv_dkg_id = 1, dpv_key_id = 2, dpv_private_shares = [(0, [5])]\<rparr>
    :: (unit, u8, nat) MessageTypes"
  obtain wire where wire: "sign_message_type demo_crypto 3 ?m = (Ok wire :: (unit, _) outcome)"
    by (simp add: sign_message_type_def Signable_sign_def hash_DkgPrivateShares_def demo_crypto_def)
  have "msg wire = ?m \<and> verify_msg demo_crypto wire demo_keys 8 = Ok True"
    by (rule signed_messages_verify [OF _ wire, where pk = 6]) (simp_all add: demo_crypto_def demo_keys_def)
  with wire show ?thesis by blast
qed

text \<open>
  The status of a \<^verbatim>\<open>DkgEnd\<close> is not authenticated, and the phase of a \<^verbatim>\<open>DkgBegin\<close> is not either:
  what is hashed leaves out the status and the constructor. A signature that is accepted on one
  is accepted on the other, so a relay can turn a failure into a success, or replay the start of
  the public phase as the start of the private one.
\<close>

theorem dkg_status_and_phase_unauthenticated:
  "verify_msg cr \<lparr>msg = DkgEnd e, sig = s\<rparr> pks cpk
     = verify_msg cr \<lparr>msg = DkgEnd (e\<lparr>de_status := st\<rparr>), sig = s\<rparr> pks cpk
   \<and> verify_msg cr \<lparr>msg = DkgPublicEnd e, sig = s\<rparr> pks cpk
     = verify_msg cr \<lparr>msg = DkgEnd (e\<lparr>de_status := st\<rparr>), sig = s\<rparr> pks cpk
   \<and> verify_msg cr \<lparr>msg = DkgBegin b, sig = s\<rparr> pks cpk
     = verify_msg cr \<lparr>msg = DkgPrivateBegin b, sig = s\<rparr> pks cpk"
  by (simp add: verify_msg_role verify_with_def hash_DkgEnd_def split: option.split)

text \<open>
  The hash of a signature share request does not determine the request: neither the nonce
  responses nor the message are delimited. Moving the last nonce response into the message gives
  another request with the same hash, so a signature made by the coordinator on one is valid on
  the other, which asks to sign other bytes.
\<close>

theorem signature_share_request_hash_ambiguous:
  "hash_SignatureShareRequest cr (q\<lparr>sq_nonce_responses := nrs @ [nr], sq_message := m\<rparr>)
     = hash_SignatureShareRequest cr
         (q\<lparr>sq_nonce_responses := nrs, sq_message := hash_NonceResponse cr nr @ m\<rparr>)
   \<and> q\<lparr>sq_nonce_responses := nrs @ [nr], sq_message := m\<rparr>
     \<noteq> q\<lparr>sq_nonce_responses := nrs, sq_message := hash_NonceResponse cr nr @ m\<rparr>"
proof
  have "sq_nonce_responses (q\<lparr>sq_nonce_responses := nrs @ [nr], sq_message := m\<rparr>)
      \<noteq> sq_nonce_responses (q\<lparr>sq_nonce_responses := nrs, sq_message := hash_NonceResponse cr nr @ m\<rparr>)"
    by simp
  then show "q\<lparr>sq_nonce_responses := nrs @ [nr], sq_message := m\<rparr>
     \<noteq> q\<lparr>sq_nonce_responses := nrs, sq_message := hash_NonceResponse cr nr @ m\<rparr>"
    by metis
qed (simp add: hash_SignatureShareRequest_def)

text \<open>
  The other requests and the shares are determined by their hash: for \<^verbatim>\<open>DkgBegin\<close>,
  \<^verbatim>\<open>NonceRequest\<close> and, when a compressed point has a fixed length and determines the point, for
  \<^verbatim>\<open>DkgPublicShare\<close> up to the id of the polynomial.
\<close>

theorem request_hash_injective:
  assumes "inj (compress cr)" and "\<forall>p. length (compress cr p) = 33"
  shows "(hash_DkgBegin b = hash_DkgBegin b' \<longrightarrow> b = b')
    \<and> (hash_NonceRequest n = hash_NonceRequest n' \<longrightarrow> n = n')
    \<and> (hash_DkgPublicShare cr s = hash_DkgPublicShare cr s' \<longrightarrow>
         dps_dkg_id s = dps_dkg_id s' \<and> dps_dkg_public_id s = dps_dkg_public_id s'
         \<and> dps_party_id s = dps_party_id s' \<and> pc_A (dps_public_share s) = pc_A (dps_public_share s'))"
  using concat_map_fixed_inject [OF assms(1), of 33 "pc_A (dps_public_share s)"
      "pc_A (dps_public_share s')"] assms(2)
  by (auto simp: hash_DkgBegin_def hash_NonceRequest_def hash_DkgPublicShare_def)

theorem request_hash_injective_witness:
  "inj (\<lambda>p :: u8. p # replicate 32 0) \<and>
    (hash_DkgPublicShare (demo_crypto\<lparr>compress := \<lambda>p. p # replicate 32 0\<rparr>)
        \<lparr>dps_dkg_id = 1, dps_dkg_public_id = 0, dps_party_id = 2, dps_public_share = \<lparr>pc_id = (), pc_A = [7, 8]\<rparr>\<rparr>
      \<noteq> hash_DkgPublicShare (demo_crypto\<lparr>compress := \<lambda>p. p # replicate 32 0\<rparr>)
        \<lparr>dps_dkg_id = 1, dps_dkg_public_id = 0, dps_party_id = 2, dps_public_share = \<lparr>pc_id = (), pc_A = [7]\<rparr>\<rparr>)"
proof -
  have inj: "inj (\<lambda>p :: u8. p # replicate 32 0)"
    by (simp add: inj_def)
  then show ?thesis
    using request_hash_injective [of "demo_crypto\<lparr>compress := \<lambda>p. p # replicate 32 0\<rparr>"] by force
qed

end
