(* ===== verification/FrostCrypto.thy ===== *)
theory FrostCrypto
  imports FrostMessages
begin

text \<open>
  Key agreement and encryption of the private shares (\<^verbatim>\<open>frost-signer/src/util.rs\<close>). Scalar
  multiplication and AES-256-GCM come from the \<^verbatim>\<open>p256k1\<close> and \<^verbatim>\<open>aes_gcm\<close> crates and are the
  record \<open>cipher\<close>; \<open>None\<close> is the error of the cipher.
\<close>

record ('pt, 'sc, 'pk, 'rng) cipher =
  scalar_mul :: "'sc \<Rightarrow> 'pt \<Rightarrow> 'pt"
  point_of_key :: "'pk \<Rightarrow> 'pt option"
  scalar_zero :: 'sc
  scalar_from_bytes :: "bytes \<Rightarrow> 'sc option"
  aes_encrypt :: "bytes \<Rightarrow> bytes \<Rightarrow> bytes \<Rightarrow> bytes option"
  aes_decrypt :: "bytes \<Rightarrow> bytes \<Rightarrow> bytes \<Rightarrow> bytes option"
  fill_bytes :: "'rng \<Rightarrow> bytes \<times> 'rng"

definition AES_GCM_NONCE_SIZE :: nat where
  "AES_GCM_NONCE_SIZE = 12"

definition make_shared_secret ::
  "('pt, 'sc, 'pk) crypto \<Rightarrow> ('pt, 'sc, 'pk, 'rng) cipher \<Rightarrow> 'sc \<Rightarrow> 'pt \<Rightarrow> bytes" where
  "make_shared_secret cr ci private_key public_key =
     sha256 cr (as_bytes ''DH_SHARED_SECRET_KEY/'' @ compress cr (scalar_mul ci private_key public_key))"

text \<open>\<open>fill_bytes\<close> fills the 12 bytes of the nonce and returns the generator's next state.\<close>

definition encrypt ::
  "('pt, 'sc, 'pk, 'rng) cipher \<Rightarrow> bytes \<Rightarrow> bytes \<Rightarrow> 'rng \<Rightarrow> (unit, bytes) outcome \<times> 'rng" where
  "encrypt ci key plain rng =
     (let (nonce, rng1) = fill_bytes ci rng in
      (obind (ok_or () (aes_encrypt ci key nonce plain)) (\<lambda>cipher_vec. Ok (nonce @ cipher_vec)), rng1))"

text \<open>Slicing off the nonce panics when the data is shorter than it.\<close>

definition decrypt ::
  "('pt, 'sc, 'pk, 'rng) cipher \<Rightarrow> bytes \<Rightarrow> bytes \<Rightarrow> (unit, bytes) outcome" where
  "decrypt ci key ciphertext =
     (if length ciphertext < AES_GCM_NONCE_SIZE then Panic
      else ok_or () (aes_decrypt ci key (take AES_GCM_NONCE_SIZE ciphertext)
        (drop AES_GCM_NONCE_SIZE ciphertext)))"

section \<open>Properties\<close>

text \<open>What the code relies on: the documented behaviour of the two crates.\<close>

definition dh_commutes :: "('pt, 'sc, 'pk, 'rng) cipher \<Rightarrow> ('sc \<Rightarrow> 'pt) \<Rightarrow> bool" where
  "dh_commutes ci G \<longleftrightarrow> (\<forall>x y. scalar_mul ci x (G y) = scalar_mul ci y (G x))"

definition aead_correct :: "('pt, 'sc, 'pk, 'rng) cipher \<Rightarrow> bool" where
  "aead_correct ci \<longleftrightarrow>
     (\<forall>rng. length (fst (fill_bytes ci rng)) = AES_GCM_NONCE_SIZE) \<and>
     (\<forall>k n p c. aes_encrypt ci k n p = Some c \<longrightarrow> aes_decrypt ci k n c = Some p)"

lemma decrypt_encrypt:
  assumes "aead_correct ci" and "fst (encrypt ci key plain rng) = Ok c"
  shows "decrypt ci key c = Ok plain"
proof -
  obtain nonce rng1 where f: "fill_bytes ci rng = (nonce, rng1)"
    by (cases "fill_bytes ci rng") auto
  with assms(1) have len: "length nonce = AES_GCM_NONCE_SIZE"
    unfolding aead_correct_def by (metis fst_conv)
  from assms(2) f obtain v where v: "aes_encrypt ci key nonce plain = Some v" and "c = nonce @ v"
    by (auto simp: encrypt_def obind_Ok_iff)
  with len assms(1) show ?thesis
    by (simp add: decrypt_def aead_correct_def)
qed

text \<open>
  A private share reaches its recipient. Let Diffie-Hellman commute (for the point \<open>G x\<close> of a
  private key \<open>x\<close>) and let the cipher decrypt what it encrypts. Then what a sender with private key
  \<open>x\<close> encrypts for the recipient's point \<open>G y\<close>, the recipient decrypts with its own private key \<open>y\<close>
  and the sender's point \<open>G x\<close>.
\<close>

theorem share_encryption_roundtrip:
  assumes "dh_commutes ci G" and "aead_correct ci"
    and "fst (encrypt ci (make_shared_secret cr ci x (G y)) plain rng) = Ok c"
  shows "decrypt ci (make_shared_secret cr ci y (G x)) c = Ok plain"
proof -
  have "make_shared_secret cr ci x (G y) = make_shared_secret cr ci y (G x)"
    using assms(1) by (simp add: make_shared_secret_def dh_commutes_def)
  with decrypt_encrypt [OF assms(2,3)] show ?thesis by simp
qed

definition demo_cipher :: "(u8, nat, nat, nat) cipher" where
  "demo_cipher = \<lparr>scalar_mul = (\<lambda>x p. of_nat x * p), point_of_key = (\<lambda>k. Some (of_nat k)),
     scalar_zero = 0, scalar_from_bytes = (\<lambda>bs. case bs of [b] \<Rightarrow> Some (unat b) | _ \<Rightarrow> None),
     aes_encrypt = (\<lambda>k n p. Some (k @ p)), aes_decrypt = (\<lambda>k n c. if take (length k) c = k
       then Some (drop (length k) c) else None),
     fill_bytes = (\<lambda>r. (replicate 12 (of_nat r), Suc r))\<rparr>"

lemma demo_dh: "dh_commutes demo_cipher (\<lambda>x. of_nat x)"
  by (simp add: dh_commutes_def demo_cipher_def mult.commute)

lemma demo_aead: "aead_correct demo_cipher"
  by (simp add: aead_correct_def demo_cipher_def AES_GCM_NONCE_SIZE_def)

theorem share_encryption_roundtrip_witness:
  "decrypt demo_cipher (make_shared_secret demo_crypto demo_cipher 5 (of_nat 3))
      (replicate 12 9 @ make_shared_secret demo_crypto demo_cipher 5 (of_nat 3) @ [42]) = Ok [42]"
  by (rule share_encryption_roundtrip [OF demo_dh demo_aead, where rng = 9])
    (simp add: encrypt_def demo_cipher_def make_shared_secret_def demo_crypto_def)

text \<open>
  Decryption of untrusted bytes: anything shorter than a nonce panics, anything else returns
  the cipher's verdict as a value.
\<close>

theorem decrypt_panics_iff_short:
  "decrypt ci key c = Panic \<longleftrightarrow> length c < AES_GCM_NONCE_SIZE"
  by (cases "aes_decrypt ci key (take AES_GCM_NONCE_SIZE c) (drop AES_GCM_NONCE_SIZE c)")
    (simp_all add: decrypt_def)

end
