(* ===== verification/SigningRound.thy ===== *)
theory SigningRound
  imports FrostCrypto
begin

text \<open>
  One signer's side of the protocol (\<^verbatim>\<open>frost-signer/src/signing_round.rs\<close> and
  \<^verbatim>\<open>frost-signer/src/state_machine.rs\<close>): the state machine of the rounds, the handlers of the
  messages, and \<^verbatim>\<open>process\<close>. The threshold-signature state of the \<^verbatim>\<open>wsts\<close> crate is the type variable
  \<open>'fs\<close>, and what the code calls on it is the record \<open>wsts\<close>. Randomness (\<^verbatim>\<open>OsRng\<close>) is an explicit
  argument of each handler that draws any.
\<close>

section \<open>States\<close>

datatype States =
    Idle
  | DkgPublicDistribute
  | DkgPublicGather
  | DkgPrivateDistribute
  | DkgPrivateGather
  | SignGather
  | Signed

datatype state_machine_error = BadStateChange States States

datatype round_error =
    InvalidPartyID
  | InvalidDkgPublicShare
  | InvalidDkgPrivateShares "u32 list"
  | InvalidNonceResponse
  | InvalidSignatureShare
  | StateMachineError state_machine_error

record ('fs, 'rng, 'id, 'pt, 'sc) wsts =
  fs_new :: "u32 \<Rightarrow> u32 list \<Rightarrow> u32 \<Rightarrow> u32 \<Rightarrow> 'rng \<Rightarrow> 'fs"
  fs_reset_polys :: "'rng \<Rightarrow> 'fs \<Rightarrow> 'fs"
  fs_get_key_ids :: "'fs \<Rightarrow> u32 list"
  fs_gen_nonces :: "'rng \<Rightarrow> 'fs \<Rightarrow> 'pt PublicNonce list \<times> 'fs"
  fs_sign :: "bytes \<Rightarrow> u32 list \<Rightarrow> u32 list \<Rightarrow> 'pt PublicNonce list \<Rightarrow> 'fs \<Rightarrow> 'sc SignatureShare list \<times> 'fs"
  fs_get_poly_commitments :: "'rng \<Rightarrow> 'fs \<Rightarrow> ('id, 'pt) PolyCommitment list"
  fs_get_shares :: "'fs \<Rightarrow> (u32 \<times> (u32 \<times> 'sc) list) list"
  fs_compute_secrets :: "(u32 \<times> (u32 \<times> 'sc) list) list \<Rightarrow> ('id, 'pt) PolyCommitment list \<Rightarrow> 'fs
    \<Rightarrow> (string, unit) outcome \<times> 'fs"
  id_get_u32 :: "'id \<Rightarrow> u32"

record 'fs Signer =
  frost_signer :: 'fs
  signer_id :: u32

record ('fs, 'id, 'pt, 'sc, 'pk) SigningRound =
  rd_dkg_id :: u64
  rd_dkg_public_id :: u64
  rd_sign_id :: u64
  rd_sign_nonce_id :: u64
  rd_threshold :: u32
  rd_total_signers :: u32
  rd_total_keys :: u32
  rd_signer :: "'fs Signer"
  rd_state :: States
  rd_commitments :: "(u32 \<times> ('id, 'pt) PolyCommitment) list"
  rd_shares :: "(u32 \<times> (u32 \<times> bytes) list) list"
  rd_public_nonces :: "'pt PublicNonce list"
  rd_network_private_key :: 'sc
  rd_public_keys :: "'pk PublicKeys"

text \<open>The three crates a handler calls, as one argument.\<close>

record ('fs, 'rng, 'id, 'pt, 'sc, 'pk) env =
  ws :: "('fs, 'rng, 'id, 'pt, 'sc) wsts"
  cry :: "('pt, 'sc, 'pk) crypto"
  ciph :: "('pt, 'sc, 'pk, 'rng) cipher"

section \<open>The state machine\<close>

fun accepted :: "States \<Rightarrow> States \<Rightarrow> bool" where
  "accepted prev_state Idle = True"
| "accepted prev_state DkgPublicDistribute =
     (prev_state = Idle \<or> prev_state = DkgPublicGather \<or> prev_state = DkgPrivateDistribute)"
| "accepted prev_state DkgPublicGather = (prev_state = DkgPublicDistribute)"
| "accepted prev_state DkgPrivateDistribute = (prev_state = DkgPublicGather)"
| "accepted prev_state DkgPrivateGather = (prev_state = DkgPrivateDistribute)"
| "accepted prev_state SignGather = (prev_state = Idle)"
| "accepted prev_state Signed = (prev_state = SignGather)"

definition can_move_to ::
  "('fs, 'id, 'pt, 'sc, 'pk) SigningRound \<Rightarrow> States \<Rightarrow> (round_error, unit) outcome" where
  "can_move_to r state =
     (if accepted (rd_state r) state then Ok ()
      else Err (StateMachineError (BadStateChange (rd_state r) state)))"

definition move_to ::
  "('fs, 'id, 'pt, 'sc, 'pk) SigningRound \<Rightarrow> States
    \<Rightarrow> (round_error, unit) outcome \<times> ('fs, 'id, 'pt, 'sc, 'pk) SigningRound" where
  "move_to r state =
     (case can_move_to r state of
        Ok u \<Rightarrow> (Ok (), r\<lparr>rd_state := state\<rparr>)
      | Err e \<Rightarrow> (Err e, r)
      | Panic \<Rightarrow> (Panic, r))"

section \<open>Construction and reset\<close>

definition SigningRound_new ::
  "('fs, 'rng, 'id, 'pt, 'sc, 'pk) env \<Rightarrow> 'rng \<Rightarrow> u32 \<Rightarrow> u32 \<Rightarrow> u32 \<Rightarrow> u32 \<Rightarrow> u32 list \<Rightarrow> 'sc \<Rightarrow> 'pk PublicKeys
    \<Rightarrow> (round_error, ('fs, 'id, 'pt, 'sc, 'pk) SigningRound) outcome" where
  "SigningRound_new e rng threshold ts tk sid kids private_key pks =
     (if threshold \<le> tk then
        Ok \<lparr>rd_dkg_id = 0, rd_dkg_public_id = 0, rd_sign_id = 1, rd_sign_nonce_id = 1,
            rd_threshold = threshold, rd_total_signers = ts, rd_total_keys = tk,
            rd_signer = \<lparr>frost_signer = fs_new (ws e) sid kids tk threshold rng, signer_id = sid\<rparr>,
            rd_state = Idle, rd_commitments = [], rd_shares = [], rd_public_nonces = [],
            rd_network_private_key = private_key, rd_public_keys = pks\<rparr>
      else Panic)"

text \<open>\<^verbatim>\<open>From<&FrostSigner>\<close>: key ids count from 1 in the configuration and from 0 in \<^verbatim>\<open>wsts\<close>.\<close>

definition SigningRound_from ::
  "('fs, 'rng, 'id, 'pt, 'sc, 'pk) env \<Rightarrow> 'rng \<Rightarrow> ('pk, 'sc) Config \<Rightarrow> u32
    \<Rightarrow> (round_error, ('fs, 'id, 'pt, 'sc, 'pk) SigningRound) outcome" where
  "SigningRound_from e rng c sid =
     (if 0 < sid \<and> sid \<le> total_signers c then
        obind (unwrap (map_of (signer_key_ids c) sid)) (\<lambda>ids.
          let kids = map (\<lambda>i. i - 1) ids in
          if keys_threshold c \<le> total_keys c then
            Ok \<lparr>rd_dkg_id = 1, rd_dkg_public_id = 1, rd_sign_id = 1, rd_sign_nonce_id = 1,
                rd_threshold = keys_threshold c, rd_total_signers = total_signers c,
                rd_total_keys = total_keys c,
                rd_signer = \<lparr>frost_signer = fs_new (ws e) sid kids (total_keys c) (keys_threshold c) rng,
                             signer_id = sid\<rparr>,
                rd_state = Idle, rd_commitments = [], rd_shares = [], rd_public_nonces = [],
                rd_network_private_key = network_private_key c, rd_public_keys = public_keys c\<rparr>
          else Panic)
      else Panic)"

definition round_reset ::
  "('fs, 'rng, 'id, 'pt, 'sc, 'pk) env \<Rightarrow> 'rng \<Rightarrow> u64 \<Rightarrow> ('fs, 'id, 'pt, 'sc, 'pk) SigningRound
    \<Rightarrow> ('fs, 'id, 'pt, 'sc, 'pk) SigningRound" where
  "round_reset e rng dkg_id r =
     r\<lparr>rd_dkg_id := dkg_id, rd_dkg_public_id := 0, rd_commitments := [], rd_shares := [],
       rd_public_nonces := [],
       rd_signer := (rd_signer r)\<lparr>frost_signer := fs_reset_polys (ws e) rng (frost_signer (rd_signer r))\<rparr>\<rparr>"

section \<open>Distributed key generation\<close>

definition round_key_ids :: "('fs, 'rng, 'id, 'pt, 'sc, 'pk) env
    \<Rightarrow> ('fs, 'id, 'pt, 'sc, 'pk) SigningRound \<Rightarrow> u32 list" where
  "round_key_ids e r = fs_get_key_ids (ws e) (frost_signer (rd_signer r))"

definition dkg_public_begin ::
  "('fs, 'rng, 'id, 'pt, 'sc, 'pk) env \<Rightarrow> 'rng \<Rightarrow> ('fs, 'id, 'pt, 'sc, 'pk) SigningRound
    \<Rightarrow> (round_error, ('id, 'pt, 'sc) MessageTypes list) outcome \<times> ('fs, 'id, 'pt, 'sc, 'pk) SigningRound" where
  "dkg_public_begin e rng r =
     (let polys = fs_get_poly_commitments (ws e) rng (frost_signer (rd_signer r));
          msgs = map (\<lambda>poly. DkgPublicShare
            \<lparr>dps_dkg_id = rd_dkg_id r, dps_dkg_public_id = rd_dkg_public_id r,
             dps_party_id = id_get_u32 (ws e) (pc_id poly), dps_public_share = poly\<rparr>) polys;
          (moved, r1) = move_to r DkgPublicGather in
      (obind moved (\<lambda>_. Ok msgs), r1))"

definition dkg_begin ::
  "('fs, 'rng, 'id, 'pt, 'sc, 'pk) env \<Rightarrow> 'rng \<Rightarrow> ('fs, 'id, 'pt, 'sc, 'pk) SigningRound \<Rightarrow> DkgBegin
    \<Rightarrow> (round_error, ('id, 'pt, 'sc) MessageTypes list) outcome \<times> ('fs, 'id, 'pt, 'sc, 'pk) SigningRound" where
  "dkg_begin e rng r b =
     (let r1 = round_reset e rng (db_dkg_id b) r in
      case move_to r1 DkgPublicDistribute of
        (Ok u, r2) \<Rightarrow> dkg_public_begin e rng r2
      | (Err er, r2) \<Rightarrow> (Err er, r2)
      | (Panic, r2) \<Rightarrow> (Panic, r2))"

text \<open>The inner loop of \<^verbatim>\<open>dkg_private_begin\<close>: one share of a key, encrypted for every recipient.\<close>

fun encrypt_shares ::
  "('fs, 'rng, 'id, 'pt, 'sc, 'pk) env \<Rightarrow> 'sc \<Rightarrow> 'pk PublicKeys \<Rightarrow> 'rng \<Rightarrow> (u32 \<times> 'sc) list
    \<Rightarrow> (u32 \<times> bytes) list \<Rightarrow> (round_error, (u32 \<times> bytes) list) outcome \<times> 'rng" where
  "encrypt_shares e sk pks rng [] acc = (Ok acc, rng)"
| "encrypt_shares e sk pks rng ((dst, share) # rest) acc =
     (case map_of (key_ids pks) (dst + 1) of
        None \<Rightarrow> (Panic, rng)
      | Some pk \<Rightarrow>
          (case point_of_key (ciph e) pk of
             None \<Rightarrow> (Panic, rng)
           | Some point \<Rightarrow>
               (case encrypt (ciph e) (make_shared_secret (cry e) (ciph e) sk point)
                       (scalar_bytes (cry e) share) rng of
                  (Ok c, rng1) \<Rightarrow> encrypt_shares e sk pks rng1 rest (hm_insert dst c acc)
                | (Err u, rng1) \<Rightarrow> (Panic, rng1)
                | (Panic, rng1) \<Rightarrow> (Panic, rng1))))"

fun private_share_msgs ::
  "('fs, 'rng, 'id, 'pt, 'sc, 'pk) env \<Rightarrow> ('fs, 'id, 'pt, 'sc, 'pk) SigningRound \<Rightarrow> 'rng
    \<Rightarrow> (u32 \<times> (u32 \<times> 'sc) list) list
    \<Rightarrow> (round_error, ('id, 'pt, 'sc) MessageTypes list) outcome" where
  "private_share_msgs e r rng [] = Ok []"
| "private_share_msgs e r rng ((key_id, private_shares) # rest) =
     (case encrypt_shares e (rd_network_private_key r) (rd_public_keys r) rng private_shares [] of
        (Ok encrypted, rng1) \<Rightarrow>
          obind (private_share_msgs e r rng1 rest) (\<lambda>msgs.
            Ok (DkgPrivateShares \<lparr>dpv_dkg_id = rd_dkg_id r, dpv_key_id = key_id,
                  dpv_private_shares = encrypted\<rparr> # msgs))
      | (Err er, rng1) \<Rightarrow> Err er
      | (Panic, rng1) \<Rightarrow> Panic)"

definition dkg_private_begin ::
  "('fs, 'rng, 'id, 'pt, 'sc, 'pk) env \<Rightarrow> 'rng \<Rightarrow> ('fs, 'id, 'pt, 'sc, 'pk) SigningRound
    \<Rightarrow> (round_error, ('id, 'pt, 'sc) MessageTypes list) outcome \<times> ('fs, 'id, 'pt, 'sc, 'pk) SigningRound" where
  "dkg_private_begin e rng r =
     (case private_share_msgs e r rng (fs_get_shares (ws e) (frost_signer (rd_signer r))) of
        Ok msgs \<Rightarrow>
          (let (moved, r1) = move_to r DkgPrivateGather in (obind moved (\<lambda>_. Ok msgs), r1))
      | Err er \<Rightarrow> (Err er, r)
      | Panic \<Rightarrow> (Panic, r))"

definition round_public_share ::
  "('fs, 'id, 'pt, 'sc, 'pk) SigningRound \<Rightarrow> ('id, 'pt) DkgPublicShare
    \<Rightarrow> (round_error, ('id, 'pt, 'sc) MessageTypes list) outcome \<times> ('fs, 'id, 'pt, 'sc, 'pk) SigningRound" where
  "round_public_share r s =
     (Ok [], r\<lparr>rd_commitments := bt_insert (dps_party_id s) (dps_public_share s) (rd_commitments r)\<rparr>)"

definition round_private_shares ::
  "('fs, 'id, 'pt, 'sc, 'pk) SigningRound \<Rightarrow> DkgPrivateShares
    \<Rightarrow> (round_error, ('id, 'pt, 'sc) MessageTypes list) outcome \<times> ('fs, 'id, 'pt, 'sc, 'pk) SigningRound" where
  "round_private_shares r s =
     (Ok [], r\<lparr>rd_shares := hm_insert (dpv_key_id s) (dpv_private_shares s) (rd_shares r)\<rparr>)"

definition public_shares_done :: "('fs, 'id, 'pt, 'sc, 'pk) SigningRound \<Rightarrow> bool" where
  "public_shares_done r \<longleftrightarrow>
     rd_state r = DkgPublicGather \<and> length (rd_commitments r) = unat (rd_total_keys r)"

definition can_dkg_end :: "('fs, 'id, 'pt, 'sc, 'pk) SigningRound \<Rightarrow> bool" where
  "can_dkg_end r \<longleftrightarrow>
     rd_state r = DkgPrivateGather \<and> length (rd_commitments r) = unat (rd_total_keys r)
     \<and> length (rd_shares r) = unat (rd_total_keys r)"

definition dkg_public_ended ::
  "('fs, 'id, 'pt, 'sc, 'pk) SigningRound \<Rightarrow> ('id, 'pt, 'sc) MessageTypes" where
  "dkg_public_ended r =
     DkgPublicEnd \<lparr>de_dkg_id = rd_dkg_id r, de_signer_id = signer_id (rd_signer r), de_status = Success\<rparr>"

text \<open>The decryption loops of \<^verbatim>\<open>dkg_ended\<close>: the shares of one sender, then all senders. A share that
  does not decrypt or parse adds its sender to the list of invalid ones.\<close>

fun decrypt_from ::
  "('fs, 'rng, 'id, 'pt, 'sc, 'pk) env \<Rightarrow> ('fs, 'id, 'pt, 'sc, 'pk) SigningRound \<Rightarrow> u32
    \<Rightarrow> (u32 \<times> bytes) list \<Rightarrow> (u32 \<times> 'sc) list \<Rightarrow> u32 list
    \<Rightarrow> (round_error, (u32 \<times> 'sc) list \<times> u32 list) outcome" where
  "decrypt_from e r src [] acc invalid = Ok (acc, invalid)"
| "decrypt_from e r src ((dst, share) # rest) acc invalid =
     (if dst \<in> set (round_key_ids e r) then
        (case map_of (key_ids (rd_public_keys r)) (src + 1) of
           None \<Rightarrow> Panic
         | Some pk \<Rightarrow>
             (case point_of_key (ciph e) pk of
                None \<Rightarrow> Panic
              | Some point \<Rightarrow>
                  (case decrypt (ciph e)
                          (make_shared_secret (cry e) (ciph e) (rd_network_private_key r) point) share of
                     Ok plain \<Rightarrow>
                       (case scalar_from_bytes (ciph e) plain of
                          Some s \<Rightarrow> decrypt_from e r src rest (hm_insert dst s acc) invalid
                        | None \<Rightarrow> decrypt_from e r src rest acc (invalid @ [src]))
                   | Err u \<Rightarrow> decrypt_from e r src rest acc (invalid @ [src])
                   | Panic \<Rightarrow> Panic)))
      else decrypt_from e r src rest (hm_insert dst (scalar_zero (ciph e)) acc) invalid)"

fun decrypt_all ::
  "('fs, 'rng, 'id, 'pt, 'sc, 'pk) env \<Rightarrow> ('fs, 'id, 'pt, 'sc, 'pk) SigningRound
    \<Rightarrow> (u32 \<times> (u32 \<times> bytes) list) list \<Rightarrow> (u32 \<times> (u32 \<times> 'sc) list) list \<Rightarrow> u32 list
    \<Rightarrow> (round_error, (u32 \<times> (u32 \<times> 'sc) list) list \<times> u32 list) outcome" where
  "decrypt_all e r [] acc invalid = Ok (acc, invalid)"
| "decrypt_all e r ((src, enc) # rest) acc invalid =
     obind (decrypt_from e r src enc [] invalid) (\<lambda>(m, invalid1).
       decrypt_all e r rest (hm_insert src m acc) invalid1)"

text \<open>\<^verbatim>\<open>format!("{:?}", ..)\<close> of a vector of integers.\<close>

fun debug_tail :: "u32 list \<Rightarrow> string" where
  "debug_tail [] = '']''"
| "debug_tail (x # xs) = '', '' @ show_nat (unat x) @ debug_tail xs"

fun debug_u32s :: "u32 list \<Rightarrow> string" where
  "debug_u32s [] = ''[]''"
| "debug_u32s (x # xs) = ''['' @ show_nat (unat x) @ debug_tail xs"

definition dkg_ended ::
  "('fs, 'rng, 'id, 'pt, 'sc, 'pk) env \<Rightarrow> ('fs, 'id, 'pt, 'sc, 'pk) SigningRound
    \<Rightarrow> (round_error, ('id, 'pt, 'sc) MessageTypes) outcome \<times> ('fs, 'id, 'pt, 'sc, 'pk) SigningRound" where
  "dkg_ended e r =
     (let polys = map snd (rd_commitments r);
          dkg_end = (\<lambda>status. DkgEnd \<lparr>de_dkg_id = rd_dkg_id r, de_signer_id = signer_id (rd_signer r),
                                      de_status = status\<rparr>) in
      case decrypt_all e r (rd_shares r) [] [] of
        Err er \<Rightarrow> (Err er, r)
      | Panic \<Rightarrow> (Panic, r)
      | Ok (decrypted, invalid) \<Rightarrow>
          if invalid = [] then
            (let (res, fs1) = fs_compute_secrets (ws e) decrypted polys (frost_signer (rd_signer r));
                 r1 = r\<lparr>rd_signer := (rd_signer r)\<lparr>frost_signer := fs1\<rparr>\<rparr> in
             case res of
               Ok u \<Rightarrow> (Ok (dkg_end Success), r1)
             | Err s \<Rightarrow> (Ok (dkg_end (Failure s)), r1)
             | Panic \<Rightarrow> (Panic, r1))
          else (Ok (dkg_end (Failure (debug_u32s invalid))), r))"

section \<open>Signing\<close>

definition nonce_request ::
  "('fs, 'rng, 'id, 'pt, 'sc, 'pk) env \<Rightarrow> 'rng \<Rightarrow> ('fs, 'id, 'pt, 'sc, 'pk) SigningRound \<Rightarrow> NonceRequest
    \<Rightarrow> (round_error, ('id, 'pt, 'sc) MessageTypes list) outcome \<times> ('fs, 'id, 'pt, 'sc, 'pk) SigningRound" where
  "nonce_request e rng r q =
     (let (nonces, fs1) = fs_gen_nonces (ws e) rng (frost_signer (rd_signer r)) in
      (Ok [NonceResponse \<lparr>nr_dkg_id = nq_dkg_id q, nr_sign_id = nq_sign_id q,
             nr_sign_nonce_id = nq_sign_nonce_id q, nr_signer_id = signer_id (rd_signer r),
             nr_key_ids = round_key_ids e r, nr_nonces = nonces\<rparr>],
       r\<lparr>rd_signer := (rd_signer r)\<lparr>frost_signer := fs1\<rparr>\<rparr>))"

fun sign_share_loop ::
  "('fs, 'rng, 'id, 'pt, 'sc, 'pk) env \<Rightarrow> 'pt SignatureShareRequest \<Rightarrow> u32 list
    \<Rightarrow> ('fs, 'id, 'pt, 'sc, 'pk) SigningRound
    \<Rightarrow> ('id, 'pt, 'sc) MessageTypes list \<times> ('fs, 'id, 'pt, 'sc, 'pk) SigningRound" where
  "sign_share_loop e q [] r = ([], r)"
| "sign_share_loop e q (sid # sids) r =
     (if sid = signer_id (rd_signer r) then
        (let all_ids = map nr_signer_id (sq_nonce_responses q);
             kids = concat (map nr_key_ids (sq_nonce_responses q));
             nonces = concat (map nr_nonces (sq_nonce_responses q));
             (shares, fs1) = fs_sign (ws e) (sq_message q) all_ids kids nonces (frost_signer (rd_signer r));
             (msgs, r2) = sign_share_loop e q sids (r\<lparr>rd_signer := (rd_signer r)\<lparr>frost_signer := fs1\<rparr>\<rparr>) in
         (SignShareResponse \<lparr>sr_dkg_id = sq_dkg_id q, sr_sign_id = sq_sign_id q,
            sr_correlation_id = sq_correlation_id q, sr_signer_id = sid,
            sr_signature_shares = shares\<rparr> # msgs, r2))
      else sign_share_loop e q sids r)"

definition sign_share_request ::
  "('fs, 'rng, 'id, 'pt, 'sc, 'pk) env \<Rightarrow> ('fs, 'id, 'pt, 'sc, 'pk) SigningRound \<Rightarrow> 'pt SignatureShareRequest
    \<Rightarrow> (round_error, ('id, 'pt, 'sc) MessageTypes list) outcome \<times> ('fs, 'id, 'pt, 'sc, 'pk) SigningRound" where
  "sign_share_request e r q =
     (let (msgs, r1) = sign_share_loop e q (map nr_signer_id (sq_nonce_responses q)) r in (Ok msgs, r1))"

section \<open>Processing a message\<close>

definition dispatch ::
  "('fs, 'rng, 'id, 'pt, 'sc, 'pk) env \<Rightarrow> 'rng \<Rightarrow> ('fs, 'id, 'pt, 'sc, 'pk) SigningRound
    \<Rightarrow> ('id, 'pt, 'sc) MessageTypes
    \<Rightarrow> (round_error, ('id, 'pt, 'sc) MessageTypes list) outcome \<times> ('fs, 'id, 'pt, 'sc, 'pk) SigningRound" where
  "dispatch e rng r m =
     (case m of
        DkgBegin b \<Rightarrow> dkg_begin e rng r b
      | DkgPrivateBegin b \<Rightarrow> dkg_private_begin e rng r
      | DkgPublicShare s \<Rightarrow> round_public_share r s
      | DkgPrivateShares s \<Rightarrow> round_private_shares r s
      | SignShareRequest q \<Rightarrow> sign_share_request e r q
      | NonceRequest q \<Rightarrow> nonce_request e rng r q
      | _ \<Rightarrow> (Ok [], r))"

definition process ::
  "('fs, 'rng, 'id, 'pt, 'sc, 'pk) env \<Rightarrow> 'rng \<Rightarrow> ('fs, 'id, 'pt, 'sc, 'pk) SigningRound
    \<Rightarrow> ('id, 'pt, 'sc) MessageTypes
    \<Rightarrow> (round_error, ('id, 'pt, 'sc) MessageTypes list) outcome \<times> ('fs, 'id, 'pt, 'sc, 'pk) SigningRound" where
  "process e rng r m =
     (case dispatch e rng r m of
        (Ok out, r1) \<Rightarrow>
          if public_shares_done r1 then
            (let (moved, r2) = move_to r1 DkgPrivateDistribute in
             (obind moved (\<lambda>_. Ok (out @ [dkg_public_ended r1])), r2))
          else if can_dkg_end r1 then
            (case dkg_ended e r1 of
               (Ok end_msg, r2) \<Rightarrow>
                 (let (moved, r3) = move_to r2 Idle in (obind moved (\<lambda>_. Ok (out @ [end_msg])), r3))
             | (Err er, r2) \<Rightarrow> (Err er, r2)
             | (Panic, r2) \<Rightarrow> (Panic, r2))
          else (Ok out, r1)
      | (Err er, r1) \<Rightarrow> (Err er, r1)
      | (Panic, r1) \<Rightarrow> (Panic, r1))"

section \<open>Invariant\<close>

text \<open>
  The states a round rests in between messages, its two maps in their representation invariant, and
  no finished phase left unannounced.
\<close>

definition round_inv :: "('fs, 'id, 'pt, 'sc, 'pk) SigningRound \<Rightarrow> bool" where
  "round_inv r \<longleftrightarrow>
     bt_sorted (rd_commitments r) \<and> hm_distinct (rd_shares r)
     \<and> rd_state r \<in> {Idle, DkgPublicGather, DkgPrivateDistribute, DkgPrivateGather}
     \<and> \<not> public_shares_done r \<and> \<not> can_dkg_end r"

text \<open>The maps alone: what every handler keeps on every outcome.\<close>

definition maps_inv :: "('fs, 'id, 'pt, 'sc, 'pk) SigningRound \<Rightarrow> bool" where
  "maps_inv r \<longleftrightarrow> bt_sorted (rd_commitments r) \<and> hm_distinct (rd_shares r)"

named_theorems round_defs \<open>definitions of the handlers that do not loop\<close>

declare can_move_to_def [round_defs] move_to_def [round_defs] round_reset_def [round_defs]
  dkg_public_begin_def [round_defs] dkg_begin_def [round_defs] dkg_private_begin_def [round_defs]
  round_public_share_def [round_defs] round_private_shares_def [round_defs]
  nonce_request_def [round_defs] sign_share_request_def [round_defs]

lemma bt_sorted_Nil [simp]: "bt_sorted []"
  by (rule bt.invar_empty)

lemma hm_distinct_Nil [simp]: "hm_distinct []"
  by (rule hm.invar_empty)

text \<open>Signing touches only the state of the \<^verbatim>\<open>wsts\<close> signer.\<close>

lemma sign_share_loop_frame:
  "sign_share_loop e q sids r = (msgs, r')
     \<Longrightarrow> \<exists>fs. r' = r\<lparr>rd_signer := (rd_signer r)\<lparr>frost_signer := fs\<rparr>\<rparr>"
proof (induction sids arbitrary: r msgs)
  case Nil
  then have "r' = r\<lparr>rd_signer := (rd_signer r)\<lparr>frost_signer := frost_signer (rd_signer r)\<rparr>\<rparr>" by simp
  then show ?case ..
next
  case (Cons sid sids)
  from Cons.prems show ?case
    by (auto simp: Let_def split: if_splits prod.splits dest!: Cons.IH)
qed

lemma maps_inv_sign [simp]:
  "maps_inv (r\<lparr>rd_signer := s\<rparr>) = maps_inv r" "maps_inv (r\<lparr>rd_state := st\<rparr>) = maps_inv r"
  by (simp_all add: maps_inv_def)

lemma dispatch_maps_inv:
  assumes "dispatch e rng r m = (res, r')" and "maps_inv r"
  shows "maps_inv r'"
  using assms
  by (cases m)
    (auto simp: dispatch_def round_defs maps_inv_def Let_def dest!: sign_share_loop_frame
      split: if_splits prod.splits outcome.splits)

lemma dkg_ended_frame:
  "dkg_ended e r = (res, r') \<Longrightarrow> \<exists>fs. r' = r\<lparr>rd_signer := (rd_signer r)\<lparr>frost_signer := fs\<rparr>\<rparr>"
  by (auto simp: dkg_ended_def Let_def split: outcome.splits prod.splits if_splits
      intro: exI [of _ "frost_signer (rd_signer r)"])

text \<open>Which states a handler can leave the round in when it succeeds.\<close>

lemma dispatch_state:
  assumes "dispatch e rng r m = (Ok out, r')"
  shows "rd_state r' = rd_state r \<or> rd_state r' = DkgPublicGather
    \<or> rd_state r = DkgPrivateDistribute \<and> rd_state r' = DkgPrivateGather"
  using assms
  by (cases m)
    (auto simp: dispatch_def round_defs Let_def dest!: sign_share_loop_frame
      split: if_splits prod.splits outcome.splits)

text \<open>What a successful \<^verbatim>\<open>process\<close> does after its handler: announce the end of a phase and move on.\<close>

lemma process_Ok_cases:
  assumes "process e rng r m = (Ok out, r')"
  obtains (plain) "dispatch e rng r m = (Ok out, r')" "\<not> public_shares_done r'" "\<not> can_dkg_end r'"
  | (public_end) r1 out1 where "dispatch e rng r m = (Ok out1, r1)" "public_shares_done r1"
      "out = out1 @ [dkg_public_ended r1]" "r' = r1\<lparr>rd_state := DkgPrivateDistribute\<rparr>"
  | (dkg_end) r1 out1 r2 end_msg where "dispatch e rng r m = (Ok out1, r1)" "can_dkg_end r1"
      "dkg_ended e r1 = (Ok end_msg, r2)" "out = out1 @ [end_msg]" "r' = r2\<lparr>rd_state := Idle\<rparr>"
proof -
  from assms obtain out1 r1 where d: "dispatch e rng r m = (Ok out1, r1)"
    by (auto simp: process_def split: prod.splits outcome.splits)
  consider (1) "public_shares_done r1" | (2) "\<not> public_shares_done r1" "can_dkg_end r1"
    | (3) "\<not> public_shares_done r1" "\<not> can_dkg_end r1" by blast
  then show ?thesis
  proof cases
    case 1
    with assms d show ?thesis
      by (intro public_end) (auto simp: process_def move_to_def can_move_to_def public_shares_done_def)
  next
    case 2
    with assms d obtain end_msg r2 where "dkg_ended e r1 = (Ok end_msg, r2)"
      by (auto simp: process_def split: prod.splits outcome.splits)
    with 2 assms d show ?thesis
      by (intro dkg_end) (auto simp: process_def move_to_def can_move_to_def)
  next
    case 3
    with assms d show ?thesis by (intro plain) (auto simp: process_def)
  qed
qed

lemma process_inv:
  assumes "process e rng r m = (Ok out, r')" and "round_inv r"
  shows "round_inv r'"
proof -
  have maps: "maps_inv r" and st: "rd_state r \<in> {Idle, DkgPublicGather, DkgPrivateDistribute, DkgPrivateGather}"
    using assms(2) by (simp_all add: round_inv_def maps_inv_def)
  from assms(1) show ?thesis
  proof (cases rule: process_Ok_cases)
    case plain
    with st dispatch_state [OF plain(1)] dispatch_maps_inv [OF plain(1) maps] show ?thesis
      by (auto simp: round_inv_def maps_inv_def)
  next
    case (public_end r1 out1)
    with dispatch_maps_inv [OF public_end(1) maps] show ?thesis
      by (simp add: round_inv_def maps_inv_def public_shares_done_def can_dkg_end_def)
  next
    case (dkg_end r1 out1 r2 end_msg)
    with dispatch_maps_inv [OF dkg_end(1) maps] show ?thesis
      by (auto simp: round_inv_def maps_inv_def public_shares_done_def can_dkg_end_def
          dest!: dkg_ended_frame)
  qed
qed

text \<open>
  The rounds a signer can be in: constructed by \<^verbatim>\<open>new\<close> or from a configuration, then driven by
  any messages in any order, each processed without an error (the signer's loop ends at the first
  one).
\<close>

inductive round_reachable ::
  "('fs, 'rng, 'id, 'pt, 'sc, 'pk) env \<Rightarrow> ('fs, 'id, 'pt, 'sc, 'pk) SigningRound \<Rightarrow> bool"
  for e where
  new: "SigningRound_new e rng th ts tk sid kids sk pks = Ok r \<Longrightarrow> round_reachable e r"
| from_config: "SigningRound_from e rng c sid = Ok r \<Longrightarrow> round_reachable e r"
| step: "round_reachable e r \<Longrightarrow> process e rng r m = (Ok out, r') \<Longrightarrow> round_reachable e r'"

lemma reachable_round_inv_aux:
  assumes "round_reachable e r"
  shows "round_inv r"
  using assms
proof (induction rule: round_reachable.induct)
  case (new rng th ts tk sid kids sk pks r)
  then show ?case
    by (auto simp: SigningRound_new_def round_inv_def public_shares_done_def can_dkg_end_def split: if_splits)
next
  case (from_config rng c sid r)
  then show ?case
    by (auto simp: SigningRound_from_def obind_Ok_iff Let_def round_inv_def public_shares_done_def
        can_dkg_end_def split: if_splits)
next
  case (step r rng m out r')
  then show ?case by (blast intro: process_inv)
qed

lemma reachable_maps_inv: "round_reachable e r \<Longrightarrow> maps_inv r"
  using reachable_round_inv_aux by (fastforce simp: round_inv_def maps_inv_def)

text \<open>
  C10. The state machine of a signer. Whatever messages arrive, in whatever order, a round at rest is
  idle, gathers public shares, waits for the private phase, or gathers private shares: the states
  \<^verbatim>\<open>SignGather\<close> and \<^verbatim>\<open>Signed\<close> are never entered, \<^verbatim>\<open>DkgPublicDistribute\<close> is only passed through,
  no phase is complete without having been announced, and the maps of commitments and shares hold
  at most one entry per key.
\<close>

theorem reachable_round_inv:
  assumes "round_reachable e r"
  shows "bt_sorted (rd_commitments r) \<and> hm_distinct (rd_shares r)
    \<and> rd_state r \<in> {Idle, DkgPublicGather, DkgPrivateDistribute, DkgPrivateGather}
    \<and> \<not> public_shares_done r \<and> \<not> can_dkg_end r"
  using reachable_round_inv_aux [OF assms] unfolding round_inv_def .

text \<open>A toy \<^verbatim>\<open>wsts\<close> for witnesses: the signer's state is its list of key ids, the share of a key is
  the key's number.\<close>

definition demo_ws :: "(u32 list, nat, u32, u8, nat) wsts" where
  "demo_ws = \<lparr>fs_new = (\<lambda>sid kids tk th rng. kids), fs_reset_polys = (\<lambda>rng fs. fs),
     fs_get_key_ids = (\<lambda>fs. fs), fs_gen_nonces = (\<lambda>rng fs. ([\<lparr>pn_D = 1, pn_E = 2\<rparr>], fs)),
     fs_sign = (\<lambda>m ids kids ns fs. (map (\<lambda>k. \<lparr>ss_id = k, ss_z_i = 7\<rparr>) fs, fs)),
     fs_get_poly_commitments = (\<lambda>rng fs. map (\<lambda>k. \<lparr>pc_id = k + 1, pc_A = [of_nat rng]\<rparr>) fs),
     fs_get_shares = (\<lambda>fs. map (\<lambda>k. (k, [(0, unat k), (1, unat k), (2, unat k)])) fs),
     fs_compute_secrets = (\<lambda>shares polys fs. (Ok (), fs)), id_get_u32 = (\<lambda>i. i)\<rparr>"

definition demo_env :: "(u32 list, nat, u32, u8, nat, nat) env" where
  "demo_env = \<lparr>ws = demo_ws, cry = demo_crypto, ciph = demo_cipher\<rparr>"

text \<open>The round of signer 1 of two, which holds keys 0 and 1 of three.\<close>

definition demo_round :: "States \<Rightarrow> (u32 list, u32, u8, nat, nat) SigningRound" where
  "demo_round st =
     \<lparr>rd_dkg_id = 0, rd_dkg_public_id = 0, rd_sign_id = 1, rd_sign_nonce_id = 1, rd_threshold = 2,
      rd_total_signers = 2, rd_total_keys = 3, rd_signer = \<lparr>frost_signer = [0, 1], signer_id = 1\<rparr>,
      rd_state = st, rd_commitments = [], rd_shares = [], rd_public_nonces = [],
      rd_network_private_key = 4, rd_public_keys = demo_keys\<rparr>"

lemmas demo_defs = demo_env_def demo_ws_def demo_crypto_def demo_cipher_def demo_keys_def

lemma demo_round_new: "SigningRound_new demo_env 0 2 2 3 1 [0, 1] 4 demo_keys = Ok (demo_round Idle)"
  by (simp add: SigningRound_new_def demo_round_def demo_env_def demo_ws_def)

theorem reachable_round_inv_witness:
  "round_reachable demo_env (demo_round Idle) \<and>
    (\<exists>r out. process demo_env 5 (demo_round Idle) (DkgBegin \<lparr>db_dkg_id = 1\<rparr>) = (Ok out, r)
      \<and> length out = 2 \<and> rd_state r = DkgPublicGather \<and> bt_sorted (rd_commitments r)
      \<and> \<not> public_shares_done r)"
proof
  show reach: "round_reachable demo_env (demo_round Idle)"
    by (rule round_reachable.new [OF demo_round_new])
  obtain r out where p: "process demo_env 5 (demo_round Idle) (DkgBegin \<lparr>db_dkg_id = 1\<rparr>) = (Ok out, r)"
    and "length out = 2" "rd_state r = DkgPublicGather"
    by (simp add: process_def dispatch_def round_defs demo_round_def demo_env_def demo_ws_def Let_def
        public_shares_done_def can_dkg_end_def)
  with reachable_round_inv [OF round_reachable.step [OF reach p]]
  show "\<exists>r out. process demo_env 5 (demo_round Idle) (DkgBegin \<lparr>db_dkg_id = 1\<rparr>) = (Ok out, r)
      \<and> length out = 2 \<and> rd_state r = DkgPublicGather \<and> bt_sorted (rd_commitments r)
      \<and> \<not> public_shares_done r" by blast
qed

section \<open>The public phase\<close>

text \<open>A signer's processing of a sequence of messages, each with the randomness it draws; the
  messages to send are collected.\<close>

fun process_all ::
  "('fs, 'rng, 'id, 'pt, 'sc, 'pk) env \<Rightarrow> ('fs, 'id, 'pt, 'sc, 'pk) SigningRound
    \<Rightarrow> ('rng \<times> ('id, 'pt, 'sc) MessageTypes) list
    \<Rightarrow> (round_error, ('id, 'pt, 'sc) MessageTypes list) outcome \<times> ('fs, 'id, 'pt, 'sc, 'pk) SigningRound" where
  "process_all e r [] = (Ok [], r)"
| "process_all e r ((rng, m) # ms) =
     (case process e rng r m of
        (Ok out, r1) \<Rightarrow> (case process_all e r1 ms of (res, r2) \<Rightarrow> (obind res (\<lambda>outs. Ok (out @ outs)), r2))
      | (Err er, r1) \<Rightarrow> (Err er, r1)
      | (Panic, r1) \<Rightarrow> (Panic, r1))"

abbreviation add_public where
  "add_public ss r \<equiv> r\<lparr>rd_commitments :=
     fold (\<lambda>(k, v). bt_insert k v) (map (\<lambda>s. (dps_party_id s, dps_public_share s)) ss) (rd_commitments r)\<rparr>"

lemma process_public_share_gather:
  assumes "rd_state r = DkgPublicGather"
  shows "process e rng r (DkgPublicShare s) =
    (if length (bt_insert (dps_party_id s) (dps_public_share s) (rd_commitments r)) = unat (rd_total_keys r)
     then (Ok [dkg_public_ended r], (add_public [s] r)\<lparr>rd_state := DkgPrivateDistribute\<rparr>)
     else (Ok [], add_public [s] r))"
  using assms
  by (simp add: process_def dispatch_def round_public_share_def public_shares_done_def
      can_dkg_end_def move_to_def can_move_to_def dkg_public_ended_def Let_def)

lemma process_all_after_public:
  assumes "rd_state r = DkgPrivateDistribute"
  shows "process_all e r (map (\<lambda>(g, s). (g, DkgPublicShare s)) ss) = (Ok [], add_public (map snd ss) r)"
  using assms
proof (induction ss arbitrary: r)
  case (Cons gs ss)
  have "process e (fst gs) r (DkgPublicShare (snd gs)) = (Ok [], add_public [snd gs] r)"
    using Cons.prems
    by (simp add: process_def dispatch_def round_public_share_def public_shares_done_def can_dkg_end_def)
  with Cons show ?case by (cases gs) simp
qed simp

lemma process_all_gather_public:
  assumes "rd_state r = DkgPublicGather" and "bt_sorted (rd_commitments r)"
    and "finite S" and "card S = unat (rd_total_keys r)"
    and "fst ` set (rd_commitments r) \<subset> S" and "dps_party_id ` snd ` set ss \<subseteq> S"
  shows "process_all e r (map (\<lambda>(g, s). (g, DkgPublicShare s)) ss) =
    (if fst ` set (rd_commitments r) \<union> dps_party_id ` snd ` set ss = S
     then (Ok [dkg_public_ended r], (add_public (map snd ss) r)\<lparr>rd_state := DkgPrivateDistribute\<rparr>)
     else (Ok [], add_public (map snd ss) r))"
  using assms
proof (induction ss arbitrary: r)
  case Nil
  then show ?case by auto
next
  case (Cons gs ss)
  let ?r1 = "add_public [snd gs] r"
  let ?C1 = "fst ` set (rd_commitments ?r1)"
  have keys: "?C1 = insert (dps_party_id (snd gs)) (fst ` set (rd_commitments r))"
    by (simp add: bt_fst_insert)
  have sorted: "bt_sorted (rd_commitments ?r1)" using Cons.prems(2) by simp
  have sub: "?C1 \<subseteq> S" using Cons.prems(5,6) keys by auto
  have size: "length (rd_commitments ?r1) = card ?C1"
    by (rule bt_size [OF sorted])
  have total: "length (rd_commitments ?r1) = unat (rd_total_keys r) \<longleftrightarrow> ?C1 = S"
    unfolding size Cons.prems(4) [symmetric]
    by (rule iffI, erule card_subset_eq [OF Cons.prems(3) sub], erule arg_cong)
  have step: "process e (fst gs) r (DkgPublicShare (snd gs)) =
    (if ?C1 = S then (Ok [dkg_public_ended r], ?r1\<lparr>rd_state := DkgPrivateDistribute\<rparr>) else (Ok [], ?r1))"
    using process_public_share_gather [OF Cons.prems(1), of e "fst gs" "snd gs"] total by simp
  show ?case
  proof (cases "?C1 = S")
    case True
    then have "fst ` set (rd_commitments r) \<union> dps_party_id ` snd ` set (gs # ss) = S"
      using keys Cons.prems(6) by auto
    with True step show ?thesis
      by (cases gs) (simp add: process_all_after_public)
  next
    case False
    have "process_all e ?r1 (map (\<lambda>(g, s). (g, DkgPublicShare s)) ss) =
      (if ?C1 \<union> dps_party_id ` snd ` set ss = S
       then (Ok [dkg_public_ended ?r1], (add_public (map snd ss) ?r1)\<lparr>rd_state := DkgPrivateDistribute\<rparr>)
       else (Ok [], add_public (map snd ss) ?r1))"
    proof (rule Cons.IH [OF _ sorted Cons.prems(3)])
      show "?C1 \<subset> S" using False sub by (rule psubsetI [rotated])
      show "dps_party_id ` snd ` set ss \<subseteq> S" using Cons.prems(6) by simp
    qed (simp_all add: Cons.prems(1,4))
    moreover have "?C1 \<union> dps_party_id ` snd ` set ss
        = fst ` set (rd_commitments r) \<union> dps_party_id ` snd ` set (gs # ss)"
      using keys by auto
    ultimately show ?thesis
      using step False by (cases gs) (simp add: dkg_public_ended_def)
  qed
qed

text \<open>
  C29. The public phase ends exactly once, when it should. A signer that has begun the phase
  receives public shares in any order, with any repetitions, for keys of a set \<open>S\<close> of \<open>total_keys\<close>
  ids. It sends nothing until the last id of \<open>S\<close> has been seen; then it sends one \<^verbatim>\<open>DkgPublicEnd\<close>
  and moves to the private phase, and later repetitions are stored in silence. It holds the last
  share received for each key.
\<close>

theorem dkg_public_phase:
  assumes "rd_state r = DkgPublicGather" and "rd_commitments r = []"
    and "finite S" and "S \<noteq> {}" and "card S = unat (rd_total_keys r)"
    and "dps_party_id ` snd ` set ss \<subseteq> S"
  shows "process_all e r (map (\<lambda>(g, s). (g, DkgPublicShare s)) ss) =
    (if dps_party_id ` snd ` set ss = S
     then (Ok [dkg_public_ended r], (add_public (map snd ss) r)\<lparr>rd_state := DkgPrivateDistribute\<rparr>)
     else (Ok [], add_public (map snd ss) r))"
  using process_all_gather_public [of r S ss e] assms by (simp add: psubset_eq eq_commute [of "{}"])

definition demo_public_share :: "u32 \<Rightarrow> u8 \<Rightarrow> (u32, u8) DkgPublicShare" where
  "demo_public_share k p = \<lparr>dps_dkg_id = 1, dps_dkg_public_id = 0, dps_party_id = k,
     dps_public_share = \<lparr>pc_id = k, pc_A = [p]\<rparr>\<rparr>"

theorem dkg_public_phase_witness:
  "fst (process_all demo_env (demo_round DkgPublicGather)
     (map (\<lambda>(g, s). (g, DkgPublicShare s))
       [(0, demo_public_share 3 9), (0, demo_public_share 1 8), (0, demo_public_share 3 7),
        (0, demo_public_share 2 6), (0, demo_public_share 1 5)]))
   = Ok [DkgPublicEnd \<lparr>de_dkg_id = 0, de_signer_id = 1, de_status = Success\<rparr>]"
proof -
  let ?ss = "[(0, demo_public_share 3 9), (0, demo_public_share 1 8), (0, demo_public_share 3 7),
        (0, demo_public_share 2 6), (0, demo_public_share 1 5)] :: (nat \<times> (u32, u8) DkgPublicShare) list"
  have ids: "dps_party_id ` snd ` set ?ss = {1, 2, 3}"
    by (auto simp: demo_public_share_def)
  have "fst (process_all demo_env (demo_round DkgPublicGather) (map (\<lambda>(g, s). (g, DkgPublicShare s)) ?ss))
      = Ok [dkg_public_ended (demo_round DkgPublicGather)]"
    by (subst dkg_public_phase [where S = "{1, 2, 3}"]) (simp_all only: ids, simp_all add: demo_round_def)
  then show ?thesis
    by (simp only: dkg_public_ended_def) (simp add: demo_round_def)
qed

section \<open>The private phase\<close>

text \<open>The secret in one encrypted share, when the signer can open it.\<close>

definition sender_point ::
  "('fs, 'rng, 'id, 'pt, 'sc, 'pk) env \<Rightarrow> ('fs, 'id, 'pt, 'sc, 'pk) SigningRound \<Rightarrow> u32 \<Rightarrow> 'pt option" where
  "sender_point e r src = Option.bind (map_of (key_ids (rd_public_keys r)) (src + 1)) (point_of_key (ciph e))"

definition open_share ::
  "('fs, 'rng, 'id, 'pt, 'sc, 'pk) env \<Rightarrow> ('fs, 'id, 'pt, 'sc, 'pk) SigningRound \<Rightarrow> u32 \<Rightarrow> bytes \<Rightarrow> 'sc option" where
  "open_share e r src c =
     Option.bind (sender_point e r src) (\<lambda>point.
       case decrypt (ciph e) (make_shared_secret (cry e) (ciph e) (rd_network_private_key r) point) c of
         Ok plain \<Rightarrow> scalar_from_bytes (ciph e) plain
       | Err u \<Rightarrow> None
       | Panic \<Rightarrow> None)"

lemma decrypt_from_step:
  assumes "sender_point e r src \<noteq> None"
  shows "decrypt_from e r src ((dst, c) # rest) acc invalid =
    (if dst \<in> set (round_key_ids e r) then
       if length c < AES_GCM_NONCE_SIZE then Panic
       else case open_share e r src c of
              Some s \<Rightarrow> decrypt_from e r src rest (hm_insert dst s acc) invalid
            | None \<Rightarrow> decrypt_from e r src rest acc (invalid @ [src])
     else decrypt_from e r src rest (hm_insert dst (scalar_zero (ciph e)) acc) invalid)"
proof -
  from assms obtain pk pt where "map_of (key_ids (rd_public_keys r)) (src + 1) = Some pk"
    and "point_of_key (ciph e) pk = Some pt"
    by (auto simp: sender_point_def bind_eq_Some_conv)
  then show ?thesis
    by (cases "aes_decrypt (ciph e) (make_shared_secret (cry e) (ciph e) (rd_network_private_key r) pt)
          (take AES_GCM_NONCE_SIZE c) (drop AES_GCM_NONCE_SIZE c)")
      (simp_all add: sender_point_def open_share_def decrypt_def)
qed

lemma decrypt_from_registered:
  assumes "decrypt_from e r src enc acc invalid = Ok res" and "(dst, c) \<in> set enc"
    and "dst \<in> set (round_key_ids e r)"
  shows "sender_point e r src \<noteq> None"
  using assms
  by (induction e r src enc acc invalid rule: decrypt_from.induct)
    (auto simp: sender_point_def split: if_splits option.splits outcome.splits)

text \<open>Opened shares and invalid senders: nothing is invalid exactly when every share for an own
  key opens.\<close>

lemma decrypt_from_invalid_kept:
  "decrypt_from e r src enc acc invalid = Ok (m, []) \<Longrightarrow> invalid = []"
proof (induction enc arbitrary: acc invalid)
  case (Cons dc enc)
  from Cons.prems show ?case
    by (cases dc) (auto split: if_splits option.splits outcome.splits dest!: Cons.IH)
qed simp

lemma decrypt_all_invalid_kept:
  "decrypt_all e r shs acc invalid = Ok (m, []) \<Longrightarrow> invalid = []"
proof (induction shs arbitrary: acc invalid)
  case (Cons se shs)
  then show ?case by (cases se) (auto simp: obind_Ok_iff dest!: decrypt_from_invalid_kept)
qed simp

lemma decrypt_from_all_open:
  assumes "decrypt_from e r src enc acc invalid = Ok (m, [])" and "(dst, c) \<in> set enc"
    and "dst \<in> set (round_key_ids e r)"
  shows "open_share e r src c \<noteq> None"
  using assms
proof (induction enc arbitrary: acc invalid)
  case (Cons dc enc)
  have reg: "sender_point e r src \<noteq> None"
    by (rule decrypt_from_registered [OF Cons.prems])
  with Cons show ?case
    by (cases dc)
      (auto simp: decrypt_from_step simp del: decrypt_from.simps split: if_splits option.splits
        dest: decrypt_from_invalid_kept)
qed simp

lemma decrypt_all_open:
  assumes "decrypt_all e r shs acc invalid = Ok (m, [])" and "(src, enc) \<in> set shs"
    and "(dst, c) \<in> set enc" and "dst \<in> set (round_key_ids e r)"
  shows "open_share e r src c \<noteq> None"
  using assms
proof (induction shs arbitrary: acc invalid)
  case (Cons se shs)
  obtain src' enc' where [simp]: "se = (src', enc')" by (cases se)
  from Cons.prems(1) obtain m1 inv1 where first: "decrypt_from e r src' enc' [] invalid = Ok (m1, inv1)"
    and rest: "decrypt_all e r shs (hm_insert src' m1 acc) inv1 = Ok (m, [])"
    by (auto simp: obind_Ok_iff)
  have "inv1 = []" by (rule decrypt_all_invalid_kept [OF rest])
  with Cons.prems first Cons.IH [OF rest] show ?case
    by (auto dest!: decrypt_from_all_open)
qed simp

lemma private_share_msgs_kind:
  "private_share_msgs e r rng shs = Ok msgs \<Longrightarrow> x \<in> set msgs \<Longrightarrow> \<exists>p. x = DkgPrivateShares p"
  by (induction e r rng shs arbitrary: msgs rule: private_share_msgs.induct)
    (auto simp: obind_Ok_iff split: prod.splits outcome.splits)

lemma sign_share_loop_kind:
  "sign_share_loop e q sids r = (msgs, r') \<Longrightarrow> x \<in> set msgs \<Longrightarrow> \<exists>p. x = SignShareResponse p"
  by (induction e q sids r arbitrary: msgs r' rule: sign_share_loop.induct)
    (auto simp: Let_def split: prod.splits if_splits)

text \<open>No handler announces the end of the key generation by itself.\<close>

lemma dispatch_no_end:
  assumes "dispatch e rng r m = (Ok out, r1)"
  shows "DkgEnd d \<notin> set out"
  using assms
  by (cases m)
    (auto simp: dispatch_def round_defs Let_def obind_Ok_iff dest!: private_share_msgs_kind sign_share_loop_kind
      split: if_splits prod.splits outcome.splits)

lemma dkg_ended_Success:
  assumes "dkg_ended e r = (Ok (DkgEnd d), r')" and "de_status d = Success"
  obtains decrypted where "decrypt_all e r (rd_shares r) [] [] = Ok (decrypted, [])"
    and "fs_compute_secrets (ws e) decrypted (map snd (rd_commitments r)) (frost_signer (rd_signer r))
      = (Ok (), frost_signer (rd_signer r'))"
    and "d = \<lparr>de_dkg_id = rd_dkg_id r, de_signer_id = signer_id (rd_signer r), de_status = Success\<rparr>"
  using assms
  by (auto simp: dkg_ended_def Let_def split: outcome.splits prod.splits if_splits)

lemma open_share_update [simp]:
  "open_share e (r\<lparr>rd_signer := s\<rparr>) = open_share e r" "open_share e (r\<lparr>rd_state := st\<rparr>) = open_share e r"
  by (simp_all add: open_share_def sender_point_def fun_eq_iff)


text \<open>A signer alone with one key, driven to the private phase.\<close>

definition solo_round :: "States \<Rightarrow> (u32 \<times> (u32, u8) PolyCommitment) list
    \<Rightarrow> (u32 list, u32, u8, nat, nat) SigningRound" where
  "solo_round st comms = (demo_round st)\<lparr>rd_dkg_id := (if st = Idle then 0 else 1), rd_threshold := 1,
     rd_total_signers := 1, rd_total_keys := 1, rd_signer := \<lparr>frost_signer = [0], signer_id = 1\<rparr>,
     rd_commitments := comms\<rparr>"

lemma solo_round_new: "SigningRound_new demo_env 0 1 1 1 1 [0] 4 demo_keys = Ok (solo_round Idle [])"
  by (simp add: SigningRound_new_def solo_round_def demo_round_def demo_env_def demo_ws_def)

lemma solo_begin: "\<exists>out. process demo_env 0 (solo_round Idle []) (DkgBegin \<lparr>db_dkg_id = 1\<rparr>)
    = (Ok out, solo_round DkgPublicGather [])"
  by (simp add: process_def dispatch_def round_defs Let_def public_shares_done_def can_dkg_end_def
      solo_round_def demo_round_def demo_env_def demo_ws_def)

lemma solo_public: "\<exists>out. process demo_env 0 (solo_round DkgPublicGather []) (DkgPublicShare (demo_public_share 1 9))
    = (Ok out, solo_round DkgPrivateDistribute [(1, \<lparr>pc_id = 1, pc_A = [9]\<rparr>)])"
  by (simp add: process_def dispatch_def round_defs Let_def public_shares_done_def
      solo_round_def demo_round_def demo_public_share_def)

lemma solo_private: "\<exists>out. process demo_env 0 (solo_round DkgPrivateDistribute [(1, \<lparr>pc_id = 1, pc_A = [9]\<rparr>)])
      (DkgPrivateBegin \<lparr>db_dkg_id = 1\<rparr>)
    = (Ok out, solo_round DkgPrivateGather [(1, \<lparr>pc_id = 1, pc_A = [9]\<rparr>)])"
  by (simp add: process_def dispatch_def round_defs Let_def public_shares_done_def can_dkg_end_def
      solo_round_def demo_round_def demo_defs encrypt_def)

lemma solo_reachable: "round_reachable demo_env (solo_round DkgPrivateGather [(1, \<lparr>pc_id = 1, pc_A = [9]\<rparr>)])"
  using solo_begin solo_public solo_private
  by (meson round_reachable.new [OF solo_round_new] round_reachable.step)

definition solo_share :: DkgPrivateShares where
  "solo_share = \<lparr>dpv_dkg_id = 1, dpv_key_id = 0,
     dpv_private_shares = [(0, replicate 12 0 @ make_shared_secret demo_crypto demo_cipher 4 4 @ [9])]\<rparr>"

lemma solo_end: "process demo_env 0 (solo_round DkgPrivateGather [(1, \<lparr>pc_id = 1, pc_A = [9]\<rparr>)])
      (DkgPrivateShares solo_share)
    = (Ok [DkgEnd \<lparr>de_dkg_id = 1, de_signer_id = 1, de_status = Success\<rparr>],
       (solo_round DkgPrivateGather [(1, \<lparr>pc_id = 1, pc_A = [9]\<rparr>)])
         \<lparr>rd_state := Idle, rd_shares := [(0, dpv_private_shares solo_share)]\<rparr>)"
  by (simp add: process_def dispatch_def round_defs Let_def public_shares_done_def can_dkg_end_def
      dkg_ended_def decrypt_def AES_GCM_NONCE_SIZE_def round_key_ids_def
      solo_round_def demo_round_def solo_share_def demo_env_def demo_ws_def demo_cipher_def demo_keys_def)


text \<open>Where the decryption loops panic.\<close>

lemma decrypt_from_Panic_iff:
  assumes "sender_point e r src \<noteq> None"
  shows "decrypt_from e r src enc acc invalid = Panic \<longleftrightarrow>
    (\<exists>(dst, c) \<in> set enc. dst \<in> set (round_key_ids e r) \<and> length c < AES_GCM_NONCE_SIZE)"
proof (induction enc arbitrary: acc invalid)
  case (Cons dc enc)
  with assms show ?case
    by (cases dc) (auto simp: decrypt_from_step simp del: decrypt_from.simps split: option.splits)
qed simp

lemma decrypt_from_not_Err: "decrypt_from e r src enc acc invalid \<noteq> Err er"
proof (induction enc arbitrary: acc invalid)
  case (Cons dc enc)
  then show ?case by (cases dc) (auto split: option.splits outcome.splits)
qed simp

lemma decrypt_all_Panic_iff:
  assumes "\<forall>(src, enc) \<in> set shs. sender_point e r src \<noteq> None"
  shows "decrypt_all e r shs acc invalid = Panic \<longleftrightarrow>
    (\<exists>(src, enc) \<in> set shs. \<exists>(dst, c) \<in> set enc.
       dst \<in> set (round_key_ids e r) \<and> length c < AES_GCM_NONCE_SIZE)"
  using assms
proof (induction shs arbitrary: acc invalid)
  case (Cons se shs)
  obtain src enc where [simp]: "se = (src, enc)" by (cases se)
  have reg: "sender_point e r src \<noteq> None" using Cons.prems by simp
  show ?case
  proof (cases "decrypt_from e r src enc [] invalid")
    case (Ok mi)
    obtain m i where [simp]: "mi = (m, i)" by (cases mi)
    have "\<not> (\<exists>(dst, c) \<in> set enc. dst \<in> set (round_key_ids e r) \<and> length c < AES_GCM_NONCE_SIZE)"
      using decrypt_from_Panic_iff [OF reg, of enc "[]" invalid] Ok by simp
    with Ok Cons show ?thesis by (auto simp: split_beta)
  next
    case (Err u)
    then show ?thesis by (simp add: decrypt_from_not_Err)
  next
    case Panic
    then show ?thesis using decrypt_from_Panic_iff [OF reg, of enc "[]" invalid] by auto
  qed
qed simp

lemma decrypt_all_not_Err: "decrypt_all e r shs acc invalid \<noteq> Err er"
proof (induction shs arbitrary: acc invalid)
  case (Cons se shs)
  then show ?case
    by (cases se; cases "decrypt_from e r (fst se) (snd se) [] invalid")
      (auto simp: decrypt_from_not_Err split: prod.splits)
qed simp

text \<open>
  When finishing the key generation takes the signer down. Let every sender's key be registered
  and let \<^verbatim>\<open>compute_secrets\<close> return. Then \<^verbatim>\<open>dkg_ended\<close> returns a \<^verbatim>\<open>DkgEnd\<close> of its own round, a
  success or a failure, except in one case: some sender has sent, for one of this signer's keys, an
  encrypted share shorter than a nonce. In that case, and only then, it panics.
\<close>

theorem dkg_ended_panics_iff:
  assumes "\<forall>(src, enc) \<in> set (rd_shares r). sender_point e r src \<noteq> None"
    and "\<forall>shares polys fs. fst (fs_compute_secrets (ws e) shares polys fs) \<noteq> Panic"
  shows "if \<exists>(src, enc) \<in> set (rd_shares r). \<exists>(dst, c) \<in> set enc.
            dst \<in> set (round_key_ids e r) \<and> length c < AES_GCM_NONCE_SIZE
         then fst (dkg_ended e r) = Panic
         else \<exists>status. fst (dkg_ended e r) = Ok (DkgEnd \<lparr>de_dkg_id = rd_dkg_id r,
                de_signer_id = signer_id (rd_signer r), de_status = status\<rparr>)"
proof (cases "decrypt_all e r (rd_shares r) [] []")
  case (Ok di)
  obtain decrypted invalid where [simp]: "di = (decrypted, invalid)" by (cases di)
  have "fst (fs_compute_secrets (ws e) decrypted (map snd (rd_commitments r)) (frost_signer (rd_signer r)))
      \<noteq> Panic" using assms(2) by blast
  with Ok decrypt_all_Panic_iff [OF assms(1), of "[]" "[]"] show ?thesis
    by (auto simp: dkg_ended_def Let_def split: prod.splits outcome.splits)
next
  case (Err u)
  then show ?thesis by (simp add: decrypt_all_not_Err)
next
  case Panic
  with decrypt_all_Panic_iff [OF assms(1), of "[]" "[]"] show ?thesis by (simp add: dkg_ended_def)
qed

theorem dkg_ended_panics_iff_witness:
  "fst (dkg_ended demo_env ((solo_round DkgPrivateGather [])\<lparr>rd_shares := [(0, [(0, [1, 2, 3])])]\<rparr>)) = Panic"
  using dkg_ended_panics_iff [of "(solo_round DkgPrivateGather [])\<lparr>rd_shares := [(0, [(0, [1, 2, 3])])]\<rparr>" demo_env]
  by (simp add: solo_round_def demo_round_def sender_point_def round_key_ids_def demo_defs AES_GCM_NONCE_SIZE_def)

text \<open>
  Starting a key generation over. A \<^verbatim>\<open>DkgBegin\<close> restarts a round that is idle, gathers public
  shares or waits for the private phase: the signer announces one public share per polynomial and
  gathers again from nothing. While private shares are gathered it is refused with
  \<^verbatim>\<open>BadStateChange\<close>, which ends the signer's loop. Either way the commitments, the shares and the
  polynomials of the previous round are gone by then.
\<close>

theorem dkg_begin_outcome:
  assumes "round_reachable e r" and "0 < rd_total_keys r"
  shows "case process e rng r (DkgBegin b) of (res, r') \<Rightarrow>
    rd_commitments r' = [] \<and> rd_shares r' = [] \<and> rd_dkg_id r' = db_dkg_id b
    \<and> frost_signer (rd_signer r') = fs_reset_polys (ws e) rng (frost_signer (rd_signer r))
    \<and> (if rd_state r = DkgPrivateGather
       then res = Err (StateMachineError (BadStateChange DkgPrivateGather DkgPublicDistribute))
            \<and> rd_state r' = DkgPrivateGather
       else \<exists>out. res = Ok out \<and> rd_state r' = DkgPublicGather
            \<and> length out = length (fs_get_poly_commitments (ws e) rng (frost_signer (rd_signer r'))))"
proof -
  have "rd_state r \<in> {Idle, DkgPublicGather, DkgPrivateDistribute, DkgPrivateGather}"
    using reachable_round_inv_aux [OF assms(1)] by (simp add: round_inv_def)
  moreover have "unat (rd_total_keys r) \<noteq> 0" using assms(2) by (simp add: unat_eq_zero word_neq_0_conv)
  ultimately show ?thesis
    by (auto simp: process_def dispatch_def round_defs Let_def public_shares_done_def can_dkg_end_def)
qed

theorem dkg_begin_outcome_witness:
  "fst (process demo_env 3 (solo_round DkgPrivateGather [(1, \<lparr>pc_id = 1, pc_A = [9]\<rparr>)]) (DkgBegin \<lparr>db_dkg_id = 2\<rparr>))
     = Err (StateMachineError (BadStateChange DkgPrivateGather DkgPublicDistribute))"
proof -
  have "0 < rd_total_keys (solo_round DkgPrivateGather [(1, \<lparr>pc_id = 1, pc_A = [9]\<rparr>)])"
    and "rd_state (solo_round DkgPrivateGather [(1, \<lparr>pc_id = 1, pc_A = [9]\<rparr>)]) = DkgPrivateGather"
    by (simp_all add: solo_round_def demo_round_def)
  with dkg_begin_outcome [OF solo_reachable, where rng = 3 and b = "\<lparr>db_dkg_id = 2\<rparr>"] show ?thesis
    by (simp add: case_prod_beta)
qed

section \<open>Shares travel intact\<close>

text \<open>An encrypted share belongs to a plain one when whoever shares the secret decrypts it to that.\<close>

definition sealed ::
  "('fs, 'rng, 'id, 'pt, 'sc, 'pk) env \<Rightarrow> 'sc \<Rightarrow> 'pk PublicKeys \<Rightarrow> u32 \<times> 'sc \<Rightarrow> u32 \<times> bytes \<Rightarrow> bool" where
  "sealed e x pks ds dc \<longleftrightarrow> fst ds = fst dc \<and>
     (\<exists>pt. Option.bind (map_of (key_ids pks) (fst ds + 1)) (point_of_key (ciph e)) = Some pt
        \<and> decrypt (ciph e) (make_shared_secret (cry e) (ciph e) x pt) (snd dc) = Ok (scalar_bytes (cry e) (snd ds)))"

lemma encrypt_shares_sealed:
  assumes "aead_correct (ciph e)" and "encrypt_shares e x pks rng shs acc = (Ok enc, rng')"
    and "distinct (map fst shs)" and "fst ` set shs \<inter> fst ` set acc = {}"
  shows "\<exists>new. enc = acc @ new \<and> list_all2 (sealed e x pks) shs new"
  using assms(2-)
proof (induction shs arbitrary: acc rng)
  case (Cons ds shs)
  obtain dst s where [simp]: "ds = (dst, s)" by (cases ds)
  from Cons.prems(1) obtain pk pt c rng1 where pk: "map_of (key_ids pks) (dst + 1) = Some pk"
    and pt: "point_of_key (ciph e) pk = Some pt"
    and c: "encrypt (ciph e) (make_shared_secret (cry e) (ciph e) x pt) (scalar_bytes (cry e) s) rng = (Ok c, rng1)"
    and rest: "encrypt_shares e x pks rng1 shs (hm_insert dst c acc) = (Ok enc, rng')"
    by (auto split: option.splits prod.splits outcome.splits)
  have "dst \<notin> fst ` set acc" using Cons.prems(3) by auto
  then have ins: "hm_insert dst c acc = acc @ [(dst, c)]" by (rule hm_insert_fresh)
  have disj: "fst ` set shs \<inter> fst ` set (acc @ [(dst, c)]) = {}" and dist: "distinct (map fst shs)"
    using Cons.prems(2,3) by auto
  from Cons.IH [OF rest [unfolded ins] dist disj] obtain new
    where new: "enc = (acc @ [(dst, c)]) @ new" "list_all2 (sealed e x pks) shs new" by blast
  have "sealed e x pks (dst, s) (dst, c)"
    using pk pt decrypt_encrypt [OF assms(1), where c = c and rng = rng] c by (simp add: sealed_def)
  with new show ?case by (intro exI [of _ "(dst, c) # new"]) simp
qed simp

lemma decrypt_from_sealed:
  assumes dh: "dh_commutes (ciph e) G"
    and codec: "\<forall>s. scalar_from_bytes (ciph e) (scalar_bytes (cry e) s) = Some s"
    and src: "sender_point e r src = Some (G x)"
    and mine: "\<forall>d \<in> set (round_key_ids e r).
      Option.bind (map_of (key_ids pks) (d + 1)) (point_of_key (ciph e)) = Some (G (rd_network_private_key r))"
    and "list_all2 (sealed e x pks) shs enc"
    and "distinct (map fst shs)" and "fst ` set shs \<inter> fst ` set acc = {}"
  shows "decrypt_from e r src enc acc [] =
    Ok (acc @ map (\<lambda>(d, s). (d, if d \<in> set (round_key_ids e r) then s else scalar_zero (ciph e))) shs, [])"
  using assms(5-)
proof (induction shs enc arbitrary: acc rule: list_all2_induct)
  case (Cons ds shs dc enc)
  obtain d s c where [simp]: "ds = (d, s)" "dc = (d, c)"
    using Cons.hyps(1) by (cases ds; cases dc) (auto simp: sealed_def)
  have ins: "hm_insert d v acc = acc @ [(d, v)]" for v
    using Cons.prems(2) by (intro hm_insert_fresh) auto
  have IH: "decrypt_from e r src enc (acc @ [(d, v)]) [] = Ok ((acc @ [(d, v)]) @
      map (\<lambda>(d, s). (d, if d \<in> set (round_key_ids e r) then s else scalar_zero (ciph e))) shs, [])" for v
    using Cons.prems by (intro Cons.IH) auto
  show ?case
  proof (cases "d \<in> set (round_key_ids e r)")
    case True
    let ?y = "rd_network_private_key r"
    have same: "make_shared_secret (cry e) (ciph e) x (G ?y) = make_shared_secret (cry e) (ciph e) ?y (G x)"
      using dh by (simp add: make_shared_secret_def dh_commutes_def)
    have dec: "decrypt (ciph e) (make_shared_secret (cry e) (ciph e) ?y (G x)) c = Ok (scalar_bytes (cry e) s)"
      using Cons.hyps(1) mine True unfolding sealed_def same [symmetric] by auto
    then have "open_share e r src c = Some s" using codec src by (simp add: open_share_def)
    moreover have "\<not> length c < AES_GCM_NONCE_SIZE" using dec by (auto simp: decrypt_def)
    ultimately show ?thesis
      using True src IH [of s] by (simp add: decrypt_from_step ins del: decrypt_from.simps)
  next
    case False
    then show ?thesis using IH by (simp add: ins)
  qed
qed simp

text \<open>
  C30. Private shares travel intact. A signer with private key \<open>x\<close> encrypts its shares, one per key,
  for the owners of the keys; a receiver that has the sender's point registered decrypts them. Given
  that Diffie-Hellman commutes, that the cipher and the scalar codec round-trip, and that the sender
  knows the receiver's keys, the receiver ends up with exactly the shares meant for its own keys,
  a zero for every other key, and nobody marked invalid.
\<close>

theorem private_shares_delivered:
  assumes "dh_commutes (ciph e) G" and "aead_correct (ciph e)"
    and "\<forall>s. scalar_from_bytes (ciph e) (scalar_bytes (cry e) s) = Some s"
    and "distinct (map fst shs)"
    and "encrypt_shares e x pks rng shs [] = (Ok enc, rng')"
    and "sender_point e r src = Some (G x)"
    and "\<forall>d \<in> set (round_key_ids e r).
      Option.bind (map_of (key_ids pks) (d + 1)) (point_of_key (ciph e)) = Some (G (rd_network_private_key r))"
  shows "decrypt_from e r src enc [] [] =
    Ok (map (\<lambda>(d, s). (d, if d \<in> set (round_key_ids e r) then s else scalar_zero (ciph e))) shs, [])"
proof -
  from encrypt_shares_sealed [OF assms(2,5,4)] have "list_all2 (sealed e x pks) shs enc" by simp
  from decrypt_from_sealed [OF assms(1,3,6,7) this assms(4), of "[]"] show ?thesis by simp
qed

definition unary_env :: "(u32 list, nat, u32, u8, nat, nat) env" where
  "unary_env = \<lparr>ws = demo_ws, cry = demo_crypto\<lparr>scalar_bytes := \<lambda>n. replicate n 0\<rparr>,
     ciph = demo_cipher\<lparr>scalar_from_bytes := \<lambda>bs. Some (length bs)\<rparr>\<rparr>"

theorem private_shares_delivered_witness:
  "\<exists>enc. fst (encrypt_shares unary_env 6 demo_keys 0 [(0, 11), (1, 12), (2, 13)] []) = Ok enc
    \<and> decrypt_from unary_env (demo_round DkgPrivateGather) 2 enc [] [] = Ok ([(0, 11), (1, 12), (2, 0)], [])"
proof -
  obtain enc rng' where enc: "encrypt_shares unary_env 6 demo_keys 0 [(0, 11), (1, 12), (2, 13)] [] = (Ok enc, rng')"
    by (simp add: unary_env_def encrypt_def demo_cipher_def demo_keys_def)
  have dh: "dh_commutes (ciph unary_env) of_nat"
    using demo_dh by (simp add: unary_env_def dh_commutes_def)
  have aead: "aead_correct (ciph unary_env)"
    using demo_aead by (simp add: unary_env_def aead_correct_def)
  have codec: "\<forall>s. scalar_from_bytes (ciph unary_env) (scalar_bytes (cry unary_env) s) = Some s"
    by (simp add: unary_env_def)
  have src: "sender_point unary_env (demo_round DkgPrivateGather) 2 = Some (of_nat 6)"
    by (simp add: sender_point_def unary_env_def demo_round_def demo_keys_def demo_cipher_def)
  have "decrypt_from unary_env (demo_round DkgPrivateGather) 2 enc [] [] = Ok ([(0, 11), (1, 12), (2, 0)], [])"
    by (subst private_shares_delivered [OF dh aead codec _ enc src])
      (simp_all add: unary_env_def demo_round_def round_key_ids_def demo_keys_def demo_cipher_def demo_ws_def)
  with enc show ?thesis by simp
qed

section \<open>Signing\<close>

lemma sign_share_loop_answers:
  assumes "sign_share_loop e q sids r = (msgs, r')"
  shows "length msgs = count_list sids (signer_id (rd_signer r))
    \<and> (\<forall>x \<in> set msgs. \<exists>shares. x = SignShareResponse \<lparr>sr_dkg_id = sq_dkg_id q, sr_sign_id = sq_sign_id q,
         sr_correlation_id = sq_correlation_id q, sr_signer_id = signer_id (rd_signer r),
         sr_signature_shares = shares\<rparr>)"
  using assms
proof (induction sids arbitrary: r msgs)
  case (Cons sid sids)
  from Cons.prems show ?case
    by (auto simp: Let_def split: if_splits prod.splits dest!: Cons.IH)
qed simp

text \<open>
  C31. Who answers a signature share request. The request is answered once per nonce response that
  carries this signer's id, and not at all when none does; every answer echoes the ids of the
  request and carries the signer's own id. The round's state and its key-generation data stay as
  they are. A nonce request is answered once, with the ids of the request, the signer's id and its
  key ids.
\<close>

theorem signing_requests_answered:
  "(case sign_share_request e r q of (res, r') \<Rightarrow>
     (\<exists>msgs. res = Ok msgs
        \<and> length msgs = count_list (map nr_signer_id (sq_nonce_responses q)) (signer_id (rd_signer r))
        \<and> (\<forall>x. x \<in> set msgs \<longrightarrow> (\<exists>shares. x = SignShareResponse \<lparr>sr_dkg_id = sq_dkg_id q,
             sr_sign_id = sq_sign_id q, sr_correlation_id = sq_correlation_id q,
             sr_signer_id = signer_id (rd_signer r), sr_signature_shares = shares\<rparr>)))
     \<and> (\<exists>fs. r' = r\<lparr>rd_signer := (rd_signer r)\<lparr>frost_signer := fs\<rparr>\<rparr>))
   \<and> (case nonce_request e rng r n of (res, r') \<Rightarrow>
       (\<exists>nonces. res = Ok [NonceResponse \<lparr>nr_dkg_id = nq_dkg_id n, nr_sign_id = nq_sign_id n,
          nr_sign_nonce_id = nq_sign_nonce_id n, nr_signer_id = signer_id (rd_signer r),
          nr_key_ids = fs_get_key_ids (ws e) (frost_signer (rd_signer r)), nr_nonces = nonces\<rparr>])
       \<and> (\<exists>fs. r' = r\<lparr>rd_signer := (rd_signer r)\<lparr>frost_signer := fs\<rparr>\<rparr>))"
proof (rule conjI, goal_cases)
  case 1
  obtain msgs r' where l: "sign_share_loop e q (map nr_signer_id (sq_nonce_responses q)) r = (msgs, r')"
    by fastforce
  with sign_share_loop_answers [OF l] sign_share_loop_frame [OF l] show ?case
    by (simp add: sign_share_request_def)
next
  case 2
  then show ?case by (auto simp: nonce_request_def round_key_ids_def split: prod.split)
qed

theorem signing_requests_answered_witness:
  "\<exists>msgs r'. sign_share_request demo_env (demo_round Idle)
     \<lparr>sq_dkg_id = 1, sq_sign_id = 2, sq_correlation_id = 3,
      sq_nonce_responses = [\<lparr>nr_dkg_id = 1, nr_sign_id = 2, nr_sign_nonce_id = 0, nr_signer_id = 2,
         nr_key_ids = [2], nr_nonces = []\<rparr>,
        \<lparr>nr_dkg_id = 1, nr_sign_id = 2, nr_sign_nonce_id = 0, nr_signer_id = 1,
         nr_key_ids = [0, 1], nr_nonces = []\<rparr>], sq_message = [77]\<rparr> = (Ok msgs, r') \<and> length msgs = 1"
  (is "\<exists>msgs r'. sign_share_request _ _ ?q = _ \<and> _")
  using signing_requests_answered [where e = demo_env and r = "demo_round Idle" and q = ?q and rng = 0
      and n = "\<lparr>nq_dkg_id = 0, nq_sign_id = 0, nq_sign_nonce_id = 0\<rparr>"]
  by (auto simp: demo_round_def split: prod.splits)

end
