(* ===== verification/FrostNet.thy ===== *)
theory FrostNet
  imports SigningRound
begin

text \<open>
  The network side of signers and coordinator (\<^verbatim>\<open>frost-signer/src/net.rs\<close>) and the two loops of a
  signer (\<^verbatim>\<open>frost-signer/src/signer.rs\<close>).

  What the relay and the network will do is data: the record \<open>wire\<close> holds the outcomes of the GET
  and POST requests still to come, the numbers of retries the backoff timer will allow, and what
  has been requested and posted so far. A script that has run out stands for an unreachable relay.
  The \<^verbatim>\<open>bincode\<close> codec is an argument.
\<close>

section \<open>Requests\<close>

text \<open>\<open>GetErr\<close> is any error of \<^verbatim>\<open>ureq\<close>; a response has a status and a body.\<close>

datatype get_result = GetErr | GetResponse nat bytes

record ('id, 'pt, 'sc) codec =
  serialize :: "('id, 'pt, 'sc) Message \<Rightarrow> bytes option"
  deserialize :: "bytes \<Rightarrow> ('id, 'pt, 'sc) Message option"

record wire =
  gets :: "get_result list"
  posts :: "bool list"
  retries :: "nat list"
  polled :: "string list"
  posted :: "bytes list"

datatype net_error = SerializationError | Timeout

record HttpNet =
  hn_relay_url :: string
  hn_connected :: bool

record ('id, 'pt, 'sc) HttpNetListen =
  net :: HttpNet
  in_queue :: "('id, 'pt, 'sc) Message list"
  nl_wire :: wire

definition HttpNet_new :: "string \<Rightarrow> HttpNet" where
  "HttpNet_new url = \<lparr>hn_relay_url = url, hn_connected = True\<rparr>"

definition HttpNetListen_new ::
  "HttpNet \<Rightarrow> ('id, 'pt, 'sc) Message list \<Rightarrow> wire \<Rightarrow> ('id, 'pt, 'sc) HttpNetListen" where
  "HttpNetListen_new n q w = \<lparr>net = n, in_queue = q, nl_wire = w\<rparr>"

definition url_with_id :: "string \<Rightarrow> u32 \<Rightarrow> string" where
  "url_with_id base i = base @ ''?id='' @ show_nat (unat i)"

fun next_get :: "wire \<Rightarrow> get_result" where
  "next_get w = (case gets w of [] \<Rightarrow> GetErr | g # gs \<Rightarrow> g)"

definition poll ::
  "('id, 'pt, 'sc) codec \<Rightarrow> u32 \<Rightarrow> ('id, 'pt, 'sc) HttpNetListen \<Rightarrow> ('id, 'pt, 'sc) HttpNetListen" where
  "poll cd i n =
     (let url = url_with_id (hn_relay_url (net n)) i;
          n1 = n\<lparr>nl_wire := (nl_wire n)\<lparr>gets := tl (gets (nl_wire n)), polled := polled (nl_wire n) @ [url]\<rparr>\<rparr> in
      case next_get (nl_wire n) of
        GetResponse status body \<Rightarrow>
          (let n2 = n1\<lparr>net := (net n)\<lparr>hn_connected := True\<rparr>\<rparr> in
           if status = 200 then
             (case deserialize cd body of
                Some m \<Rightarrow> n2\<lparr>in_queue := in_queue n2 @ [m]\<rparr>
              | None \<Rightarrow> n2)
           else n2)
      | GetErr \<Rightarrow>
          if hn_connected (net n) then n1\<lparr>net := (net n)\<lparr>hn_connected := False\<rparr>\<rparr> else n1)"

text \<open>\<^verbatim>\<open>Vec::pop\<close>: the message pushed last.\<close>

definition next_message ::
  "('id, 'pt, 'sc) HttpNetListen
    \<Rightarrow> ('id, 'pt, 'sc) Message option \<times> ('id, 'pt, 'sc) HttpNetListen" where
  "next_message n =
     (if in_queue n = [] then (None, n)
      else (Some (last (in_queue n)), n\<lparr>in_queue := butlast (in_queue n)\<rparr>))"

text \<open>The retries of one call under the backoff timer.\<close>

definition take_retries :: "wire \<Rightarrow> nat \<times> wire" where
  "take_retries w = (case retries w of [] \<Rightarrow> (0, w) | k # ks \<Rightarrow> (k, w\<lparr>retries := ks\<rparr>))"

fun post_retry :: "nat \<Rightarrow> bytes \<Rightarrow> wire \<Rightarrow> bool \<times> wire" where
  "post_retry k body w =
     (let delivered = (posts w \<noteq> [] \<and> hd (posts w)); w1 = w\<lparr>posts := tl (posts w)\<rparr> in
      if delivered then (True, w1\<lparr>posted := posted w1 @ [body]\<rparr>)
      else case k of 0 \<Rightarrow> (False, w1) | Suc j \<Rightarrow> post_retry j body w1)"

declare post_retry.simps [simp del]

lemmas post_retry_0 = post_retry.simps [of 0]
lemmas post_retry_Suc = post_retry.simps [of "Suc j" for j]

definition send_message ::
  "('id, 'pt, 'sc) codec \<Rightarrow> ('id, 'pt, 'sc) Message \<Rightarrow> wire \<Rightarrow> (net_error, unit) outcome \<times> wire" where
  "send_message cd m w =
     (case serialize cd m of
        None \<Rightarrow> (Err SerializationError, w)
      | Some body \<Rightarrow>
          (let (k, w1) = take_retries w; (sent, w2) = post_retry k body w1 in
           (if sent then Ok () else Err Timeout, w2)))"

section \<open>The interface of a listener\<close>

text \<open>
  What clients of \<^verbatim>\<open>NetListen\<close> rely on: polling adds at most one message to the queue, taking a
  message from a nonempty queue succeeds, and \<open>work\<close>, the messages and responses still to come,
  never grows and shrinks with every message taken.
\<close>

locale net_listen =
  fixes poll_op :: "'n \<Rightarrow> 'n"
    and next_op :: "'n \<Rightarrow> 'm option \<times> 'n"
    and queue :: "'n \<Rightarrow> 'm list"
    and work :: "'n \<Rightarrow> nat"
  assumes poll_queue: "queue (poll_op n) = queue n \<or> (\<exists>m. queue (poll_op n) = queue n @ [m])"
    and poll_work: "work (poll_op n) \<le> work n"
    and next_Some: "next_op n = (Some m, n') \<Longrightarrow> queue n \<noteq> [] \<and> m = last (queue n)
      \<and> queue n' = butlast (queue n) \<and> work n' < work n"
    and next_None: "next_op n = (None, n') \<Longrightarrow> queue n = [] \<and> n' = n"

text \<open>\<^verbatim>\<open>backoff::retry_notify\<close> around a poll: poll until a message is there, at most \<open>k\<close> times more.\<close>

fun poll_retry :: "('n \<Rightarrow> 'n) \<Rightarrow> ('n \<Rightarrow> 'm option \<times> 'n) \<Rightarrow> nat \<Rightarrow> 'n \<Rightarrow> 'm option \<times> 'n" where
  "poll_retry p nx k n =
     (case nx (p n) of
        (Some m, n1) \<Rightarrow> (Some m, n1)
      | (None, n1) \<Rightarrow> (case k of 0 \<Rightarrow> (None, n1) | Suc j \<Rightarrow> poll_retry p nx j n1))"

declare poll_retry.simps [simp del]

context net_listen
begin

lemma poll_retry_work:
  "poll_retry poll_op next_op k n = (res, n') \<Longrightarrow> work n' \<le> work n \<and> (res \<noteq> None \<longrightarrow> work n' < work n)"
proof (induction k arbitrary: n)
  case 0
  then show ?case
    using poll_work [of n]
    by (auto simp: poll_retry.simps [of _ _ 0] split: prod.splits option.splits
        dest!: next_Some next_None)
next
  case (Suc k)
  obtain x n1 where nx: "next_op (poll_op n) = (x, n1)" by fastforce
  show ?case
  proof (cases x)
    case None
    with Suc nx poll_work [of n] next_None [of "poll_op n" n1] show ?thesis
      by (fastforce simp: poll_retry.simps [of _ _ "Suc k"])
  next
    case (Some m)
    with Suc.prems nx poll_work [of n] next_Some [of "poll_op n" m n1] show ?thesis
      by (auto simp: poll_retry.simps [of _ _ "Suc k"])
  qed
qed

text \<open>From an empty queue the queue is empty again: a listener that polls before it reads
  delivers in the order of arrival, although the queue is a stack.\<close>

lemma poll_next_fifo:
  assumes "queue n = []" and "next_op (poll_op n) = (res, n')"
  shows "queue n' = []"
  using poll_queue [of n] assms next_Some [of "poll_op n" _ n'] next_None [of "poll_op n" n']
  by (cases res) auto

end

definition net_work :: "('id, 'pt, 'sc) HttpNetListen \<Rightarrow> nat" where
  "net_work n = length (gets (nl_wire n)) + length (in_queue n)"

lemma poll_in_queue:
  "in_queue (poll cd i n) = in_queue n @
     (case next_get (nl_wire n) of
        GetResponse s b \<Rightarrow> if s = 200 then (case deserialize cd b of Some m \<Rightarrow> [m] | None \<Rightarrow> []) else []
      | GetErr \<Rightarrow> [])"
  by (simp add: poll_def Let_def del: next_get.simps split: get_result.split option.split)

lemma poll_gets: "gets (nl_wire (poll cd i n)) = tl (gets (nl_wire n))"
  by (simp add: poll_def Let_def del: next_get.simps split: get_result.split option.split)

interpretation http: net_listen "poll cd i" next_message in_queue net_work
  for cd :: "('id, 'pt, 'sc) codec" and i
proof unfold_locales
  fix n :: "('id, 'pt, 'sc) HttpNetListen" and m n'
  show "in_queue (poll cd i n) = in_queue n \<or> (\<exists>m. in_queue (poll cd i n) = in_queue n @ [m])"
    by (auto simp: poll_in_queue split: get_result.split option.split)
  show "net_work (poll cd i n) \<le> net_work n"
    by (cases "gets (nl_wire n)") (auto simp: net_work_def poll_in_queue poll_gets split: get_result.split option.split)
  show "next_message n = (Some m, n') \<Longrightarrow> in_queue n \<noteq> [] \<and> m = last (in_queue n)
      \<and> in_queue n' = butlast (in_queue n) \<and> net_work n' < net_work n"
    by (auto simp: next_message_def net_work_def split: if_splits)
  show "next_message n = (None, n') \<Longrightarrow> in_queue n = [] \<and> n' = n"
    by (auto simp: next_message_def split: if_splits)
qed

section \<open>The polling loop of a signer\<close>

datatype signer_error =
    HttpNetError net_error
  | SigningRoundError round_error
  | RecvError
  | SendError

text \<open>The thread's state: the listener, the pause in milliseconds, what went down the pipe to the
  signing thread, and whether that thread still listens.\<close>

record ('id, 'pt, 'sc) poller =
  pl_net :: "('id, 'pt, 'sc) HttpNetListen"
  pl_timeout :: u64
  pl_tx :: "('id, 'pt, 'sc) Message list"
  pl_rx_open :: bool

definition BASE_TIMEOUT :: u64 where
  "BASE_TIMEOUT = 2"

definition MAX_TIMEOUT :: u64 where
  "MAX_TIMEOUT = 128"

definition next_timeout :: "u64 \<Rightarrow> u64" where
  "next_timeout t = (if t = 0 then BASE_TIMEOUT else if MAX_TIMEOUT \<le> t then MAX_TIMEOUT else t * 2)"

text \<open>One iteration of \<^verbatim>\<open>poll_loop\<close>, up to the sleep.\<close>

definition poll_step ::
  "('pt, 'sc, 'pk) crypto \<Rightarrow> ('id, 'pt, 'sc) codec \<Rightarrow> u32 \<Rightarrow> 'pk PublicKeys \<Rightarrow> 'pk
    \<Rightarrow> ('id, 'pt, 'sc) poller \<Rightarrow> (signer_error, unit) outcome \<times> ('id, 'pt, 'sc) poller" where
  "poll_step cr cd i pks cpk p =
     (case next_message (poll cd i (pl_net p)) of
        (None, n) \<Rightarrow> (Ok (), p\<lparr>pl_net := n, pl_timeout := next_timeout (pl_timeout p)\<rparr>)
      | (Some m, n) \<Rightarrow>
          (let p1 = p\<lparr>pl_net := n, pl_timeout := 0\<rparr> in
           case verify_msg cr m pks cpk of
             Ok True \<Rightarrow> if pl_rx_open p1 then (Ok (), p1\<lparr>pl_tx := pl_tx p1 @ [m]\<rparr>) else (Err SendError, p1)
           | Ok False \<Rightarrow> (Ok (), p1)
           | Err u \<Rightarrow> (Panic, p1)
           | Panic \<Rightarrow> (Panic, p1)))"

text \<open>\<open>k\<close> iterations of the loop, which has no end of its own: \<open>Ok\<close> means it is still running.\<close>

fun poll_loop ::
  "('pt, 'sc, 'pk) crypto \<Rightarrow> ('id, 'pt, 'sc) codec \<Rightarrow> u32 \<Rightarrow> 'pk PublicKeys \<Rightarrow> 'pk \<Rightarrow> nat
    \<Rightarrow> ('id, 'pt, 'sc) poller \<Rightarrow> (signer_error, unit) outcome \<times> ('id, 'pt, 'sc) poller" where
  "poll_loop cr cd i pks cpk 0 p = (Ok (), p)"
| "poll_loop cr cd i pks cpk (Suc k) p =
     (case poll_step cr cd i pks cpk p of
        (Ok u, p1) \<Rightarrow> poll_loop cr cd i pks cpk k p1
      | (Err er, p1) \<Rightarrow> (Err er, p1)
      | (Panic, p1) \<Rightarrow> (Panic, p1))"

section \<open>The signing loop of a signer\<close>

text \<open>The inner loop: sign and send every message of a handler's output.\<close>

fun send_all ::
  "('pt, 'sc, 'pk) crypto \<Rightarrow> ('id, 'pt, 'sc) codec \<Rightarrow> 'sc \<Rightarrow> ('id, 'pt, 'sc) MessageTypes list \<Rightarrow> wire
    \<Rightarrow> (signer_error, unit) outcome \<times> wire" where
  "send_all cr cd sk [] w = (Ok (), w)"
| "send_all cr cd sk (out # outs) w =
     (case sign_message_type cr sk out of
        Ok m \<Rightarrow>
          (case send_message cd m w of
             (Ok u, w1) \<Rightarrow> send_all cr cd sk outs w1
           | (Err er, w1) \<Rightarrow> (Err (HttpNetError er), w1)
           | (Panic, w1) \<Rightarrow> (Panic, w1))
      | Err er \<Rightarrow> (Err er, w)
      | Panic \<Rightarrow> (Panic, w))"

text \<open>The messages received down the pipe, each with the randomness its handler draws; when the
  polling thread is gone, \<^verbatim>\<open>recv\<close> fails.\<close>

fun signing_loop ::
  "('fs, 'rng, 'id, 'pt, 'sc, 'pk) env \<Rightarrow> ('id, 'pt, 'sc) codec \<Rightarrow> 'sc
    \<Rightarrow> ('rng \<times> ('id, 'pt, 'sc) Message) list \<Rightarrow> ('fs, 'id, 'pt, 'sc, 'pk) SigningRound \<Rightarrow> wire
    \<Rightarrow> (signer_error, unit) outcome \<times> ('fs, 'id, 'pt, 'sc, 'pk) SigningRound \<times> wire" where
  "signing_loop e cd sk [] r w = (Err RecvError, r, w)"
| "signing_loop e cd sk ((rng, inbound) # rest) r w =
     (case process e rng r (msg inbound) of
        (Ok outs, r1) \<Rightarrow>
          (case send_all (cry e) cd sk outs w of
             (Ok u, w1) \<Rightarrow> signing_loop e cd sk rest r1 w1
           | (Err er, w1) \<Rightarrow> (Err er, r1, w1)
           | (Panic, w1) \<Rightarrow> (Panic, r1, w1))
      | (Err er, r1) \<Rightarrow> (Err (SigningRoundError er), r1, w)
      | (Panic, r1) \<Rightarrow> (Panic, r1, w))"

definition start_signing_round ::
  "('fs, 'rng, 'id, 'pt, 'sc, 'pk) env \<Rightarrow> ('id, 'pt, 'sc) codec \<Rightarrow> 'rng \<Rightarrow> ('pk, 'sc) Config \<Rightarrow> u32
    \<Rightarrow> ('rng \<times> ('id, 'pt, 'sc) Message) list \<Rightarrow> wire \<Rightarrow> (signer_error, unit) outcome \<times> wire" where
  "start_signing_round e cd rng c sid inbound w =
     (case SigningRound_from e rng c sid of
        Ok r \<Rightarrow> (case signing_loop e cd (network_private_key c) inbound r w of (res, r1, w1) \<Rightarrow> (res, w1))
      | Err er \<Rightarrow> (Err (SigningRoundError er), w)
      | Panic \<Rightarrow> (Panic, w))"

section \<open>Properties\<close>

text \<open>The message a response carries, if any.\<close>

definition received :: "('id, 'pt, 'sc) codec \<Rightarrow> get_result \<Rightarrow> ('id, 'pt, 'sc) Message option" where
  "received cd g =
     (case g of GetResponse s b \<Rightarrow> if s = 200 then deserialize cd b else None | GetErr \<Rightarrow> None)"

lemma poll_in_queue_received:
  "in_queue (poll cd i n) = in_queue n @
     (case received cd (next_get (nl_wire n)) of Some m \<Rightarrow> [m] | None \<Rightarrow> [])"
  by (simp add: poll_in_queue received_def split: get_result.split option.split)

lemma poll_then_next:
  assumes "in_queue n = []"
  shows "\<exists>n'. next_message (poll cd i n) = (received cd (next_get (nl_wire n)), n')
    \<and> in_queue n' = [] \<and> gets (nl_wire n') = tl (gets (nl_wire n))"
  using assms by (auto simp: next_message_def poll_in_queue_received poll_gets split: option.split)

lemma verify_msg_total: "is_ok (signable cr (msg m)) \<Longrightarrow> is_ok (verify_msg cr m pks cpk)"
  by (cases "role_key pks cpk (sender (msg m))")
    (auto simp: is_ok_iff verify_msg_role verify_with_def Signable_verify_def)

text \<open>
  C12. Only verified messages reach the signing round, in order and each once. From an empty queue,
  \<open>k\<close> polls of a relay that answers them read exactly the first \<open>k\<close> responses; down the pipe go, in
  the order of the responses, the messages among them that \<^verbatim>\<open>verify_msg\<close> accepts, and nothing else.
  Neither a network error, nor a response that does not decode, nor a forged message ends the loop,
  as long as the messages can be hashed and the signing thread listens.
\<close>

theorem poll_loop_delivers_verified:
  assumes "in_queue (pl_net p) = []" and "pl_rx_open p" and "k \<le> length (gets (nl_wire (pl_net p)))"
    and "\<forall>g m. g \<in> set (gets (nl_wire (pl_net p))) \<longrightarrow> received cd g = Some m \<longrightarrow> is_ok (signable cr (msg m))"
  shows "\<exists>p'. poll_loop cr cd i pks cpk k p = (Ok (), p')
    \<and> in_queue (pl_net p') = [] \<and> gets (nl_wire (pl_net p')) = drop k (gets (nl_wire (pl_net p)))
    \<and> pl_tx p' = pl_tx p @
        filter (\<lambda>m. verify_msg cr m pks cpk = Ok True)
          (List.map_filter (received cd) (take k (gets (nl_wire (pl_net p)))))"
  using assms
proof (induction k arbitrary: p)
  case 0
  then show ?case by (simp add: List.map_filter_def)
next
  case (Suc k)
  obtain g gs where gs: "gets (nl_wire (pl_net p)) = g # gs"
    using Suc.prems(3) by (cases "gets (nl_wire (pl_net p))") auto
  obtain n where n: "next_message (poll cd i (pl_net p)) = (received cd g, n)"
    and q: "in_queue n = []" and rest: "gets (nl_wire n) = gs"
    using poll_then_next [OF Suc.prems(1), of cd i] gs by auto
  have step: "\<exists>p1. poll_step cr cd i pks cpk p = (Ok (), p1) \<and> pl_net p1 = n \<and> pl_rx_open p1
    \<and> pl_tx p1 = pl_tx p @ filter (\<lambda>m. verify_msg cr m pks cpk = Ok True) (List.map_filter (received cd) [g])"
  proof (cases "received cd g")
    case None
    with n Suc.prems(2) show ?thesis by (simp add: poll_step_def List.map_filter_def)
  next
    case (Some m)
    then have "is_ok (signable cr (msg m))" using Suc.prems(4) gs by simp
    then obtain ok where "verify_msg cr m pks cpk = Ok ok"
      using verify_msg_total by (fastforce simp: is_ok_iff)
    with n Some Suc.prems(2) show ?thesis
      by (cases ok) (simp_all add: poll_step_def List.map_filter_def)
  qed
  then obtain p1 where p1: "poll_step cr cd i pks cpk p = (Ok (), p1)" "pl_net p1 = n" "pl_rx_open p1"
    and tx: "pl_tx p1 = pl_tx p @ filter (\<lambda>m. verify_msg cr m pks cpk = Ok True) (List.map_filter (received cd) [g])"
    by blast
  have "\<exists>p'. poll_loop cr cd i pks cpk k p1 = (Ok (), p')
    \<and> in_queue (pl_net p') = [] \<and> gets (nl_wire (pl_net p')) = drop k (gets (nl_wire (pl_net p1)))
    \<and> pl_tx p' = pl_tx p1 @ filter (\<lambda>m. verify_msg cr m pks cpk = Ok True)
          (List.map_filter (received cd) (take k (gets (nl_wire (pl_net p1)))))"
    using Suc.prems p1 q rest gs by (intro Suc.IH) auto
  with p1 tx rest gs show ?case by (auto simp: List.map_filter_def)
qed

text \<open>The codec of the witnesses: one byte, the id of a nonce request signed by the coordinator.\<close>

definition demo_codec :: "(unit, u8, nat) codec" where
  "demo_codec = \<lparr>serialize = (\<lambda>m. Some (sig m)),
     deserialize = (\<lambda>bs. case bs of [b] \<Rightarrow> Some \<lparr>msg = DkgBegin \<lparr>db_dkg_id = ucast b\<rparr>,
        sig = (if b = 0 then [] else 8 # rev (hash_DkgBegin \<lparr>db_dkg_id = ucast b\<rparr>))\<rparr> | _ \<Rightarrow> None)\<rparr>"

definition demo_poller :: "get_result list \<Rightarrow> (unit, u8, nat) poller" where
  "demo_poller gs = \<lparr>pl_net = \<lparr>net = HttpNet_new ''http://relay'', in_queue = [],
       nl_wire = \<lparr>gets = gs, posts = [], retries = [], polled = [], posted = []\<rparr>\<rparr>,
     pl_timeout = 2, pl_tx = [], pl_rx_open = True\<rparr>"

theorem poll_loop_delivers_verified_witness:
  "\<exists>p'. poll_loop demo_crypto demo_codec 1 demo_keys 8 4
      (demo_poller [GetErr, GetResponse 200 [0], GetResponse 200 [5], GetResponse 200 []]) = (Ok (), p')
    \<and> map (\<lambda>m. msg m) (pl_tx p') = [DkgBegin \<lparr>db_dkg_id = 5\<rparr>]"
proof -
  let ?p = "demo_poller [GetErr, GetResponse 200 [0], GetResponse 200 [5], GetResponse 200 []]"
  have "\<exists>p'. poll_loop demo_crypto demo_codec 1 demo_keys 8 4 ?p = (Ok (), p')
    \<and> in_queue (pl_net p') = [] \<and> gets (nl_wire (pl_net p')) = drop 4 (gets (nl_wire (pl_net ?p)))
    \<and> pl_tx p' = pl_tx ?p @ filter (\<lambda>m. verify_msg demo_crypto m demo_keys 8 = Ok True)
          (List.map_filter (received demo_codec) (take 4 (gets (nl_wire (pl_net ?p)))))"
    by (rule poll_loop_delivers_verified)
      (auto simp: demo_poller_def received_def demo_codec_def split: if_splits list.splits)
  then obtain p' where run: "poll_loop demo_crypto demo_codec 1 demo_keys 8 4 ?p = (Ok (), p')"
    and tx: "pl_tx p' = pl_tx ?p @ filter (\<lambda>m. verify_msg demo_crypto m demo_keys 8 = Ok True)
          (List.map_filter (received demo_codec) (take 4 (gets (nl_wire (pl_net ?p)))))" by blast
  from tx have "map (\<lambda>m. msg m) (pl_tx p') = [DkgBegin \<lparr>db_dkg_id = 5\<rparr>]"
    by (simp add: demo_poller_def List.map_filter_def received_def demo_codec_def verify_msg_def
        verify_with_def Signable_verify_def demo_crypto_def)
  with run show ?thesis by (intro exI [of _ p'] conjI)
qed

text \<open>Empty polls and the pause after them.\<close>

lemma poll_step_empty:
  assumes "in_queue (pl_net p) = []" and "gets (nl_wire (pl_net p)) = []"
  shows "\<exists>p1. poll_step cr cd i pks cpk p = (Ok (), p1) \<and> in_queue (pl_net p1) = []
    \<and> gets (nl_wire (pl_net p1)) = [] \<and> pl_timeout p1 = next_timeout (pl_timeout p) \<and> pl_tx p1 = pl_tx p"
  using poll_then_next [OF assms(1), of cd i] assms(2)
  by (auto simp: poll_step_def received_def)

lemma next_timeout_pow:
  "next_timeout (if k = 0 then 0 else if k \<le> 7 then 2 ^ k else 128) = (if k < 7 then 2 ^ Suc k else 128)"
proof (cases "k < 7")
  case True
  then have "k \<in> {0, 1, 2, 3, 4, 5, 6}" by auto
  then show ?thesis
    by (auto simp: next_timeout_def BASE_TIMEOUT_def MAX_TIMEOUT_def)
next
  case False
  then show ?thesis
    by (cases "k = 7") (simp_all add: next_timeout_def MAX_TIMEOUT_def)
qed

text \<open>
  The pause between polls of a silent relay doubles from 2 milliseconds and stops at 128: after
  a message, which sets it to 0, the \<open>k\<close>-th unsuccessful poll in a row sets it to \<open>2 ^ k\<close>, or to 128
  from the seventh on. It neither overflows nor stops the loop.
\<close>

theorem poll_backoff:
  assumes "in_queue (pl_net p) = []" and "gets (nl_wire (pl_net p)) = []" and "pl_timeout p = 0"
  shows "\<exists>p'. poll_loop cr cd i pks cpk k p = (Ok (), p') \<and> pl_tx p' = pl_tx p
    \<and> unat (pl_timeout p') = (if k = 0 then 0 else min (2 ^ k) 128)"
proof -
  have "\<exists>p'. poll_loop cr cd i pks cpk k p = (Ok (), p') \<and> pl_tx p' = pl_tx p
      \<and> pl_timeout p' = (if j + k = 0 then 0 else if j + k \<le> 7 then 2 ^ (j + k) else 128)"
    if "in_queue (pl_net p) = []" "gets (nl_wire (pl_net p)) = []"
      "pl_timeout p = (if j = 0 then 0 else if j \<le> 7 then 2 ^ j else 128)" for j p
    using that
  proof (induction k arbitrary: j p)
    case (Suc k)
    from poll_step_empty [OF Suc.prems(1,2), of cr cd i pks cpk] obtain p1
      where p1: "poll_step cr cd i pks cpk p = (Ok (), p1)" "in_queue (pl_net p1) = []"
        "gets (nl_wire (pl_net p1)) = []" "pl_timeout p1 = next_timeout (pl_timeout p)" "pl_tx p1 = pl_tx p"
      by blast
    have "pl_timeout p1 = (if Suc j = 0 then 0 else if Suc j \<le> 7 then 2 ^ Suc j else 128)"
      unfolding p1(4) Suc.prems(3) next_timeout_pow by simp
    from Suc.IH [OF p1(2,3) this] p1 show ?case by auto
  qed auto
  from this [of p 0] assms obtain p' where p': "poll_loop cr cd i pks cpk k p = (Ok (), p')" "pl_tx p' = pl_tx p"
    "pl_timeout p' = (if k = 0 then 0 else if k \<le> 7 then 2 ^ k else 128)" by auto
  have "unat (2 ^ k :: u64) = 2 ^ k" if "k \<le> 7"
  proof -
    from that have "k \<in> {0, 1, 2, 3, 4, 5, 6, 7}" by auto
    then show ?thesis by auto
  qed
  moreover have "(2::nat) ^ k \<le> 2 ^ 7" if "k \<le> 7" using that by (intro power_increasing) auto
  moreover have "(2::nat) ^ 7 \<le> 2 ^ k" if "\<not> k \<le> 7" using that by (intro power_increasing) auto
  ultimately show ?thesis using p' by (auto simp: min_def)
qed

theorem poll_backoff_witness:
  "\<exists>p'. poll_loop demo_crypto demo_codec 1 demo_keys 8 3 ((demo_poller [])\<lparr>pl_timeout := 0\<rparr>) = (Ok (), p')
     \<and> unat (pl_timeout p') = 8"
  using poll_backoff [of "(demo_poller [])\<lparr>pl_timeout := 0\<rparr>" demo_crypto demo_codec 1 demo_keys 8 3]
  by (auto simp: demo_poller_def)

text \<open>What a successful send puts on the wire.\<close>

lemma post_retry_posted:
  "post_retry k body w = (sent, w') \<Longrightarrow> posted w' = posted w @ (if sent then [body] else [])"
  by (induction k arbitrary: w)
    (auto simp: post_retry_0 post_retry_Suc Let_def split: if_splits)

lemma send_message_posted:
  assumes "send_message cd m w = (res, w')"
  shows "posted w' = posted w \<or> (\<exists>b. serialize cd m = Some b \<and> posted w' = posted w @ [b])"
  using assms
  by (auto simp: send_message_def take_retries_def Let_def dest!: post_retry_posted
      split: option.splits list.splits prod.splits if_splits)

lemma send_all_posted:
  assumes "send_all cr cd sk outs w = (res, w')" and "b \<in> set (posted w')"
  shows "b \<in> set (posted w) \<or>
    (\<exists>out m. out \<in> set outs \<and> sign_message_type cr sk out = (Ok m :: (signer_error, _) outcome) \<and> serialize cd m = Some b)"
  using assms
proof (induction outs arbitrary: w)
  case (Cons out outs)
  show ?case
  proof (cases "sign_message_type cr sk out :: (signer_error, _) outcome")
    case (Ok m)
    obtain sres w1 where send: "send_message cd m w = (sres, w1)" by fastforce
    have "b \<in> set (posted w1) \<or> (\<exists>out' m. out' \<in> set outs \<and>
        sign_message_type cr sk out' = (Ok m :: (signer_error, _) outcome) \<and> serialize cd m = Some b)"
      using Cons Ok send by (cases sres) auto
    with send_message_posted [OF send] Ok show ?thesis by fastforce
  qed (use Cons in auto)
qed simp

text \<open>
  What a signer sends, its peers accept. Let the signature scheme be correct for the signer's key
  pair and let the codec decode what it encodes. Whatever messages drive the signing loop, every body
  it posts to the relay decodes to a message that \<^verbatim>\<open>verify_msg\<close> accepts at every peer that has the
  signer's public key registered for the message's sender.
\<close>

theorem posted_messages_verify:
  assumes correct: "\<forall>h s. sign_hash (cry e) h sk = Some s \<longrightarrow> sig_parses (cry e) s \<and> verify_hash (cry e) s h pk"
    and codec: "\<forall>m b. serialize cd m = Some b \<longrightarrow> deserialize cd b = Some m"
    and run: "signing_loop e cd sk inbound r w = (res, r', w')" and fresh: "posted w = []"
    and b: "b \<in> set (posted w')"
  shows "\<exists>m. deserialize cd b = Some m
    \<and> (role_key pks cpk (sender (msg m)) = Some pk \<longrightarrow> verify_msg (cry e) m pks cpk = Ok True)"
proof -
  have "b \<in> set (posted w) \<or>
      (\<exists>out m. sign_message_type (cry e) sk out = (Ok m :: (signer_error, _) outcome) \<and> serialize cd m = Some b)"
    using run b
  proof (induction e cd sk inbound r w rule: signing_loop.induct)
    case (2 e cd sk rng inbound rest r w)
    then show ?case
      by (fastforce split: prod.splits outcome.splits dest: send_all_posted)
  qed simp
  with fresh obtain out m where m: "sign_message_type (cry e) sk out = (Ok m :: (signer_error, _) outcome)"
    and "serialize cd m = Some b" by auto
  with codec have "deserialize cd b = Some m" by blast
  moreover have "verify_msg (cry e) m pks cpk = Ok True" if "role_key pks cpk (sender (msg m)) = Some pk"
    using m that correct
    by (auto simp: sign_message_type_def Signable_sign_def obind_Ok_iff verify_msg_Ok_True split: outcome.splits)
  ultimately show ?thesis by blast
qed

definition demo_answer :: "(u32, u8, nat) Message" where
  "demo_answer =
     (let n = \<lparr>nr_dkg_id = 1, nr_sign_id = 2, nr_sign_nonce_id = 3, nr_signer_id = 1, nr_key_ids = [0, 1],
          nr_nonces = [\<lparr>pn_D = 1, pn_E = 2\<rparr>]\<rparr> in
      \<lparr>msg = NonceResponse n, sig = 4 # rev (hash_NonceResponse demo_crypto n)\<rparr>)"

definition answer_codec :: "(u32, u8, nat) codec" where
  "answer_codec = \<lparr>serialize = (\<lambda>m. if m = demo_answer then Some [1] else None), deserialize = (\<lambda>b. Some demo_answer)\<rparr>"

theorem posted_messages_verify_witness:
  "\<exists>r' w'. signing_loop demo_env answer_codec 2
       [(0, \<lparr>msg = NonceRequest \<lparr>nq_dkg_id = 1, nq_sign_id = 2, nq_sign_nonce_id = 3\<rparr>, sig = []\<rparr>)] (demo_round Idle)
       \<lparr>gets = [], posts = [False, True], retries = [Suc 0], polled = [], posted = []\<rparr> = (Err RecvError, r', w')
     \<and> posted w' = [[1]] \<and> verify_msg demo_crypto demo_answer demo_keys 8 = Ok True"
proof -
  let ?w = "\<lparr>gets = [], posts = [False, True], retries = [Suc 0], polled = [], posted = []\<rparr> :: wire"
  let ?in = "[(0, \<lparr>msg = NonceRequest \<lparr>nq_dkg_id = 1, nq_sign_id = 2, nq_sign_nonce_id = 3\<rparr>, sig = []\<rparr>)]
    :: (nat \<times> (u32, u8, nat) Message) list"
  have proc: "process demo_env 0 (demo_round Idle)
      (NonceRequest \<lparr>nq_dkg_id = 1, nq_sign_id = 2, nq_sign_nonce_id = 3\<rparr>) = (Ok [msg demo_answer], demo_round Idle)"
    by (simp add: process_def dispatch_def nonce_request_def public_shares_done_def can_dkg_end_def
        demo_round_def demo_env_def demo_ws_def round_key_ids_def demo_answer_def Let_def)
  have sign: "sign_message_type demo_crypto 2 (msg demo_answer) = (Ok demo_answer :: (signer_error, _) outcome)"
    by (simp add: sign_message_type_def Signable_sign_def demo_answer_def Let_def)
      (simp add: demo_crypto_def)
  have cry_demo: "cry demo_env = demo_crypto" by (simp add: demo_env_def)
  have ser: "serialize answer_codec demo_answer = Some [1]" by (simp add: answer_codec_def)
  have "\<exists>r' w'. signing_loop demo_env answer_codec 2 ?in (demo_round Idle) ?w = (Err RecvError, r', w')
      \<and> posted w' = [[1]]"
    by (simp add: proc cry_demo sign send_message_def ser
        take_retries_def post_retry_0 post_retry_Suc)
  then obtain r' w' where run: "signing_loop demo_env answer_codec 2 ?in (demo_round Idle) ?w = (Err RecvError, r', w')"
    and posted: "posted w' = [[1]]" by blast
  have "\<exists>m. deserialize answer_codec [1] = Some m \<and> (role_key demo_keys 8 (sender (msg m)) = Some 4
      \<longrightarrow> verify_msg (cry demo_env) m demo_keys 8 = Ok True)"
    by (rule posted_messages_verify [OF _ _ run])
      (simp_all add: demo_env_def demo_crypto_def answer_codec_def posted split: if_splits)
  then have "verify_msg demo_crypto demo_answer demo_keys 8 = Ok True"
    by (simp add: answer_codec_def demo_env_def) (simp add: demo_answer_def demo_keys_def Let_def)
  with run posted show ?thesis by (intro exI [of _ r'] exI [of _ w'] conjI)
qed

end
