(* ===== verification/SignerThreads.thy ===== *)
theory SignerThreads
  imports FrostNet
begin

text \<open>
  A running signer (\<^verbatim>\<open>Signer\<close> of \<^verbatim>\<open>frost-signer/src/signer.rs\<close>): \<^verbatim>\<open>start_p2p_sync\<close> starts the polling loop in a thread of
  its own and runs the signing loop in the caller's, with a channel from the first to the second. The two are
  a step relation here, with every interleaving of their iterations. Each interleaving is shown to have the
  result of the two loops run one after the other, which is how theory \<open>FrostNet\<close> has them.
\<close>

section \<open>The signer\<close>

record ('pk, 'sc) FrostSigner =
  sg_config :: "('pk, 'sc) Config"
  sg_signer_id :: u32

definition FrostSigner_new :: "('pk, 'sc) Config \<Rightarrow> u32 \<Rightarrow> ('pk, 'sc) FrostSigner" where
  "FrostSigner_new c i = \<lparr>sg_config = c, sg_signer_id = i\<rparr>"

text \<open>
  The two threads. \<open>pl_tx\<close> of the poller lists what was sent down the channel so far, and \<open>th_taken\<close> counts how much of it
  was received. A thread that has ended has its result in \<open>th_poll_end\<close> or \<open>th_sign_end\<close>; its end of the channel is
  dropped with it.
\<close>

record ('fs, 'id, 'pt, 'sc, 'pk) threads =
  th_poller :: "('id, 'pt, 'sc) poller"
  th_poll_end :: "(signer_error, unit) outcome option"
  th_taken :: nat
  th_round :: "('fs, 'id, 'pt, 'sc, 'pk) SigningRound"
  th_wire :: wire
  th_sign_end :: "(signer_error, unit) outcome option"

definition poller_new :: "string \<Rightarrow> wire \<Rightarrow> ('id, 'pt, 'sc) poller" where
  "poller_new url w =
     \<lparr>pl_net = HttpNetListen_new (HttpNet_new url) [] w, pl_timeout = BASE_TIMEOUT, pl_tx = [], pl_rx_open = True\<rparr>"

text \<open>Both threads at the head of their loops; a configuration that \<^verbatim>\<open>SigningRound::from\<close> refuses panics.\<close>

definition start_p2p_sync ::
  "('fs, 'rng, 'id, 'pt, 'sc, 'pk) env \<Rightarrow> 'rng \<Rightarrow> ('pk, 'sc) FrostSigner \<Rightarrow> wire \<Rightarrow> wire
    \<Rightarrow> (round_error, ('fs, 'id, 'pt, 'sc, 'pk) threads) outcome" where
  "start_p2p_sync e rng s w_in w_out =
     obind (SigningRound_from e rng (sg_config s) (sg_signer_id s)) (\<lambda>r.
       Ok \<lparr>th_poller = poller_new (http_relay_url (sg_config s)) w_in, th_poll_end = None, th_taken = 0,
           th_round = r, th_wire = w_out, th_sign_end = None\<rparr>)"

section \<open>Iterations\<close>

definition poll_iteration ::
  "('pt, 'sc, 'pk) crypto \<Rightarrow> ('id, 'pt, 'sc) codec \<Rightarrow> ('pk, 'sc) FrostSigner
    \<Rightarrow> ('fs, 'id, 'pt, 'sc, 'pk) threads \<Rightarrow> ('fs, 'id, 'pt, 'sc, 'pk) threads" where
  "poll_iteration cr cd s t =
     (let (res, p) = poll_step cr cd (sg_signer_id s) (public_keys (sg_config s)) (coordinator_public_key (sg_config s))
            ((th_poller t)\<lparr>pl_rx_open := (th_sign_end t = None)\<rparr>)
      in t\<lparr>th_poller := p, th_poll_end := (if res = Ok () then None else Some res)\<rparr>)"

definition sign_iteration ::
  "('fs, 'rng, 'id, 'pt, 'sc, 'pk) env \<Rightarrow> ('id, 'pt, 'sc) codec \<Rightarrow> ('pk, 'sc) FrostSigner \<Rightarrow> 'rng
    \<Rightarrow> ('id, 'pt, 'sc) Message \<Rightarrow> ('fs, 'id, 'pt, 'sc, 'pk) threads \<Rightarrow> ('fs, 'id, 'pt, 'sc, 'pk) threads" where
  "sign_iteration e cd s rng inbound t =
     (let t1 = t\<lparr>th_taken := Suc (th_taken t)\<rparr> in
      case process e rng (th_round t) (msg inbound) of
        (Ok outs, r1) \<Rightarrow>
          (case send_all (cry e) cd (network_private_key (sg_config s)) outs (th_wire t) of
             (Ok u, w1) \<Rightarrow> t1\<lparr>th_round := r1, th_wire := w1\<rparr>
           | (Err er, w1) \<Rightarrow> t1\<lparr>th_round := r1, th_wire := w1, th_sign_end := Some (Err er)\<rparr>
           | (Panic, w1) \<Rightarrow> t1\<lparr>th_round := r1, th_wire := w1, th_sign_end := Some Panic\<rparr>)
      | (Err er, r1) \<Rightarrow> t1\<lparr>th_round := r1, th_sign_end := Some (Err (SigningRoundError er))\<rparr>
      | (Panic, r1) \<Rightarrow> t1\<lparr>th_round := r1, th_sign_end := Some Panic\<rparr>)"

text \<open>
  \<^verbatim>\<open>recv\<close> waits for a message; it fails when the channel is empty and the polling thread has ended. The
  random numbers drawn for the \<open>n\<close>-th message are \<open>rngs n\<close>.
\<close>

inductive thread_step ::
  "('fs, 'rng, 'id, 'pt, 'sc, 'pk) env \<Rightarrow> ('id, 'pt, 'sc) codec \<Rightarrow> ('pk, 'sc) FrostSigner \<Rightarrow> (nat \<Rightarrow> 'rng)
    \<Rightarrow> ('fs, 'id, 'pt, 'sc, 'pk) threads \<Rightarrow> ('fs, 'id, 'pt, 'sc, 'pk) threads \<Rightarrow> bool"
  for e cd s rngs where
  poll: "th_poll_end t = None \<Longrightarrow> thread_step e cd s rngs t (poll_iteration (cry e) cd s t)"
| recv: "th_sign_end t = None \<Longrightarrow> th_taken t < length (pl_tx (th_poller t)) \<Longrightarrow>
    thread_step e cd s rngs t (sign_iteration e cd s (rngs (th_taken t)) (pl_tx (th_poller t) ! th_taken t) t)"
| recv_fails: "th_sign_end t = None \<Longrightarrow> th_taken t = length (pl_tx (th_poller t)) \<Longrightarrow> th_poll_end t \<noteq> None \<Longrightarrow>
    thread_step e cd s rngs t (t\<lparr>th_sign_end := Some (Err RecvError)\<rparr>)"

section \<open>Interleavings and the loops one after the other\<close>

text \<open>The messages that were received, with their random numbers.\<close>

definition taken_msgs ::
  "(nat \<Rightarrow> 'rng) \<Rightarrow> nat \<Rightarrow> ('id, 'pt, 'sc) Message list \<Rightarrow> ('rng \<times> ('id, 'pt, 'sc) Message) list" where
  "taken_msgs rngs n tx = zip (map rngs [0..<n]) tx"

lemma taken_msgs_Suc:
  "n < length tx \<Longrightarrow> taken_msgs rngs (Suc n) tx = taken_msgs rngs n tx @ [(rngs n, tx ! n)]"
  by (rule nth_equalityI) (auto simp: taken_msgs_def nth_append less_Suc_eq min_def)

lemma taken_msgs_append: "n \<le> length tx \<Longrightarrow> taken_msgs rngs n (tx @ ys) = taken_msgs rngs n tx"
  by (simp add: taken_msgs_def zip_append2)

text \<open>Only the end of the messages makes the signing loop report \<^verbatim>\<open>RecvError\<close>, so its runs can be joined.\<close>

lemma send_all_not_RecvError: "send_all cr cd sk outs w \<noteq> (Err RecvError, w')"
proof (induction outs arbitrary: w)
  case (Cons out outs)
  then show ?case
    by (auto simp: sign_message_type_def split: outcome.splits prod.splits)
qed simp

lemma signing_loop_append:
  "signing_loop e cd sk (xs @ ys) r w =
     (case signing_loop e cd sk xs r w of
        (Err RecvError, r1, w1) \<Rightarrow> signing_loop e cd sk ys r1 w1
      | res \<Rightarrow> res)"
proof (induction e cd sk xs r w rule: signing_loop.induct)
  case (2 e cd sk rng inbound rest r w)
  then show ?case
    using send_all_not_RecvError [of "cry e" cd sk _ w]
    by (auto split: prod.splits outcome.splits signer_error.splits)
qed simp

lemma poll_step_frame:
  assumes "poll_step cr cd i pks cpk p = (res, p')"
  shows "pl_rx_open p' = pl_rx_open p"
    and "\<exists>ms. pl_tx p' = pl_tx p @ ms"
    and "\<not> pl_rx_open p \<Longrightarrow> pl_tx p' = pl_tx p"
  using assms by (auto simp: poll_step_def Let_def split: prod.splits option.splits outcome.splits bool.splits if_splits)

lemma poll_loop_snoc:
  "poll_loop cr cd i pks cpk k p = (Ok (), p1) \<Longrightarrow>
    poll_loop cr cd i pks cpk (Suc k) p = poll_step cr cd i pks cpk p1"
proof (induction k arbitrary: p)
  case 0
  then show ?case by (auto split: prod.split outcome.split)
next
  case (Suc k)
  obtain res p2 where st: "poll_step cr cd i pks cpk p = (res, p2)" by fastforce
  with Suc.prems have "res = Ok ()" by (cases res) auto
  with st Suc.prems have "poll_loop cr cd i pks cpk k p2 = (Ok (), p1)" by simp
  from Suc.IH [OF this] st \<open>res = Ok ()\<close> show ?case
    by (simp del: poll_loop.simps add: poll_loop.simps(2) [of cr cd i pks cpk "Suc k" p])
qed

abbreviation signer_poll_loop where
  "signer_poll_loop cr cd s k p \<equiv>
     poll_loop cr cd (sg_signer_id s) (public_keys (sg_config s)) (coordinator_public_key (sg_config s)) k p"

definition end_result :: "(signer_error, unit) outcome option \<Rightarrow> (signer_error, unit) outcome \<Rightarrow> (signer_error, unit) outcome" where
  "end_result r running = (case r of None \<Rightarrow> running | Some res \<Rightarrow> res)"

lemma end_result_simps [simp]: "end_result None x = x" "end_result (Some r) x = r"
  by (simp_all add: end_result_def)

text \<open>The polling thread has run some iterations of its loop, as long as the signing thread was there.\<close>

definition poll_inv ::
  "('fs, 'rng, 'id, 'pt, 'sc, 'pk) env \<Rightarrow> ('id, 'pt, 'sc) codec \<Rightarrow> ('pk, 'sc) FrostSigner \<Rightarrow> ('id, 'pt, 'sc) poller
    \<Rightarrow> ('fs, 'id, 'pt, 'sc, 'pk) threads \<Rightarrow> bool" where
  "poll_inv e cd s p0 t \<longleftrightarrow>
     (\<exists>k p res. signer_poll_loop (cry e) cd s k p0 = (res, p) \<and> pl_tx p = pl_tx (th_poller t) \<and> pl_rx_open p
        \<and> (th_sign_end t = None \<longrightarrow> p = th_poller t \<and> res = end_result (th_poll_end t) (Ok ())))"

text \<open>The signing thread has run its loop on the messages it received.\<close>

definition sign_inv ::
  "('fs, 'rng, 'id, 'pt, 'sc, 'pk) env \<Rightarrow> ('id, 'pt, 'sc) codec \<Rightarrow> ('pk, 'sc) FrostSigner \<Rightarrow> (nat \<Rightarrow> 'rng)
    \<Rightarrow> ('fs, 'id, 'pt, 'sc, 'pk) SigningRound \<Rightarrow> wire \<Rightarrow> ('fs, 'id, 'pt, 'sc, 'pk) threads \<Rightarrow> bool" where
  "sign_inv e cd s rngs r0 w0 t \<longleftrightarrow>
     th_taken t \<le> length (pl_tx (th_poller t))
     \<and> signing_loop e cd (network_private_key (sg_config s)) (taken_msgs rngs (th_taken t) (pl_tx (th_poller t))) r0 w0
         = (end_result (th_sign_end t) (Err RecvError), th_round t, th_wire t)"

lemma poll_inv_poll:
  assumes "poll_inv e cd s p0 t" and "th_poll_end t = None"
  shows "poll_inv e cd s p0 (poll_iteration (cry e) cd s t)"
proof -
  from assms(1) obtain k p res where run: "signer_poll_loop (cry e) cd s k p0 = (res, p)"
    and tx: "pl_tx p = pl_tx (th_poller t)" "pl_rx_open p"
    and now: "th_sign_end t = None \<Longrightarrow> p = th_poller t \<and> res = end_result (th_poll_end t) (Ok ())"
    by (auto simp: poll_inv_def)
  obtain res1 p1 where st: "poll_step (cry e) cd (sg_signer_id s) (public_keys (sg_config s))
      (coordinator_public_key (sg_config s)) ((th_poller t)\<lparr>pl_rx_open := (th_sign_end t = None)\<rparr>) = (res1, p1)"
    by fastforce
  show ?thesis
  proof (cases "th_sign_end t")
    case None
    with now tx assms(2) have "res = Ok ()" "(th_poller t)\<lparr>pl_rx_open := True\<rparr> = p" "p = th_poller t" by simp_all
    with st None have st': "poll_step (cry e) cd (sg_signer_id s) (public_keys (sg_config s))
        (coordinator_public_key (sg_config s)) p = (res1, p1)" by simp
    with poll_loop_snoc [OF run [unfolded \<open>res = Ok ()\<close>]]
    have "signer_poll_loop (cry e) cd s (Suc k) p0 = (res1, p1)" by simp
    moreover have "pl_rx_open p1" using poll_step_frame(1) [OF st'] tx by simp
    moreover have "end_result (if res1 = Ok () then None else Some res1) (Ok ()) = res1" by simp
    ultimately show ?thesis
      using st None unfolding poll_inv_def poll_iteration_def by (intro exI [of _ "Suc k"]) simp
  next
    case (Some x)
    with poll_step_frame(3) [OF st] tx have "pl_tx p1 = pl_tx p" by simp
    with run tx st Some show ?thesis
      unfolding poll_inv_def poll_iteration_def by (intro exI [of _ k]) simp
  qed
qed

lemma sign_inv_poll:
  assumes "sign_inv e cd s rngs r0 w0 t"
  shows "sign_inv e cd s rngs r0 w0 (poll_iteration (cry e) cd s t)"
proof -
  obtain res p where st: "poll_step (cry e) cd (sg_signer_id s) (public_keys (sg_config s))
      (coordinator_public_key (sg_config s)) ((th_poller t)\<lparr>pl_rx_open := (th_sign_end t = None)\<rparr>) = (res, p)"
    by fastforce
  from poll_step_frame(2) [OF st] obtain ms where "pl_tx p = pl_tx (th_poller t) @ ms" by auto
  with assms st show ?thesis
    by (simp add: sign_inv_def poll_iteration_def taken_msgs_append)
qed

lemma sign_iteration_frame:
  "th_poller (sign_iteration e cd s rng m t) = th_poller t"
  "th_taken (sign_iteration e cd s rng m t) = Suc (th_taken t)"
  by (auto simp: sign_iteration_def Let_def split: prod.split outcome.split)

text \<open>One message of the loop, as an iteration.\<close>

lemma sign_iteration_loop:
  assumes "th_sign_end t = None"
  shows "signing_loop e cd (network_private_key (sg_config s)) [(rng, m)] (th_round t) (th_wire t) =
    (let t1 = sign_iteration e cd s rng m t in (end_result (th_sign_end t1) (Err RecvError), th_round t1, th_wire t1))"
  using assms by (auto simp: sign_iteration_def Let_def split: prod.split outcome.split)

lemma sign_inv_recv:
  assumes "sign_inv e cd s rngs r0 w0 t" and "th_sign_end t = None" and "th_taken t < length (pl_tx (th_poller t))"
  shows "sign_inv e cd s rngs r0 w0
    (sign_iteration e cd s (rngs (th_taken t)) (pl_tx (th_poller t) ! th_taken t) t)"
  using assms sign_iteration_loop [OF assms(2), of e cd s "rngs (th_taken t)" "pl_tx (th_poller t) ! th_taken t"]
  by (simp add: sign_inv_def sign_iteration_frame taken_msgs_Suc signing_loop_append Let_def del: signing_loop.simps)

lemma thread_step_inv:
  assumes "thread_step e cd s rngs t t'" and "poll_inv e cd s p0 t" and "sign_inv e cd s rngs r0 w0 t"
  shows "poll_inv e cd s p0 t' \<and> sign_inv e cd s rngs r0 w0 t'"
  using assms
proof (induction rule: thread_step.induct)
  case (poll t)
  then show ?case using poll_inv_poll sign_inv_poll by blast
next
  case (recv t)
  then have "poll_inv e cd s p0 (sign_iteration e cd s (rngs (th_taken t)) (pl_tx (th_poller t) ! th_taken t) t)"
    by (fastforce simp: poll_inv_def sign_iteration_def Let_def split: prod.split outcome.split)
  with recv sign_inv_recv show ?case by blast
next
  case (recv_fails t)
  then show ?case by (auto simp: poll_inv_def sign_inv_def)
qed

lemma thread_steps_inv:
  assumes "(thread_step e cd s rngs)\<^sup>*\<^sup>* t t'" and "poll_inv e cd s p0 t" and "sign_inv e cd s rngs r0 w0 t"
  shows "poll_inv e cd s p0 t' \<and> sign_inv e cd s rngs r0 w0 t'"
  using assms by (induction rule: rtranclp_induct) (auto dest: thread_step_inv)

lemma start_inv:
  assumes "start_p2p_sync e rng s w_in w_out = Ok t"
  shows "poll_inv e cd s (poller_new (http_relay_url (sg_config s)) w_in) t"
    and "sign_inv e cd s rngs (th_round t) w_out t"
    and "SigningRound_from e rng (sg_config s) (sg_signer_id s) = Ok (th_round t)"
  using assms
  by (auto simp: start_p2p_sync_def obind_Ok_iff poll_inv_def sign_inv_def taken_msgs_def poller_new_def
      intro: exI [of _ 0])

text \<open>Conversely, the loops one after the other are an interleaving: first all polls, then all messages.\<close>

lemma polls_reachable:
  assumes "signer_poll_loop (cry e) cd s k (th_poller t) = (Ok (), p)" and "th_poll_end t = None" and "th_sign_end t = None"
    and "pl_rx_open (th_poller t)"
  shows "(thread_step e cd s rngs)\<^sup>*\<^sup>* t (t\<lparr>th_poller := p\<rparr>)"
  using assms
proof (induction k arbitrary: t)
  case 0
  then have "t\<lparr>th_poller := p\<rparr> = t" by (cases t) simp
  then show ?case by simp
next
  case (Suc k)
  obtain x p1 where st: "poll_step (cry e) cd (sg_signer_id s) (public_keys (sg_config s))
      (coordinator_public_key (sg_config s)) (th_poller t) = (x, p1)" by fastforce
  with Suc.prems(1) have x: "x = Ok ()" and rest: "signer_poll_loop (cry e) cd s k p1 = (Ok (), p)" by (cases x; simp)+
  have "(th_poller t)\<lparr>pl_rx_open := True\<rparr> = th_poller t" using Suc.prems(4) by simp
  with st x Suc.prems(2,3) have it: "poll_iteration (cry e) cd s t = t\<lparr>th_poller := p1\<rparr>"
    by (simp add: poll_iteration_def)
  have "(thread_step e cd s rngs)\<^sup>*\<^sup>* (t\<lparr>th_poller := p1\<rparr>) (t\<lparr>th_poller := p1\<rparr>\<lparr>th_poller := p\<rparr>)"
    using Suc.prems rest poll_step_frame(1) [OF st] by (intro Suc.IH) simp_all
  with thread_step.poll [of t e cd s rngs] Suc.prems(2) it show ?case
    by (simp add: converse_rtranclp_into_rtranclp)
qed

lemma recvs_reachable:
  assumes "signing_loop e cd (network_private_key (sg_config s)) (taken_msgs rngs n (pl_tx (th_poller t))) (th_round t) (th_wire t)
      = (Err RecvError, r, w)" and "n \<le> length (pl_tx (th_poller t))" and "th_taken t = 0" and "th_sign_end t = None"
  shows "\<exists>t'. (thread_step e cd s rngs)\<^sup>*\<^sup>* t t' \<and> th_poller t' = th_poller t \<and> th_taken t' = n \<and> th_round t' = r
    \<and> th_wire t' = w \<and> th_sign_end t' = None"
  using assms
proof (induction n arbitrary: r w)
  case 0
  then show ?case by (auto simp: taken_msgs_def)
next
  case (Suc n)
  let ?sk = "network_private_key (sg_config s)" and ?tx = "pl_tx (th_poller t)"
  have split: "taken_msgs rngs (Suc n) ?tx = taken_msgs rngs n ?tx @ [(rngs n, ?tx ! n)]"
    using Suc.prems(2) by (intro taken_msgs_Suc) simp
  obtain x r1 w1 where run: "signing_loop e cd ?sk (taken_msgs rngs n ?tx) (th_round t) (th_wire t) = (x, r1, w1)"
    by (metis prod_cases3)
  with Suc.prems(1) have x: "x = Err RecvError"
    by (cases x) (auto simp: split signing_loop_append split: signer_error.splits)
  with run Suc.prems(1) have last: "signing_loop e cd ?sk [(rngs n, ?tx ! n)] r1 w1 = (Err RecvError, r, w)"
    by (simp add: split signing_loop_append del: signing_loop.simps)
  from Suc.IH [OF run [unfolded x]] Suc.prems obtain t1 where t1: "(thread_step e cd s rngs)\<^sup>*\<^sup>* t t1"
      "th_poller t1 = th_poller t" "th_taken t1 = n" "th_round t1 = r1" "th_wire t1 = w1" "th_sign_end t1 = None"
    by auto
  let ?t2 = "sign_iteration e cd s (rngs n) (?tx ! n) t1"
  have ends: "end_result (th_sign_end ?t2) (Err RecvError) = Err RecvError" "th_round ?t2 = r" "th_wire ?t2 = w"
    using sign_iteration_loop [OF t1(6), of e cd s "rngs n" "?tx ! n"] last t1(4,5) by (simp_all add: Let_def del: signing_loop.simps)
  moreover have "th_sign_end ?t2 \<noteq> Some (Err RecvError)"
    using t1(6) send_all_not_RecvError [of "cry e" cd ?sk]
    by (auto simp: sign_iteration_def Let_def split: prod.splits outcome.splits)
  ultimately have "th_sign_end ?t2 = None" by (cases "th_sign_end ?t2") simp_all
  moreover have "thread_step e cd s rngs t1 ?t2"
    using thread_step.recv [of t1 e cd s rngs] t1 Suc.prems(2) by simp
  ultimately show ?case
    using t1(1,2,3) ends(2,3) by (intro exI [of _ ?t2]) (auto simp: sign_iteration_frame)
qed

lemma sequential_reachable:
  assumes start: "start_p2p_sync e rng s w_in w_out = Ok t0"
    and polls: "signer_poll_loop (cry e) cd s k (poller_new (http_relay_url (sg_config s)) w_in) = (Ok (), p)"
    and signs: "signing_loop e cd (network_private_key (sg_config s)) (taken_msgs rngs n (pl_tx p)) (th_round t0) w_out
      = (Err RecvError, r, w)" "n \<le> length (pl_tx p)"
  shows "\<exists>t. (thread_step e cd s rngs)\<^sup>*\<^sup>* t0 t \<and> th_taken t = n \<and> th_round t = r \<and> th_wire t = w \<and> th_sign_end t = None"
proof -
  have t0: "th_poller t0 = poller_new (http_relay_url (sg_config s)) w_in" "th_poll_end t0 = None" "th_sign_end t0 = None"
      "th_taken t0 = 0" "th_wire t0 = w_out"
    using start by (auto simp: start_p2p_sync_def obind_Ok_iff)
  have "(thread_step e cd s rngs)\<^sup>*\<^sup>* t0 (t0\<lparr>th_poller := p\<rparr>)"
    using polls t0 by (intro polls_reachable) (simp_all add: poller_new_def)
  moreover have "\<exists>t. (thread_step e cd s rngs)\<^sup>*\<^sup>* (t0\<lparr>th_poller := p\<rparr>) t \<and> th_poller t = th_poller (t0\<lparr>th_poller := p\<rparr>)
      \<and> th_taken t = n \<and> th_round t = r \<and> th_wire t = w \<and> th_sign_end t = None"
    using signs t0 by (intro recvs_reachable) simp_all
  then obtain t where "(thread_step e cd s rngs)\<^sup>*\<^sup>* (t0\<lparr>th_poller := p\<rparr>) t"
      and t: "th_taken t = n" "th_round t = r" "th_wire t = w" "th_sign_end t = None" by (elim exE conjE)
  ultimately have "(thread_step e cd s rngs)\<^sup>*\<^sup>* t0 t" by simp
  with t show ?thesis by (intro exI conjI)
qed

text \<open>
  C13. The threads of a signer do what its loops do one after the other. However the iterations of the two
  threads interleave, the polling thread has sent down the channel what some number of iterations of \<^verbatim>\<open>poll_loop\<close>
  send, and the result of the signing thread so far, with everything it has posted, is that of
  \<^verbatim>\<open>start_signing_round\<close> on the messages it has received, which are the first ones of those sent, in their order.
  (A signing thread that is still running counts as one that waits for a message.)
\<close>

theorem signer_threads_sequential:
  assumes "start_p2p_sync e rng s w_in w_out = Ok t0" and "(thread_step e cd s rngs)\<^sup>*\<^sup>* t0 t"
  shows "\<exists>k p. snd (signer_poll_loop (cry e) cd s k (poller_new (http_relay_url (sg_config s)) w_in)) = p
    \<and> pl_tx p = pl_tx (th_poller t) \<and> th_taken t \<le> length (pl_tx p)
    \<and> start_signing_round e cd rng (sg_config s) (sg_signer_id s) (taken_msgs rngs (th_taken t) (pl_tx p)) w_out
        = (end_result (th_sign_end t) (Err RecvError), th_wire t)"
proof -
  from thread_steps_inv [OF assms(2) start_inv(1) [OF assms(1)] start_inv(2) [OF assms(1)]]
  have p: "poll_inv e cd s (poller_new (http_relay_url (sg_config s)) w_in) t"
    and sg: "sign_inv e cd s rngs (th_round t0) w_out t" by simp_all
  from p obtain k p' res where "signer_poll_loop (cry e) cd s k (poller_new (http_relay_url (sg_config s)) w_in) = (res, p')"
    "pl_tx p' = pl_tx (th_poller t)" by (auto simp: poll_inv_def)
  with sg start_inv(3) [OF assms(1)] show ?thesis
    by (intro exI [of _ k] exI [of _ p']) (simp add: sign_inv_def start_signing_round_def)
qed

definition demo_config :: "(nat, nat) Config" where
  "demo_config = \<lparr>http_relay_url = ''http://relay'', keys_threshold = 2, network_private_key = 2, public_keys = demo_keys,
     signer_key_ids = [(1, [1, 2]), (2, [3])], coordinator_public_key = 8, total_signers = 2, total_keys = 3\<rparr>"

definition demo_signer :: "(nat, nat) FrostSigner" where
  "demo_signer = FrostSigner_new demo_config 1"

definition demo_wire :: "get_result list \<Rightarrow> wire" where
  "demo_wire gs = \<lparr>gets = gs, posts = [], retries = [], polled = [], posted = []\<rparr>"

text \<open>One message is polled, then taken by the signing thread; the round ignores an answer to a nonce request.\<close>

lemma demo_verify: "verify_msg demo_crypto demo_answer demo_keys 8 = Ok True"
  by (simp add: verify_msg_def verify_with_def Signable_verify_def demo_answer_def demo_crypto_def demo_keys_def Let_def)

theorem signer_threads_sequential_witness:
  "\<exists>t0 t k. start_p2p_sync demo_env 0 demo_signer (demo_wire [GetErr, GetResponse 200 [1]]) (demo_wire []) = Ok t0
    \<and> (thread_step demo_env answer_codec demo_signer (\<lambda>n. n))\<^sup>*\<^sup>* t0 t \<and> th_taken t = 1
    \<and> pl_tx (snd (signer_poll_loop demo_crypto answer_codec demo_signer k
          (poller_new ''http://relay'' (demo_wire [GetErr, GetResponse 200 [1]])))) = [demo_answer]
    \<and> start_signing_round demo_env answer_codec 0 demo_config 1 [(0, demo_answer)] (demo_wire [])
        = (Err RecvError, demo_wire [])"
proof -
  let ?step = "thread_step demo_env answer_codec demo_signer (\<lambda>n. n)"
  let ?poll = "poll_iteration demo_crypto answer_codec demo_signer"
  have env: "cry demo_env = demo_crypto" by (simp add: demo_env_def)
  obtain t0 where start: "start_p2p_sync demo_env 0 demo_signer (demo_wire [GetErr, GetResponse 200 [1]]) (demo_wire []) = Ok t0"
    and t0: "th_poller t0 = poller_new ''http://relay'' (demo_wire [GetErr, GetResponse 200 [1]])" "th_taken t0 = 0"
      "th_poll_end t0 = None" "th_sign_end t0 = None" "th_wire t0 = demo_wire []" "rd_state (th_round t0) = Idle"
    by (simp add: start_p2p_sync_def SigningRound_from_def demo_signer_def FrostSigner_new_def demo_config_def)
  let ?t2 = "?poll (?poll t0)"
  note poll_defs = poll_iteration_def poll_step_def poll_def next_message_def poller_new_def demo_wire_def
    HttpNetListen_new_def HttpNet_new_def answer_codec_def demo_signer_def FrostSigner_new_def demo_config_def
  have t1: "th_poll_end (?poll t0) = None" and t2: "pl_tx (th_poller ?t2) = [demo_answer]" "th_taken ?t2 = 0"
      "th_sign_end ?t2 = None" "th_round ?t2 = th_round t0" "th_wire ?t2 = demo_wire []"
    using t0 demo_verify by (simp_all add: poll_defs)
  let ?t3 = "sign_iteration demo_env answer_codec demo_signer 0 demo_answer ?t2"
  have "?step t0 (?poll t0)" "?step (?poll t0) ?t2"
    using thread_step.poll [of t0] thread_step.poll [of "?poll t0"] t0 t1 env by metis+
  moreover have "?step ?t2 ?t3" using thread_step.recv [of ?t2] t2 by (metis One_nat_def length_Cons less_one list.size(3) nth_Cons_0)
  ultimately have steps: "?step\<^sup>*\<^sup>* t0 ?t3" by (meson r_into_rtranclp rtranclp.rtrancl_into_rtrancl)
  have proc: "process demo_env 0 (th_round t0) (msg demo_answer) = (Ok [], th_round t0)"
    using t0 by (simp add: process_def dispatch_def demo_answer_def public_shares_done_def can_dkg_end_def Let_def)
  have t3: "th_taken ?t3 = 1" "th_sign_end ?t3 = None" "th_wire ?t3 = demo_wire []" "pl_tx (th_poller ?t3) = [demo_answer]"
    using t2 by (simp_all add: sign_iteration_def Let_def proc)
  from signer_threads_sequential [OF start steps] t3 obtain k where
    "pl_tx (snd (signer_poll_loop demo_crypto answer_codec demo_signer k
        (poller_new ''http://relay'' (demo_wire [GetErr, GetResponse 200 [1]])))) = [demo_answer]"
    "start_signing_round demo_env answer_codec 0 demo_config 1 [(0, demo_answer)] (demo_wire []) = (Err RecvError, demo_wire [])"
    by (auto simp: env demo_signer_def FrostSigner_new_def demo_config_def taken_msgs_def)
  with start steps t3 show ?thesis by blast
qed

end
