(* ===== verification/Relay.thy ===== *)
theory Relay
  imports Http
begin

text \<open>
  The relay server (\<^verbatim>\<open>relay-server/src\<close>): the message store \<^verbatim>\<open>MemState\<close>, the HTTP server on top
  of it, and \<^verbatim>\<open>ProxyState\<close>, the client that reaches a store through HTTP requests. The trait
  \<^verbatim>\<open>State\<close> is the locale \<open>relay_state\<close>: one log of posted messages and one reading position per
  node. \<^verbatim>\<open>MemState\<close> and the proxied server both implement it.

  An operation on mutable state returns its outcome together with the new state, so that the state
  after an error is visible too.
\<close>

section \<open>The message store\<close>

record MemState =
  highwaters :: "(string \<times> nat) list"
  queue :: "bytes list"

definition MemState_default :: MemState where
  "MemState_default = \<lparr>highwaters = [], queue = []\<rparr>"

definition MemState_get :: "MemState \<Rightarrow> string \<Rightarrow> (io_error, bytes) outcome \<times> MemState" where
  "MemState_get s node_id =
     (let first_unread =
        (case map_of (highwaters s) node_id of None \<Rightarrow> 0 | Some last_read \<Rightarrow> last_read + 1) in
      if first_unread < length (queue s) then
        (Ok (queue s ! first_unread),
         s\<lparr>highwaters := hm_insert node_id first_unread (highwaters s)\<rparr>)
      else (Ok [], s))"

definition MemState_post :: "MemState \<Rightarrow> bytes \<Rightarrow> (io_error, unit) outcome \<times> MemState" where
  "MemState_post s msg = (Ok (), s\<lparr>queue := queue s @ [msg]\<rparr>)"

section \<open>The server\<close>

definition Server_update ::
  "MemState \<Rightarrow> bytes \<Rightarrow> (io_error, bytes \<times> bytes) outcome \<times> MemState" where
  "Server_update s istream =
     (case Request_read istream of
        Err e \<Rightarrow> (Err e, s)
      | Panic \<Rightarrow> (Panic, s)
      | Ok (request, rest) \<Rightarrow>
          (let respond = (\<lambda>content. Ok (Response_write (Response_new 200 ''OK'' [] content), rest)) in
           case rq_method request of
             GET \<Rightarrow>
               (case map_of (url_query (rq_url request)) ''id'' of
                  None \<Rightarrow> (Err (InvalidData ''option''), s)
                | Some query \<Rightarrow>
                    (let (r, s1) = MemState_get s query in (obind r respond, s1)))
           | POST \<Rightarrow>
               (let (r, s1) = MemState_post s (rq_content request) in
                (obind r (\<lambda>_. respond []), s1))))"

definition Server_raw_call :: "MemState \<Rightarrow> bytes \<Rightarrow> (io_error, bytes) outcome \<times> MemState" where
  "Server_raw_call s msg =
     (let (r, s1) = Server_update s msg in
      (obind r (\<lambda>(result, rest).
         if rest \<noteq> [] then Err (InvalidData ''invalid request'') else Ok result), s1))"

definition Server_call :: "MemState \<Rightarrow> Request \<Rightarrow> (io_error, Response) outcome \<times> MemState" where
  "Server_call s request =
     (let (r, s1) = Server_raw_call s (Request_write request) in
      (obind r (\<lambda>buf. obind (Response_read buf) (\<lambda>(resp, rest). Ok resp)), s1))"

text \<open>
  The accept loop of \<^verbatim>\<open>Server::run\<close> over the connections that arrive: each is what \<^verbatim>\<open>incoming\<close>
  yields, an error or the bytes of a stream. An error is printed and the loop goes on; a panic ends
  the process. The result lists the responses written, the state, and whether the server is alive.
\<close>

fun Server_run :: "MemState \<Rightarrow> (io_error, bytes) outcome list \<Rightarrow> bytes list \<times> MemState \<times> bool" where
  "Server_run s [] = ([], s, True)"
| "Server_run s (Err e # conns) = Server_run s conns"
| "Server_run s (Panic # conns) = ([], s, False)"
| "Server_run s (Ok istream # conns) =
     (case Server_update s istream of
        (Ok (out, rest), s1) \<Rightarrow> (let (outs, s2, alive) = Server_run s1 conns in (out # outs, s2, alive))
      | (Err e, s1) \<Rightarrow> Server_run s1 conns
      | (Panic, s1) \<Rightarrow> ([], s1, False))"

section \<open>The proxy\<close>

definition ProxyState_get ::
  "('t \<Rightarrow> Request \<Rightarrow> (io_error, Response) outcome \<times> 't) \<Rightarrow> 't \<Rightarrow> string
    \<Rightarrow> (io_error, bytes) outcome \<times> 't" where
  "ProxyState_get call s node_id =
     (let (r, s1) = call s (Request_new GET (''/?id='' @ node_id) [] []) in
      (obind r (\<lambda>resp. Ok (rs_content resp)), s1))"

definition ProxyState_post ::
  "('t \<Rightarrow> Request \<Rightarrow> (io_error, Response) outcome \<times> 't) \<Rightarrow> 't \<Rightarrow> bytes
    \<Rightarrow> (io_error, unit) outcome \<times> 't" where
  "ProxyState_post call s msg =
     (let (r, s1) = call s (Request_new POST ''/'' [] msg) in (obind r (\<lambda>_. Ok ()), s1))"

section \<open>The contract of a message store\<close>

datatype relay_op = Get string | Post bytes

text \<open>Any interleaving of operations by any nodes, with the answers to the reads in order.\<close>

fun relay_run ::
  "('s \<Rightarrow> string \<Rightarrow> (io_error, bytes) outcome \<times> 's) \<Rightarrow>
   ('s \<Rightarrow> bytes \<Rightarrow> (io_error, unit) outcome \<times> 's) \<Rightarrow>
   's \<Rightarrow> relay_op list \<Rightarrow> (string \<times> (io_error, bytes) outcome) list \<times> 's" where
  "relay_run get post s [] = ([], s)"
| "relay_run get post s (Get n # ops) =
     (let (r, s1) = get s n; (rs, s2) = relay_run get post s1 ops in ((n, r) # rs, s2))"
| "relay_run get post s (Post m # ops) = (let (r, s1) = post s m in relay_run get post s1 ops)"

fun posted_msgs :: "relay_op list \<Rightarrow> bytes list" where
  "posted_msgs [] = []"
| "posted_msgs (Get n # ops) = posted_msgs ops"
| "posted_msgs (Post m # ops) = m # posted_msgs ops"

text \<open>The messages a node received: its answers, without the empty ones that mean ``nothing new''.\<close>

fun received_msgs :: "string \<Rightarrow> (string \<times> (io_error, bytes) outcome) list \<Rightarrow> bytes list" where
  "received_msgs n [] = []"
| "received_msgs n ((k, Ok m) # rs) = (if k = n \<and> m \<noteq> [] then m # received_msgs n rs else received_msgs n rs)"
| "received_msgs n ((k, Err e) # rs) = received_msgs n rs"
| "received_msgs n ((k, Panic) # rs) = received_msgs n rs"

fun admissible :: "(string \<Rightarrow> bool) \<Rightarrow> (bytes \<Rightarrow> bool) \<Rightarrow> relay_op list \<Rightarrow> bool" where
  "admissible ok_id ok_msg [] = True"
| "admissible ok_id ok_msg (Get n # ops) = (ok_id n \<and> admissible ok_id ok_msg ops)"
| "admissible ok_id ok_msg (Post m # ops) = (ok_msg m \<and> m \<noteq> [] \<and> admissible ok_id ok_msg ops)"

locale relay_state =
  fixes get :: "'s \<Rightarrow> string \<Rightarrow> (io_error, bytes) outcome \<times> 's"
    and post :: "'s \<Rightarrow> bytes \<Rightarrow> (io_error, unit) outcome \<times> 's"
    and log :: "'s \<Rightarrow> bytes list"
    and pos :: "'s \<Rightarrow> string \<Rightarrow> nat"
    and invar :: "'s \<Rightarrow> bool"
    and ok_id :: "string \<Rightarrow> bool"
    and ok_msg :: "bytes \<Rightarrow> bool"
  assumes pos_bound: "invar s \<Longrightarrow> pos s n \<le> length (log s)"
    and get_new: "invar s \<Longrightarrow> ok_id n \<Longrightarrow> pos s n < length (log s) \<Longrightarrow>
      \<exists>s'. get s n = (Ok (log s ! pos s n), s') \<and> invar s' \<and> log s' = log s
        \<and> pos s' = (pos s)(n := Suc (pos s n))"
    and get_none: "invar s \<Longrightarrow> ok_id n \<Longrightarrow> pos s n = length (log s) \<Longrightarrow> get s n = (Ok [], s)"
    and post_appends: "invar s \<Longrightarrow> ok_msg m \<Longrightarrow>
      \<exists>s'. post s m = (Ok (), s') \<and> invar s' \<and> log s' = log s @ [m] \<and> pos s' = pos s"
begin

text \<open>
  Along any run, a node's reading position only moves forward, the log only grows by what is
  posted, and what the node receives is the segment of the log between its two positions.
\<close>

lemma run_delivers:
  assumes "invar s" and "admissible ok_id ok_msg ops" and "[] \<notin> set (log s)"
    and "relay_run get post s ops = (rs, s')"
  shows "invar s' \<and> log s' = log s @ posted_msgs ops \<and> pos s n \<le> pos s' n
    \<and> received_msgs n rs = take (pos s' n - pos s n) (drop (pos s n) (log s'))"
  using assms
proof (induction ops arbitrary: s rs)
  case Nil
  then show ?case by simp
next
  case (Cons op ops)
  show ?case
  proof (cases op)
    case (Post m)
    with Cons.prems obtain s1 where s1: "post s m = (Ok (), s1)" "invar s1"
      "log s1 = log s @ [m]" "pos s1 = pos s"
      using post_appends [of s m] by auto
    with Cons.prems Post have "relay_run get post s1 ops = (rs, s')"
      by simp
    with Cons.IH [of s1 rs] Cons.prems s1 Post show ?thesis
      by auto
  next
    case (Get k)
    obtain r s1 rs1 where g: "get s k = (r, s1)" and run: "relay_run get post s1 ops = (rs1, s')"
      and rs: "rs = (k, r) # rs1"
      using Cons.prems(4) Get by (auto split: prod.splits)
    show ?thesis
    proof (cases "pos s k < length (log s)")
      case True
      with g Cons.prems Get have s1: "r = Ok (log s ! pos s k)" "invar s1" "log s1 = log s"
        "pos s1 = (pos s)(k := Suc (pos s k))"
        using get_new [of s k] by auto
      have IH: "invar s' \<and> log s' = log s @ posted_msgs ops \<and> pos s1 n \<le> pos s' n \<and>
          received_msgs n rs1 = take (pos s' n - pos s1 n) (drop (pos s1 n) (log s'))"
        using Cons.IH [of s1 rs1] Cons.prems s1 Get run by simp
      show ?thesis
      proof (cases "k = n")
        case True
        with IH s1 \<open>pos s k < length (log s)\<close> have le: "Suc (pos s n) \<le> pos s' n"
          and nth: "drop (pos s n) (log s') = log s ! pos s n # drop (Suc (pos s n)) (log s')"
          by (auto simp: Cons_nth_drop_Suc [symmetric] nth_append)
        have "log s ! pos s n \<noteq> []"
          using Cons.prems(3) True \<open>pos s k < length (log s)\<close> by (metis nth_mem)
        with True IH s1 rs le nth Get show ?thesis
          by (simp add: Suc_diff_le take_Cons')
      next
        case False
        with IH s1 rs Get show ?thesis by simp
      qed
    next
      case False
      with Cons.prems g Get have "r = Ok [] \<and> s1 = s"
        using get_none [of s k] pos_bound [of s k] by simp
      with Cons.IH [of s rs1] Cons.prems rs run Get show ?thesis by simp
    qed
  qed
qed

text \<open>Nothing is withheld: reading often enough empties the backlog of a node.\<close>

lemma reads_drain:
  assumes "invar s" and "ok_id n" and "length (log s) - pos s n \<le> k"
  shows "\<exists>s'. relay_run get post s (replicate k (Get n))
      = (map (\<lambda>m. (n, Ok m)) (drop (pos s n) (log s)
          @ replicate (k - (length (log s) - pos s n)) []), s') \<and> log s' = log s"
  using assms
proof (induction k arbitrary: s)
  case 0
  then show ?case by simp
next
  case (Suc k)
  show ?case
  proof (cases "pos s n < length (log s)")
    case True
    then obtain s1 where s1: "get s n = (Ok (log s ! pos s n), s1)" "invar s1" "log s1 = log s"
      "pos s1 = (pos s)(n := Suc (pos s n))"
      using get_new [of s n] Suc.prems by auto
    moreover have "length (log s) - Suc (pos s n) \<le> k"
      using Suc.prems(3) True by simp
    ultimately obtain s' where "relay_run get post s1 (replicate k (Get n))
        = (map (\<lambda>m. (n, Ok m)) (drop (Suc (pos s n)) (log s)
            @ replicate (k - (length (log s) - Suc (pos s n))) []), s')" "log s' = log s"
      using Suc.IH [of s1] Suc.prems(2) by auto
    with s1 True show ?thesis
      by (auto simp: Cons_nth_drop_Suc [symmetric])
  next
    case False
    then have eq: "pos s n = length (log s)"
      using pos_bound [of s n] Suc.prems(1) by simp
    then have g: "get s n = (Ok [], s)"
      using get_none [of s n] Suc.prems by simp
    show ?thesis
      using Suc.IH [of s] Suc.prems eq by (auto simp: g)
  qed
qed

end

section \<open>The in-memory store keeps the contract\<close>

definition mem_pos :: "MemState \<Rightarrow> string \<Rightarrow> nat" where
  "mem_pos s n = (case map_of (highwaters s) n of None \<Rightarrow> 0 | Some last_read \<Rightarrow> Suc last_read)"

definition mem_invar :: "MemState \<Rightarrow> bool" where
  "mem_invar s \<longleftrightarrow> hm_distinct (highwaters s) \<and>
     (\<forall>(n, last_read) \<in> set (highwaters s). last_read < length (queue s))"

lemma mem_pos_bound: "mem_invar s \<Longrightarrow> mem_pos s n \<le> length (queue s)"
  by (auto simp: mem_invar_def mem_pos_def Suc_le_eq split: option.splits dest: map_of_SomeD)

lemma set_hm_insert: "set (hm_insert k v m) \<subseteq> insert (k, v) (set m)"
  by (induction k v m rule: hm_insert.induct) auto

lemma mem_get_eq:
  "MemState_get s n =
     (if mem_pos s n < length (queue s)
      then (Ok (queue s ! mem_pos s n), s\<lparr>highwaters := hm_insert n (mem_pos s n) (highwaters s)\<rparr>)
      else (Ok [], s))"
  by (auto simp: MemState_get_def mem_pos_def Let_def split: option.splits)

lemma mem_pos_insert:
  "mem_pos (s\<lparr>highwaters := hm_insert n p (highwaters s)\<rparr>) = (mem_pos s)(n := Suc p)"
  by (auto simp: mem_pos_def hm_lookup_insert fun_eq_iff)

lemma mem_invar_insert:
  "mem_invar s \<Longrightarrow> p < length (queue s) \<Longrightarrow> mem_invar (s\<lparr>highwaters := hm_insert n p (highwaters s)\<rparr>)"
  using set_hm_insert [of n p "highwaters s"] by (auto simp: mem_invar_def)

lemma mem_post_keeps:
  "mem_invar s \<Longrightarrow> mem_invar (s\<lparr>queue := queue s @ [m]\<rparr>)
     \<and> mem_pos (s\<lparr>queue := queue s @ [m]\<rparr>) = mem_pos s"
  by (fastforce simp: mem_invar_def mem_pos_def fun_eq_iff)

interpretation mem: relay_state MemState_get MemState_post queue mem_pos mem_invar
  "\<lambda>n. True" "\<lambda>m. True"
  by unfold_locales
    (auto simp: mem_get_eq mem_pos_bound mem_pos_insert mem_invar_insert MemState_post_def mem_post_keeps)

lemma mem_default [simp]: "mem_invar MemState_default" "queue MemState_default = []"
    "mem_pos MemState_default n = 0"
  by (auto simp: MemState_default_def mem_invar_def hm_distinct_def mem_pos_def)

section \<open>The proxied server keeps it too\<close>

text \<open>Node ids that a URL query can carry, and messages that fit in memory.\<close>

definition proxy_id :: "string \<Rightarrow> bool" where
  "proxy_id n \<longleftrightarrow> wf_word n \<and> CHR ''&'' \<notin> set n"

definition proxy_msg :: "bytes \<Rightarrow> bool" where
  "proxy_msg m \<longleftrightarrow> length m < isize_bound"

definition proxy_invar :: "MemState \<Rightarrow> bool" where
  "proxy_invar s \<longleftrightarrow> mem_invar s \<and> list_all proxy_msg (queue s)"

lemma url_query_id:
  assumes "CHR ''&'' \<notin> set n"
  shows "map_of (url_query (''/?id='' @ n)) ''id'' = Some n"
proof -
  have "split_char CHR ''&'' (''id='' @ n) = [''id='' @ n]"
    using assms by (intro split_char_fresh) auto
  then show ?thesis
    by (simp add: url_query_def)
qed

lemma new_sels [simp]:
  "rs_content (Response_new c p hs b) = b"
  "rq_method (Request_new m url hs b) = m"
  "rq_url (Request_new m url hs b) = url"
  "rq_content (Request_new m url hs b) = b"
  by (simp_all add: Response_new_def Request_new_def)

lemma Response_call_roundtrip:
  "length content < isize_bound \<Longrightarrow>
     Response_read (Response_write (Response_new 200 ''OK'' [] content))
       = Ok (Response_new 200 ''OK'' [] content, [])"
  using Response_read_write [of "Response_new 200 ''OK'' [] content" "[]"]
  by (simp add: wf_Response_def Response_new_def wf_headers_def wf_word_def PROTOCOL_def)

lemma Request_call_roundtrip:
  "wf_word url \<Longrightarrow> length content < isize_bound \<Longrightarrow>
     Request_read (Request_write (Request_new m url [] content)) = Ok (Request_new m url [] content, [])"
  using Request_read_write [of "Request_new m url [] content" "[]"]
  by (simp add: wf_Request_def Request_new_def wf_headers_def wf_word_def PROTOCOL_def)

lemma wf_get_url: "wf_word n \<Longrightarrow> wf_word (''/?id='' @ n)"
  by (simp add: wf_word_def)

lemma proxy_get_eq:
  assumes "proxy_invar s" and "proxy_id n"
  shows "ProxyState_get Server_call s n = MemState_get s n"
proof -
  have msg: "length (queue s ! i) < isize_bound" if "i < length (queue s)" for i
    using assms(1) that by (auto simp: proxy_invar_def proxy_msg_def list_all_length)
  have "Request_read (Request_write (Request_new GET (''/?id='' @ n) [] []))
      = Ok (Request_new GET (''/?id='' @ n) [] [], [])"
    using assms(2) by (intro Request_call_roundtrip wf_get_url) (simp_all add: proxy_id_def isize_bound_def)
  moreover have "map_of (url_query (''/?id='' @ n)) ''id'' = Some n"
    using assms(2) by (intro url_query_id) (simp add: proxy_id_def)
  ultimately show ?thesis
    using msg Response_call_roundtrip [of "[]"]
    by (auto simp: ProxyState_get_def Server_call_def Server_raw_call_def Server_update_def
        Response_call_roundtrip mem_get_eq Let_def isize_bound_def)
qed

lemma proxy_post_eq:
  assumes "proxy_msg m"
  shows "ProxyState_post Server_call s m = MemState_post s m"
proof -
  have "Request_read (Request_write (Request_new POST ''/'' [] m)) = Ok (Request_new POST ''/'' [] m, [])"
    using assms by (intro Request_call_roundtrip) (simp_all add: proxy_msg_def wf_word_def)
  then show ?thesis
    using Response_call_roundtrip [of "[]"]
    by (simp add: ProxyState_post_def Server_call_def Server_raw_call_def Server_update_def
        MemState_post_def isize_bound_def)
qed

interpretation proxy: relay_state "ProxyState_get Server_call" "ProxyState_post Server_call"
  queue mem_pos proxy_invar proxy_id proxy_msg
proof unfold_locales
  fix s n
  assume inv: "proxy_invar s" and id: "proxy_id n"
  show "\<exists>s'. ProxyState_get Server_call s n = (Ok (queue s ! mem_pos s n), s') \<and> proxy_invar s' \<and>
      queue s' = queue s \<and> mem_pos s' = (mem_pos s)(n := Suc (mem_pos s n))"
    if "mem_pos s n < length (queue s)"
    using that inv id mem.get_new [of s n] by (auto simp: proxy_get_eq proxy_invar_def)
  show "ProxyState_get Server_call s n = (Ok [], s)" if "mem_pos s n = length (queue s)"
    using that inv id by (simp add: proxy_get_eq mem_get_eq)
next
  fix s m
  assume "proxy_invar s" and "proxy_msg m"
  then show "\<exists>s'. ProxyState_post Server_call s m = (Ok (), s') \<and> proxy_invar s' \<and>
      queue s' = queue s @ [m] \<and> mem_pos s' = mem_pos s"
    by (auto simp: proxy_post_eq MemState_post_def proxy_invar_def mem_post_keeps)
qed (auto simp: proxy_invar_def mem_pos_bound)

section \<open>Properties\<close>

text \<open>
  C16. In-order, gap-free, duplicate-free delivery. Start the store empty and let any nodes post and
  read in any interleaving (no posted message being empty). Then the messages a node has received
  are, in order, the first ones of the sequence of posted messages: as many as its reading position
  says, whatever the other nodes did in between.
\<close>

theorem relay_delivers_in_order:
  assumes "admissible (\<lambda>n. True) (\<lambda>m. True) ops"
    and "relay_run MemState_get MemState_post MemState_default ops = (rs, s)"
  shows "received_msgs n rs = take (mem_pos s n) (posted_msgs ops)"
  using mem.run_delivers [of MemState_default ops rs s n] assms by simp

theorem relay_delivers_in_order_witness:
  "received_msgs ''a'' (fst (relay_run MemState_get MemState_post MemState_default
      [Get ''a'', Post [1], Post [2], Get ''b'', Get ''a'', Post [3], Get ''a'']))
    = take 2 (posted_msgs [Get ''a'', Post [1], Post [2], Get ''b'', Get ''a'', Post [3], Get ''a''])"
proof -
  let ?ops = "[Get ''a'', Post [1], Post [2], Get ''b'', Get ''a'', Post [3], Get ''a'']"
  obtain rs s where run: "relay_run MemState_get MemState_post MemState_default ?ops = (rs, s)"
    by fastforce
  then have "mem_pos s ''a'' = 2"
    by (auto simp: MemState_get_def MemState_post_def MemState_default_def mem_pos_def)
  with relay_delivers_in_order [OF _ run, of "''a''"] run show ?thesis
    by simp
qed

text \<open>
  C17. The proxy refines the store. Through HTTP (\<^verbatim>\<open>ProxyState\<close> writing requests, \<^verbatim>\<open>Server\<close> parsing
  them, answering, and the proxy parsing the answer) every operation has exactly the result and the
  effect it has on the in-memory store: for a node id that a query string can carry and messages
  that fit in memory.
\<close>

theorem proxy_refines_store:
  assumes "proxy_invar s" and "proxy_id n" and "proxy_msg m"
  shows "ProxyState_get Server_call s n = MemState_get s n
    \<and> ProxyState_post Server_call s m = MemState_post s m"
  using assms by (simp add: proxy_get_eq proxy_post_eq)

theorem proxy_refines_store_witness:
  "ProxyState_get Server_call \<lparr>highwaters = [(''7'', 0)], queue = [[1, 2], [3]]\<rparr> ''7''
      = MemState_get \<lparr>highwaters = [(''7'', 0)], queue = [[1, 2], [3]]\<rparr> ''7''
    \<and> ProxyState_post Server_call \<lparr>highwaters = [(''7'', 0)], queue = [[1, 2], [3]]\<rparr> [9]
      = MemState_post \<lparr>highwaters = [(''7'', 0)], queue = [[1, 2], [3]]\<rparr> [9]"
  by (rule proxy_refines_store)
    (simp_all add: proxy_invar_def mem_invar_def hm_distinct_def proxy_msg_def proxy_id_def
      wf_word_def isize_bound_def)

text \<open>
  Liveness of delivery through the proxy. A node that reads as often as it has unread messages
  receives every one of them, in order, and then empty answers; reading changes nothing for the log.
\<close>

theorem proxy_reads_drain:
  assumes "proxy_invar s" and "proxy_id n" and "length (queue s) - mem_pos s n \<le> k"
  shows "\<exists>s'. relay_run (ProxyState_get Server_call) (ProxyState_post Server_call) s
        (replicate k (Get n))
      = (map (\<lambda>m. (n, Ok m)) (drop (mem_pos s n) (queue s)
          @ replicate (k - (length (queue s) - mem_pos s n)) []), s') \<and> queue s' = queue s"
  using assms by (rule proxy.reads_drain)

theorem proxy_reads_drain_witness:
  "\<exists>s'. relay_run (ProxyState_get Server_call) (ProxyState_post Server_call)
        \<lparr>highwaters = [(''7'', 0)], queue = [[1, 2], [3]]\<rparr> (replicate 2 (Get ''7''))
      = ([(''7'', Ok [3]), (''7'', Ok [])], s') \<and> queue s' = [[1, 2], [3]]"
  using proxy_reads_drain [of "\<lparr>highwaters = [(''7'', 0)], queue = [[1, 2], [3]]\<rparr>" "''7''" 2]
  by (simp add: proxy_invar_def mem_invar_def hm_distinct_def proxy_msg_def proxy_id_def
      wf_word_def isize_bound_def mem_pos_def)

text \<open>
  A connection that fails does not disturb the store: when \<^verbatim>\<open>Server::update\<close> returns an error
  (unreadable request, unknown method, a read without an \<^verbatim>\<open>id\<close>), the state is as it was, so the
  accept loop ends in the same state, with the same responses and as alive, as if the connection
  had not been made.
\<close>

theorem failed_connection_harmless:
  assumes "fst (Server_update s istream) = Err e"
  shows "Server_run s (Ok istream # conns) = Server_run s conns"
proof -
  have "snd (Server_update s istream) = s"
    using assms
    by (auto simp: Server_update_def MemState_get_def MemState_post_def Let_def
        split: outcome.splits prod.splits Method.splits option.splits if_splits)
  with assms show ?thesis
    by (cases "Server_update s istream") auto
qed

theorem failed_connection_harmless_witness:
  "Server_run MemState_default [Ok (as_bytes ''GET''), Err UnexpectedEof]
    = Server_run MemState_default [Err UnexpectedEof]"
proof -
  have "fst (Server_update MemState_default (as_bytes ''GET'')) = Err UnexpectedEof"
    by (simp add: Server_update_def Request_read_def read_message_def read_line_def as_bytes_def
        char_bytes_def as_char_def char_of_def bit_simps)
  then show ?thesis by (rule failed_connection_harmless)
qed

text \<open>
  C33. A request can end the server. A \<^verbatim>\<open>Content-Length\<close> of \<^verbatim>\<open>isize::MAX + 1\<close> or more, accepted by
  \<^verbatim>\<open>parse\<close>, makes \<^verbatim>\<open>read_exact_vec\<close> ask for a vector beyond the capacity limit: the process panics
  and every later connection stays unanswered.
\<close>

theorem oversized_content_length_kills_server:
  assumes "isize_bound \<le> len" and "len < usize_bound"
  shows "Server_run s (Ok (as_bytes ''POST / HTTP/1.1'' @ EOL
      @ write_header CONTENT_LENGTH (show_nat len) @ EOL @ rest) # conns) = ([], s, False)"
proof -
  have "read_line (as_bytes ''POST / HTTP/1.1'' @ EOL @ t) = Ok (''POST / HTTP/1.1'', t)" for t
    by (rule read_line_as_bytes) auto
  then have "read_message (as_bytes ''POST / HTTP/1.1'' @ EOL
      @ write_header CONTENT_LENGTH (show_nat len) @ EOL @ rest) = Panic"
    using assms
    by (simp add: read_message_def read_headers_content_length read_headers_Nil read_exact_vec_def)
  then show ?thesis
    by (simp add: Server_update_def Request_read_def)
qed

theorem oversized_content_length_kills_server_witness:
  "Server_run MemState_default [Ok (as_bytes ''POST / HTTP/1.1'' @ EOL
      @ write_header CONTENT_LENGTH (show_nat (2 ^ 63)) @ EOL @ []), Ok []]
    = ([], MemState_default, False)"
  by (rule oversized_content_length_kills_server) (simp_all add: isize_bound_def usize_bound_def)

end
