(* ===== verification/FrostCoordinator.thy ===== *)
theory FrostCoordinator
  imports FrostNet
begin

text \<open>
  The coordinator of key generation and signing (\<^verbatim>\<open>frost-coordinator/src/coordinator.rs\<close> and
  \<^verbatim>\<open>lib.rs\<close>), over the listener of theory \<open>FrostNet\<close>. Group arithmetic, the signature aggregator
  and the proof of the \<^verbatim>\<open>wsts\<close> crate are the record \<open>agg\<close>; their errors are type variables.
  Every loop of the coordinator waits for messages; since each message taken uses up something
  of the finite script of the network, all of them are total functions here.
\<close>

section \<open>State\<close>

datatype ('ae, 'te) coord_error =
    NetworkError net_error
  | NoAggregatePublicKey
  | Aggregator 'ae
  | Taproot 'te
  | SchnorrProofFailed
  | Timeout
  | ConfigError config_error
  | InvalidSignerMessage

datatype coord_command = Dkg | Sign bytes | DkgSign bytes | GetAggregatePublicKey

record ('id, 'pt, 'sc, 'ag, 'ae, 'te, 'sig, 'proof) agg =
  pt_default :: 'pt
  pt_add :: "'pt \<Rightarrow> 'pt \<Rightarrow> 'pt"
  has_even_y :: "'pt \<Rightarrow> bool"
  compute_intermediate :: "bytes \<Rightarrow> u32 list \<Rightarrow> 'pt PublicNonce list \<Rightarrow> 'pt"
  aggregator_new :: "u32 \<Rightarrow> u32 \<Rightarrow> ('id, 'pt) PolyCommitment list \<Rightarrow> 'ae + 'ag"
  aggregator_sign :: "'ag \<Rightarrow> bytes \<Rightarrow> 'pt PublicNonce list \<Rightarrow> 'sc SignatureShare list \<Rightarrow> 'ae + 'sig"
  SchnorrProof_new :: "'sig \<Rightarrow> 'te + 'proof"
  proof_verify :: "'proof \<Rightarrow> 'pt \<Rightarrow> bytes \<Rightarrow> bool"

record ('id, 'pt, 'sc, 'pk, 'ag, 'ae, 'te, 'sig, 'proof) cenv =
  ccry :: "('pt, 'sc, 'pk) crypto"
  ccodec :: "('id, 'pt, 'sc) codec"
  cagg :: "('id, 'pt, 'sc, 'ag, 'ae, 'te, 'sig, 'proof) agg"

record ('id, 'pt, 'sc, 'pk) Coordinator =
  co_id :: u32
  current_dkg_id :: u64
  current_dkg_public_id :: u64
  current_sign_id :: u64
  current_sign_nonce_id :: u64
  co_total_signers :: u32
  co_total_keys :: u32
  co_threshold :: u32
  network :: "('id, 'pt, 'sc) HttpNetListen"
  dkg_public_shares :: "(u32 \<times> ('id, 'pt) DkgPublicShare) list"
  public_nonces :: "(u32 \<times> 'pt NonceResponse) list"
  signature_shares :: "(u32 \<times> 'sc SignatureShare list) list"
  aggregate_public_key :: 'pt
  co_network_private_key :: 'sc
  co_public_key :: 'pk

definition DEVNET_COORDINATOR_ID :: u32 where
  "DEVNET_COORDINATOR_ID = 0"

definition Coordinator_new ::
  "('id, 'pt, 'sc, 'pk, 'ag, 'ae, 'te, 'sig, 'proof) cenv \<Rightarrow> u32 \<Rightarrow> ('pk, 'sc) Config
    \<Rightarrow> ('id, 'pt, 'sc) HttpNetListen \<Rightarrow> ('id, 'pt, 'sc, 'pk) Coordinator" where
  "Coordinator_new E i c n =
     \<lparr>co_id = i, current_dkg_id = 0, current_dkg_public_id = 0, current_sign_id = 1,
      current_sign_nonce_id = 1, co_total_signers = total_signers c, co_total_keys = total_keys c,
      co_threshold = keys_threshold c, network = n, dkg_public_shares = [], public_nonces = [],
      signature_shares = [], aggregate_public_key = pt_default (cagg E),
      co_network_private_key = network_private_key c, co_public_key = coordinator_public_key c\<rparr>"

definition create_coordinator ::
  "('id, 'pt, 'sc, 'pk, 'ag, 'ae, 'te, 'sig, 'proof) cenv \<Rightarrow> ('pk, 'sc) Config \<Rightarrow> wire
    \<Rightarrow> ('id, 'pt, 'sc, 'pk) Coordinator" where
  "create_coordinator E c w =
     Coordinator_new E DEVNET_COORDINATOR_ID c (HttpNetListen_new (HttpNet_new (http_relay_url c)) [] w)"

definition get_aggregate_public_key ::
  "('id, 'pt, 'sc, 'pk, 'ag, 'ae, 'te, 'sig, 'proof) cenv \<Rightarrow> ('id, 'pt, 'sc, 'pk) Coordinator
    \<Rightarrow> (('ae, 'te) coord_error, 'pt) outcome" where
  "get_aggregate_public_key E c =
     (if aggregate_public_key c = pt_default (cagg E) then Err NoAggregatePublicKey
      else Ok (aggregate_public_key c))"

section \<open>Sending and receiving\<close>

text \<open>The coordinator's \<^verbatim>\<open>sign(..).expect(..)\<close> followed by \<^verbatim>\<open>network.send_message(..)?\<close>.\<close>

definition send_signed ::
  "('id, 'pt, 'sc, 'pk, 'ag, 'ae, 'te, 'sig, 'proof) cenv \<Rightarrow> ('id, 'pt, 'sc) MessageTypes
    \<Rightarrow> ('id, 'pt, 'sc, 'pk) Coordinator
    \<Rightarrow> (('ae, 'te) coord_error, unit) outcome \<times> ('id, 'pt, 'sc, 'pk) Coordinator" where
  "send_signed E m c =
     (case sign_message_type (ccry E) (co_network_private_key c) m of
        Ok out \<Rightarrow>
          (let (res, w) = send_message (ccodec E) out (nl_wire (network c)) in
           (map_err NetworkError res, c\<lparr>network := (network c)\<lparr>nl_wire := w\<rparr>\<rparr>))
      | Err er \<Rightarrow> (Err er, c)
      | Panic \<Rightarrow> (Panic, c))"

text \<open>\<^verbatim>\<open>wait_for_next_message\<close>: poll until a message is there or the backoff timer gives up.\<close>

definition wait_for_next_message ::
  "('id, 'pt, 'sc, 'pk, 'ag, 'ae, 'te, 'sig, 'proof) cenv \<Rightarrow> ('id, 'pt, 'sc, 'pk) Coordinator
    \<Rightarrow> (('ae, 'te) coord_error, ('id, 'pt, 'sc) Message) outcome \<times> ('id, 'pt, 'sc, 'pk) Coordinator" where
  "wait_for_next_message E c =
     (let (k, w) = take_retries (nl_wire (network c));
          (res, n) = poll_retry (poll (ccodec E) (co_id c)) next_message k ((network c)\<lparr>nl_wire := w\<rparr>) in
      (ok_or Timeout res, c\<lparr>network := n\<rparr>))"

definition co_work :: "('id, 'pt, 'sc, 'pk) Coordinator \<Rightarrow> nat" where
  "co_work c = net_work (network c)"

lemma wait_for_next_message_work:
  assumes "wait_for_next_message E c = (res, c')"
  shows "co_work c' \<le> co_work c \<and> (is_ok res \<longrightarrow> co_work c' < co_work c) \<and> res \<noteq> Panic"
proof -
  obtain k w where w: "take_retries (nl_wire (network c)) = (k, w)" by fastforce
  then have gets: "gets w = gets (nl_wire (network c))"
    by (auto simp: take_retries_def split: list.splits)
  obtain m n where p: "poll_retry (poll (ccodec E) (co_id c)) next_message k ((network c)\<lparr>nl_wire := w\<rparr>) = (m, n)"
    by fastforce
  from http.poll_retry_work [OF p] assms w p gets show ?thesis
    by (cases m) (auto simp: wait_for_next_message_def co_work_def net_work_def)
qed

lemma wait_for_next_message_Ok_work [termination_simp]:
  "wait_for_next_message E c = (Ok m, c') \<Longrightarrow> co_work c' < co_work c"
  using wait_for_next_message_work [of E c "Ok m" c'] by simp

text \<open>Everything but the network is left as it is.\<close>

lemma wait_for_next_message_frame:
  "wait_for_next_message E c = (res, c') \<Longrightarrow> \<exists>n. c' = c\<lparr>network := n\<rparr>"
  by (auto simp: wait_for_next_message_def split: prod.splits)

lemma send_signed_frame:
  "send_signed E m c = (res, c') \<Longrightarrow> \<exists>w. c' = c\<lparr>network := (network c)\<lparr>nl_wire := w\<rparr>\<rparr>"
  by (auto simp: send_signed_def split: outcome.splits prod.splits
      intro: exI [of _ "nl_wire (network c)"])

lemma send_message_gets: "send_message cd m w = (res, w') \<Longrightarrow> gets w' = gets w"
proof -
  have post: "post_retry k b w = (s, w') \<Longrightarrow> gets w' = gets w" for k b s w w'
    by (induction k arbitrary: w) (auto simp: post_retry_0 post_retry_Suc Let_def split: if_splits)
  show "send_message cd m w = (res, w') \<Longrightarrow> gets w' = gets w"
    by (auto simp: send_message_def take_retries_def split: option.splits list.splits prod.splits dest: post)
qed

lemma send_signed_work: "send_signed E m c = (res, c') \<Longrightarrow> co_work c' = co_work c"
  by (auto simp: send_signed_def co_work_def net_work_def split: outcome.splits prod.splits
      dest: send_message_gets)

section \<open>Distributed key generation\<close>

definition all_signer_ids :: "('id, 'pt, 'sc, 'pk) Coordinator \<Rightarrow> u32 list" where
  "all_signer_ids c = map of_nat [1..<Suc (unat (co_total_signers c))]"

definition start_public_shares ::
  "('id, 'pt, 'sc, 'pk, 'ag, 'ae, 'te, 'sig, 'proof) cenv \<Rightarrow> ('id, 'pt, 'sc, 'pk) Coordinator
    \<Rightarrow> (('ae, 'te) coord_error, unit) outcome \<times> ('id, 'pt, 'sc, 'pk) Coordinator" where
  "start_public_shares E c =
     send_signed E (DkgBegin \<lparr>db_dkg_id = current_dkg_id c\<rparr>) (c\<lparr>dkg_public_shares := []\<rparr>)"

definition start_private_shares ::
  "('id, 'pt, 'sc, 'pk, 'ag, 'ae, 'te, 'sig, 'proof) cenv \<Rightarrow> ('id, 'pt, 'sc, 'pk) Coordinator
    \<Rightarrow> (('ae, 'te) coord_error, unit) outcome \<times> ('id, 'pt, 'sc, 'pk) Coordinator" where
  "start_private_shares E c = send_signed E (DkgPrivateBegin \<lparr>db_dkg_id = current_dkg_id c\<rparr>) c"

text \<open>The sum of the constant terms, in ascending order of the keys; an empty polynomial panics at \<^verbatim>\<open>A[0]\<close>.\<close>

fun sum_constant_terms ::
  "('id, 'pt, 'sc, 'ag, 'ae, 'te, 'sig, 'proof) agg \<Rightarrow> 'pt \<Rightarrow> (u32 \<times> ('id, 'pt) DkgPublicShare) list
    \<Rightarrow> (('ae, 'te) coord_error, 'pt) outcome" where
  "sum_constant_terms ag s [] = Ok s"
| "sum_constant_terms ag s ((k, dps) # rest) =
     (case pc_A (dps_public_share dps) of
        [] \<Rightarrow> Panic
      | a # as \<Rightarrow> sum_constant_terms ag (pt_add ag s a) rest)"

definition calculate_aggregate_public_key ::
  "('id, 'pt, 'sc, 'pk, 'ag, 'ae, 'te, 'sig, 'proof) cenv \<Rightarrow> ('id, 'pt, 'sc, 'pk) Coordinator
    \<Rightarrow> (('ae, 'te) coord_error, 'pt) outcome \<times> ('id, 'pt, 'sc, 'pk) Coordinator" where
  "calculate_aggregate_public_key E c =
     (case sum_constant_terms (cagg E) (pt_default (cagg E)) (dkg_public_shares c) of
        Ok key \<Rightarrow> (Ok key, c\<lparr>aggregate_public_key := key\<rparr>)
      | Err er \<Rightarrow> (Err er, c)
      | Panic \<Rightarrow> (Panic, c))"

text \<open>The head of the loop of \<^verbatim>\<open>wait_for_public_shares\<close>: with nobody left to wait for, compute the key;
  an odd key starts the phase over.\<close>

definition check_public ::
  "('id, 'pt, 'sc, 'pk, 'ag, 'ae, 'te, 'sig, 'proof) cenv \<Rightarrow> u32 list \<Rightarrow> ('id, 'pt, 'sc, 'pk) Coordinator
    \<Rightarrow> (('ae, 'te) coord_error, 'pt + u32 list) outcome \<times> ('id, 'pt, 'sc, 'pk) Coordinator" where
  "check_public E ids c =
     (if ids = [] then
        (case calculate_aggregate_public_key E c of
           (Ok key, c1) \<Rightarrow>
             if has_even_y (cagg E) key then (Ok (Inl key), c1\<lparr>aggregate_public_key := key\<rparr>)
             else (case start_public_shares E c1 of
                     (Ok u, c2) \<Rightarrow> (Ok (Inr (all_signer_ids c2)), c2)
                   | (Err er, c2) \<Rightarrow> (Err er, c2)
                   | (Panic, c2) \<Rightarrow> (Panic, c2))
         | (Err er, c1) \<Rightarrow> (Err er, c1)
         | (Panic, c1) \<Rightarrow> (Panic, c1))
      else (Ok (Inr ids), c))"

definition public_msg ::
  "('id, 'pt, 'sc) MessageTypes \<Rightarrow> u32 list \<Rightarrow> ('id, 'pt, 'sc, 'pk) Coordinator
    \<Rightarrow> u32 list \<times> ('id, 'pt, 'sc, 'pk) Coordinator" where
  "public_msg m ids c =
     (case m of
        DkgPublicEnd d \<Rightarrow> (removeAll (de_signer_id d) ids, c)
      | DkgPublicShare s \<Rightarrow> (ids, c\<lparr>dkg_public_shares := bt_insert (dps_party_id s) s (dkg_public_shares c)\<rparr>)
      | _ \<Rightarrow> (ids, c))"

lemma check_public_work: "check_public E ids c = (res, c') \<Longrightarrow> co_work c' = co_work c"
  by (auto simp: check_public_def calculate_aggregate_public_key_def start_public_shares_def
      split: if_splits prod.splits outcome.splits dest!: send_signed_work)
    (simp_all add: co_work_def)

lemma public_msg_work_snd: "co_work (snd (public_msg m ids c)) = co_work c"
  by (cases m) (auto simp: public_msg_def co_work_def)

function wait_public ::
  "('id, 'pt, 'sc, 'pk, 'ag, 'ae, 'te, 'sig, 'proof) cenv \<Rightarrow> u32 list \<Rightarrow> ('id, 'pt, 'sc, 'pk) Coordinator
    \<Rightarrow> (('ae, 'te) coord_error, 'pt) outcome \<times> ('id, 'pt, 'sc, 'pk) Coordinator" where
  "wait_public E ids c =
     (case check_public E ids c of
        (Ok (Inl key), c1) \<Rightarrow> (Ok key, c1)
      | (Ok (Inr ids1), c1) \<Rightarrow>
          (case wait_for_next_message E c1 of
             (Ok m, c2) \<Rightarrow> (case public_msg (msg m) ids1 c2 of (ids2, c3) \<Rightarrow> wait_public E ids2 c3)
           | (Err er, c2) \<Rightarrow> (Err er, c2)
           | (Panic, c2) \<Rightarrow> (Panic, c2))
      | (Err er, c1) \<Rightarrow> (Err er, c1)
      | (Panic, c1) \<Rightarrow> (Panic, c1))"
  by pat_completeness auto
termination
  by (relation "measure (\<lambda>(E, ids, c). co_work c)")
    (auto simp: public_msg_work_snd case_prod_beta
      dest!: check_public_work [OF sym] wait_for_next_message_Ok_work [OF sym])

declare wait_public.simps [simp del]

definition wait_for_public_shares ::
  "('id, 'pt, 'sc, 'pk, 'ag, 'ae, 'te, 'sig, 'proof) cenv \<Rightarrow> ('id, 'pt, 'sc, 'pk) Coordinator
    \<Rightarrow> (('ae, 'te) coord_error, 'pt) outcome \<times> ('id, 'pt, 'sc, 'pk) Coordinator" where
  "wait_for_public_shares E c = wait_public E (all_signer_ids c) c"

function wait_end ::
  "('id, 'pt, 'sc, 'pk, 'ag, 'ae, 'te, 'sig, 'proof) cenv \<Rightarrow> u32 list \<Rightarrow> ('id, 'pt, 'sc, 'pk) Coordinator
    \<Rightarrow> (('ae, 'te) coord_error, unit) outcome \<times> ('id, 'pt, 'sc, 'pk) Coordinator" where
  "wait_end E ids c =
     (if ids = [] then (Ok (), c)
      else (case wait_for_next_message E c of
              (Ok m, c1) \<Rightarrow>
                wait_end E (case msg m of DkgEnd d \<Rightarrow> removeAll (de_signer_id d) ids | _ \<Rightarrow> ids) c1
            | (Err er, c1) \<Rightarrow> (Err er, c1)
            | (Panic, c1) \<Rightarrow> (Panic, c1)))"
  by pat_completeness auto
termination
  by (relation "measure (\<lambda>(E, ids, c). co_work c)") (auto dest!: wait_for_next_message_Ok_work [OF sym])

declare wait_end.simps [simp del]

definition wait_for_dkg_end ::
  "('id, 'pt, 'sc, 'pk, 'ag, 'ae, 'te, 'sig, 'proof) cenv \<Rightarrow> ('id, 'pt, 'sc, 'pk) Coordinator
    \<Rightarrow> (('ae, 'te) coord_error, unit) outcome \<times> ('id, 'pt, 'sc, 'pk) Coordinator" where
  "wait_for_dkg_end E c = wait_end E (all_signer_ids c) c"

definition run_distributed_key_generation ::
  "('id, 'pt, 'sc, 'pk, 'ag, 'ae, 'te, 'sig, 'proof) cenv \<Rightarrow> ('id, 'pt, 'sc, 'pk) Coordinator
    \<Rightarrow> (('ae, 'te) coord_error, 'pt) outcome \<times> ('id, 'pt, 'sc, 'pk) Coordinator" where
  "run_distributed_key_generation E c =
     (let c0 = c\<lparr>current_dkg_id := current_dkg_id c + 1\<rparr> in
      case start_public_shares E c0 of
        (Ok u, c1) \<Rightarrow>
          (case wait_for_public_shares E c1 of
             (Ok key, c2) \<Rightarrow>
               (case start_private_shares E c2 of
                  (Ok v, c3) \<Rightarrow>
                    (case wait_for_dkg_end E c3 of
                       (Ok x, c4) \<Rightarrow> (Ok key, c4)
                     | (Err er, c4) \<Rightarrow> (Err er, c4)
                     | (Panic, c4) \<Rightarrow> (Panic, c4))
                | (Err er, c3) \<Rightarrow> (Err er, c3)
                | (Panic, c3) \<Rightarrow> (Panic, c3))
           | (Err er, c2) \<Rightarrow> (Err er, c2)
           | (Panic, c2) \<Rightarrow> (Panic, c2))
      | (Err er, c1) \<Rightarrow> (Err er, c1)
      | (Panic, c1) \<Rightarrow> (Panic, c1))"

section \<open>Signing\<close>

definition nonce_msg ::
  "('id, 'pt, 'sc) MessageTypes \<Rightarrow> ('id, 'pt, 'sc, 'pk) Coordinator \<Rightarrow> ('id, 'pt, 'sc, 'pk) Coordinator" where
  "nonce_msg m c =
     (case m of
        NonceResponse r \<Rightarrow> c\<lparr>public_nonces := bt_insert (nr_signer_id r) r (public_nonces c)\<rparr>
      | _ \<Rightarrow> c)"

lemma nonce_msg_work [simp]: "co_work (nonce_msg m c) = co_work c"
  by (cases m) (simp_all add: nonce_msg_def co_work_def)

function nonce_loop ::
  "('id, 'pt, 'sc, 'pk, 'ag, 'ae, 'te, 'sig, 'proof) cenv \<Rightarrow> ('id, 'pt, 'sc, 'pk) Coordinator
    \<Rightarrow> (('ae, 'te) coord_error, unit) outcome \<times> ('id, 'pt, 'sc, 'pk) Coordinator" where
  "nonce_loop E c =
     (case wait_for_next_message E c of
        (Ok m, c1) \<Rightarrow>
          (let c2 = nonce_msg (msg m) c1 in
           if length (public_nonces c2) = unat (co_total_signers c2) then (Ok (), c2) else nonce_loop E c2)
      | (Err er, c1) \<Rightarrow> (Err er, c1)
      | (Panic, c1) \<Rightarrow> (Panic, c1))"
  by pat_completeness auto
termination
  by (relation "measure (\<lambda>(E, c). co_work c)") (auto dest!: wait_for_next_message_Ok_work [OF sym])

declare nonce_loop.simps [simp del]

definition collect_nonces ::
  "('id, 'pt, 'sc, 'pk, 'ag, 'ae, 'te, 'sig, 'proof) cenv \<Rightarrow> ('id, 'pt, 'sc, 'pk) Coordinator
    \<Rightarrow> (('ae, 'te) coord_error, unit) outcome \<times> ('id, 'pt, 'sc, 'pk) Coordinator" where
  "collect_nonces E c =
     (case send_signed E (NonceRequest \<lparr>nq_dkg_id = current_dkg_id c, nq_sign_id = current_sign_id c,
                            nq_sign_nonce_id = current_sign_nonce_id c\<rparr>) (c\<lparr>public_nonces := []\<rparr>) of
        (Ok u, c1) \<Rightarrow> nonce_loop E c1
      | (Err er, c1) \<Rightarrow> (Err er, c1)
      | (Panic, c1) \<Rightarrow> (Panic, c1))"

definition compute_aggregate_nonce ::
  "('id, 'pt, 'sc, 'pk, 'ag, 'ae, 'te, 'sig, 'proof) cenv \<Rightarrow> bytes \<Rightarrow> ('id, 'pt, 'sc, 'pk) Coordinator
    \<Rightarrow> (('ae, 'te) coord_error, 'pt) outcome \<times> ('id, 'pt, 'sc, 'pk) Coordinator" where
  "compute_aggregate_nonce E m c =
     (case collect_nonces E c of
        (Ok u, c1) \<Rightarrow>
          (Ok (compute_intermediate (cagg E) m (concat (map (\<lambda>(i, r). nr_key_ids r) (public_nonces c1)))
                 (concat (map (\<lambda>(i, r). nr_nonces r) (public_nonces c1)))), c1)
      | (Err er, c1) \<Rightarrow> (Err er, c1)
      | (Panic, c1) \<Rightarrow> (Panic, c1))"

definition request_signature_shares ::
  "('id, 'pt, 'sc, 'pk, 'ag, 'ae, 'te, 'sig, 'proof) cenv \<Rightarrow> 'pt NonceResponse list \<Rightarrow> bytes
    \<Rightarrow> ('id, 'pt, 'sc, 'pk) Coordinator
    \<Rightarrow> (('ae, 'te) coord_error, unit) outcome \<times> ('id, 'pt, 'sc, 'pk) Coordinator" where
  "request_signature_shares E nonce_responses m c =
     send_signed E (SignShareRequest \<lparr>sq_dkg_id = current_dkg_id c, sq_sign_id = current_sign_id c,
       sq_correlation_id = 0, sq_nonce_responses = nonce_responses, sq_message = m\<rparr>) c"

definition share_msg ::
  "('id, 'pt, 'sc) MessageTypes \<Rightarrow> u32 list \<Rightarrow> ('id, 'pt, 'sc, 'pk) Coordinator
    \<Rightarrow> u32 list \<times> ('id, 'pt, 'sc, 'pk) Coordinator" where
  "share_msg m sids c =
     (case m of
        SignShareResponse r \<Rightarrow>
          if sr_signer_id r \<in> set sids then
            (removeAll (sr_signer_id r) sids,
             c\<lparr>signature_shares := bt_insert (sr_signer_id r) (sr_signature_shares r) (signature_shares c)\<rparr>)
          else (sids, c)
      | _ \<Rightarrow> (sids, c))"

lemma share_msg_work_snd: "co_work (snd (share_msg m sids c)) = co_work c"
  by (cases m) (auto simp: share_msg_def co_work_def)

function share_loop ::
  "('id, 'pt, 'sc, 'pk, 'ag, 'ae, 'te, 'sig, 'proof) cenv \<Rightarrow> u32 list \<Rightarrow> ('id, 'pt, 'sc, 'pk) Coordinator
    \<Rightarrow> (('ae, 'te) coord_error, unit) outcome \<times> ('id, 'pt, 'sc, 'pk) Coordinator" where
  "share_loop E sids c =
     (if sids = [] then (Ok (), c)
      else (case wait_for_next_message E c of
              (Ok m, c1) \<Rightarrow> (case share_msg (msg m) sids c1 of (sids1, c2) \<Rightarrow> share_loop E sids1 c2)
            | (Err er, c1) \<Rightarrow> (Err er, c1)
            | (Panic, c1) \<Rightarrow> (Panic, c1)))"
  by pat_completeness auto
termination
  by (relation "measure (\<lambda>(E, sids, c). co_work c)")
    (auto simp: share_msg_work_snd case_prod_beta dest!: wait_for_next_message_Ok_work [OF sym])

declare share_loop.simps [simp del]

definition collect_signature_shares ::
  "('id, 'pt, 'sc, 'pk, 'ag, 'ae, 'te, 'sig, 'proof) cenv \<Rightarrow> ('id, 'pt, 'sc, 'pk) Coordinator
    \<Rightarrow> (('ae, 'te) coord_error, unit) outcome \<times> ('id, 'pt, 'sc, 'pk) Coordinator" where
  "collect_signature_shares E c = share_loop E (map fst (public_nonces c)) c"

lemma nonce_loop_work: "nonce_loop E c = (Ok u, c') \<Longrightarrow> co_work c' < co_work c"
proof (induction E c rule: nonce_loop.induct)
  case (1 E c)
  obtain res c1 where w: "wait_for_next_message E c = (res, c1)" by fastforce
  show ?case
  proof (cases res)
    case (Ok m)
    from wait_for_next_message_Ok_work w Ok have "co_work c1 < co_work c" by blast
    moreover have "c' = nonce_msg (msg m) c1 \<or> co_work c' < co_work (nonce_msg (msg m) c1)"
      using 1 w Ok by (auto simp: nonce_loop.simps [of E c] Let_def split: if_splits)
    ultimately show ?thesis by auto
  qed (use 1 w in \<open>auto simp: nonce_loop.simps [of E c]\<close>)
qed

lemma compute_aggregate_nonce_work:
  "compute_aggregate_nonce E m c = (Ok R, c') \<Longrightarrow> co_work c' < co_work c"
  by (auto simp: compute_aggregate_nonce_def collect_nonces_def split: prod.splits outcome.splits
      dest!: nonce_loop_work send_signed_work)
    (simp add: co_work_def)

text \<open>Compute a new aggregate nonce until its y coordinate is even.\<close>

function even_nonce_loop ::
  "('id, 'pt, 'sc, 'pk, 'ag, 'ae, 'te, 'sig, 'proof) cenv \<Rightarrow> bytes \<Rightarrow> ('id, 'pt, 'sc, 'pk) Coordinator
    \<Rightarrow> (('ae, 'te) coord_error, 'pt) outcome \<times> ('id, 'pt, 'sc, 'pk) Coordinator" where
  "even_nonce_loop E m c =
     (case compute_aggregate_nonce E m c of
        (Ok R, c1) \<Rightarrow> if has_even_y (cagg E) R then (Ok R, c1) else even_nonce_loop E m c1
      | (Err er, c1) \<Rightarrow> (Err er, c1)
      | (Panic, c1) \<Rightarrow> (Panic, c1))"
  by pat_completeness auto
termination
  by (relation "measure (\<lambda>(E, m, c). co_work c)") (auto dest!: compute_aggregate_nonce_work [OF sym])

declare even_nonce_loop.simps [simp del]

text \<open>\<^verbatim>\<open>self.signature_shares[i]\<close> of every signer with a nonce; a missing one panics.\<close>

fun gather_shares ::
  "u32 list \<Rightarrow> (u32 \<times> 'sc SignatureShare list) list
    \<Rightarrow> (('ae, 'te) coord_error, 'sc SignatureShare list) outcome" where
  "gather_shares [] shares = Ok []"
| "gather_shares (i # is) shares =
     obind (unwrap (map_of shares i)) (\<lambda>s. obind (gather_shares is shares) (\<lambda>rest. Ok (s @ rest)))"

text \<open>What \<^verbatim>\<open>sign_message\<close> does once all shares are there.\<close>

definition aggregate_signature ::
  "('id, 'pt, 'sc, 'pk, 'ag, 'ae, 'te, 'sig, 'proof) cenv \<Rightarrow> 'ag \<Rightarrow> bytes \<Rightarrow> 'pt PublicNonce list
    \<Rightarrow> ('id, 'pt, 'sc, 'pk) Coordinator \<Rightarrow> (('ae, 'te) coord_error, 'sig \<times> 'proof) outcome" where
  "aggregate_signature E ag m nonces c =
     obind (gather_shares (map fst (public_nonces c)) (signature_shares c)) (\<lambda>shares.
       case aggregator_sign (cagg E) ag m nonces shares of
         Inl er \<Rightarrow> Err (Aggregator er)
       | Inr s \<Rightarrow>
           (case SchnorrProof_new (cagg E) s of
              Inl er \<Rightarrow> Err (Taproot er)
            | Inr p \<Rightarrow>
                if \<not> proof_verify (cagg E) p (aggregate_public_key c) m then Err SchnorrProofFailed
                else Ok (s, p)))"

definition sign_message ::
  "('id, 'pt, 'sc, 'pk, 'ag, 'ae, 'te, 'sig, 'proof) cenv \<Rightarrow> bytes \<Rightarrow> ('id, 'pt, 'sc, 'pk) Coordinator
    \<Rightarrow> (('ae, 'te) coord_error, 'sig \<times> 'proof) outcome \<times> ('id, 'pt, 'sc, 'pk) Coordinator" where
  "sign_message E m c =
     (if aggregate_public_key c = pt_default (cagg E) then (Err NoAggregatePublicKey, c)
      else
        (case even_nonce_loop E m c of
           (Ok R, c1) \<Rightarrow>
             (case aggregator_new (cagg E) (co_total_keys c1) (co_threshold c1)
                     (map (\<lambda>(k, ps). dps_public_share ps) (dkg_public_shares c1)) of
                Inl er \<Rightarrow> (Err (Aggregator er), c1)
              | Inr ag \<Rightarrow>
                  (let nonce_responses = map snd (public_nonces c1) in
                   case request_signature_shares E nonce_responses m c1 of
                     (Ok u, c2) \<Rightarrow>
                       (case collect_signature_shares E c2 of
                          (Ok v, c3) \<Rightarrow>
                            (aggregate_signature E ag m (concat (map nr_nonces nonce_responses)) c3, c3)
                        | (Err er, c3) \<Rightarrow> (Err er, c3)
                        | (Panic, c3) \<Rightarrow> (Panic, c3))
                   | (Err er, c2) \<Rightarrow> (Err er, c2)
                   | (Panic, c2) \<Rightarrow> (Panic, c2)))
         | (Err er, c1) \<Rightarrow> (Err er, c1)
         | (Panic, c1) \<Rightarrow> (Panic, c1)))"

definition Coordinator_run ::
  "('id, 'pt, 'sc, 'pk, 'ag, 'ae, 'te, 'sig, 'proof) cenv \<Rightarrow> coord_command \<Rightarrow> ('id, 'pt, 'sc, 'pk) Coordinator
    \<Rightarrow> (('ae, 'te) coord_error, unit) outcome \<times> ('id, 'pt, 'sc, 'pk) Coordinator" where
  "Coordinator_run E cmd c =
     (case cmd of
        Dkg \<Rightarrow> (case run_distributed_key_generation E c of (res, c1) \<Rightarrow> (obind res (\<lambda>_. Ok ()), c1))
      | Sign m \<Rightarrow> (case sign_message E m c of (res, c1) \<Rightarrow> (obind res (\<lambda>_. Ok ()), c1))
      | DkgSign m \<Rightarrow>
          (case run_distributed_key_generation E c of
             (Ok key, c1) \<Rightarrow> (case sign_message E m c1 of (res, c2) \<Rightarrow> (obind res (\<lambda>_. Ok ()), c2))
           | (Err er, c1) \<Rightarrow> (Err er, c1)
           | (Panic, c1) \<Rightarrow> (Panic, c1))
      | GetAggregatePublicKey \<Rightarrow> (obind (get_aggregate_public_key E c) (\<lambda>_. Ok ()), c))"

section \<open>What the loops leave alone\<close>

text \<open>The part of the state that no step of signing changes.\<close>

definition co_fixed where
  "co_fixed c = (aggregate_public_key c, dkg_public_shares c, co_total_signers c, co_total_keys c,
     co_threshold c, co_network_private_key c)"

lemma co_fixed_updates [simp]:
  "co_fixed (c\<lparr>network := n\<rparr>) = co_fixed c" "co_fixed (c\<lparr>public_nonces := ns\<rparr>) = co_fixed c"
  "co_fixed (c\<lparr>signature_shares := ss\<rparr>) = co_fixed c"
  by (simp_all add: co_fixed_def)

lemma send_signed_fixed:
  "send_signed E m c = (res, c') \<Longrightarrow> co_fixed c' = co_fixed c \<and> public_nonces c' = public_nonces c
     \<and> signature_shares c' = signature_shares c"
  by (auto dest!: send_signed_frame)

lemma wait_fixed:
  "wait_for_next_message E c = (res, c') \<Longrightarrow> co_fixed c' = co_fixed c \<and> public_nonces c' = public_nonces c
     \<and> signature_shares c' = signature_shares c"
  by (auto dest!: wait_for_next_message_frame)

lemma nonce_msg_fixed: "co_fixed (nonce_msg m c) = co_fixed c"
  by (cases m) (simp_all add: nonce_msg_def)

lemma nonce_msg_sorted: "bt_sorted (public_nonces c) \<Longrightarrow> bt_sorted (public_nonces (nonce_msg m c))"
  by (cases m) (simp_all add: nonce_msg_def)

lemma nonce_loop_result:
  "nonce_loop E c = (res, c') \<Longrightarrow> bt_sorted (public_nonces c) \<Longrightarrow>
     co_fixed c' = co_fixed c \<and> res \<noteq> Panic \<and>
     (is_ok res \<longrightarrow> bt_sorted (public_nonces c') \<and> length (public_nonces c') = unat (co_total_signers c'))"
proof (induction E c rule: nonce_loop.induct)
  case (1 E c)
  obtain x c1 where w: "wait_for_next_message E c = (x, c1)" by fastforce
  show ?case
  proof (cases x)
    case (Ok m)
    let ?c2 = "nonce_msg (msg m) c1"
    have sorted: "bt_sorted (public_nonces ?c2)"
      using wait_fixed [OF w] "1.prems"(2) by (simp add: nonce_msg_sorted)
    have fixed: "co_fixed ?c2 = co_fixed c" using wait_fixed [OF w] by (simp add: nonce_msg_fixed)
    show ?thesis
    proof (cases "length (public_nonces ?c2) = unat (co_total_signers ?c2)")
      case True
      with "1.prems" w Ok sorted fixed show ?thesis by (auto simp: nonce_loop.simps [of E c])
    next
      case False
      with "1.prems" w Ok have "nonce_loop E ?c2 = (res, c')" by (simp add: nonce_loop.simps [of E c])
      with "1.IH" [OF w [symmetric] Ok refl False] sorted fixed show ?thesis by auto
    qed
  qed (use "1.prems" w wait_fixed [OF w] wait_for_next_message_work [OF w] in
      \<open>auto simp: nonce_loop.simps [of E c]\<close>)
qed

text \<open>Signing a message hash succeeds: what the coordinator's \<^verbatim>\<open>expect\<close>s rely on.\<close>

definition signs where
  "signs E sk \<longleftrightarrow> (\<forall>h. sign_hash (ccry E) h sk \<noteq> None)"

lemma send_message_not_Panic: "fst (send_message cd x w) \<noteq> Panic"
  by (simp add: send_message_def split: option.split prod.split)

lemma map_err_Panic [simp]: "map_err f r = Panic \<longleftrightarrow> r = Panic"
  by (cases r) auto

lemma send_signed_not_Panic:
  assumes "signs E (co_network_private_key c)" and "is_ok (signable (ccry E) m)"
  shows "fst (send_signed E m c) \<noteq> Panic"
proof -
  from assms(2) obtain i where i: "signable (ccry E) m = Ok i" by (auto simp: is_ok_iff)
  from assms(1) obtain s where "sign_hash (ccry E) (sha256 (ccry E) i) (co_network_private_key c) = Some s"
    unfolding signs_def by blast
  with i show ?thesis
    using send_message_not_Panic [of "ccodec E" "\<lparr>msg = m, sig = s\<rparr>" "nl_wire (network c)"]
    by (simp add: send_signed_def sign_message_type_def Signable_sign_def case_prod_beta)
qed

lemma even_nonce_loop_result:
  assumes "even_nonce_loop E m c = (res, c')"
  shows "co_fixed c' = co_fixed c
    \<and> (\<forall>R. res = Ok R \<longrightarrow> has_even_y (cagg E) R \<and> bt_sorted (public_nonces c')
         \<and> length (public_nonces c') = unat (co_total_signers c)
         \<and> R = compute_intermediate (cagg E) m (concat (map (\<lambda>(i, r). nr_key_ids r) (public_nonces c')))
                 (concat (map (\<lambda>(i, r). nr_nonces r) (public_nonces c'))))
    \<and> (signs E (co_network_private_key c) \<longrightarrow> res \<noteq> Panic)"
  using assms
proof (induction E m c rule: even_nonce_loop.induct)
  case (1 E m c)
  obtain x c1 where n: "compute_aggregate_nonce E m c = (x, c1)" by fastforce
  obtain y c2 where sent: "send_signed E (NonceRequest \<lparr>nq_dkg_id = current_dkg_id c,
      nq_sign_id = current_sign_id c, nq_sign_nonce_id = current_sign_nonce_id c\<rparr>) (c\<lparr>public_nonces := []\<rparr>) = (y, c2)"
    by fastforce
  have fixed2: "co_fixed c2 = co_fixed c" and empty: "bt_sorted (public_nonces c2)"
    using send_signed_fixed [OF sent] by simp_all
  have y: "y \<noteq> Panic" if "signs E (co_network_private_key c)"
    using send_signed_not_Panic [of E "c\<lparr>public_nonces := []\<rparr>" "NonceRequest \<lparr>nq_dkg_id = current_dkg_id c,
      nq_sign_id = current_sign_id c, nq_sign_nonce_id = current_sign_nonce_id c\<rparr>"] that sent by simp
  obtain z c3 where l: "nonce_loop E c2 = (z, c3)" by fastforce
  have l': "co_fixed c3 = co_fixed c2" "z \<noteq> Panic"
    "is_ok z \<longrightarrow> bt_sorted (public_nonces c3) \<and> length (public_nonces c3) = unat (co_total_signers c3)"
    using nonce_loop_result [OF l empty] by auto
  have c1: "co_fixed c1 = co_fixed c \<and> (signs E (co_network_private_key c) \<longrightarrow> x \<noteq> Panic)
    \<and> (\<forall>R. x = Ok R \<longrightarrow> bt_sorted (public_nonces c1) \<and> length (public_nonces c1) = unat (co_total_signers c1)
         \<and> R = compute_intermediate (cagg E) m (concat (map (\<lambda>(i, r). nr_key_ids r) (public_nonces c1)))
                 (concat (map (\<lambda>(i, r). nr_nonces r) (public_nonces c1))))"
    using n sent y l l' fixed2
    by (cases y; cases z) (auto simp: compute_aggregate_nonce_def collect_nonces_def)
  have total: "co_total_signers c1 = co_total_signers c" "co_network_private_key c1 = co_network_private_key c"
    using c1 by (simp_all add: co_fixed_def)
  show ?case
  proof (cases "\<exists>R. x = Ok R \<and> \<not> has_even_y (cagg E) R")
    case True
    then obtain R where R: "x = Ok R" "\<not> has_even_y (cagg E) R" by blast
    with "1.prems" n have "even_nonce_loop E m c1 = (res, c')" by (simp add: even_nonce_loop.simps [of E m c])
    from "1.IH" [OF n [symmetric] R this] c1 total show ?thesis by simp
  next
    case False
    with "1.prems" n c1 total show ?thesis
      by (cases x) (auto simp: even_nonce_loop.simps [of E m c])
  qed
qed

lemma share_msg_fixed:
  "share_msg m sids c = (sids', c') \<Longrightarrow> co_fixed c' = co_fixed c \<and> public_nonces c' = public_nonces c
     \<and> set sids \<union> fst ` set (signature_shares c) \<subseteq> set sids' \<union> fst ` set (signature_shares c')"
  by (cases m) (auto simp: share_msg_def bt_fst_insert rev_image_eqI split: if_splits)

lemma share_loop_result:
  assumes "share_loop E sids c = (res, c')"
  shows "co_fixed c' = co_fixed c \<and> public_nonces c' = public_nonces c \<and> res \<noteq> Panic
    \<and> (is_ok res \<longrightarrow> set sids \<union> fst ` set (signature_shares c) \<subseteq> fst ` set (signature_shares c'))"
  using assms
proof (induction E sids c rule: share_loop.induct)
  case (1 E sids c)
  obtain x c1 where w: "wait_for_next_message E c = (x, c1)" by fastforce
  show ?case
  proof (cases "sids = []")
    case True
    with "1.prems" show ?thesis by (auto simp: share_loop.simps [of E "[]"])
  next
    case False
    show ?thesis
    proof (cases x)
      case (Ok m)
      obtain sids1 c2 where s: "share_msg (msg m) sids c1 = (sids1, c2)" by fastforce
      with "1.prems" False w Ok have "share_loop E sids1 c2 = (res, c')"
        by (simp add: share_loop.simps [of E sids c])
      from "1.IH" [OF False w [symmetric] Ok s [symmetric] this] share_msg_fixed [OF s] wait_fixed [OF w]
      show ?thesis by simp blast
    qed (use "1.prems" False w wait_fixed [OF w] wait_for_next_message_work [OF w] in
        \<open>auto simp: share_loop.simps [of E sids c]\<close>)
  qed
qed

lemma gather_shares_total:
  "set is \<subseteq> fst ` set shares \<Longrightarrow> \<exists>ss. gather_shares is shares = Ok ss"
proof (induction "is")
  case (Cons i "is")
  then have "map_of shares i \<noteq> None" by (simp add: map_of_eq_None_iff)
  with Cons show ?case by auto
qed simp

section \<open>Properties of signing\<close>

lemma sign_message_Ok:
  assumes "sign_message E m c = (Ok (s, p), c')"
  obtains R c1 c2 ag u where "aggregate_public_key c \<noteq> pt_default (cagg E)"
    and "even_nonce_loop E m c = (Ok R, c1)"
    and "aggregator_new (cagg E) (co_total_keys c1) (co_threshold c1)
           (map (\<lambda>(k, ps). dps_public_share ps) (dkg_public_shares c1)) = Inr ag"
    and "request_signature_shares E (map snd (public_nonces c1)) m c1 = (Ok u, c2)"
    and "collect_signature_shares E c2 = (Ok u, c')"
    and "aggregate_signature E ag m (concat (map nr_nonces (map snd (public_nonces c1)))) c' = Ok (s, p)"
  using assms
  by (auto simp: sign_message_def Let_def split: if_splits prod.splits outcome.splits sum.splits)

lemma aggregate_signature_Ok:
  fixes E :: "('id, 'pt, 'sc, 'pk, 'ag, 'ae, 'te, 'sig, 'proof) cenv"
  assumes "aggregate_signature E ag m ns c = Ok (s, p)"
  shows "\<exists>shares. gather_shares (map fst (public_nonces c)) (signature_shares c) = (Ok shares :: (('ae, 'te) coord_error, _) outcome)
    \<and> aggregator_sign (cagg E) ag m ns shares = Inr s
    \<and> SchnorrProof_new (cagg E) s = Inr p \<and> proof_verify (cagg E) p (aggregate_public_key c) m"
proof -
  from assms obtain shares where "gather_shares (map fst (public_nonces c)) (signature_shares c)
      = (Ok shares :: (('ae, 'te) coord_error, _) outcome)"
    by (auto simp: aggregate_signature_def obind_Ok_iff)
  with assms show ?thesis
    by (auto simp: aggregate_signature_def split: sum.splits if_splits)
qed

text \<open>Signing changes neither the key nor the public shares, whatever its outcome.\<close>

lemma sign_message_fixed:
  assumes "sign_message E m c = (r, c')"
  shows "co_fixed c' = co_fixed c"
proof -
  obtain x c1 where n: "even_nonce_loop E m c = (x, c1)" by fastforce
  note f1 = even_nonce_loop_result [OF n, THEN conjunct1]
  obtain y c2 where q: "request_signature_shares E (map snd (public_nonces c1)) m c1 = (y, c2)" by fastforce
  note f2 = send_signed_fixed [OF q [unfolded request_signature_shares_def], THEN conjunct1]
  obtain z c3 where s: "collect_signature_shares E c2 = (z, c3)" by fastforce
  note f3 = share_loop_result [OF s [unfolded collect_signature_shares_def], THEN conjunct1]
  have "c' = c \<or> c' = c1 \<or> c' = c2 \<or> c' = c3"
    using assms n q s
    by (auto simp: sign_message_def Let_def split: if_splits outcome.splits sum.splits)
  with f1 f2 f3 show ?thesis by auto
qed

lemma sign_message_verified:
  assumes "sign_message E m c = (Ok (s, p), c')"
  shows "aggregate_public_key c \<noteq> pt_default (cagg E) \<and> proof_verify (cagg E) p (aggregate_public_key c) m"
proof (rule sign_message_Ok [OF assms])
  fix c1 ag
  assume "aggregate_public_key c \<noteq> pt_default (cagg E)"
    and "aggregate_signature E ag m (concat (map nr_nonces (map snd (public_nonces c1)))) c' = Ok (s, p)"
  with aggregate_signature_Ok sign_message_fixed [OF assms] show ?thesis by (force simp: co_fixed_def)
qed

text \<open>
  C9. A signature the coordinator returns is good. When \<^verbatim>\<open>sign_message\<close> returns a signature and a
  proof, an aggregate key was set, the proof is the one made from the signature and it verifies for
  the message under that key. The signature was aggregated from the nonces of exactly
  \<open>total_signers\<close> distinct signers, whose combined nonce has an even y coordinate, in ascending order
  of their ids, and from the signature shares of exactly these signers in the same order.
\<close>

theorem sign_message_sound:
  fixes E :: "('id, 'pt, 'sc, 'pk, 'ag, 'ae, 'te, 'sig, 'proof) cenv"
  assumes "sign_message E m c = (Ok (s, p), c')"
  shows "aggregate_public_key c \<noteq> pt_default (cagg E)
    \<and> SchnorrProof_new (cagg E) s = Inr p \<and> proof_verify (cagg E) p (aggregate_public_key c) m
    \<and> length (public_nonces c') = unat (co_total_signers c) \<and> sorted_wrt (<) (map fst (public_nonces c'))
    \<and> has_even_y (cagg E) (compute_intermediate (cagg E) m
         (concat (map (\<lambda>(i, r). nr_key_ids r) (public_nonces c')))
         (concat (map (\<lambda>(i, r). nr_nonces r) (public_nonces c'))))
    \<and> (\<exists>ag shares. gather_shares (map fst (public_nonces c')) (signature_shares c')
           = (Ok shares :: (('ae, 'te) coord_error, _) outcome)
         \<and> aggregator_sign (cagg E) ag m (concat (map nr_nonces (map snd (public_nonces c')))) shares = Inr s)"
proof -
  from assms obtain R c1 c2 ag u where key: "aggregate_public_key c \<noteq> pt_default (cagg E)"
    and R: "even_nonce_loop E m c = (Ok R, c1)"
    and req: "request_signature_shares E (map snd (public_nonces c1)) m c1 = (Ok u, c2)"
    and col: "collect_signature_shares E c2 = (Ok u, c')"
    and sig: "aggregate_signature E ag m (concat (map nr_nonces (map snd (public_nonces c1)))) c' = Ok (s, p)"
    by (rule sign_message_Ok)
  from req have c2: "co_fixed c2 = co_fixed c1" "public_nonces c2 = public_nonces c1"
    by (auto simp: request_signature_shares_def dest!: send_signed_fixed)
  from share_loop_result [OF col [unfolded collect_signature_shares_def]] c2
  have c': "co_fixed c' = co_fixed c1" "public_nonces c' = public_nonces c1" by simp_all
  with even_nonce_loop_result [OF R] have "aggregate_public_key c' = aggregate_public_key c"
    by (simp add: co_fixed_def)
  with key c' even_nonce_loop_result [OF R] aggregate_signature_Ok [OF sig] show ?thesis
    by (auto simp: bt_sorted_def)
qed


text \<open>A toy aggregator for witnesses: points are bytes, a proof is the message signed.\<close>

definition demo_agg :: "(u32, u8, nat, unit, unit, unit, bytes, bytes) agg" where
  "demo_agg = \<lparr>pt_default = 0, pt_add = (+), has_even_y = (\<lambda>p. p \<noteq> 1), compute_intermediate = (\<lambda>m ids ns. 2),
     aggregator_new = (\<lambda>n t ps. Inr ()), aggregator_sign = (\<lambda>ag m ns ss. Inr m),
     SchnorrProof_new = (\<lambda>s. Inr s), proof_verify = (\<lambda>p k m. p = m)\<rparr>"

text \<open>Its codec: a body is an index into a list of messages.\<close>

definition script_codec :: "(u32, u8, nat) Message list \<Rightarrow> (u32, u8, nat) codec" where
  "script_codec ms = \<lparr>serialize = (\<lambda>m. Some []),
     deserialize = (\<lambda>bs. case bs of [b] \<Rightarrow> if unat b < length ms then Some (ms ! unat b) else None | _ \<Rightarrow> None)\<rparr>"

definition demo_cenv :: "(u32, u8, nat) MessageTypes list \<Rightarrow>
    (u32, u8, nat, nat, unit, unit, unit, bytes, bytes) cenv" where
  "demo_cenv ms = \<lparr>ccry = demo_crypto, ccodec = script_codec (map (\<lambda>m. \<lparr>msg = m, sig = []\<rparr>) ms), cagg = demo_agg\<rparr>"

text \<open>A coordinator of one signer, with the relay about to deliver \<open>n\<close> messages.\<close>

definition demo_coordinator :: "u8 \<Rightarrow> nat \<Rightarrow> (u32, u8, nat, nat) Coordinator" where
  "demo_coordinator key n =
     \<lparr>co_id = 0, current_dkg_id = 0, current_dkg_public_id = 0, current_sign_id = 1, current_sign_nonce_id = 1,
      co_total_signers = 1, co_total_keys = 1, co_threshold = 1,
      network = \<lparr>net = HttpNet_new [], in_queue = [],
        nl_wire = \<lparr>gets = map (\<lambda>i. GetResponse 200 [of_nat i]) [0..<n], posts = replicate n True, retries = [],
          polled = [], posted = []\<rparr>\<rparr>,
      dkg_public_shares = [], public_nonces = [], signature_shares = [], aggregate_public_key = key,
      co_network_private_key = 3, co_public_key = 6\<rparr>"

definition demo_sign_script :: "(u32, u8, nat) MessageTypes list" where
  "demo_sign_script =
     [NonceResponse \<lparr>nr_dkg_id = 0, nr_sign_id = 1, nr_sign_nonce_id = 1, nr_signer_id = 1, nr_key_ids = [0],
        nr_nonces = [\<lparr>pn_D = 5, pn_E = 6\<rparr>]\<rparr>,
      SignShareResponse \<lparr>sr_dkg_id = 0, sr_sign_id = 1, sr_correlation_id = 0, sr_signer_id = 1,
        sr_signature_shares = [\<lparr>ss_id = 0, ss_z_i = 9\<rparr>]\<rparr>]"

lemmas demo_run_simps =
  sign_message_def even_nonce_loop.simps compute_aggregate_nonce_def collect_nonces_def nonce_loop.simps
  send_signed_def sign_message_type_def Signable_sign_def send_message_def take_retries_def post_retry_0
  wait_for_next_message_def poll_retry.simps [of _ _ 0] poll_def next_message_def nonce_msg_def
  request_signature_shares_def collect_signature_shares_def share_loop.simps share_msg_def
  aggregate_signature_def demo_cenv_def demo_coordinator_def demo_agg_def script_codec_def demo_crypto_def
  HttpNet_new_def Let_def

lemma demo_sign_run:
  "fst (sign_message (demo_cenv demo_sign_script) [77] (demo_coordinator 4 2)) = Ok ([77], [77])"
  by (simp add: demo_run_simps demo_sign_script_def upt_rec)

theorem sign_message_sound_witness:
  "\<exists>c'. sign_message (demo_cenv demo_sign_script) [77] (demo_coordinator 4 2) = (Ok ([77], [77]), c')
     \<and> length (public_nonces c') = 1"
proof -
  obtain c' where run: "sign_message (demo_cenv demo_sign_script) [77] (demo_coordinator 4 2) = (Ok ([77], [77]), c')"
    using demo_sign_run by (metis prod.collapse)
  from sign_message_sound [OF run] have "length (public_nonces c') = 1"
    by (simp add: demo_coordinator_def)
  with run show ?thesis by (intro exI [of _ c'] conjI)
qed


section \<open>Properties of key generation\<close>

text \<open>A network that delivers the messages \<open>ms\<close> one poll at a time.\<close>

definition delivers :: "('id, 'pt, 'sc) codec \<Rightarrow> ('id, 'pt, 'sc) HttpNetListen \<Rightarrow> ('id, 'pt, 'sc) Message list \<Rightarrow> bool" where
  "delivers cd n ms \<longleftrightarrow> in_queue n = [] \<and> map (received cd) (gets (nl_wire n)) = map Some ms"

lemma wait_delivers:
  assumes "delivers (ccodec E) (network c) (m # ms)"
  shows "\<exists>n. wait_for_next_message E c = (Ok m, c\<lparr>network := n\<rparr>) \<and> delivers (ccodec E) n ms
    \<and> posts (nl_wire n) = posts (nl_wire (network c))"
proof -
  obtain k w where w: "take_retries (nl_wire (network c)) = (k, w)" by fastforce
  then have w': "gets w = gets (nl_wire (network c))" "posts w = posts (nl_wire (network c))"
    by (auto simp: take_retries_def split: list.splits)
  let ?n = "(network c)\<lparr>nl_wire := w\<rparr>"
  from assms obtain g gs where g: "gets w = g # gs" "received (ccodec E) g = Some m"
    "map (received (ccodec E)) gs = map Some ms" and q: "in_queue ?n = []"
    by (auto simp: delivers_def w')
  from g have posts: "posts (nl_wire (poll (ccodec E) i ?n)) = posts w" for i
    by (simp add: poll_def Let_def del: next_get.simps split: get_result.split option.split)
  from q g have pq: "in_queue (poll (ccodec E) i ?n) = [m]" for i
    by (simp add: poll_in_queue_received)
  have "next_message (poll (ccodec E) (co_id c) ?n) = (Some m, (poll (ccodec E) (co_id c) ?n)\<lparr>in_queue := []\<rparr>)"
    by (simp add: next_message_def pq)
  then have "wait_for_next_message E c = (Ok m, c\<lparr>network := (poll (ccodec E) (co_id c) ?n)\<lparr>in_queue := []\<rparr>\<rparr>)"
    by (simp add: wait_for_next_message_def w poll_retry.simps [of _ _ k])
  with g w' posts show ?thesis
    by (intro exI [of _ "(poll (ccodec E) (co_id c) ?n)\<lparr>in_queue := []\<rparr>"]) (simp add: delivers_def poll_gets)
qed

text \<open>A network that accepts what is posted.\<close>

lemma send_signed_Ok:
  assumes "signs E (co_network_private_key c)" and "is_ok (signable (ccry E) m)"
    and "\<forall>x. serialize (ccodec E) x \<noteq> None" and "posts (nl_wire (network c)) = True # ps"
  shows "\<exists>w. send_signed E m c = (Ok (), c\<lparr>network := (network c)\<lparr>nl_wire := w\<rparr>\<rparr>)
    \<and> gets w = gets (nl_wire (network c)) \<and> posts w = ps"
proof -
  from assms(2) obtain i where i: "signable (ccry E) m = Ok i" by (auto simp: is_ok_iff)
  from assms(1) obtain s where s: "sign_hash (ccry E) (sha256 (ccry E) i) (co_network_private_key c) = Some s"
    unfolding signs_def by blast
  obtain b where b: "serialize (ccodec E) \<lparr>msg = m, sig = s\<rparr> = Some b" using assms(3) by blast
  obtain k w where w: "take_retries (nl_wire (network c)) = (k, w)" by fastforce
  then have "gets w = gets (nl_wire (network c))" "posts w = True # ps"
    using assms(4) by (auto simp: take_retries_def split: list.splits)
  with i s b w show ?thesis
    by (intro exI [of _ "w\<lparr>posts := ps, posted := posted w @ [b]\<rparr>"])
      (simp add: send_signed_def sign_message_type_def Signable_sign_def send_message_def post_retry.simps [of k])
qed

text \<open>What a sequence of messages says: who has ended which phase, and which shares it carries.\<close>

definition public_end_ids :: "('id, 'pt, 'sc) Message list \<Rightarrow> u32 set" where
  "public_end_ids ms = {i. \<exists>m \<in> set ms. \<exists>d. msg m = DkgPublicEnd d \<and> de_signer_id d = i}"

definition end_ids :: "('id, 'pt, 'sc) Message list \<Rightarrow> u32 set" where
  "end_ids ms = {i. \<exists>m \<in> set ms. \<exists>d. msg m = DkgEnd d \<and> de_signer_id d = i}"

fun public_shares_of ::
  "('id, 'pt, 'sc) Message list \<Rightarrow> (u32 \<times> ('id, 'pt) DkgPublicShare) list \<Rightarrow> (u32 \<times> ('id, 'pt) DkgPublicShare) list" where
  "public_shares_of [] shares = shares"
| "public_shares_of (m # ms) shares =
     (case msg m of
        DkgPublicShare s \<Rightarrow> public_shares_of ms (bt_insert (dps_party_id s) s shares)
      | _ \<Rightarrow> public_shares_of ms shares)"

lemma wait_public_Cons:
  assumes "ids \<noteq> []" and "delivers (ccodec E) (network c) (m # ms)"
  shows "\<exists>n. wait_public E ids c
      = (case public_msg (msg m) ids (c\<lparr>network := n\<rparr>) of (ids1, c1) \<Rightarrow> wait_public E ids1 c1)
    \<and> delivers (ccodec E) n ms \<and> posts (nl_wire n) = posts (nl_wire (network c))"
  using wait_delivers [OF assms(2)] assms(1)
  by (auto simp: wait_public.simps [of E ids c] check_public_def)

lemma wait_public_run:
  assumes "delivers (ccodec E) (network c) (ms @ rest)" and "\<not> set ids \<subseteq> public_end_ids (butlast ms)"
    and "set ids \<subseteq> public_end_ids ms"
  shows "\<exists>n. wait_public E ids c = wait_public E []
      (c\<lparr>network := n, dkg_public_shares := public_shares_of ms (dkg_public_shares c)\<rparr>)
    \<and> delivers (ccodec E) n rest \<and> posts (nl_wire n) = posts (nl_wire (network c))"
  using assms
proof (induction ms arbitrary: ids c)
  case Nil
  then show ?case by (simp add: public_end_ids_def)
next
  case (Cons m ms)
  have "ids \<noteq> []" using Cons.prems(2) by auto
  with Cons.prems(1) wait_public_Cons [of ids E c m "ms @ rest"] obtain n where
    step: "wait_public E ids c = (case public_msg (msg m) ids (c\<lparr>network := n\<rparr>) of (ids1, c1) \<Rightarrow> wait_public E ids1 c1)"
    and del: "delivers (ccodec E) n (ms @ rest)" and posts: "posts (nl_wire n) = posts (nl_wire (network c))"
    by auto
  obtain ids1 c1 where pm: "public_msg (msg m) ids (c\<lparr>network := n\<rparr>) = (ids1, c1)" by fastforce
  have ids1: "set ids1 = set ids - public_end_ids [m]"
    using pm by (cases "msg m") (auto simp: public_msg_def public_end_ids_def)
  have c1: "c1 = c\<lparr>network := n, dkg_public_shares := public_shares_of [m] (dkg_public_shares c)\<rparr>"
    using pm by (cases "msg m") (auto simp: public_msg_def)
  have all: "public_shares_of (m # ms) sh = public_shares_of ms (public_shares_of [m] sh)" for sh
    by (cases "msg m") simp_all
  show ?case
  proof (cases ms)
    case Nil
    have "set ids1 = {}" unfolding ids1 using Cons.prems(3) Nil by simp
    then have "ids1 = []" by simp
    with step pm have "wait_public E ids c = wait_public E [] c1" by (simp only: prod.case)
    moreover have "c1 = c\<lparr>network := n, dkg_public_shares := public_shares_of (m # ms) (dkg_public_shares c)\<rparr>"
      unfolding c1 Nil ..
    moreover have "delivers (ccodec E) n rest" using del Nil by simp
    ultimately show ?thesis using posts by metis
  next
    case (Cons m' ms')
    have un: "public_end_ids (m # xs) = public_end_ids [m] \<union> public_end_ids xs" for xs
      by (auto simp: public_end_ids_def)
    have "butlast (m # ms) = m # butlast ms" using Cons by simp
    then have "\<not> set ids1 \<subseteq> public_end_ids (butlast ms)"
      using Cons.prems(2) ids1 un [of "butlast ms"] by (simp only:) blast
    moreover have "set ids1 \<subseteq> public_end_ids ms" using Cons.prems(3) ids1 un [of ms] by blast
    moreover have "delivers (ccodec E) (network c1) (ms @ rest)" using del c1 by simp
    ultimately obtain n' where "wait_public E ids1 c1 = wait_public E []
        (c1\<lparr>network := n', dkg_public_shares := public_shares_of ms (dkg_public_shares c1)\<rparr>)"
      and "delivers (ccodec E) n' rest" and "posts (nl_wire n') = posts (nl_wire (network c1))"
      using Cons.IH [of c1 ids1] by blast
    moreover have "wait_public E ids c = wait_public E ids1 c1" using step pm by (simp only: prod.case)
    moreover have "c1\<lparr>network := n', dkg_public_shares := public_shares_of ms (dkg_public_shares c1)\<rparr>
        = c\<lparr>network := n', dkg_public_shares := public_shares_of (m # ms) (dkg_public_shares c)\<rparr>"
      unfolding all [of "dkg_public_shares c"] by (simp add: c1 del: public_shares_of.simps)
    moreover have "posts (nl_wire (network c1)) = posts (nl_wire (network c))" using c1 posts by simp
    ultimately show ?thesis by metis
  qed
qed

lemma wait_end_run:
  assumes "delivers (ccodec E) (network c) (ms @ rest)"
    and "ms = [] \<or> \<not> set ids \<subseteq> end_ids (butlast ms)" and "set ids \<subseteq> end_ids ms"
  shows "\<exists>n. wait_end E ids c = (Ok (), c\<lparr>network := n\<rparr>) \<and> delivers (ccodec E) n rest"
  using assms
proof (induction ms arbitrary: ids c)
  case Nil
  then have "ids = []" by (simp add: end_ids_def)
  with Nil.prems(1) show ?case
    by (intro exI [of _ "network c"]) (simp add: wait_end.simps [of E "[]"])
next
  case (Cons m ms)
  have ne: "ids \<noteq> []" using Cons.prems(2) by auto
  from wait_delivers [of E c m "ms @ rest"] Cons.prems(1) obtain n where
    w: "wait_for_next_message E c = (Ok m, c\<lparr>network := n\<rparr>)" and del: "delivers (ccodec E) n (ms @ rest)"
    by auto
  define ids1 where "ids1 = (case msg m of DkgEnd d \<Rightarrow> removeAll (de_signer_id d) ids | _ \<Rightarrow> ids)"
  have step: "wait_end E ids c = wait_end E ids1 (c\<lparr>network := n\<rparr>)"
    using ne w by (simp add: wait_end.simps [of E ids c] ids1_def)
  have ids1: "set ids1 = set ids - end_ids [m]"
    by (cases "msg m") (auto simp: ids1_def end_ids_def)
  have un: "end_ids (m # xs) = end_ids [m] \<union> end_ids xs" for xs by (auto simp: end_ids_def)
  have "ms = [] \<or> \<not> set ids1 \<subseteq> end_ids (butlast ms)"
    using Cons.prems(2) ids1 un [of "butlast ms"] by (cases ms) auto
  moreover have "set ids1 \<subseteq> end_ids ms" using Cons.prems(3) ids1 un [of ms] by blast
  ultimately show ?case
    using Cons.IH [of "c\<lparr>network := n\<rparr>" ids1] del step by auto
qed

text \<open>
  C26. Key generation completes when everybody answers. The relay accepts the coordinator's two
  requests and delivers messages \<open>pub @ priv @ rest\<close>, where \<open>pub\<close> is over as soon as every signer from
  1 to \<open>total_signers\<close> has ended the public phase, and \<open>priv\<close> as soon as every signer has ended the
  private one, in any order and mixed with anything else. Let the sum of the constant terms of the
  last public share of each key in \<open>pub\<close>, taken in ascending order of the keys, be a point with an
  even y coordinate. Then \<^verbatim>\<open>run_distributed_key_generation\<close> returns it, has stored it as the
  aggregate public key together with these shares, and has read exactly \<open>pub\<close> and \<open>priv\<close>.
\<close>

theorem dkg_completes:
  assumes sk: "signs E (co_network_private_key c)" and ser: "\<forall>x. serialize (ccodec E) x \<noteq> None"
    and posts: "posts (nl_wire (network c)) = True # True # ps"
    and del: "delivers (ccodec E) (network c) (pub @ priv @ rest)"
    and pub: "set (all_signer_ids c) \<subseteq> public_end_ids pub" "\<not> set (all_signer_ids c) \<subseteq> public_end_ids (butlast pub)"
    and priv: "set (all_signer_ids c) \<subseteq> end_ids priv" "\<not> set (all_signer_ids c) \<subseteq> end_ids (butlast priv)"
    and key: "sum_constant_terms (cagg E) (pt_default (cagg E)) (public_shares_of pub []) = Ok key"
    and even: "has_even_y (cagg E) key"
  shows "\<exists>c'. run_distributed_key_generation E c = (Ok key, c') \<and> aggregate_public_key c' = key
    \<and> dkg_public_shares c' = public_shares_of pub [] \<and> current_dkg_id c' = current_dkg_id c + 1
    \<and> delivers (ccodec E) (network c') rest"
proof -
  let ?c0 = "c\<lparr>current_dkg_id := current_dkg_id c + 1\<rparr>"
  from send_signed_Ok [of E "?c0\<lparr>dkg_public_shares := []\<rparr>" "DkgBegin \<lparr>db_dkg_id = current_dkg_id ?c0\<rparr>"] sk ser posts
  obtain w where begin1: "start_public_shares E ?c0
      = (Ok (), ?c0\<lparr>dkg_public_shares := [], network := (network c)\<lparr>nl_wire := w\<rparr>\<rparr>)"
    and w: "gets w = gets (nl_wire (network c))" "posts w = True # ps"
    by (auto simp: start_public_shares_def)
  let ?c1 = "?c0\<lparr>dkg_public_shares := [], network := (network c)\<lparr>nl_wire := w\<rparr>\<rparr>"
  have del1: "delivers (ccodec E) (network ?c1) (pub @ priv @ rest)" using del w by (simp add: delivers_def)
  have ids1: "all_signer_ids ?c1 = all_signer_ids c" by (simp add: all_signer_ids_def)
  from wait_public_run [OF del1, of "all_signer_ids c"] pub w obtain n where
    run: "wait_public E (all_signer_ids c) ?c1 = wait_public E [] (?c1\<lparr>network := n,
      dkg_public_shares := public_shares_of pub []\<rparr>)"
    and del2: "delivers (ccodec E) n (priv @ rest)" and posts2: "posts (nl_wire n) = True # ps"
    by auto
  let ?c2 = "?c1\<lparr>network := n, dkg_public_shares := public_shares_of pub [], aggregate_public_key := key\<rparr>"
  have pubs: "wait_for_public_shares E ?c1 = (Ok key, ?c2)"
    unfolding wait_for_public_shares_def ids1 run
    using key even by (simp add: wait_public.simps [of E "[]"] check_public_def calculate_aggregate_public_key_def)
  from send_signed_Ok [of E ?c2 "DkgPrivateBegin \<lparr>db_dkg_id = current_dkg_id ?c2\<rparr>"] sk ser posts2
  obtain w2 where begin2: "start_private_shares E ?c2 = (Ok (), ?c2\<lparr>network := n\<lparr>nl_wire := w2\<rparr>\<rparr>)"
    and w2: "gets w2 = gets (nl_wire n)"
    by (auto simp: start_private_shares_def)
  let ?c3 = "?c2\<lparr>network := n\<lparr>nl_wire := w2\<rparr>\<rparr>"
  have del3: "delivers (ccodec E) (network ?c3) (priv @ rest)" using del2 w2 by (simp add: delivers_def)
  have ids3: "all_signer_ids ?c3 = all_signer_ids c" by (simp add: all_signer_ids_def)
  from wait_end_run [OF del3, of "all_signer_ids c"] priv obtain n4 where
    "wait_end E (all_signer_ids c) ?c3 = (Ok (), ?c3\<lparr>network := n4\<rparr>)" and "delivers (ccodec E) n4 rest"
    by auto
  then show ?thesis
    using begin1 pubs begin2
    by (simp add: run_distributed_key_generation_def wait_for_dkg_end_def ids3 [simplified])
qed

definition demo_dkg_script :: "DkgStatus \<Rightarrow> (u32, u8, nat) MessageTypes list" where
  "demo_dkg_script st =
     [DkgPublicShare (demo_public_share 1 9),
      DkgPublicEnd \<lparr>de_dkg_id = 1, de_signer_id = 1, de_status = Success\<rparr>,
      DkgEnd \<lparr>de_dkg_id = 1, de_signer_id = 1, de_status = st\<rparr>]"

abbreviation demo_dkg_env where
  "demo_dkg_env st \<equiv> demo_cenv (demo_dkg_script st)"

lemma demo_delivers:
  "delivers (ccodec (demo_dkg_env st)) (network (demo_coordinator 0 3))
     (map (\<lambda>m. \<lparr>msg = m, sig = []\<rparr>) (demo_dkg_script st))"
  by (simp add: delivers_def demo_coordinator_def demo_cenv_def script_codec_def received_def
      demo_dkg_script_def upt_rec)

theorem dkg_completes_witness:
  "\<exists>c'. run_distributed_key_generation (demo_dkg_env Success) (demo_coordinator 0 3) = (Ok 9, c')
     \<and> aggregate_public_key c' = 9"
proof -
  let ?wrap = "map (\<lambda>m. \<lparr>msg = m, sig = []\<rparr> :: (u32, u8, nat) Message)"
  let ?pub = "?wrap (take 2 (demo_dkg_script Success))" and ?priv = "?wrap (drop 2 (demo_dkg_script Success))"
  have "\<exists>c'. run_distributed_key_generation (demo_dkg_env Success) (demo_coordinator 0 3) = (Ok 9, c')
     \<and> aggregate_public_key c' = 9 \<and> dkg_public_shares c' = public_shares_of ?pub []
     \<and> current_dkg_id c' = current_dkg_id (demo_coordinator 0 3) + 1
     \<and> delivers (ccodec (demo_dkg_env Success)) (network c') []"
  proof (rule dkg_completes [where pub = ?pub and priv = ?priv])
    show "delivers (ccodec (demo_dkg_env Success)) (network (demo_coordinator 0 3)) (?pub @ ?priv @ [])"
      using demo_delivers [of Success] by (simp flip: map_append)
  qed (auto simp: signs_def demo_cenv_def demo_crypto_def script_codec_def demo_coordinator_def numeral_3_eq_3
      all_signer_ids_def public_end_ids_def end_ids_def demo_dkg_script_def demo_agg_def demo_public_share_def)
  then show ?thesis by blast
qed

text \<open>
  A failed key generation is reported as a success. When every signer ends the private phase with
  the status \<^verbatim>\<open>Failure\<close>, whatever its reason, the coordinator's \<^verbatim>\<open>wait_for_dkg_end\<close> returns
  \<^verbatim>\<open>Ok\<close>: the status is never looked at.
\<close>

theorem dkg_failure_ignored:
  assumes "delivers (ccodec E) (network c) ms"
    and "map (\<lambda>m. msg m) ms = map (\<lambda>i. DkgEnd \<lparr>de_dkg_id = current_dkg_id c, de_signer_id = i,
           de_status = Failure (why i)\<rparr>) (all_signer_ids c)"
  shows "\<exists>c'. wait_for_dkg_end E c = (Ok (), c')"
proof -
  have inj: "inj_on (of_nat :: nat \<Rightarrow> u32) {1..<Suc (unat (co_total_signers c))}"
  proof (rule inj_onI)
    fix x y :: nat
    assume "x \<in> {1..<Suc (unat (co_total_signers c))}" "y \<in> {1..<Suc (unat (co_total_signers c))}"
    then have "x < 2 ^ 32" "y < 2 ^ 32"
      using unsigned_less [of "co_total_signers c", where ?'a = nat] by auto
    moreover assume "(of_nat x :: u32) = of_nat y"
    then have "unat (of_nat x :: u32) = unat (of_nat y :: u32)" by simp
    ultimately show "x = y" by (simp add: unat_of_nat)
  qed
  have dist: "distinct (all_signer_ids c)"
    using inj by (simp add: all_signer_ids_def distinct_map del: upt_Suc)
  have ends: "end_ids xs = set is" if "map (\<lambda>m. msg m) xs = map (\<lambda>i. DkgEnd \<lparr>de_dkg_id = current_dkg_id c,
      de_signer_id = i, de_status = Failure (why i)\<rparr>) is" for xs "is"
    using that
  proof (induction xs arbitrary: "is")
    case (Cons x xs)
    then obtain i js where "is = i # js" by (cases "is") auto
    with Cons show ?case by (auto simp: end_ids_def)
  qed (simp add: end_ids_def)
  have "map (\<lambda>m. msg m) (butlast ms) = map (\<lambda>i. DkgEnd \<lparr>de_dkg_id = current_dkg_id c, de_signer_id = i,
      de_status = Failure (why i)\<rparr>) (butlast (all_signer_ids c))"
    using assms(2) by (metis map_butlast)
  then have "end_ids (butlast ms) = set (butlast (all_signer_ids c))" by (rule ends)
  moreover have "last (all_signer_ids c) \<notin> set (butlast (all_signer_ids c))" if "all_signer_ids c \<noteq> []"
    using dist that by (metis append_butlast_last_id distinct_append disjoint_insert(1) list.simps(15))
  moreover have "ms = [] \<longleftrightarrow> all_signer_ids c = []" using assms(2) by (metis map_is_Nil_conv)
  ultimately have "ms = [] \<or> \<not> set (all_signer_ids c) \<subseteq> end_ids (butlast ms)"
    by (metis last_in_set subsetD)
  with wait_end_run [of E c ms "[]" "all_signer_ids c"] assms(1) ends [OF assms(2)] show ?thesis
    by (auto simp: wait_for_dkg_end_def)
qed

theorem dkg_failure_ignored_witness:
  "\<exists>c'. wait_for_dkg_end (demo_cenv [DkgEnd \<lparr>de_dkg_id = 0, de_signer_id = 1, de_status = Failure ''bad''\<rparr>])
     (demo_coordinator 0 1) = (Ok (), c')"
  by (rule dkg_failure_ignored [where ms = "[\<lparr>msg = DkgEnd \<lparr>de_dkg_id = 0, de_signer_id = 1,
        de_status = Failure ''bad''\<rparr>, sig = []\<rparr>]" and why = "\<lambda>i. ''bad''"])
    (simp_all add: delivers_def demo_coordinator_def demo_cenv_def script_codec_def received_def all_signer_ids_def)

lemma wait_public_sound:
  assumes "wait_public E ids c = (Ok key, c')"
  shows "has_even_y (cagg E) key \<and> aggregate_public_key c' = key
    \<and> sum_constant_terms (cagg E) (pt_default (cagg E)) (dkg_public_shares c') = Ok key"
  using assms
proof (induction E ids c rule: wait_public.induct)
  case (1 E ids c)
  obtain x c1 where ch: "check_public E ids c = (x, c1)" by fastforce
  show ?case
  proof (cases "\<exists>k. x = Ok (Inl k)")
    case True
    with "1.prems" ch have "x = Ok (Inl key)" "c' = c1" by (auto simp: wait_public.simps [of E ids c])
    with ch show ?thesis
      by (auto simp: check_public_def calculate_aggregate_public_key_def split: if_splits outcome.splits prod.splits)
  next
    case False
    then obtain ids1 where x: "x = Ok (Inr ids1)"
      using "1.prems" ch by (auto simp: wait_public.simps [of E ids c] split: outcome.splits sum.splits)
    obtain y c2 where w: "wait_for_next_message E c1 = (y, c2)" by fastforce
    with "1.prems" ch x obtain m where y: "y = Ok m"
      by (cases y) (auto simp: wait_public.simps [of E ids c])
    obtain ids2 c3 where pm: "public_msg (msg m) ids1 c2 = (ids2, c3)" by fastforce
    have "wait_public E ids2 c3 = (Ok key, c')"
      using "1.prems" ch x w y pm by (simp add: wait_public.simps [of E ids c])
    from "1.IH" [OF ch [symmetric] x refl w [symmetric] y pm [symmetric] this] show ?thesis .
  qed
qed

lemma wait_end_frame: "wait_end E ids c = (res, c') \<Longrightarrow> co_fixed c' = co_fixed c"
proof (induction E ids c rule: wait_end.induct)
  case (1 E ids c)
  obtain x c1 where w: "wait_for_next_message E c = (x, c1)" by fastforce
  show ?case
  proof (cases "ids = []")
    case True
    with "1.prems" show ?thesis by (simp add: wait_end.simps [of E "[]"])
  next
    case False
    with 1 w wait_fixed [OF w] show ?thesis by (cases x) (auto simp: wait_end.simps [of E ids c])
  qed
qed

lemma dkg_result_key:
  assumes "run_distributed_key_generation E c = (Ok key, c')"
  shows "has_even_y (cagg E) key \<and> aggregate_public_key c' = key
    \<and> sum_constant_terms (cagg E) (pt_default (cagg E)) (dkg_public_shares c') = Ok key"
proof -
  from assms obtain c2 c3 c4 u v where pubs: "wait_for_public_shares E c2 = (Ok key, c3)"
    and priv: "start_private_shares E c3 = (Ok u, c4)" and ends: "wait_for_dkg_end E c4 = (Ok v, c')"
    by (auto simp: run_distributed_key_generation_def Let_def split: prod.splits outcome.splits)
  from priv have "co_fixed c4 = co_fixed c3"
    unfolding start_private_shares_def by (auto dest: send_signed_fixed)
  moreover from ends have "co_fixed c' = co_fixed c4"
    unfolding wait_for_dkg_end_def by (rule wait_end_frame)
  ultimately show ?thesis
    using wait_public_sound [OF pubs [unfolded wait_for_public_shares_def]] by (simp add: co_fixed_def)
qed

text \<open>
  C27. The key that key generation returns. When \<^verbatim>\<open>run_distributed_key_generation\<close> returns a key, the
  key has an even y coordinate, it is the sum of the constant terms of the public shares the
  coordinator holds, and it is stored as the aggregate public key, which
  \<^verbatim>\<open>get_aggregate_public_key\<close> returns unless it is the neutral point.
\<close>

theorem dkg_key_sound:
  assumes "run_distributed_key_generation E c = (Ok key, c')"
  shows "has_even_y (cagg E) key \<and> aggregate_public_key c' = key
    \<and> sum_constant_terms (cagg E) (pt_default (cagg E)) (dkg_public_shares c') = Ok key
    \<and> get_aggregate_public_key E c'
        = (if key = pt_default (cagg E) then Err NoAggregatePublicKey else Ok key)"
  using dkg_result_key [OF assms] by (simp add: get_aggregate_public_key_def)

theorem dkg_key_sound_witness:
  "\<exists>c'. run_distributed_key_generation (demo_dkg_env (Failure ''x'')) (demo_coordinator 0 3) = (Ok 9, c')
     \<and> aggregate_public_key c' = 9"
proof -
  have "fst (run_distributed_key_generation (demo_dkg_env (Failure ''x'')) (demo_coordinator 0 3)) = Ok 9"
    by (simp add: run_distributed_key_generation_def start_public_shares_def start_private_shares_def
        wait_for_public_shares_def wait_for_dkg_end_def wait_public.simps wait_end.simps check_public_def
        calculate_aggregate_public_key_def public_msg_def all_signer_ids_def demo_run_simps demo_dkg_script_def
        demo_public_share_def upt_rec numeral_3_eq_3)
  then obtain c' where run: "run_distributed_key_generation (demo_dkg_env (Failure ''x'')) (demo_coordinator 0 3) = (Ok 9, c')"
    by (metis prod.collapse)
  from dkg_key_sound [OF run] have "aggregate_public_key c' = 9" by blast
  with run show ?thesis by (intro exI [of _ c'] conjI)
qed

end
