(* ===== verification/SignerGroup.thy ===== *)
theory SignerGroup
  imports SignerThreads Relay FrostCoordinator "HOL-Library.Sublist"
begin

text \<open>
  The signers as a group: several signers (theory \<open>SignerThreads\<close>) and the coordinator read the messages of one relay
  (theory \<open>Relay\<close>). What a signer's round shows to the others, without its secrets, is a function of the messages
  it has processed: an abstract machine that every signer implements. With the order of the relay it follows that
  signers agree, and that the key of the coordinator is the one of the shares that the signers hold.
\<close>

section \<open>The public side of a round\<close>

record ('id, 'pt) public_view =
  v_dkg_id :: u64
  v_dkg_public_id :: u64
  v_state :: States
  v_commitments :: "(u32 \<times> ('id, 'pt) PolyCommitment) list"
  v_shares :: "(u32 \<times> (u32 \<times> bytes) list) list"

definition round_view :: "('fs, 'id, 'pt, 'sc, 'pk) SigningRound \<Rightarrow> ('id, 'pt) public_view" where
  "round_view r = \<lparr>v_dkg_id = rd_dkg_id r, v_dkg_public_id = rd_dkg_public_id r, v_state = rd_state r,
     v_commitments = rd_commitments r, v_shares = rd_shares r\<rparr>"

text \<open>The machine: what a message changes, or nothing when it is refused; then the end of a phase.\<close>

definition view_msg :: "('id, 'pt) public_view \<Rightarrow> ('id, 'pt, 'sc) MessageTypes \<Rightarrow> ('id, 'pt) public_view option" where
  "view_msg v m =
     (case m of
        DkgBegin b \<Rightarrow>
          if v_state v \<in> {Idle, DkgPublicGather, DkgPrivateDistribute}
          then Some \<lparr>v_dkg_id = db_dkg_id b, v_dkg_public_id = 0, v_state = DkgPublicGather, v_commitments = [], v_shares = []\<rparr>
          else None
      | DkgPrivateBegin b \<Rightarrow>
          if v_state v = DkgPrivateDistribute then Some (v\<lparr>v_state := DkgPrivateGather\<rparr>) else None
      | DkgPublicShare s \<Rightarrow>
          Some (v\<lparr>v_commitments := bt_insert (dps_party_id s) (dps_public_share s) (v_commitments v)\<rparr>)
      | DkgPrivateShares s \<Rightarrow>
          Some (v\<lparr>v_shares := hm_insert (dpv_key_id s) (dpv_private_shares s) (v_shares v)\<rparr>)
      | _ \<Rightarrow> Some v)"

definition view_settle :: "u32 \<Rightarrow> ('id, 'pt) public_view \<Rightarrow> ('id, 'pt) public_view" where
  "view_settle tk v =
     (if v_state v = DkgPublicGather \<and> length (v_commitments v) = unat tk then v\<lparr>v_state := DkgPrivateDistribute\<rparr>
      else if v_state v = DkgPrivateGather \<and> length (v_commitments v) = unat tk \<and> length (v_shares v) = unat tk
      then v\<lparr>v_state := Idle\<rparr>
      else v)"

definition view_step :: "u32 \<Rightarrow> ('id, 'pt) public_view \<Rightarrow> ('id, 'pt, 'sc) MessageTypes \<Rightarrow> ('id, 'pt) public_view option" where
  "view_step tk v m = map_option (view_settle tk) (view_msg v m)"

fun view_run :: "u32 \<Rightarrow> ('id, 'pt) public_view \<Rightarrow> ('id, 'pt, 'sc) MessageTypes list \<Rightarrow> ('id, 'pt) public_view option" where
  "view_run tk v [] = Some v"
| "view_run tk v (m # ms) = Option.bind (view_step tk v m) (\<lambda>v1. view_run tk v1 ms)"

definition initial_view :: "('id, 'pt) public_view" where
  "initial_view = \<lparr>v_dkg_id = 1, v_dkg_public_id = 1, v_state = Idle, v_commitments = [], v_shares = []\<rparr>"

lemma view_run_append: "view_run tk v (xs @ ys) = Option.bind (view_run tk v xs) (\<lambda>v1. view_run tk v1 ys)"
  by (induction xs arbitrary: v) (simp_all add: Option.bind_assoc)

section \<open>Rounds implement the machine\<close>

lemma round_view_signer [simp]:
  "round_view (r\<lparr>rd_signer := s\<rparr>) = round_view r"
  "round_view (r\<lparr>rd_state := st\<rparr>) = (round_view r)\<lparr>v_state := st\<rparr>"
  by (simp_all add: round_view_def)

lemma view_settle_round:
  "view_settle (rd_total_keys r) (round_view r) =
     (if public_shares_done r then (round_view r)\<lparr>v_state := DkgPrivateDistribute\<rparr>
      else if can_dkg_end r then (round_view r)\<lparr>v_state := Idle\<rparr> else round_view r)"
  by (simp add: view_settle_def round_view_def public_shares_done_def can_dkg_end_def)

lemma encrypt_shares_no_Err: "fst (encrypt_shares e sk pks g xs acc) \<noteq> Err x"
  by (induction e sk pks g xs acc rule: encrypt_shares.induct) (auto split: option.splits outcome.splits prod.splits)

lemma private_share_msgs_no_Err: "private_share_msgs e r rng shares \<noteq> Err er"
proof (induction e r rng shares rule: private_share_msgs.induct)
  case (2 e r rng key_id private_shares rest)
  obtain x g where x: "encrypt_shares e (rd_network_private_key r) (rd_public_keys r) rng private_shares [] = (x, g)"
    by fastforce
  with encrypt_shares_no_Err have "x \<noteq> Err y" for y by (metis fst_conv)
  with 2 x show ?case by (cases x; cases "private_share_msgs e r g rest") auto
qed simp

lemma dkg_ended_no_Err: "fst (dkg_ended e r) \<noteq> Err er"
proof -
  have one: "decrypt_from e r src xs acc invalid \<noteq> Err er" for src xs acc invalid
    by (induction e r src xs acc invalid rule: decrypt_from.induct) (auto split: option.splits outcome.splits if_splits)
  have all: "decrypt_all e r xs acc invalid \<noteq> Err er" for xs acc invalid
  proof (induction xs arbitrary: acc invalid)
    case (Cons x xs)
    with one show ?case by (cases x; cases "decrypt_from e r (fst x) (snd x) [] invalid") auto
  qed simp
  show ?thesis
    using all by (auto simp: dkg_ended_def Let_def split: outcome.splits prod.splits if_splits)
qed

text \<open>The handler of a message, then the whole of \<^verbatim>\<open>process\<close>. A panic depends on the signer's secrets and is left open.\<close>

definition implements ::
  "('id, 'pt) public_view option \<Rightarrow> u32 \<Rightarrow> (round_error, 'a) outcome \<Rightarrow> ('fs, 'id, 'pt, 'sc, 'pk) SigningRound \<Rightarrow> bool" where
  "implements v tk res r' \<longleftrightarrow>
     (case res of
        Ok out \<Rightarrow> v = Some (round_view r') \<and> rd_total_keys r' = tk
      | Err er \<Rightarrow> v = None
      | Panic \<Rightarrow> True)"

lemma dkg_begin_view:
  assumes "dkg_begin e rng r b = (res, r')"
  shows "implements (view_msg (round_view r) (DkgBegin b)) (rd_total_keys r) res r'"
proof (cases "accepted (rd_state r) DkgPublicDistribute")
  case True
  then have "v_state (round_view r) \<in> {Idle, DkgPublicGather, DkgPrivateDistribute}" by (auto simp: round_view_def)
  with assms True show ?thesis
    by (simp add: round_defs implements_def view_msg_def Let_def) (auto simp: round_view_def)
next
  case False
  then have "v_state (round_view r) \<notin> {Idle, DkgPublicGather, DkgPrivateDistribute}" by (auto simp: round_view_def)
  with assms False show ?thesis
    by (simp add: round_defs implements_def view_msg_def Let_def) auto
qed

lemma dkg_private_begin_view:
  assumes "dkg_private_begin e rng r = (res, r')"
  shows "implements (view_msg (round_view r) (DkgPrivateBegin b)) (rd_total_keys r) res r'"
  using assms private_share_msgs_no_Err [of e r rng "fs_get_shares (ws e) (frost_signer (rd_signer r))"]
  by (auto simp: round_defs implements_def view_msg_def round_view_def split: outcome.splits if_splits)

lemma sign_share_request_view:
  assumes "sign_share_request e r q = (res, r')"
  shows "implements (Some (round_view r)) (rd_total_keys r) res r'"
proof -
  obtain msgs r1 where "sign_share_loop e q (map nr_signer_id (sq_nonce_responses q)) r = (msgs, r1)" by fastforce
  with assms show ?thesis
    by (auto simp: sign_share_request_def implements_def dest!: sign_share_loop_frame)
qed

lemma dispatch_view:
  assumes "dispatch e rng r m = (res, r')"
  shows "implements (view_msg (round_view r) m) (rd_total_keys r) res r'"
proof (cases m)
  case (DkgBegin b)
  with assms dkg_begin_view show ?thesis by (simp add: dispatch_def)
next
  case (DkgPrivateBegin b)
  with assms dkg_private_begin_view show ?thesis by (simp add: dispatch_def)
next
  case (SignShareRequest q)
  with assms sign_share_request_view show ?thesis by (simp add: dispatch_def view_msg_def)
next
  case (NonceRequest q)
  with assms show ?thesis by (auto simp: dispatch_def nonce_request_def view_msg_def implements_def Let_def case_prod_beta)
qed (use assms in \<open>auto simp: dispatch_def round_public_share_def round_private_shares_def view_msg_def implements_def
    round_view_def\<close>)

lemma process_view:
  assumes "process e rng r m = (res, r')"
  shows "implements (view_step (rd_total_keys r) (round_view r) m) (rd_total_keys r) res r'"
proof -
  obtain d r1 where d: "dispatch e rng r m = (d, r1)" by fastforce
  note view = dispatch_view [OF d]
  show ?thesis
  proof (cases d)
    case (Ok out)
    with view have tk: "rd_total_keys r1 = rd_total_keys r"
      and "view_step (rd_total_keys r) (round_view r) m = Some (view_settle (rd_total_keys r1) (round_view r1))"
      by (simp_all add: implements_def view_step_def)
    note v = this(2) [unfolded view_settle_round]
    consider (1) "public_shares_done r1" | (2) "\<not> public_shares_done r1" "can_dkg_end r1"
      | (3) "\<not> public_shares_done r1" "\<not> can_dkg_end r1" by blast
    then show ?thesis
    proof cases
      case 1
      with assms d Ok v tk show ?thesis
        by (auto simp: process_def move_to_def can_move_to_def public_shares_done_def implements_def)
    next
      case 2
      obtain x r2 where x: "dkg_ended e r1 = (x, r2)" by fastforce
      with dkg_ended_no_Err [of e r1] have "x \<noteq> Err y" for y by (metis fst_conv)
      with 2 assms d Ok v tk x dkg_ended_frame [OF x] show ?thesis
        by (cases x) (auto simp: process_def move_to_def can_move_to_def implements_def)
    next
      case 3
      with assms d Ok v tk show ?thesis by (auto simp: process_def implements_def)
    qed
  next
    case (Err er)
    with view assms d show ?thesis by (auto simp: process_def implements_def view_step_def)
  next
    case Panic
    with assms d show ?thesis by (auto simp: process_def implements_def)
  qed
qed

text \<open>
  C14. What a signer shows is a function of the messages. Unless it panics, \<^verbatim>\<open>process\<close> does to the ids, the state,
  the commitments and the encrypted shares of a round what the machine does, which knows nothing of the signer's
  id, keys, polynomials and random numbers; and it returns an error exactly if the machine refuses the message.
\<close>

theorem process_refines_view:
  assumes "process e rng r m = (res, r')" and "res \<noteq> Panic"
  shows "(is_ok res \<longleftrightarrow> view_step (rd_total_keys r) (round_view r) m \<noteq> None)
    \<and> (is_ok res \<longrightarrow> view_step (rd_total_keys r) (round_view r) m = Some (round_view r'))"
  using process_view [OF assms(1)] assms(2) by (cases res) (simp_all add: implements_def)

theorem process_refines_view_witness:
  "\<exists>out r'. process demo_env 5 (demo_round Idle) (DkgBegin \<lparr>db_dkg_id = 1\<rparr>) = (Ok out, r')
    \<and> view_step 3 (round_view (demo_round Idle)) (DkgBegin \<lparr>db_dkg_id = 1\<rparr> :: (u32, u8, nat) MessageTypes) = Some (round_view r')"
proof -
  obtain r' out where p: "process demo_env 5 (demo_round Idle) (DkgBegin \<lparr>db_dkg_id = 1\<rparr>) = (Ok out, r')"
    by (simp add: process_def dispatch_def round_defs demo_round_def demo_env_def demo_ws_def Let_def
        public_shares_done_def can_dkg_end_def)
  moreover have "rd_total_keys (demo_round Idle) = 3" by (simp add: demo_round_def)
  ultimately show ?thesis using process_refines_view [OF p] by auto
qed

section \<open>Signers follow the relay's log\<close>

text \<open>A signing loop that is still waiting has taken the machine through the messages it was given.\<close>

lemma signing_loop_view:
  "signing_loop e cd sk ms r w = (Err RecvError, r', w') \<Longrightarrow>
    view_run (rd_total_keys r) (round_view r) (map (\<lambda>(g, m). msg m) ms) = Some (round_view r')"
proof (induction e cd sk ms r w rule: signing_loop.induct)
  case (2 e cd sk rng inbound rest r w)
  obtain x r1 where p: "process e rng r (msg inbound) = (x, r1)" by fastforce
  with "2.prems" obtain outs where x: "x = Ok outs" by (cases x) auto
  obtain y w1 where s: "send_all (cry e) cd sk outs w = (y, w1)" by fastforce
  with "2.prems" p x have "y = Ok ()" using send_all_not_RecvError [of "cry e" cd sk outs w] by (cases y) auto
  with "2.prems" p x s have "signing_loop e cd sk rest r1 w1 = (Err RecvError, r', w')" by simp
  from "2.IH" [OF p [symmetric] x s [symmetric] \<open>y = Ok ()\<close> this] process_view [OF p] x show ?case
    by (simp add: implements_def)
qed simp

abbreviation verified where
  "verified cr s m \<equiv> verify_msg cr m (public_keys (sg_config s)) (coordinator_public_key (sg_config s)) = Ok True"

text \<open>A poll with an empty queue sends the message of the response down the channel when it is verified, unless it ends the thread.\<close>

lemma poll_step_tx:
  assumes "in_queue (pl_net p) = []"
    and "poll_step cr cd (sg_signer_id s) (public_keys (sg_config s)) (coordinator_public_key (sg_config s)) p = (x, p1)"
  shows "in_queue (pl_net p1) = []" and "gets (nl_wire (pl_net p1)) = tl (gets (nl_wire (pl_net p)))"
    and "pl_tx p1 = pl_tx p \<and> x \<noteq> Ok ()
      \<or> pl_tx p1 = pl_tx p @ filter (verified cr s) (List.map_filter (received cd) (take 1 (gets (nl_wire (pl_net p)))))"
  using assms(2) poll_then_next [OF assms(1), of cd "sg_signer_id s"]
  by (cases "gets (nl_wire (pl_net p))"; auto simp: poll_step_def List.map_filter_def received_def Let_def
      split: option.splits outcome.splits bool.splits if_splits)+

text \<open>What the polling loop sends down the channel are the verified messages of some first responses.\<close>

lemma poll_loop_tx:
  assumes "in_queue (pl_net p) = []" and "signer_poll_loop cr cd s k p = (res, p')"
  shows "\<exists>j. pl_tx p' = pl_tx p @ filter (verified cr s) (List.map_filter (received cd) (take j (gets (nl_wire (pl_net p)))))"
  using assms
proof (induction k arbitrary: p)
  case 0
  then show ?case by (intro exI [of _ 0]) (simp add: List.map_filter_def)
next
  case (Suc k)
  let ?gs = "gets (nl_wire (pl_net p))"
  obtain x p1 where st: "poll_step cr cd (sg_signer_id s) (public_keys (sg_config s)) (coordinator_public_key (sg_config s)) p = (x, p1)"
    by fastforce
  note q = poll_step_tx(1) [OF Suc.prems(1) st] and gets = poll_step_tx(2) [OF Suc.prems(1) st]
    and tx = poll_step_tx(3) [OF Suc.prems(1) st]
  show ?case
  proof (cases "x = Ok ()")
    case True
    with Suc.prems st have "signer_poll_loop cr cd s k p1 = (res, p')" by simp
    from Suc.IH [OF q this] obtain j where
      "pl_tx p' = pl_tx p1 @ filter (verified cr s) (List.map_filter (received cd) (take j (tl ?gs)))"
      using gets by auto
    with tx True have "pl_tx p' = pl_tx p @ filter (verified cr s) (List.map_filter (received cd) (take (Suc j) ?gs))"
      by (cases ?gs) (auto simp: List.map_filter_def)
    then show ?thesis by blast
  next
    case False
    with Suc.prems st have "p' = p1" by (cases x) auto
    with tx have "pl_tx p' = pl_tx p @ filter (verified cr s) (List.map_filter (received cd) (take 0 ?gs))
        \<or> pl_tx p' = pl_tx p @ filter (verified cr s) (List.map_filter (received cd) (take 1 ?gs))"
      by (auto simp: List.map_filter_def)
    then show ?thesis by blast
  qed
qed

text \<open>The answers a node got from the relay, and a script of responses that has them, with errors in between.\<close>

fun relay_answers :: "string \<Rightarrow> (string \<times> (io_error, bytes) outcome) list \<Rightarrow> get_result list" where
  "relay_answers n [] = []"
| "relay_answers n ((k, Ok m) # rs) = (if k = n then GetResponse 200 m # relay_answers n rs else relay_answers n rs)"
| "relay_answers n ((k, _) # rs) = relay_answers n rs"

definition reads_relay :: "(string \<times> (io_error, bytes) outcome) list \<Rightarrow> u32 \<Rightarrow> wire \<Rightarrow> bool" where
  "reads_relay rs i w \<longleftrightarrow> filter (\<lambda>g. g \<noteq> GetErr) (gets w) = relay_answers (show_nat (unat i)) rs"

text \<open>The messages on the relay that a signer of the group accepts.\<close>

definition verified_log ::
  "('pt, 'sc, 'pk) crypto \<Rightarrow> ('id, 'pt, 'sc) codec \<Rightarrow> ('pk, 'sc) FrostSigner \<Rightarrow> relay_op list \<Rightarrow> ('id, 'pt, 'sc) Message list" where
  "verified_log cr cd s ops = filter (verified cr s) (List.map_filter (deserialize cd) (posted_msgs ops))"

definition signer_reaches ::
  "('fs, 'rng, 'id, 'pt, 'sc, 'pk) env \<Rightarrow> ('id, 'pt, 'sc) codec \<Rightarrow> ('pk, 'sc) FrostSigner \<Rightarrow> wire
    \<Rightarrow> ('fs, 'id, 'pt, 'sc, 'pk) threads \<Rightarrow> bool" where
  "signer_reaches e cd s w_in t \<longleftrightarrow>
     (\<exists>rng rngs w_out t0. start_p2p_sync e rng s w_in w_out = Ok t0 \<and> (thread_step e cd s rngs)\<^sup>*\<^sup>* t0 t)"

lemma map_filter_alt: "List.map_filter f xs = map (the \<circ> f) (filter (\<lambda>x. f x \<noteq> None) xs)"
  by (simp add: List.map_filter_def)

lemma map_filter_mono_prefix: "prefix xs ys \<Longrightarrow> prefix (List.map_filter f xs) (List.map_filter f ys)"
  unfolding map_filter_alt by (intro map_mono_prefix filter_mono_prefix)

lemma received_relay_answers:
  assumes "deserialize cd [] = None"
  shows "List.map_filter (received cd) (relay_answers n rs) = List.map_filter (deserialize cd) (received_msgs n rs)"
  by (induction n rs rule: relay_answers.induct)
    (auto simp: List.map_filter_simps received_def assms split: option.splits)

lemma received_skips_errors:
  "List.map_filter (received cd) (filter (\<lambda>g. g \<noteq> GetErr) gs) = List.map_filter (received cd) gs"
proof (induction gs)
  case (Cons g gs)
  have "received cd GetErr = None" by (simp add: received_def)
  with Cons show ?case by (cases "g = GetErr") (simp_all add: List.map_filter_simps split: option.split)
qed simp

lemma poller_new_sels [simp]:
  "in_queue (pl_net (poller_new url w)) = []" "gets (nl_wire (pl_net (poller_new url w))) = gets w"
  "pl_tx (poller_new url w) = []"
  by (simp_all add: poller_new_def HttpNetListen_new_def)

lemma channel_follows_log:
  assumes relay: "admissible (\<lambda>n. True) (\<lambda>m. True) ops" "relay_run MemState_get MemState_post MemState_default ops = (rs, st)"
    and reads: "reads_relay rs (sg_signer_id s) w" and cd: "deserialize cd [] = None"
    and run: "signer_poll_loop cr cd s k (poller_new url w) = (res, p)"
  shows "prefix (pl_tx p) (verified_log cr cd s ops)"
proof -
  let ?n = "show_nat (unat (sg_signer_id s))"
  obtain j where tx: "pl_tx p = filter (verified cr s) (List.map_filter (received cd) (take j (gets w)))"
    using poll_loop_tx [OF _ run] by auto
  have "prefix (List.map_filter (received cd) (take j (gets w))) (List.map_filter (received cd) (gets w))"
    by (intro map_filter_mono_prefix take_is_prefix)
  also have "List.map_filter (received cd) (gets w) = List.map_filter (deserialize cd) (received_msgs ?n rs)"
    using reads received_relay_answers [OF cd] received_skips_errors [of cd "gets w"] by (simp add: reads_relay_def)
  also have "received_msgs ?n rs = take (mem_pos st ?n) (posted_msgs ops)"
    using mem.run_delivers [of MemState_default ops rs st ?n] relay by simp
  also have "prefix (List.map_filter (deserialize cd) (take (mem_pos st ?n) (posted_msgs ops)))
      (List.map_filter (deserialize cd) (posted_msgs ops))"
    by (intro map_filter_mono_prefix take_is_prefix)
  finally show ?thesis unfolding tx verified_log_def by (rule filter_mono_prefix)
qed

lemma map_msg_taken: "n \<le> length tx \<Longrightarrow> map (\<lambda>(g, m). msg m) (taken_msgs rngs n tx) = map (\<lambda>m. msg m) (take n tx)"
  by (rule nth_equalityI) (auto simp: taken_msgs_def)

lemma SigningRound_from_view:
  "SigningRound_from e rng c i = Ok r \<Longrightarrow> round_view r = initial_view \<and> rd_total_keys r = total_keys c"
  by (auto simp: SigningRound_from_def obind_Ok_iff Let_def round_view_def initial_view_def split: if_splits)

lemma signing_loop_view_Err:
  "signing_loop e cd sk ms r w = (Err (SigningRoundError er), r', w') \<Longrightarrow>
    view_run (rd_total_keys r) (round_view r) (map (\<lambda>(g, m). msg m) ms) = None"
proof (induction e cd sk ms r w rule: signing_loop.induct)
  case (2 e cd sk rng inbound rest r w)
  obtain x r1 where p: "process e rng r (msg inbound) = (x, r1)" by fastforce
  have not_send: "send_all (cry e) cd sk outs w \<noteq> (Err (SigningRoundError er), w')" for outs w w'
    by (induction outs arbitrary: w) (auto simp: sign_message_type_def split: outcome.splits prod.splits)
  show ?case
  proof (cases x)
    case (Ok outs)
    obtain y w1 where s: "send_all (cry e) cd sk outs w = (y, w1)" by fastforce
    with "2.prems" p Ok not_send [of outs w] have "y = Ok ()" by (cases y) auto
    with "2.prems" p Ok s have "signing_loop e cd sk rest r1 w1 = (Err (SigningRoundError er), r', w')" by simp
    from "2.IH" [OF p [symmetric] Ok s [symmetric] \<open>y = Ok ()\<close> this] process_view [OF p] Ok show ?thesis
      by (simp add: implements_def)
  next
    case (Err er')
    with process_view [OF p] show ?thesis by (simp add: implements_def)
  next
    case Panic
    with "2.prems" p show ?thesis by simp
  qed
qed simp

lemma take_prefix: "prefix xs ys \<Longrightarrow> n \<le> length xs \<Longrightarrow> take n xs = take n ys"
  by (auto simp: prefix_def)

text \<open>A signer that has taken the first messages of a log: its view is what they lead to.\<close>

definition at_log ::
  "u32 \<Rightarrow> ('id, 'pt, 'sc) Message list \<Rightarrow> ('fs, 'id, 'pt, 'sc, 'pk) threads \<Rightarrow> bool" where
  "at_log tk log t \<longleftrightarrow> th_taken t \<le> length log
     \<and> (th_sign_end t = None \<longrightarrow> view_run tk initial_view (map (\<lambda>m. msg m) (take (th_taken t) log)) = Some (round_view (th_round t)))
     \<and> (\<forall>er. th_sign_end t = Some (Err (SigningRoundError er)) \<longrightarrow> view_run tk initial_view (map (\<lambda>m. msg m) (take (th_taken t) log)) = None)"

lemma sign_inv_at_log:
  assumes start: "SigningRound_from e rng (sg_config s) (sg_signer_id s) = Ok r0"
    and inv: "sign_inv e cd s rngs r0 w0 t" and pre: "prefix (pl_tx (th_poller t)) log"
  shows "at_log (total_keys (sg_config s)) log t"
proof -
  from inv have taken: "th_taken t \<le> length (pl_tx (th_poller t))"
    and loop: "signing_loop e cd (network_private_key (sg_config s)) (taken_msgs rngs (th_taken t) (pl_tx (th_poller t)))
        r0 w0 = (end_result (th_sign_end t) (Err RecvError), th_round t, th_wire t)"
    by (simp_all add: sign_inv_def)
  have ms: "map (\<lambda>(g, m). msg m) (taken_msgs rngs (th_taken t) (pl_tx (th_poller t))) = map (\<lambda>m. msg m) (take (th_taken t) log)"
    using map_msg_taken [OF taken] take_prefix [OF pre taken] by simp
  have init: "round_view r0 = initial_view" "rd_total_keys r0 = total_keys (sg_config s)"
    using SigningRound_from_view [OF start] by simp_all
  show ?thesis
    unfolding at_log_def
  proof (intro conjI impI allI)
    show "th_taken t \<le> length log" using taken prefix_length_le [OF pre] by simp
    show "view_run (total_keys (sg_config s)) initial_view (map (\<lambda>m. msg m) (take (th_taken t) log)) = Some (round_view (th_round t))"
      if "th_sign_end t = None"
      using signing_loop_view [OF loop [unfolded that end_result_simps]] ms init by simp
    show "view_run (total_keys (sg_config s)) initial_view (map (\<lambda>m. msg m) (take (th_taken t) log)) = None"
      if "th_sign_end t = Some (Err (SigningRoundError er))" for er
      using signing_loop_view_Err [OF loop [unfolded that end_result_simps]] ms init by simp
  qed
qed

lemma signer_follows_log:
  assumes relay: "admissible (\<lambda>n. True) (\<lambda>m. True) ops" "relay_run MemState_get MemState_post MemState_default ops = (rs, st)"
    and reads: "reads_relay rs (sg_signer_id s) w" and cd: "deserialize cd [] = None"
    and run: "signer_reaches e cd s w t"
  shows "at_log (total_keys (sg_config s)) (verified_log (cry e) cd s ops) t"
proof -
  from run obtain rng rngs w_out t0 where start: "start_p2p_sync e rng s w w_out = Ok t0"
    and steps: "(thread_step e cd s rngs)\<^sup>*\<^sup>* t0 t" by (auto simp: signer_reaches_def)
  note inv = thread_steps_inv [OF steps start_inv(1) [OF start] start_inv(2) [OF start]]
  from inv obtain k p res where "signer_poll_loop (cry e) cd s k (poller_new (http_relay_url (sg_config s)) w) = (res, p)"
    and tx: "pl_tx p = pl_tx (th_poller t)" by (auto simp: poll_inv_def)
  from channel_follows_log [OF relay reads cd this(1)] have "prefix (pl_tx (th_poller t)) (verified_log (cry e) cd s ops)"
    unfolding tx .
  with sign_inv_at_log [OF start_inv(3) [OF start]] inv show ?thesis by blast
qed

text \<open>The parts of the configuration that the members of a group share.\<close>

definition same_group :: "('pk, 'sc) FrostSigner \<Rightarrow> ('pk, 'sc) FrostSigner \<Rightarrow> bool" where
  "same_group a b \<longleftrightarrow> public_keys (sg_config a) = public_keys (sg_config b)
     \<and> coordinator_public_key (sg_config a) = coordinator_public_key (sg_config b)
     \<and> total_keys (sg_config a) = total_keys (sg_config b)"

lemma verified_log_same: "same_group a b \<Longrightarrow> verified_log cr cd a ops = verified_log cr cd b ops"
  by (simp add: same_group_def verified_log_def)

lemma view_run_take:
  assumes "m \<le> n" "view_run tk v (map f (take n xs)) = Some v2"
  obtains v1 where "view_run tk v (map f (take m xs)) = Some v1"
    "view_run tk v1 (map f (take (n - m) (drop m xs))) = Some v2"
proof -
  have "take n xs = take m xs @ take (n - m) (drop m xs)"
    using assms(1) by (metis le_add_diff_inverse take_add)
  with assms(2) have "Option.bind (view_run tk v (map f (take m xs))) (\<lambda>v1. view_run tk v1 (map f (take (n - m) (drop m xs)))) = Some v2"
    by (simp add: view_run_append)
  with that show ?thesis by (auto simp: bind_eq_Some_conv)
qed

text \<open>Two signers at one log agree.\<close>

definition in_agreement ::
  "u32 \<Rightarrow> ('id, 'pt, 'sc) Message list \<Rightarrow> ('fs, 'id, 'pt, 'sc, 'pk) threads \<Rightarrow> ('gs, 'id, 'pt, 'sc, 'pk) threads \<Rightarrow> bool" where
  "in_agreement tk log t_a t_b \<longleftrightarrow>
     (th_sign_end t_a = None \<longrightarrow>
        view_run tk (round_view (th_round t_a))
          (map (\<lambda>m. msg m) (take (th_taken t_b - th_taken t_a) (drop (th_taken t_a) log))) = Some (round_view (th_round t_b))
        \<and> (th_taken t_a = th_taken t_b \<longrightarrow> round_view (th_round t_a) = round_view (th_round t_b)))
     \<and> (\<forall>er. th_sign_end t_a \<noteq> Some (Err (SigningRoundError er)))"

lemma at_log_agree:
  assumes a: "at_log tk log t_a" and b: "at_log tk log t_b" and le: "th_taken t_a \<le> th_taken t_b" and running: "th_sign_end t_b = None"
  shows "in_agreement tk log t_a t_b"
proof -
  have vb: "view_run tk initial_view (map (\<lambda>m. msg m) (take (th_taken t_b) log)) = Some (round_view (th_round t_b))"
    using b running by (simp add: at_log_def)
  obtain v1 where v1: "view_run tk initial_view (map (\<lambda>m. msg m) (take (th_taken t_a) log)) = Some v1"
    and v2: "view_run tk v1 (map (\<lambda>m. msg m) (take (th_taken t_b - th_taken t_a) (drop (th_taken t_a) log)))
      = Some (round_view (th_round t_b))"
    using view_run_take [OF le vb] .
  have "round_view (th_round t_a) = v1" if "th_sign_end t_a = None" using a that v1 by (simp add: at_log_def)
  moreover have "th_sign_end t_a \<noteq> Some (Err (SigningRoundError er))" for er using a v1 by (auto simp: at_log_def)
  ultimately show ?thesis using v2 by (auto simp: in_agreement_def)
qed

text \<open>
  The signers agree. Two signers of a group read the messages of one relay, on which anybody posts and reads in
  any order, with errors of the network in between and with their threads interleaved in any way. Let \<open>a\<close> have taken no more
  messages than \<open>b\<close>. If both are running, the ids, the state, the commitments and the encrypted shares that \<open>b\<close> holds are
  what the further messages of the log make of those of \<open>a\<close>: with as many messages taken they are the same.
  If \<open>a\<close> has ended with an error of its round, \<open>b\<close> is not running either: no member goes on where another had to
  give up.
\<close>

theorem signers_agree:
  assumes relay: "admissible (\<lambda>n. True) (\<lambda>m. True) ops" "relay_run MemState_get MemState_post MemState_default ops = (rs, st)"
    and a: "reads_relay rs (sg_signer_id a) w_a" "signer_reaches e_a cd a w_a t_a"
    and b: "reads_relay rs (sg_signer_id b) w_b" "signer_reaches e_b cd b w_b t_b"
    and cd: "deserialize cd [] = None" and group: "same_group a b" "cry e_a = cry e_b"
    and le: "th_taken t_a \<le> th_taken t_b" and running: "th_sign_end t_b = None"
  shows "(th_sign_end t_a = None \<longrightarrow>
      view_run (total_keys (sg_config b)) (round_view (th_round t_a))
        (map (\<lambda>m. msg m) (take (th_taken t_b - th_taken t_a) (drop (th_taken t_a) (verified_log (cry e_b) cd b ops))))
        = Some (round_view (th_round t_b))
      \<and> (th_taken t_a = th_taken t_b \<longrightarrow> round_view (th_round t_a) = round_view (th_round t_b)))
    \<and> (\<forall>er. th_sign_end t_a \<noteq> Some (Err (SigningRoundError er)))"
proof -
  have "at_log (total_keys (sg_config b)) (verified_log (cry e_b) cd b ops) t_a"
    using signer_follows_log [OF relay a(1) cd a(2)] verified_log_same [OF group(1), of "cry e_b" cd ops] group
    by (simp add: same_group_def)
  from at_log_agree [OF this signer_follows_log [OF relay b(1) cd b(2)] le running, unfolded in_agreement_def] show ?thesis .
qed

text \<open>For the witness: a byte on the relay is a request of the coordinator to begin; the two signers of the demonstration read it.\<close>

definition bus_codec :: "(u32, u8, nat) codec" where
  "bus_codec = \<lparr>serialize = (\<lambda>m. Some (sig m)),
     deserialize = (\<lambda>bs. case bs of [b] \<Rightarrow> Some \<lparr>msg = DkgBegin \<lparr>db_dkg_id = ucast b\<rparr>,
        sig = 8 # rev (hash_DkgBegin \<lparr>db_dkg_id = ucast b\<rparr>)\<rparr> | _ \<Rightarrow> None)\<rparr>"

definition demo_begin :: "(u32, u8, nat) Message" where
  "demo_begin = \<lparr>msg = DkgBegin \<lparr>db_dkg_id = 5\<rparr>, sig = 8 # rev (hash_DkgBegin \<lparr>db_dkg_id = 5\<rparr>)\<rparr>"

lemma demo_begin_verify: "verify_msg demo_crypto demo_begin demo_keys 8 = Ok True"
  by (simp add: verify_msg_def verify_with_def Signable_verify_def demo_begin_def demo_crypto_def)

abbreviation "demo_posts \<equiv> (demo_wire [])\<lparr>posts := [True, True]\<rparr>"

lemma demo_started:
  assumes "i = 1 \<or> i = 2"
  shows "\<exists>t0. start_p2p_sync demo_env 0 (FrostSigner_new demo_config i) w demo_posts = Ok t0
    \<and> th_poller t0 = poller_new ''http://relay'' w \<and> th_taken t0 = 0 \<and> th_poll_end t0 = None \<and> th_sign_end t0 = None
    \<and> th_wire t0 = demo_posts \<and> rd_state (th_round t0) = Idle \<and> rd_total_keys (th_round t0) = 3
    \<and> frost_signer (rd_signer (th_round t0)) = (if i = 1 then [0, 1] else [2])"
  using assms by (auto simp: start_p2p_sync_def SigningRound_from_def FrostSigner_new_def demo_config_def demo_env_def demo_ws_def)

lemma demo_begin_taken:
  assumes "rd_state (th_round t) = Idle" "rd_total_keys (th_round t) = 3" "th_wire t = demo_posts" "th_sign_end t = None"
    "frost_signer (rd_signer (th_round t)) = (if i = 1 then [0, 1] else [2])"
  shows "th_sign_end (sign_iteration demo_env bus_codec (FrostSigner_new demo_config i) 0 demo_begin t) = None"
    and "rd_state (th_round (sign_iteration demo_env bus_codec (FrostSigner_new demo_config i) 0 demo_begin t)) = DkgPublicGather"
proof -
  obtain outs r1 where proc: "process demo_env 0 (th_round t) (msg demo_begin) = (Ok outs, r1)"
    and outs: "length outs \<le> 2" "\<forall>out \<in> set outs. \<exists>sh. out = DkgPublicShare sh" "rd_state r1 = DkgPublicGather"
    using assms by (simp add: process_def dispatch_def round_defs demo_begin_def demo_env_def demo_ws_def Let_def
        public_shares_done_def can_dkg_end_def)
  have "\<exists>w'. send_all demo_crypto bus_codec 2 outs demo_posts = (Ok (), w')"
    using outs(1,2)
    by (cases outs; cases "tl outs")
      (auto simp: sign_message_type_def Signable_sign_def send_message_def bus_codec_def take_retries_def demo_wire_def
        post_retry_0 demo_crypto_def Let_def)
  moreover have "cry demo_env = demo_crypto" by (simp add: demo_env_def)
  ultimately show "th_sign_end (sign_iteration demo_env bus_codec (FrostSigner_new demo_config i) 0 demo_begin t) = None"
    "rd_state (th_round (sign_iteration demo_env bus_codec (FrostSigner_new demo_config i) 0 demo_begin t)) = DkgPublicGather"
    using assms(3,4) outs(3) by (auto simp: sign_iteration_def Let_def proc FrostSigner_new_def demo_config_def)
qed

lemma demo_reaches:
  assumes "i = 1 \<or> i = 2"
  shows "\<exists>t. signer_reaches demo_env bus_codec (FrostSigner_new demo_config i) (demo_wire [GetResponse 200 [5]]) t
    \<and> th_taken t = 1 \<and> th_sign_end t = None \<and> v_state (round_view (th_round t)) = DkgPublicGather"
proof -
  let ?s = "FrostSigner_new demo_config i"
  let ?step = "thread_step demo_env bus_codec ?s (\<lambda>n. n)"
  have env: "cry demo_env = demo_crypto" by (simp add: demo_env_def)
  obtain t0 where start: "start_p2p_sync demo_env 0 ?s (demo_wire [GetResponse 200 [5]]) demo_posts = Ok t0"
    and t0: "th_poller t0 = poller_new ''http://relay'' (demo_wire [GetResponse 200 [5]])" "th_taken t0 = 0"
      "th_poll_end t0 = None" "th_sign_end t0 = None" "th_wire t0 = demo_posts" "rd_state (th_round t0) = Idle"
      "rd_total_keys (th_round t0) = 3" "frost_signer (rd_signer (th_round t0)) = (if i = 1 then [0, 1] else [2])"
    using demo_started [OF assms] by blast
  let ?t1 = "poll_iteration demo_crypto bus_codec ?s t0"
  have dec: "deserialize bus_codec [5] = Some demo_begin" by (simp add: bus_codec_def demo_begin_def)
  have t1: "pl_tx (th_poller ?t1) = [demo_begin]" "th_taken ?t1 = 0"
      "th_sign_end ?t1 = None" "th_round ?t1 = th_round t0" "th_wire ?t1 = demo_posts"
    using t0 demo_begin_verify dec
    by (simp_all add: poll_iteration_def poll_step_def poll_def next_message_def poller_new_def demo_wire_def
        HttpNetListen_new_def HttpNet_new_def FrostSigner_new_def demo_config_def)
  let ?t2 = "sign_iteration demo_env bus_codec ?s 0 demo_begin ?t1"
  have "?step t0 ?t1" using thread_step.poll [of t0] t0(3) env by metis
  moreover have "?step ?t1 ?t2" using thread_step.recv [of ?t1] t1 by (metis One_nat_def length_Cons less_one list.size(3) nth_Cons_0)
  ultimately have steps: "?step\<^sup>*\<^sup>* t0 ?t2" by (meson r_into_rtranclp rtranclp.rtrancl_into_rtrancl)
  have "th_taken ?t2 = 1" "th_sign_end ?t2 = None" "v_state (round_view (th_round ?t2)) = DkgPublicGather"
    using demo_begin_taken [of ?t1 i] t0 t1 by (simp_all add: sign_iteration_frame round_view_def)
  with start steps show ?thesis unfolding signer_reaches_def by blast
qed

theorem signers_agree_witness:
  "\<exists>t_a t_b. th_taken t_a = 1 \<and> th_taken t_b = 1
    \<and> signer_reaches demo_env bus_codec (FrostSigner_new demo_config 1) (demo_wire [GetResponse 200 [5]]) t_a
    \<and> signer_reaches demo_env bus_codec (FrostSigner_new demo_config 2) (demo_wire [GetResponse 200 [5]]) t_b
    \<and> round_view (th_round t_a) = round_view (th_round t_b)"
proof -
  let ?ops = "[Post [5], Get ''1'', Get ''2'']"
  have relay: "relay_run MemState_get MemState_post MemState_default ?ops
      = ([(''1'', Ok [5]), (''2'', Ok [5])], \<lparr>highwaters = [(''1'', 0), (''2'', 0)], queue = [[5]]\<rparr>)"
    by (simp add: MemState_get_def MemState_post_def MemState_default_def)
  have ids: "show_nat (unat (1 :: u32)) = ''1''" "show_nat (unat (2 :: u32)) = ''2''"
    by (simp_all add: show_nat.simps [of 1] show_nat.simps [of 2] show_nat.simps [of "Suc 0"] digit_char_def char_of_def bit_simps)
  obtain t_a where a: "signer_reaches demo_env bus_codec (FrostSigner_new demo_config 1) (demo_wire [GetResponse 200 [5]]) t_a"
      "th_taken t_a = 1" "th_sign_end t_a = None"
    using demo_reaches [OF disjI1 [OF refl]] by (elim exE conjE)
  obtain t_b where b: "signer_reaches demo_env bus_codec (FrostSigner_new demo_config 2) (demo_wire [GetResponse 200 [5]]) t_b"
      "th_taken t_b = 1" "th_sign_end t_b = None"
    using demo_reaches [OF disjI2 [OF refl]] by (elim exE conjE)
  have "reads_relay [(''1'', Ok [5]), (''2'', Ok [5])] (sg_signer_id (FrostSigner_new demo_config 1)) (demo_wire [GetResponse 200 [5]])"
    by (simp only: reads_relay_def FrostSigner_new_def demo_wire_def FrostSigner.simps wire.simps ids) simp
  moreover have "reads_relay [(''1'', Ok [5]), (''2'', Ok [5])] (sg_signer_id (FrostSigner_new demo_config 2)) (demo_wire [GetResponse 200 [5]])"
    by (simp only: reads_relay_def FrostSigner_new_def demo_wire_def FrostSigner.simps wire.simps ids) simp
  moreover have "deserialize bus_codec [] = None" by (simp add: bus_codec_def)
  moreover have "same_group (FrostSigner_new demo_config 1) (FrostSigner_new demo_config 2)"
    by (simp add: same_group_def FrostSigner_new_def)
  ultimately have "round_view (th_round t_a) = round_view (th_round t_b)"
    using signers_agree [OF _ relay, of "FrostSigner_new demo_config 1" "demo_wire [GetResponse 200 [5]]" demo_env bus_codec t_a
        "FrostSigner_new demo_config 2" "demo_wire [GetResponse 200 [5]]" demo_env t_b] a b by simp
  with a b show ?thesis by blast
qed

section \<open>The coordinator's key and the signers' shares\<close>

lemma map_bt_insert: "map (\<lambda>(k, x). (k, f x)) (bt_insert k v m) = bt_insert k (f v) (map (\<lambda>(k, x). (k, f x)) m)"
  by (induction k v m rule: bt_insert.induct) auto

text \<open>The polynomials whose constant terms the coordinator adds, as the signers hold them.\<close>

fun sum_polys ::
  "('id, 'pt, 'sc, 'ag, 'ae, 'te, 'sig, 'proof) agg \<Rightarrow> 'pt \<Rightarrow> ('id, 'pt) PolyCommitment list
    \<Rightarrow> (('ae, 'te) coord_error, 'pt) outcome" where
  "sum_polys ag s [] = Ok s"
| "sum_polys ag s (p # ps) = (case pc_A p of [] \<Rightarrow> Panic | a # as \<Rightarrow> sum_polys ag (pt_add ag s a) ps)"

lemma sum_constant_terms_polys:
  "sum_constant_terms ag s shares = sum_polys ag s (map (\<lambda>(k, x). dps_public_share x) shares)"
  by (induction ag s shares rule: sum_constant_terms.induct) (auto split: list.split)

text \<open>Without a new beginning, the commitments of a signer and the shares of the coordinator grow alike.\<close>

lemma view_commitments_run:
  assumes "view_run tk v (map (\<lambda>m. msg m) ms) = Some v'" and "\<forall>m \<in> set ms. \<forall>b. msg m \<noteq> DkgBegin b"
    and "v_commitments v = map (\<lambda>(k, x). (k, dps_public_share x)) shares"
  shows "v_commitments v' = map (\<lambda>(k, x). (k, dps_public_share x)) (public_shares_of ms shares)"
  using assms
proof (induction ms arbitrary: v shares)
  case (Cons m ms)
  from Cons.prems(1) obtain v1 where st: "view_step tk v (msg m) = Some v1" and rest: "view_run tk v1 (map (\<lambda>m. msg m) ms) = Some v'"
    by (auto simp: bind_eq_Some_conv)
  have settle: "v_commitments (view_settle tk x) = v_commitments x" for x :: "('a, 'b) public_view"
    by (simp add: view_settle_def)
  have "v_commitments v1 = map (\<lambda>(k, x). (k, dps_public_share x)) (public_shares_of [m] shares)"
    using st Cons.prems(2,3)
    by (cases "msg m") (auto simp: view_step_def view_msg_def settle map_bt_insert split: if_splits)
  from Cons.IH [OF rest _ this] Cons.prems(2)
  have "v_commitments v' = map (\<lambda>(k, x). (k, dps_public_share x)) (public_shares_of ms (public_shares_of [m] shares))"
    by simp
  moreover have "public_shares_of ms (public_shares_of [m] shares) = public_shares_of (m # ms) shares"
    by (cases "msg m") simp_all
  ultimately show ?case by simp
qed simp

text \<open>
  C4. The key of the coordinator is the key of the signers. A signer reads the relay as before; among the messages it
  accepts are the coordinator's request to begin and then \<open>pub\<close>, with no other request to begin, and it has taken
  exactly these. The coordinator, with no shares yet, is given the messages \<open>pub\<close>, in which
  every signer ends the public phase, the last one with the last message. Let the sum of the constant terms of the
  polynomials that the signer holds be a key with an even y coordinate. Then \<^verbatim>\<open>wait_for_public_shares\<close> returns this
  key and stores it as the aggregate public key.
\<close>

theorem coordinator_key_is_signers_key:
  assumes relay: "admissible (\<lambda>n. True) (\<lambda>m. True) ops" "relay_run MemState_get MemState_post MemState_default ops = (rs, st)"
    and signer: "reads_relay rs (sg_signer_id s) w" "signer_reaches e cd s w t" "th_sign_end t = None"
    and cd: "deserialize cd [] = None"
    and log: "verified_log (cry e) cd s ops = pre @ beg # pub @ post" "msg beg = DkgBegin b"
      "\<forall>m \<in> set pub. \<forall>b. msg m \<noteq> DkgBegin b" "th_taken t = length pre + 1 + length pub"
    and coord: "delivers (ccodec E) (network c) (pub @ rest)" "dkg_public_shares c = []"
      "set (all_signer_ids c) \<subseteq> public_end_ids pub" "\<not> set (all_signer_ids c) \<subseteq> public_end_ids (butlast pub)"
    and key: "sum_polys (cagg E) (pt_default (cagg E)) (map snd (rd_commitments (th_round t))) = Ok key"
      "has_even_y (cagg E) key"
  shows "\<exists>c'. wait_for_public_shares E c = (Ok key, c') \<and> aggregate_public_key c' = key"
proof -
  have "take (th_taken t) (verified_log (cry e) cd s ops) = pre @ beg # pub"
    by (simp add: log)
  with signer_follows_log [OF relay signer(1) cd signer(2)] signer(3)
  have "view_run (total_keys (sg_config s)) initial_view (map (\<lambda>m. msg m) (pre @ beg # pub)) = Some (round_view (th_round t))"
    by (simp add: at_log_def)
  then obtain v v1 where "view_step (total_keys (sg_config s)) v (msg beg) = Some v1"
    and run: "view_run (total_keys (sg_config s)) v1 (map (\<lambda>m. msg m) pub) = Some (round_view (th_round t))"
    by (auto simp: view_run_append bind_eq_Some_conv)
  then have "v_commitments v1 = map (\<lambda>(k, x). (k, dps_public_share x)) []"
    by (auto simp: log(2) view_step_def view_msg_def view_settle_def split: if_splits)
  from view_commitments_run [OF run log(3) this]
  have comm: "map snd (rd_commitments (th_round t)) = map (\<lambda>(k, x). dps_public_share x) (public_shares_of pub [])"
    by (simp add: round_view_def case_prod_beta)
  obtain n where "wait_public E (all_signer_ids c) c = wait_public E [] (c\<lparr>network := n, dkg_public_shares := public_shares_of pub []\<rparr>)"
    using wait_public_run [OF coord(1), of "all_signer_ids c"] coord(2-4) by auto
  with key comm show ?thesis
    by (simp add: wait_for_public_shares_def wait_public.simps [of E "[]"] check_public_def
        calculate_aggregate_public_key_def sum_constant_terms_polys)
qed

text \<open>For the witness: a group of one signer with one key, which takes the request, its share and its end of the phase.\<close>

definition solo_signer :: "(nat, nat) FrostSigner" where
  "solo_signer = FrostSigner_new \<lparr>http_relay_url = ''http://relay'', keys_threshold = 1, network_private_key = 2,
     public_keys = \<lparr>signers = [(1, 4)], key_ids = [(1, 4)]\<rparr>, signer_key_ids = [(1, [1])], coordinator_public_key = 8,
     total_signers = 1, total_keys = 1\<rparr> 1"

definition demo_signed :: "u8 \<Rightarrow> (u32, u8, nat) MessageTypes \<Rightarrow> (u32, u8, nat) Message" where
  "demo_signed pk m = \<lparr>msg = m, sig = pk # rev (case signable demo_crypto m of Ok i \<Rightarrow> i | _ \<Rightarrow> [])\<rparr>"

definition solo_msgs :: "(u32, u8, nat) Message list" where
  "solo_msgs = [demo_signed 8 (DkgBegin \<lparr>db_dkg_id = 5\<rparr>), demo_signed 4 (DkgPublicShare (demo_public_share 1 9)),
     demo_signed 4 (DkgPublicEnd \<lparr>de_dkg_id = 5, de_signer_id = 1, de_status = Success\<rparr>)]"

abbreviation "solo_ops \<equiv> [Post [0], Post [1], Post [2], Get ''1'', Get ''1'', Get ''1'']"

abbreviation "solo_wire \<equiv> demo_wire [GetResponse 200 [0], GetResponse 200 [1], GetResponse 200 [2]]"

lemma solo_codec: "deserialize (script_codec solo_msgs) [0] = Some (solo_msgs ! 0)"
  "deserialize (script_codec solo_msgs) [1] = Some (solo_msgs ! 1)" "deserialize (script_codec solo_msgs) [2] = Some (solo_msgs ! 2)"
  "deserialize (script_codec solo_msgs) [] = None" "serialize (script_codec solo_msgs) m = Some []"
  by (simp_all add: script_codec_def solo_msgs_def)

lemma solo_verified: "m \<in> set solo_msgs \<Longrightarrow> verified demo_crypto solo_signer m"
  by (auto simp: solo_msgs_def demo_signed_def solo_signer_def FrostSigner_new_def verify_msg_def verify_with_def
      Signable_verify_def demo_public_share_def)
    (simp_all add: demo_crypto_def)

lemma solo_log: "verified_log demo_crypto (script_codec solo_msgs) solo_signer solo_ops = solo_msgs"
  using solo_verified by (simp add: verified_log_def List.map_filter_simps solo_codec) (simp add: solo_msgs_def)

lemma solo_polls:
  "\<exists>p. signer_poll_loop demo_crypto (script_codec solo_msgs) solo_signer 3 (poller_new ''http://relay'' solo_wire) = (Ok (), p)
    \<and> pl_tx p = solo_msgs"
proof -
  have v: "verified demo_crypto solo_signer (solo_msgs ! 0)" "verified demo_crypto solo_signer (solo_msgs ! 1)"
      "verified demo_crypto solo_signer (solo_msgs ! 2)"
    by (rule solo_verified, simp add: solo_msgs_def)+
  have "solo_msgs = [solo_msgs ! 0, solo_msgs ! 1, solo_msgs ! 2]" by (simp add: solo_msgs_def)
  then show ?thesis
    using v solo_codec
    by (simp add: numeral_3_eq_3 poll_step_def poll_def next_message_def poller_new_def demo_wire_def
        HttpNetListen_new_def HttpNet_new_def)
qed

lemma solo_reaches:
  "\<exists>t. signer_reaches demo_env (script_codec solo_msgs) solo_signer solo_wire t \<and> th_taken t = 3 \<and> th_sign_end t = None
    \<and> rd_commitments (th_round t) = [(1, \<lparr>pc_id = 1, pc_A = [9]\<rparr>)]"
proof -
  let ?w = "(demo_wire [])\<lparr>posts := [True, True]\<rparr>" and ?cd = "script_codec solo_msgs"
  have env: "cry demo_env = demo_crypto" by (simp add: demo_env_def)
  have cfg: "http_relay_url (sg_config solo_signer) = ''http://relay''" "network_private_key (sg_config solo_signer) = 2"
    by (simp_all add: solo_signer_def FrostSigner_new_def)
  obtain t0 where start: "start_p2p_sync demo_env 0 solo_signer solo_wire ?w = Ok t0"
    and t0: "rd_state (th_round t0) = Idle" "frost_signer (rd_signer (th_round t0)) = [0]" "rd_total_keys (th_round t0) = 1"
    by (auto simp: start_p2p_sync_def SigningRound_from_def solo_signer_def FrostSigner_new_def demo_env_def demo_ws_def)
  obtain p where polls: "signer_poll_loop demo_crypto ?cd solo_signer 3 (poller_new ''http://relay'' solo_wire) = (Ok (), p)"
    and tx: "pl_tx p = solo_msgs" using solo_polls by blast
  have "\<exists>r w. signing_loop demo_env ?cd 2 (taken_msgs (\<lambda>n. n) 3 solo_msgs) (th_round t0) ?w = (Err RecvError, r, w)
      \<and> rd_commitments r = [(1, \<lparr>pc_id = 1, pc_A = [9]\<rparr>)]"
    using t0 by (simp add: taken_msgs_def numeral_3_eq_3 solo_msgs_def demo_signed_def process_def dispatch_def round_defs
        demo_env_def demo_ws_def Let_def public_shares_done_def can_dkg_end_def demo_public_share_def dkg_public_ended_def
        sign_message_type_def Signable_sign_def send_message_def script_codec_def take_retries_def demo_wire_def post_retry_0
        demo_crypto_def)
  then obtain r w where signs: "signing_loop demo_env ?cd 2 (taken_msgs (\<lambda>n. n) 3 (pl_tx p)) (th_round t0) ?w = (Err RecvError, r, w)"
    and r: "rd_commitments r = [(1, \<lparr>pc_id = 1, pc_A = [9]\<rparr>)]" unfolding tx by blast
  have "3 \<le> length (pl_tx p)" by (simp add: tx solo_msgs_def)
  with sequential_reachable [OF start, unfolded cfg env, OF polls signs] obtain t where
    "(thread_step demo_env ?cd solo_signer (\<lambda>n. n))\<^sup>*\<^sup>* t0 t" "th_taken t = 3" "th_round t = r" "th_sign_end t = None" by auto
  with start r show ?thesis unfolding signer_reaches_def by blast
qed

definition solo_cenv :: "(u32, u8, nat, nat, unit, unit, unit, bytes, bytes) cenv" where
  "solo_cenv = \<lparr>ccry = demo_crypto, ccodec = script_codec solo_msgs, cagg = demo_agg\<rparr>"

definition solo_coordinator :: "(u32, u8, nat, nat) Coordinator" where
  "solo_coordinator = (demo_coordinator 0 0)\<lparr>network := HttpNetListen_new (HttpNet_new []) []
     (demo_wire [GetResponse 200 [1], GetResponse 200 [2]])\<rparr>"

theorem coordinator_key_is_signers_key_witness:
  "\<exists>c'. wait_for_public_shares solo_cenv solo_coordinator = (Ok 9, c') \<and> aggregate_public_key c' = 9"
proof -
  have relay: "relay_run MemState_get MemState_post MemState_default solo_ops
      = ([(''1'', Ok [0]), (''1'', Ok [1]), (''1'', Ok [2])], \<lparr>highwaters = [(''1'', 2)], queue = [[0], [1], [2]]\<rparr>)"
    by (simp add: MemState_get_def MemState_post_def MemState_default_def)
  have reads: "reads_relay [(''1'', Ok [0]), (''1'', Ok [1]), (''1'', Ok [2])] (sg_signer_id solo_signer) solo_wire"
    by (simp add: reads_relay_def solo_signer_def FrostSigner_new_def demo_wire_def show_nat.simps [of "Suc 0"] digit_char_def
        char_of_def bit_simps)
  obtain t where t: "signer_reaches demo_env (script_codec solo_msgs) solo_signer solo_wire t" "th_taken t = 3" "th_sign_end t = None"
    "rd_commitments (th_round t) = [(1, \<lparr>pc_id = 1, pc_A = [9]\<rparr>)]" using solo_reaches by blast
  have env: "cry demo_env = demo_crypto" by (simp add: demo_env_def)
  have split: "solo_msgs = [] @ solo_msgs ! 0 # drop 1 solo_msgs @ []" by (simp add: solo_msgs_def)
  show ?thesis
  proof (rule coordinator_key_is_signers_key [OF _ relay reads t(1,3)])
    show "verified_log (cry demo_env) (script_codec solo_msgs) solo_signer solo_ops = [] @ solo_msgs ! 0 # drop 1 solo_msgs @ []"
      using solo_log split by (simp add: env)
    show "delivers (ccodec solo_cenv) (network solo_coordinator) (drop 1 solo_msgs @ [])"
      using solo_codec by (simp add: delivers_def solo_cenv_def solo_coordinator_def HttpNetListen_new_def demo_wire_def received_def)
        (simp add: solo_msgs_def)
    show "sum_polys (cagg solo_cenv) (pt_default (cagg solo_cenv)) (map snd (rd_commitments (th_round t))) = Ok 9"
      by (simp add: t(4) solo_cenv_def demo_agg_def)
    show "deserialize (script_codec solo_msgs) [] = None" by (rule solo_codec(4))
  qed (auto simp: t(2) solo_msgs_def demo_signed_def solo_coordinator_def demo_coordinator_def all_signer_ids_def
      public_end_ids_def solo_cenv_def demo_agg_def)
qed

lemma public_shares_of_fresh:
  "\<forall>m \<in> set ms. \<forall>s'. msg m = DkgPublicShare s' \<longrightarrow> dps_party_id s' \<noteq> k \<Longrightarrow>
    map_of (public_shares_of ms shares) k = map_of shares k"
proof (induction ms arbitrary: shares)
  case (Cons m ms)
  then show ?case by (cases "msg m") (auto simp: bt_lookup_insert)
qed simp

text \<open>
  C38. The coordinator, unlike the signers, takes messages without looking at their signatures. A public share for a key that
  nobody else sends a share for, with any signature, is kept and enters the sum: the key that is returned and stored
  is the one with this share, which no signer accepts if the signature is not good.
\<close>

theorem forged_share_in_key:
  assumes f: "msg f = DkgPublicShare s" "verify_msg cr f pks cpk = Ok False"
    and coord: "delivers (ccodec E) (network c) (f # pub @ rest)" "dkg_public_shares c = []"
      "set (all_signer_ids c) \<subseteq> public_end_ids pub" "\<not> set (all_signer_ids c) \<subseteq> public_end_ids (butlast pub)"
    and fresh: "\<forall>m \<in> set pub. \<forall>s'. msg m = DkgPublicShare s' \<longrightarrow> dps_party_id s' \<noteq> dps_party_id s"
    and key: "sum_constant_terms (cagg E) (pt_default (cagg E)) (public_shares_of (f # pub) []) = Ok key" "has_even_y (cagg E) key"
  shows "\<exists>c'. wait_for_public_shares E c = (Ok key, c') \<and> aggregate_public_key c' = key
    \<and> map_of (dkg_public_shares c') (dps_party_id s) = Some s"
proof -
  have pub: "pub \<noteq> []" using coord(3,4) by (auto simp: public_end_ids_def)
  have "public_end_ids (f # xs) = public_end_ids xs" for xs using f by (auto simp: public_end_ids_def)
  then have "set (all_signer_ids c) \<subseteq> public_end_ids (f # pub)" "\<not> set (all_signer_ids c) \<subseteq> public_end_ids (butlast (f # pub))"
    using coord(3,4) pub by simp_all
  with wait_public_run [of E c "f # pub" rest "all_signer_ids c"] coord(1,2) obtain n where
    "wait_public E (all_signer_ids c) c = wait_public E [] (c\<lparr>network := n, dkg_public_shares := public_shares_of (f # pub) []\<rparr>)"
    by auto
  moreover have "map_of (public_shares_of (f # pub) []) (dps_party_id s) = Some s"
    using public_shares_of_fresh [OF fresh] f(1) by simp
  ultimately show ?thesis
    using key by (simp add: wait_for_public_shares_def wait_public.simps [of E "[]"] check_public_def
        calculate_aggregate_public_key_def del: public_shares_of.simps)
qed

definition demo_forged :: "(u32, u8, nat) Message" where
  "demo_forged = \<lparr>msg = DkgPublicShare (demo_public_share 2 7), sig = []\<rparr>"

theorem forged_share_in_key_witness:
  "verify_msg demo_crypto demo_forged demo_keys 8 = Ok False
    \<and> (\<exists>c'. wait_for_public_shares (solo_cenv\<lparr>ccodec := script_codec (demo_forged # drop 1 solo_msgs)\<rparr>)
          ((demo_coordinator 0 0)\<lparr>network := HttpNetListen_new (HttpNet_new []) []
             (demo_wire [GetResponse 200 [0], GetResponse 200 [1], GetResponse 200 [2]])\<rparr>) = (Ok 16, c')
        \<and> aggregate_public_key c' = 16)"
proof
  show bad: "verify_msg demo_crypto demo_forged demo_keys 8 = Ok False"
    by (simp add: verify_msg_def verify_with_def Signable_verify_def demo_forged_def demo_public_share_def demo_keys_def)
      (simp add: demo_crypto_def)
  let ?E = "solo_cenv\<lparr>ccodec := script_codec (demo_forged # drop 1 solo_msgs)\<rparr>"
  let ?c = "(demo_coordinator 0 0)\<lparr>network := HttpNetListen_new (HttpNet_new []) []
             (demo_wire [GetResponse 200 [0], GetResponse 200 [1], GetResponse 200 [2]])\<rparr>"
  have "\<exists>c'. wait_for_public_shares ?E ?c = (Ok 16, c') \<and> aggregate_public_key c' = 16
      \<and> map_of (dkg_public_shares c') (dps_party_id (demo_public_share 2 7)) = Some (demo_public_share 2 7)"
  proof (rule forged_share_in_key [OF _ bad, where pub = "drop 1 solo_msgs" and rest = "[]"])
    show "delivers (ccodec ?E) (network ?c) (demo_forged # drop 1 solo_msgs @ [])"
      by (simp add: delivers_def HttpNetListen_new_def demo_wire_def received_def script_codec_def solo_msgs_def)
  qed (auto simp: demo_forged_def solo_msgs_def demo_signed_def demo_coordinator_def all_signer_ids_def public_end_ids_def
      solo_cenv_def demo_agg_def demo_public_share_def)
  then show "\<exists>c'. wait_for_public_shares ?E ?c = (Ok 16, c') \<and> aggregate_public_key c' = 16" by blast
qed

end
