(* ===== verification/SignerSystem.thy ===== *)
theory SignerSystem
  imports SignerGroup
begin

text \<open>
  The relay and the signers of a group as one system. A signer polls the relay and gets what the relay has for it, the
  messages it posts reach the relay one by one, and anybody else, the coordinator among them, posts and reads
  in between. Here nothing is assumed of the answers that a signer reads: they are the relay's. The lemmas of \<open>SignerGroup\<close> on
  views and of \<open>SignerThreads\<close> on the signing thread carry over to the states that the system reaches.
\<close>

section \<open>The system\<close>

text \<open>
  The threads of every signer, how many of its posts have reached the relay, and, for every message on the relay, who has
  posted it: \<open>Some i\<close> is a signer.
\<close>

record ('fs, 'id, 'pt, 'sc, 'pk) group_system =
  gs_relay :: MemState
  gs_threads :: "nat \<Rightarrow> ('fs, 'id, 'pt, 'sc, 'pk) threads"
  gs_arrived :: "nat \<Rightarrow> nat"
  gs_log :: "(nat option \<times> bytes) list"

definition node_name :: "('pk, 'sc) FrostSigner \<Rightarrow> string" where
  "node_name s = show_nat (unat (sg_signer_id s))"

text \<open>A signer whose next request gets the answer \<open>g\<close>.\<close>

definition answered ::
  "get_result \<Rightarrow> ('fs, 'id, 'pt, 'sc, 'pk) threads \<Rightarrow> ('fs, 'id, 'pt, 'sc, 'pk) threads" where
  "answered g t =
     (let p = th_poller t; n = pl_net p in
      t\<lparr>th_poller := p\<lparr>pl_net := n\<lparr>nl_wire := (nl_wire n)\<lparr>gets := [g]\<rparr>\<rparr>\<rparr>\<rparr>)"

text \<open>
  The signers have environments of their own, \<open>e i\<close>. A request that fails does so before the relay has handled it.
\<close>

inductive system_step ::
  "(nat \<Rightarrow> ('fs, 'rng, 'id, 'pt, 'sc, 'pk) env) \<Rightarrow> ('id, 'pt, 'sc) codec \<Rightarrow> ('pk, 'sc) FrostSigner list \<Rightarrow> (nat \<Rightarrow> nat \<Rightarrow> 'rng)
    \<Rightarrow> ('fs, 'id, 'pt, 'sc, 'pk) group_system \<Rightarrow> ('fs, 'id, 'pt, 'sc, 'pk) group_system \<Rightarrow> bool"
  for e cd ss rngs where
  polls: "i < length ss \<Longrightarrow> th_poll_end (gs_threads S i) = None \<Longrightarrow>
    MemState_get (gs_relay S) (node_name (ss ! i)) = (Ok body, relay) \<Longrightarrow>
    system_step e cd ss rngs S (S\<lparr>gs_relay := relay,
      gs_threads := (gs_threads S)(i := poll_iteration (cry (e i)) cd (ss ! i) (answered (GetResponse 200 body) (gs_threads S i)))\<rparr>)"
| poll_fails: "i < length ss \<Longrightarrow> th_poll_end (gs_threads S i) = None \<Longrightarrow>
    system_step e cd ss rngs S (S\<lparr>gs_threads :=
      (gs_threads S)(i := poll_iteration (cry (e i)) cd (ss ! i) (answered GetErr (gs_threads S i)))\<rparr>)"
| takes: "i < length ss \<Longrightarrow> t = gs_threads S i \<Longrightarrow> th_sign_end t = None \<Longrightarrow> th_taken t < length (pl_tx (th_poller t)) \<Longrightarrow>
    system_step e cd ss rngs S (S\<lparr>gs_threads :=
      (gs_threads S)(i := sign_iteration (e i) cd (ss ! i) (rngs i (th_taken t)) (pl_tx (th_poller t) ! th_taken t) t)\<rparr>)"
| recv_fails: "i < length ss \<Longrightarrow> t = gs_threads S i \<Longrightarrow> th_sign_end t = None \<Longrightarrow> th_taken t = length (pl_tx (th_poller t)) \<Longrightarrow>
    th_poll_end t \<noteq> None \<Longrightarrow>
    system_step e cd ss rngs S (S\<lparr>gs_threads := (gs_threads S)(i := t\<lparr>th_sign_end := Some (Err RecvError)\<rparr>)\<rparr>)"
| arrives: "i < length ss \<Longrightarrow> gs_arrived S i < length (posted (th_wire (gs_threads S i))) \<Longrightarrow>
    body = posted (th_wire (gs_threads S i)) ! gs_arrived S i \<Longrightarrow> MemState_post (gs_relay S) body = (r, relay) \<Longrightarrow>
    system_step e cd ss rngs S (S\<lparr>gs_relay := relay, gs_arrived := (gs_arrived S)(i := Suc (gs_arrived S i)),
      gs_log := gs_log S @ [(Some i, body)]\<rparr>)"
| outsider_posts: "MemState_post (gs_relay S) body = (r, relay) \<Longrightarrow>
    system_step e cd ss rngs S (S\<lparr>gs_relay := relay, gs_log := gs_log S @ [(None, body)]\<rparr>)"
| outsider_reads: "n \<notin> node_name ` set ss \<Longrightarrow> MemState_get (gs_relay S) n = (r, relay) \<Longrightarrow>
    system_step e cd ss rngs S (S\<lparr>gs_relay := relay\<rparr>)"

definition system_start ::
  "(nat \<Rightarrow> ('fs, 'rng, 'id, 'pt, 'sc, 'pk) env) \<Rightarrow> ('pk, 'sc) FrostSigner list \<Rightarrow> ('fs, 'id, 'pt, 'sc, 'pk) group_system \<Rightarrow> bool" where
  "system_start e ss S \<longleftrightarrow> gs_relay S = MemState_default \<and> gs_arrived S = (\<lambda>i. 0) \<and> gs_log S = []
     \<and> (\<forall>i < length ss. \<exists>rng w_in w_out. posted w_out = [] \<and> start_p2p_sync (e i) rng (ss ! i) w_in w_out = Ok (gs_threads S i))"

section \<open>The invariant\<close>

definition accepted_msgs ::
  "('pt, 'sc, 'pk) crypto \<Rightarrow> ('id, 'pt, 'sc) codec \<Rightarrow> ('pk, 'sc) FrostSigner \<Rightarrow> bytes list \<Rightarrow> ('id, 'pt, 'sc) Message list" where
  "accepted_msgs cr cd s bs = filter (verified cr s) (List.map_filter (deserialize cd) bs)"

lemma accepted_msgs_append: "accepted_msgs cr cd s (xs @ ys) = accepted_msgs cr cd s xs @ accepted_msgs cr cd s ys"
  by (simp add: accepted_msgs_def map_filter_alt)

lemma accepted_msgs_prefix: "prefix xs ys \<Longrightarrow> prefix (accepted_msgs cr cd s xs) (accepted_msgs cr cd s ys)"
  by (auto simp: prefix_def accepted_msgs_append)

lemma accepted_msgs_snoc:
  "accepted_msgs cr cd s (bs @ [b]) = accepted_msgs cr cd s bs @ filter (verified cr s) (List.map_filter (received cd) [GetResponse 200 b])"
  unfolding accepted_msgs_append
  by (simp add: accepted_msgs_def received_def List.map_filter_simps split: option.split)

lemma nothing_received: "deserialize cd [] = None \<Longrightarrow> List.map_filter (received cd) [GetResponse 200 []] = []"
  by (simp add: received_def List.map_filter_simps)

text \<open>The channel of a signer holds what it accepts of the messages that the relay has given to it.\<close>

definition given :: "MemState \<Rightarrow> ('pk, 'sc) FrostSigner \<Rightarrow> bytes list" where
  "given relay s = take (mem_pos relay (node_name s)) (queue relay)"

definition reads_along ::
  "('pt, 'sc, 'pk) crypto \<Rightarrow> ('id, 'pt, 'sc) codec \<Rightarrow> ('pk, 'sc) FrostSigner \<Rightarrow> bytes list
    \<Rightarrow> ('fs, 'id, 'pt, 'sc, 'pk) threads \<Rightarrow> bool" where
  "reads_along cr cd s bs t \<longleftrightarrow> in_queue (pl_net (th_poller t)) = []
     \<and> prefix (pl_tx (th_poller t)) (accepted_msgs cr cd s bs)
     \<and> (th_poll_end t = None \<and> th_sign_end t = None \<longrightarrow> pl_tx (th_poller t) = accepted_msgs cr cd s bs)"

definition signer_inv ::
  "('fs, 'rng, 'id, 'pt, 'sc, 'pk) env \<Rightarrow> ('id, 'pt, 'sc) codec \<Rightarrow> ('pk, 'sc) FrostSigner \<Rightarrow> (nat \<Rightarrow> 'rng) \<Rightarrow> bytes list
    \<Rightarrow> ('fs, 'id, 'pt, 'sc, 'pk) threads \<Rightarrow> bool" where
  "signer_inv e cd s rngs bs t \<longleftrightarrow> reads_along (cry e) cd s bs t
     \<and> (\<exists>rng r0 w0. SigningRound_from e rng (sg_config s) (sg_signer_id s) = Ok r0 \<and> sign_inv e cd s rngs r0 w0 t)"

definition system_inv where
  "system_inv e cd ss rngs S \<longleftrightarrow> mem_invar (gs_relay S) \<and> map snd (gs_log S) = queue (gs_relay S)
     \<and> (\<forall>i b. (Some i, b) \<in> set (gs_log S) \<longrightarrow> i < length ss \<and> b \<in> set (posted (th_wire (gs_threads S i))))
     \<and> (\<forall>i < length ss. signer_inv (e i) cd (ss ! i) (rngs i) (given (gs_relay S) (ss ! i)) (gs_threads S i))"

text \<open>A poll, with the answer of the relay or without one.\<close>

lemma poll_reads_along:
  assumes inv: "reads_along (cry e) cd s bs t" and run: "th_poll_end t = None"
    and g: "accepted_msgs (cry e) cd s bs' = accepted_msgs (cry e) cd s bs @ filter (verified (cry e) s) (List.map_filter (received cd) [g])"
  shows "reads_along (cry e) cd s bs' (poll_iteration (cry e) cd s (answered g t))"
proof -
  let ?p = "(th_poller (answered g t))\<lparr>pl_rx_open := (th_sign_end (answered g t) = None)\<rparr>"
  have p: "in_queue (pl_net ?p) = []" "gets (nl_wire (pl_net ?p)) = [g]" "pl_tx ?p = pl_tx (th_poller t)"
    using inv by (simp_all add: answered_def Let_def reads_along_def)
  obtain x p1 where st: "poll_step (cry e) cd (sg_signer_id s) (public_keys (sg_config s)) (coordinator_public_key (sg_config s)) ?p = (x, p1)"
    by fastforce
  note step = poll_step_tx [OF p(1) st]
  have it: "poll_iteration (cry e) cd s (answered g t)
      = (answered g t)\<lparr>th_poller := p1, th_poll_end := (if x = Ok () then None else Some x)\<rparr>"
    using st by (simp add: poll_iteration_def)
  have sign_end: "th_sign_end (answered g t) = th_sign_end t" by (simp add: answered_def Let_def)
  have pre: "prefix (pl_tx (th_poller t)) (accepted_msgs (cry e) cd s bs)" using inv by (simp add: reads_along_def)
  have tx: "prefix (pl_tx p1) (accepted_msgs (cry e) cd s bs')"
    "x = Ok () \<and> th_sign_end t = None \<longrightarrow> pl_tx p1 = accepted_msgs (cry e) cd s bs'"
  proof -
    have closed: "pl_tx p1 = pl_tx ?p" if "th_sign_end t \<noteq> None"
      using poll_step_frame(3) [OF st] that sign_end by simp
    show "prefix (pl_tx p1) (accepted_msgs (cry e) cd s bs')"
    proof (cases "th_sign_end t = None")
      case True
      with inv run have "pl_tx ?p = accepted_msgs (cry e) cd s bs" by (simp add: p(3) reads_along_def)
      with step(3) g p(2) show ?thesis by auto
    qed (use closed pre g p(3) in \<open>auto simp: prefix_def\<close>)
    show "x = Ok () \<and> th_sign_end t = None \<longrightarrow> pl_tx p1 = accepted_msgs (cry e) cd s bs'"
      using step(3) inv run g p(2,3) by (auto simp: reads_along_def)
  qed
  show ?thesis unfolding it reads_along_def using step(1) tx sign_end by simp
qed

lemma answered_sels [simp]:
  "th_taken (answered g t) = th_taken t" "th_round (answered g t) = th_round t" "th_wire (answered g t) = th_wire t"
  "th_sign_end (answered g t) = th_sign_end t" "pl_tx (th_poller (answered g t)) = pl_tx (th_poller t)"
  by (simp_all add: answered_def Let_def)

lemma poll_iteration_wire: "th_wire (poll_iteration cr cd s t) = th_wire t"
  by (simp add: poll_iteration_def split: prod.split)

lemma poll_signer_inv:
  assumes "signer_inv e cd s rngs bs t" and "th_poll_end t = None"
    and "accepted_msgs (cry e) cd s bs' = accepted_msgs (cry e) cd s bs @ filter (verified (cry e) s) (List.map_filter (received cd) [g])"
  shows "signer_inv e cd s rngs bs' (poll_iteration (cry e) cd s (answered g t))"
proof -
  from assms(1) obtain rng r0 w0 where r0: "SigningRound_from e rng (sg_config s) (sg_signer_id s) = Ok r0"
    and inv: "reads_along (cry e) cd s bs t" "sign_inv e cd s rngs r0 w0 t" unfolding signer_inv_def by blast
  have "sign_inv e cd s rngs r0 w0 (answered g t)" using inv(2) by (simp add: sign_inv_def)
  from sign_inv_poll [OF this] poll_reads_along [OF inv(1) assms(2,3)] r0 show ?thesis unfolding signer_inv_def by blast
qed

lemma take_signer_inv:
  assumes "signer_inv e cd s rngs bs t" and "th_sign_end t = None" and "th_taken t < length (pl_tx (th_poller t))"
  shows "signer_inv e cd s rngs bs (sign_iteration e cd s (rngs (th_taken t)) (pl_tx (th_poller t) ! th_taken t) t)"
proof -
  let ?t = "sign_iteration e cd s (rngs (th_taken t)) (pl_tx (th_poller t) ! th_taken t) t"
  from assms(1) obtain rng r0 w0 where r0: "SigningRound_from e rng (sg_config s) (sg_signer_id s) = Ok r0"
    and inv: "reads_along (cry e) cd s bs t" "sign_inv e cd s rngs r0 w0 t" unfolding signer_inv_def by blast
  have "th_poll_end ?t = th_poll_end t" by (simp add: sign_iteration_def Let_def split: prod.split outcome.split)
  with inv(1) assms(2) have "reads_along (cry e) cd s bs ?t" by (simp add: reads_along_def sign_iteration_frame)
  with sign_inv_recv [OF inv(2) assms(2,3)] r0 show ?thesis unfolding signer_inv_def by blast
qed

lemma close_signer_inv:
  assumes "signer_inv e cd s rngs bs t" and "th_sign_end t = None" and "th_taken t = length (pl_tx (th_poller t))"
  shows "signer_inv e cd s rngs bs (t\<lparr>th_sign_end := Some (Err RecvError)\<rparr>)"
  using assms unfolding signer_inv_def reads_along_def sign_inv_def by auto

text \<open>What a signer has posted stays posted.\<close>

lemma send_all_keeps: "send_all cr cd sk outs w = (res, w') \<Longrightarrow> set (posted w) \<subseteq> set (posted w')"
proof (induction outs arbitrary: w)
  case (Cons out outs)
  have sent: "set (posted w) \<subseteq> set (posted w1)" if "send_message cd m w = (r, w1)" for m r w1
    using send_message_posted [OF that] by auto
  from Cons show ?case by (fastforce split: outcome.splits prod.splits dest: sent)
qed simp

lemma sign_iteration_keeps: "set (posted (th_wire t)) \<subseteq> set (posted (th_wire (sign_iteration e cd s rng m t)))"
  by (auto simp: sign_iteration_def Let_def split: prod.split outcome.split dest!: send_all_keeps)

text \<open>The relay.\<close>

lemma given_post:
  assumes "mem_invar relay" and "MemState_post relay body = (r, relay')"
  shows "mem_invar relay' \<and> queue relay' = queue relay @ [body] \<and> given relay' s = given relay s"
  using mem.post_appends [OF assms(1), of body] mem.pos_bound [OF assms(1), of "node_name s"] assms(2)
  by (auto simp: given_def)

lemma given_get:
  assumes inv: "mem_invar relay" and get: "MemState_get relay n = (r, relay')"
  shows "mem_invar relay' \<and> queue relay' = queue relay \<and> (node_name s \<noteq> n \<longrightarrow> given relay' s = given relay s)
    \<and> (\<exists>body. r = Ok body \<and> (node_name s = n \<longrightarrow> given relay' s = given relay s @ [body] \<or> body = [] \<and> given relay' s = given relay s))"
proof (cases "mem_pos relay n < length (queue relay)")
  case True
  with mem.get_new [OF inv] get show ?thesis by (fastforce simp: given_def take_Suc_conv_app_nth)
next
  case False
  with mem.pos_bound [OF inv, of n] mem.get_none [OF inv, of n] get inv show ?thesis by (simp add: given_def)
qed

text \<open>A step of one signer, on a relay that may have moved on for it.\<close>

lemma system_inv_signer:
  assumes inv: "system_inv e cd ss rngs S" and i: "i < length ss"
    and relay: "mem_invar relay" "queue relay = queue (gs_relay S)" "\<And>j. j < length ss \<Longrightarrow> j \<noteq> i \<Longrightarrow> given relay (ss ! j) = given (gs_relay S) (ss ! j)"
    and t: "signer_inv (e i) cd (ss ! i) (rngs i) (given relay (ss ! i)) t"
    and kept: "set (posted (th_wire (gs_threads S i))) \<subseteq> set (posted (th_wire t))"
  shows "system_inv e cd ss rngs (S\<lparr>gs_relay := relay, gs_threads := (gs_threads S)(i := t)\<rparr>)"
  using inv relay t kept unfolding system_inv_def by auto

lemma system_inv_relay:
  assumes inv: "system_inv e cd ss rngs S" and post: "MemState_post (gs_relay S) body = (r, relay)"
    and sender: "\<And>i. x = Some i \<Longrightarrow> i < length ss \<and> body \<in> set (posted (th_wire (gs_threads S i)))"
  shows "system_inv e cd ss rngs (S\<lparr>gs_relay := relay, gs_arrived := a, gs_log := gs_log S @ [(x, body)]\<rparr>)"
proof -
  from inv have m: "mem_invar (gs_relay S)" by (simp add: system_inv_def)
  note given = given_post [OF m post, of "ss ! j" for j]
  have "mem_invar relay" "map snd (gs_log S @ [(x, body)]) = queue relay"
    using given inv by (simp_all add: system_inv_def)
  with inv given sender show ?thesis unfolding system_inv_def by auto
qed

lemma node_name_inject: "node_name a = node_name b \<longleftrightarrow> sg_signer_id a = sg_signer_id b"
  unfolding node_name_def by (metis option.inject parse_digits_show_nat word_unat_eq_iff)

lemma system_step_inv:
  assumes "system_step e cd ss rngs S S'" and "system_inv e cd ss rngs S"
    and ids: "distinct (map sg_signer_id ss)" and cd: "deserialize cd [] = None"
  shows "system_inv e cd ss rngs S'"
  using assms(1,2)
proof (induction rule: system_step.induct)
  case (polls i S body relay)
  have relay: "mem_invar (gs_relay S)" and s: "signer_inv (e i) cd (ss ! i) (rngs i) (given (gs_relay S) (ss ! i)) (gs_threads S i)"
    using polls(1,4) by (simp_all add: system_inv_def)
  note get = given_get [OF relay polls(3), of "ss ! j" for j]
  have "node_name (ss ! j) \<noteq> node_name (ss ! i)" if "j < length ss" "j \<noteq> i" for j
    using that polls(1) ids by (simp add: node_name_inject distinct_conv_nth)
  with get have others: "given relay (ss ! j) = given (gs_relay S) (ss ! j)" if "j < length ss" "j \<noteq> i" for j using that by blast
  have "accepted_msgs (cry (e i)) cd (ss ! i) (given relay (ss ! i)) = accepted_msgs (cry (e i)) cd (ss ! i) (given (gs_relay S) (ss ! i))
      @ filter (verified (cry (e i)) (ss ! i)) (List.map_filter (received cd) [GetResponse 200 body])"
    using get [of i] accepted_msgs_snoc nothing_received [OF cd] by auto
  from system_inv_signer [OF polls(4,1) _ _ others poll_signer_inv [OF s polls(2) this]] get show ?case
    by (simp add: poll_iteration_wire)
next
  case (poll_fails i S)
  have s: "signer_inv (e i) cd (ss ! i) (rngs i) (given (gs_relay S) (ss ! i)) (gs_threads S i)" and relay: "mem_invar (gs_relay S)"
    using poll_fails(1,3) by (simp_all add: system_inv_def)
  have "signer_inv (e i) cd (ss ! i) (rngs i) (given (gs_relay S) (ss ! i)) (poll_iteration (cry (e i)) cd (ss ! i) (answered GetErr (gs_threads S i)))"
    by (rule poll_signer_inv [OF s poll_fails(2)]) (simp add: received_def List.map_filter_simps)
  from system_inv_signer [OF poll_fails(3,1) relay refl refl this] show ?case by (simp add: poll_iteration_wire)
next
  case (takes i t S)
  have s: "signer_inv (e i) cd (ss ! i) (rngs i) (given (gs_relay S) (ss ! i)) t" and relay: "mem_invar (gs_relay S)"
    using takes(1,2,5) by (simp_all add: system_inv_def)
  have "set (posted (th_wire (gs_threads S i)))
      \<subseteq> set (posted (th_wire (sign_iteration (e i) cd (ss ! i) (rngs i (th_taken t)) (pl_tx (th_poller t) ! th_taken t) t)))"
    unfolding takes(2) by (rule sign_iteration_keeps)
  from system_inv_signer [OF takes(5,1) relay refl refl take_signer_inv [OF s takes(3,4)] this] show ?case by simp
next
  case (recv_fails i t S)
  have s: "signer_inv (e i) cd (ss ! i) (rngs i) (given (gs_relay S) (ss ! i)) t" and relay: "mem_invar (gs_relay S)"
    using recv_fails(1,2,6) by (simp_all add: system_inv_def)
  from system_inv_signer [OF recv_fails(6,1) relay refl refl close_signer_inv [OF s recv_fails(3,4)]] recv_fails(2) show ?case by simp
next
  case (arrives i S body r relay)
  with system_inv_relay [OF arrives(5,4), of "Some i"] show ?case by auto
next
  case (outsider_posts S body r relay)
  with system_inv_relay [OF outsider_posts(2,1), of None "gs_arrived S"] show ?case by simp
next
  case (outsider_reads n S r relay)
  have relay: "mem_invar (gs_relay S)" using outsider_reads(3) by (simp add: system_inv_def)
  have "node_name (ss ! j) \<noteq> n" if "j < length ss" for j using outsider_reads(1) nth_mem [OF that] by blast
  with given_get [OF relay outsider_reads(2), of "ss ! j" for j] outsider_reads(3) show ?case unfolding system_inv_def by simp
qed

lemma system_start_inv:
  assumes "system_start e ss S"
  shows "system_inv e cd ss rngs S"
proof -
  have "signer_inv (e i) cd (ss ! i) (rngs i) [] (gs_threads S i)" if i: "i < length ss" for i
  proof -
    from assms i obtain rng w_in w_out where start: "start_p2p_sync (e i) rng (ss ! i) w_in w_out = Ok (gs_threads S i)"
      unfolding system_start_def by blast
    then have "th_poller (gs_threads S i) = poller_new (http_relay_url (sg_config (ss ! i))) w_in"
      by (auto simp: start_p2p_sync_def obind_Ok_iff) (metis threads.select_convs(1))
    then have "reads_along (cry (e i)) cd (ss ! i) [] (gs_threads S i)"
      by (simp add: reads_along_def accepted_msgs_def List.map_filter_simps)
    with start_inv(2,3) [OF start] show ?thesis unfolding signer_inv_def by blast
  qed
  with assms show ?thesis
    by (simp add: system_inv_def system_start_def given_def MemState_default_def mem_invar_def)
qed

lemma system_reaches_inv:
  assumes "system_start e ss S0" and "(system_step e cd ss rngs)\<^sup>*\<^sup>* S0 S"
    and "distinct (map sg_signer_id ss)" and "deserialize cd [] = None"
  shows "system_inv e cd ss rngs S"
  using assms(2) by (induction rule: rtranclp_induct) (auto intro: system_start_inv [OF assms(1)] system_step_inv [OF _ _ assms(3,4)])

text \<open>Every signer is at the log of what it accepts of the messages on the relay.\<close>

lemma system_at_log:
  assumes inv: "system_inv e cd ss rngs S" and i: "i < length ss"
  shows "at_log (total_keys (sg_config (ss ! i))) (accepted_msgs (cry (e i)) cd (ss ! i) (queue (gs_relay S))) (gs_threads S i)"
proof -
  from inv i have "signer_inv (e i) cd (ss ! i) (rngs i) (given (gs_relay S) (ss ! i)) (gs_threads S i)" by (simp add: system_inv_def)
  then obtain rng r0 w0 where r0: "SigningRound_from (e i) rng (sg_config (ss ! i)) (sg_signer_id (ss ! i)) = Ok r0"
    and sign: "sign_inv (e i) cd (ss ! i) (rngs i) r0 w0 (gs_threads S i)"
    and pre: "prefix (pl_tx (th_poller (gs_threads S i))) (accepted_msgs (cry (e i)) cd (ss ! i) (given (gs_relay S) (ss ! i)))"
    unfolding signer_inv_def reads_along_def by blast
  have "prefix (given (gs_relay S) (ss ! i)) (queue (gs_relay S))" unfolding given_def by (rule take_is_prefix)
  from prefix_order.order_trans [OF pre accepted_msgs_prefix [OF this]] sign_inv_at_log [OF r0 sign] show ?thesis by blast
qed

section \<open>Properties\<close>


text \<open>The commitments that a view has come from the shares among the messages.\<close>

lemma bt_insert_subset: "x \<in> set (bt_insert k v m) \<Longrightarrow> x = (k, v) \<or> x \<in> set m"
  by (induction k v m rule: bt_insert.induct) (auto split: if_splits)

lemma view_commitments_sent:
  assumes "view_run tk v (map (\<lambda>m. msg m) ms) = Some v'" and "(k, c) \<in> set (v_commitments v')"
  shows "(k, c) \<in> set (v_commitments v)
    \<or> (\<exists>m \<in> set ms. \<exists>sh. msg m = DkgPublicShare sh \<and> dps_party_id sh = k \<and> dps_public_share sh = c)"
  using assms
proof (induction ms arbitrary: v)
  case (Cons m ms)
  from Cons.prems(1) obtain v1 where st: "view_step tk v (msg m) = Some v1" and rest: "view_run tk v1 (map (\<lambda>m. msg m) ms) = Some v'"
    by (auto simp: bind_eq_Some_conv)
  have settle: "v_commitments (view_settle tk x) = v_commitments x" for x :: "('a, 'b) public_view"
    by (simp add: view_settle_def)
  have "(k, c) \<in> set (v_commitments v) \<or> (\<exists>sh. msg m = DkgPublicShare sh \<and> dps_party_id sh = k \<and> dps_public_share sh = c)"
    if "(k, c) \<in> set (v_commitments v1)"
    using st that
    by (cases "msg m") (auto simp: view_step_def view_msg_def settle split: if_splits dest!: bt_insert_subset)
  with Cons.IH [OF rest Cons.prems(2)] show ?case by auto
qed simp

text \<open>
  C5. Shares come from signers. Let the system run as before, and let nobody but the signers post a public share that the
  signer \<open>i\<close> accepts: others do not have a signer's network key. Then every commitment that the running signer \<open>i\<close> holds is one that
  some signer of the group has posted, in a message that \<open>i\<close> accepts and that names the party for which \<open>i\<close> holds it.
\<close>

theorem commitments_come_from_signers:
  assumes start: "system_start e ss S0" and steps: "(system_step e cd ss rngs)\<^sup>*\<^sup>* S0 S"
    and ids: "distinct (map sg_signer_id ss)" and cd: "deserialize cd [] = None"
    and i: "i < length ss" and running: "th_sign_end (gs_threads S i) = None"
    and outsiders: "\<And>b m sh. (None, b) \<in> set (gs_log S) \<Longrightarrow> deserialize cd b = Some m \<Longrightarrow> verified (cry (e i)) (ss ! i) m
      \<Longrightarrow> msg m \<noteq> DkgPublicShare sh"
    and held: "(k, c) \<in> set (rd_commitments (th_round (gs_threads S i)))"
  shows "\<exists>j < length ss. \<exists>b \<in> set (posted (th_wire (gs_threads S j))). \<exists>m sh. deserialize cd b = Some m
    \<and> verified (cry (e i)) (ss ! i) m \<and> msg m = DkgPublicShare sh \<and> dps_party_id sh = k \<and> dps_public_share sh = c"
proof -
  note inv = system_reaches_inv [OF start steps ids cd]
  let ?log = "accepted_msgs (cry (e i)) cd (ss ! i) (queue (gs_relay S))" and ?n = "th_taken (gs_threads S i)"
  from system_at_log [OF inv i] running
  have "view_run (total_keys (sg_config (ss ! i))) initial_view (map (\<lambda>m. msg m) (take ?n ?log)) = Some (round_view (th_round (gs_threads S i)))"
    by (simp add: at_log_def)
  from view_commitments_sent [OF this, of k c] held obtain m sh where m: "m \<in> set (take ?n ?log)"
    and sh: "msg m = DkgPublicShare sh" "dps_party_id sh = k" "dps_public_share sh = c"
    by (auto simp: round_view_def initial_view_def)
  from in_set_takeD [OF m] obtain b where b: "b \<in> set (queue (gs_relay S))" "deserialize cd b = Some m" "verified (cry (e i)) (ss ! i) m"
    by (auto simp: accepted_msgs_def map_filter_alt)
  from inv b(1) obtain x where x: "(x, b) \<in> set (gs_log S)" by (force simp: system_inv_def dest!: sym [of "map snd _"])
  with outsiders [OF _ b(2,3)] sh(1) obtain j where "x = Some j" by (cases x) auto
  with x inv have "j < length ss" "b \<in> set (posted (th_wire (gs_threads S j)))" by (auto simp: system_inv_def)
  with b sh show ?thesis by blast
qed

section \<open>Witnesses\<close>

text \<open>A poll that gets a message which the signer accepts.\<close>

lemma poll_accepts:
  assumes "in_queue (pl_net (th_poller t)) = []" and "th_poll_end t = None" and "th_sign_end t = None"
    and "deserialize cd b = Some m" and "verified cr s m"
  shows "pl_tx (th_poller (poll_iteration cr cd s (answered (GetResponse 200 b) t))) = pl_tx (th_poller t) @ [m]"
    and "in_queue (pl_net (th_poller (poll_iteration cr cd s (answered (GetResponse 200 b) t)))) = []"
    and "th_poll_end (poll_iteration cr cd s (answered (GetResponse 200 b) t)) = None"
    and "th_taken (poll_iteration cr cd s (answered (GetResponse 200 b) t)) = th_taken t"
    and "th_round (poll_iteration cr cd s (answered (GetResponse 200 b) t)) = th_round t"
    and "th_wire (poll_iteration cr cd s (answered (GetResponse 200 b) t)) = th_wire t"
    and "th_sign_end (poll_iteration cr cd s (answered (GetResponse 200 b) t)) = None"
  using assms by (simp_all add: poll_iteration_def poll_step_def poll_def next_message_def answered_def Let_def)

text \<open>The two signers of the demonstration and a request to begin, posted by the coordinator, which both have taken.\<close>

abbreviation "demo_pair \<equiv> [FrostSigner_new demo_config 1, FrostSigner_new demo_config 2]"

lemma demo_begins:
  assumes "i = 1 \<or> i = 2"
  defines "s \<equiv> FrostSigner_new demo_config i"
  shows "\<exists>t0. start_p2p_sync demo_env 0 s (demo_wire []) demo_posts = Ok t0 \<and> th_poll_end t0 = None
    \<and> (let t1 = poll_iteration demo_crypto bus_codec s (answered (GetResponse 200 [5]) t0);
           t2 = sign_iteration demo_env bus_codec s 0 demo_begin t1 in
       pl_tx (th_poller t1) = [demo_begin] \<and> th_taken t1 = 0 \<and> th_sign_end t1 = None \<and> th_taken t2 = 1 \<and> th_sign_end t2 = None)"
proof -
  obtain t0 where start: "start_p2p_sync demo_env 0 s (demo_wire []) demo_posts = Ok t0"
    and t0: "th_poller t0 = poller_new ''http://relay'' (demo_wire [])" "th_taken t0 = 0"
      "th_poll_end t0 = None" "th_sign_end t0 = None" "th_wire t0 = demo_posts" "rd_state (th_round t0) = Idle"
      "rd_total_keys (th_round t0) = 3" "frost_signer (rd_signer (th_round t0)) = (if i = 1 then [0, 1] else [2])"
    using demo_started [OF assms(1)] unfolding s_def by blast
  have dec: "deserialize bus_codec [5] = Some demo_begin" by (simp add: bus_codec_def demo_begin_def)
  have ver: "verified demo_crypto s demo_begin" by (simp add: s_def FrostSigner_new_def demo_config_def demo_begin_verify)
  have q: "in_queue (pl_net (th_poller t0)) = []" by (simp add: t0(1))
  let ?t1 = "poll_iteration demo_crypto bus_codec s (answered (GetResponse 200 [5]) t0)"
  note t1 = poll_accepts [OF q t0(3,4) dec ver]
  have "th_sign_end (sign_iteration demo_env bus_codec s 0 demo_begin ?t1) = None"
    using demo_begin_taken(1) [of ?t1 i] t1(5-7) t0(5-8) by (simp add: s_def)
  with start t0(1-3) t1(1,4,7) show ?thesis by (intro exI [of _ t0]) (simp add: Let_def sign_iteration_frame)
qed

definition demo_state where
  "demo_state hw q ar l f = \<lparr>gs_relay = \<lparr>highwaters = hw, queue = q\<rparr>, gs_threads = f, gs_arrived = ar, gs_log = l\<rparr>"

lemma demo_state_posts: "system_step e cd ss rngs (demo_state hw q ar l f) (demo_state hw (q @ [b]) ar (l @ [(None, b)]) f)"
  using system_step.outsider_posts [where S = "demo_state hw q ar l f" and body = b and e = e and cd = cd and ss = ss and rngs = rngs]
  by (simp add: demo_state_def MemState_post_def)

lemma demo_state_polls:
  assumes "i < length ss" and "th_poll_end (f i) = None" and "map_of hw (node_name (ss ! i)) = (if k = 0 then None else Some (k - 1))"
    and "k < length q"
  shows "system_step e cd ss rngs (demo_state hw q ar l f) (demo_state (hm_insert (node_name (ss ! i)) k hw) q ar l
    (f(i := poll_iteration (cry (e i)) cd (ss ! i) (answered (GetResponse 200 (q ! k)) (f i)))))"
proof -
  have "MemState_get \<lparr>highwaters = hw, queue = q\<rparr> (node_name (ss ! i))
      = (Ok (q ! k), \<lparr>highwaters = hm_insert (node_name (ss ! i)) k hw, queue = q\<rparr>)"
    using assms(3,4) by (cases k) (simp_all add: MemState_get_def)
  with system_step.polls [where S = "demo_state hw q ar l f" and i = i and body = "q ! k" and e = e and cd = cd and ss = ss and rngs = rngs
      and relay = "\<lparr>highwaters = hm_insert (node_name (ss ! i)) k hw, queue = q\<rparr>"] assms(1,2)
  show ?thesis by (simp add: demo_state_def)
qed

lemma demo_state_takes:
  assumes "i < length ss" and "th_sign_end (f i) = None" and "th_taken (f i) < length (pl_tx (th_poller (f i)))"
  shows "system_step e cd ss rngs (demo_state hw q ar l f) (demo_state hw q ar l
    (f(i := sign_iteration (e i) cd (ss ! i) (rngs i (th_taken (f i))) (pl_tx (th_poller (f i)) ! th_taken (f i)) (f i))))"
  using system_step.takes [where S = "demo_state hw q ar l f" and i = i and t = "f i" and e = e and cd = cd and ss = ss and rngs = rngs] assms
  by (simp add: demo_state_def)

lemma demo_state_arrives:
  assumes "i < length ss" and "ar i < length (posted (th_wire (f i)))"
  shows "system_step e cd ss rngs (demo_state hw q ar l f) (demo_state hw (q @ [posted (th_wire (f i)) ! ar i]) (ar(i := Suc (ar i)))
    (l @ [(Some i, posted (th_wire (f i)) ! ar i)]) f)"
  using system_step.arrives [where S = "demo_state hw q ar l f" and i = i and e = e and cd = cd and ss = ss and rngs = rngs] assms
  by (simp add: demo_state_def MemState_post_def)


text \<open>A group of one signer, which reads its own share back from the relay.\<close>

definition own_share :: "(u32, u8) DkgPublicShare" where
  "own_share = \<lparr>dps_dkg_id = 5, dps_dkg_public_id = 0, dps_party_id = 1, dps_public_share = \<lparr>pc_id = 1, pc_A = [9]\<rparr>\<rparr>"

definition solo_begin :: "(u32, u8, nat) Message" where
  "solo_begin = demo_signed 8 (DkgBegin \<lparr>db_dkg_id = 5\<rparr>)"

definition solo_shared :: "(u32, u8, nat) Message" where
  "solo_shared = demo_signed 4 (DkgPublicShare own_share)"

definition solo_bus :: "(u32, u8, nat) codec" where
  "solo_bus = \<lparr>serialize = (\<lambda>m. Some [1]),
     deserialize = (\<lambda>b. if b = [0] then Some solo_begin else if b = [1] then Some solo_shared else None)\<rparr>"

lemma solo_bus_verified: "verified demo_crypto solo_signer solo_begin" "verified demo_crypto solo_signer solo_shared"
  by (simp_all add: solo_begin_def solo_shared_def demo_signed_def solo_signer_def FrostSigner_new_def verify_msg_def verify_with_def
      Signable_verify_def own_share_def) (simp_all add: demo_crypto_def)

abbreviation "solo_poll b t \<equiv> poll_iteration demo_crypto solo_bus solo_signer (answered (GetResponse 200 b) t)"

abbreviation "solo_take m t \<equiv> sign_iteration demo_env solo_bus solo_signer 9 m t"

lemma sign_iteration_ok:
  assumes "process e rng (th_round t) (msg m) = (Ok outs, r1)"
    and "send_all (cry e) cd (network_private_key (sg_config s)) outs (th_wire t) = (Ok (), w1)"
  shows "sign_iteration e cd s rng m t = t\<lparr>th_taken := Suc (th_taken t), th_round := r1, th_wire := w1\<rparr>"
  using assms by (simp add: sign_iteration_def Let_def)

lemma solo_runs:
  "\<exists>t0. start_p2p_sync demo_env 9 solo_signer (demo_wire []) demo_posts = Ok t0 \<and> th_poll_end t0 = None
    \<and> (let t1 = solo_poll [0] t0; t2 = solo_take solo_begin t1; t3 = solo_poll [1] t2; t4 = solo_take solo_shared t3 in
       pl_tx (th_poller t1) = [solo_begin] \<and> th_taken t1 = 0 \<and> th_sign_end t1 = None
       \<and> posted (th_wire t2) = [[1]] \<and> th_poll_end t2 = None
       \<and> pl_tx (th_poller t3) = [solo_begin, solo_shared] \<and> th_taken t3 = 1 \<and> th_sign_end t3 = None
       \<and> th_sign_end t4 = None \<and> rd_commitments (th_round t4) = [(1, \<lparr>pc_id = 1, pc_A = [9]\<rparr>)])"
proof -
  have env: "cry demo_env = demo_crypto" by (simp add: demo_env_def)
  have cfg: "network_private_key (sg_config solo_signer) = 2" by (simp add: solo_signer_def FrostSigner_new_def)
  obtain t0 where start: "start_p2p_sync demo_env 9 solo_signer (demo_wire []) demo_posts = Ok t0"
    and t0: "in_queue (pl_net (th_poller t0)) = []" "pl_tx (th_poller t0) = []" "th_taken t0 = 0" "th_poll_end t0 = None" "th_sign_end t0 = None"
      "th_wire t0 = demo_posts" "rd_state (th_round t0) = Idle" "frost_signer (rd_signer (th_round t0)) = [0]" "rd_total_keys (th_round t0) = 1"
    by (auto simp: start_p2p_sync_def SigningRound_from_def solo_signer_def FrostSigner_new_def demo_env_def demo_ws_def)
  have dec: "deserialize solo_bus [0] = Some solo_begin" "deserialize solo_bus [1] = Some solo_shared" by (simp_all add: solo_bus_def)
  note t1 = poll_accepts [OF t0(1,4,5) dec(1) solo_bus_verified(1)]
  obtain r1 where p1: "process demo_env 9 (th_round t0) (msg solo_begin) = (Ok [DkgPublicShare own_share], r1)"
    and r1: "rd_state r1 = DkgPublicGather" "rd_commitments r1 = []" "rd_total_keys r1 = 1" "rd_shares r1 = []"
    using t0 by (simp add: process_def dispatch_def round_defs solo_begin_def demo_signed_def demo_env_def demo_ws_def Let_def
        public_shares_done_def can_dkg_end_def own_share_def)
  obtain w where send: "send_all demo_crypto solo_bus 2 [DkgPublicShare own_share] demo_posts = (Ok (), w)" "posted w = [[1]]"
      "posts w = [True]" "retries w = []"
    by (auto simp: sign_message_type_def Signable_sign_def send_message_def solo_bus_def take_retries_def demo_wire_def
        post_retry_0 demo_crypto_def Let_def)
  define t2 where "t2 = solo_take solo_begin (solo_poll [0] t0)"
  have t2: "t2 = (solo_poll [0] t0)\<lparr>th_taken := Suc (th_taken (solo_poll [0] t0)), th_round := r1, th_wire := w\<rparr>"
    unfolding t2_def by (rule sign_iteration_ok, simp only: t1(5) p1, simp only: t1(6) t0(6) env cfg send(1))
  have "in_queue (pl_net (th_poller t2)) = []" "th_poll_end t2 = None" "th_sign_end t2 = None"
    using t1 by (simp_all add: t2)
  note t3 = poll_accepts [OF this dec(2) solo_bus_verified(2)]
  obtain out r2 where p2: "process demo_env 9 r1 (msg solo_shared) = (Ok [DkgPublicEnd out], r2)"
    and r2: "rd_commitments r2 = [(1, \<lparr>pc_id = 1, pc_A = [9]\<rparr>)]"
    using r1 by (simp add: process_def dispatch_def round_defs solo_shared_def demo_signed_def Let_def own_share_def
        public_shares_done_def can_dkg_end_def dkg_public_ended_def)
  obtain w2 where send2: "send_all demo_crypto solo_bus 2 [DkgPublicEnd out] w = (Ok (), w2)"
    using send(3,4) by (auto simp: sign_message_type_def Signable_sign_def send_message_def solo_bus_def take_retries_def
        post_retry_0 demo_crypto_def Let_def)
  have r2w: "th_round t2 = r1" "th_wire t2 = w" by (simp_all add: t2)
  have t4: "solo_take solo_shared (solo_poll [1] t2) = (solo_poll [1] t2)\<lparr>th_taken := Suc (th_taken (solo_poll [1] t2)), th_round := r2, th_wire := w2\<rparr>"
    by (rule sign_iteration_ok, simp only: t3(5) r2w(1) p2, simp only: t3(6) r2w(2) env cfg send2)
  have "pl_tx (th_poller t2) = [solo_begin]" "th_taken t2 = 1" "posted (th_wire t2) = [[1]]" using t0(2,3) t1(1,4) send(2) by (simp_all add: t2)
  with start t0(2-4) t1(1-7) t3(1-7) r2 \<open>th_poll_end t2 = None\<close> show ?thesis
    unfolding Let_def by (intro exI [of _ t0]) (simp add: t2_def [symmetric] t4)
qed

theorem commitments_come_from_signers_witness:
  "\<exists>S0 S. system_start (\<lambda>i. demo_env) [solo_signer] S0 \<and> (system_step (\<lambda>i. demo_env) solo_bus [solo_signer] (\<lambda>i n. 9))\<^sup>*\<^sup>* S0 S
    \<and> rd_commitments (th_round (gs_threads S 0)) = [(1, \<lparr>pc_id = 1, pc_A = [9]\<rparr>)]
    \<and> (\<exists>j < 1. \<exists>b \<in> set (posted (th_wire (gs_threads S j))). \<exists>m sh. deserialize solo_bus b = Some m
        \<and> msg m = DkgPublicShare sh \<and> dps_party_id sh = 1)"
proof -
  let ?step = "system_step (\<lambda>i. demo_env) solo_bus [solo_signer] (\<lambda>i n. 9)" and ?n = "node_name solo_signer"
  have env: "cry demo_env = demo_crypto" by (simp add: demo_env_def)
  obtain t0 where t0: "start_p2p_sync demo_env 9 solo_signer (demo_wire []) demo_posts = Ok t0" "th_poll_end t0 = None"
    and run: "let t1 = solo_poll [0] t0; t2 = solo_take solo_begin t1; t3 = solo_poll [1] t2; t4 = solo_take solo_shared t3 in
       pl_tx (th_poller t1) = [solo_begin] \<and> th_taken t1 = 0 \<and> th_sign_end t1 = None
       \<and> posted (th_wire t2) = [[1]] \<and> th_poll_end t2 = None
       \<and> pl_tx (th_poller t3) = [solo_begin, solo_shared] \<and> th_taken t3 = 1 \<and> th_sign_end t3 = None
       \<and> th_sign_end t4 = None \<and> rd_commitments (th_round t4) = [(1, \<lparr>pc_id = 1, pc_A = [9]\<rparr>)]"
    using solo_runs by blast
  define t1 where "t1 = solo_poll [0] t0"
  define t2 where "t2 = solo_take solo_begin t1"
  define t3 where "t3 = solo_poll [1] t2"
  define t4 where "t4 = solo_take solo_shared t3"
  note run = run [unfolded Let_def, folded t1_def, folded t2_def, folded t3_def, folded t4_def]
  let ?f = "\<lambda>t. (\<lambda>i :: nat. t0)(0 := t)" and ?l = "[(None, [0])]" and ?l2 = "[(None, [0]), (Some 0, [1])]"
  let ?ar = "\<lambda>i :: nat. 0 :: nat" and ?h = "hm_insert ?n 0 []"
  let ?init = "demo_state [] [] ?ar [] (?f t0)" and ?fin = "demo_state (hm_insert ?n 1 ?h) [[0], [1]] (?ar(0 := 1)) ?l2 (?f t4)"
  have upd: "(?f x)(0 := y) = ?f y" for x y by auto
  have p: "posted demo_posts = []" by (simp add: demo_wire_def)
  with t0(1) have "\<exists>rng w_in w_out. posted w_out = [] \<and> start_p2p_sync demo_env rng solo_signer w_in w_out = Ok t0" by blast
  then have start: "system_start (\<lambda>i. demo_env) [solo_signer] ?init"
    by (simp add: system_start_def demo_state_def MemState_default_def)
  have "?step ?init (demo_state [] [[0]] ?ar ?l (?f t0))"
    using demo_state_posts [where b = "[0]" and l = "[]" and q = "[]"] by simp
  moreover have "?step (demo_state [] [[0]] ?ar ?l (?f t0)) (demo_state ?h [[0]] ?ar ?l (?f t1))"
    using demo_state_polls [where i = 0 and ss = "[solo_signer]" and f = "?f t0" and k = 0 and q = "[[0]]" and hw = "[]" and e = "\<lambda>i. demo_env"
        and cd = solo_bus and rngs = "\<lambda>i n. 9" and ar = ?ar and l = ?l] t0(2) by (simp add: env upd t1_def)
  moreover have "?step (demo_state ?h [[0]] ?ar ?l (?f t1)) (demo_state ?h [[0]] ?ar ?l (?f t2))"
    using demo_state_takes [where i = 0 and ss = "[solo_signer]" and f = "?f t1" and e = "\<lambda>i. demo_env"
        and cd = solo_bus and rngs = "\<lambda>i n. 9" and hw = ?h and q = "[[0]]" and ar = ?ar and l = ?l] run by (simp add: upd t2_def)
  moreover have "?step (demo_state ?h [[0]] ?ar ?l (?f t2)) (demo_state ?h [[0], [1]] (?ar(0 := 1)) ?l2 (?f t2))"
    using demo_state_arrives [where i = 0 and ss = "[solo_signer]" and f = "?f t2" and e = "\<lambda>i. demo_env"
        and cd = solo_bus and rngs = "\<lambda>i n. 9" and hw = ?h and q = "[[0]]" and ar = ?ar and l = ?l] run by simp
  moreover have "?step (demo_state ?h [[0], [1]] (?ar(0 := 1)) ?l2 (?f t2)) (demo_state (hm_insert ?n 1 ?h) [[0], [1]] (?ar(0 := 1)) ?l2 (?f t3))"
    using demo_state_polls [where i = 0 and ss = "[solo_signer]" and f = "?f t2" and k = 1 and q = "[[0], [1]]" and hw = ?h and e = "\<lambda>i. demo_env"
        and cd = solo_bus and rngs = "\<lambda>i n. 9" and ar = "?ar(0 := 1)" and l = ?l2] run by (simp add: env upd t3_def)
  moreover have "?step (demo_state (hm_insert ?n 1 ?h) [[0], [1]] (?ar(0 := 1)) ?l2 (?f t3)) ?fin"
    using demo_state_takes [where i = 0 and ss = "[solo_signer]" and f = "?f t3" and e = "\<lambda>i. demo_env"
        and cd = solo_bus and rngs = "\<lambda>i n. 9" and hw = "hm_insert ?n 1 ?h" and q = "[[0], [1]]" and ar = "?ar(0 := 1)" and l = ?l2] run
    by (simp add: upd t4_def)
  ultimately have steps: "?step\<^sup>*\<^sup>* ?init ?fin" by (meson rtranclp.rtrancl_refl rtranclp.rtrancl_into_rtrancl)
  have held: "rd_commitments (th_round (gs_threads ?fin 0)) = [(1, \<lparr>pc_id = 1, pc_A = [9]\<rparr>)]" using run by (simp add: demo_state_def)
  have "\<exists>j < length [solo_signer]. \<exists>b \<in> set (posted (th_wire (gs_threads ?fin j))). \<exists>m sh. deserialize solo_bus b = Some m
    \<and> verified (cry demo_env) ([solo_signer] ! 0) m \<and> msg m = DkgPublicShare sh \<and> dps_party_id sh = 1
    \<and> dps_public_share sh = \<lparr>pc_id = 1, pc_A = [9]\<rparr>"
  proof (rule commitments_come_from_signers [OF start steps])
    show "deserialize solo_bus [] = None" by (simp add: solo_bus_def)
    show "th_sign_end (gs_threads ?fin 0) = None" using run by (simp add: demo_state_def)
    show "msg m \<noteq> DkgPublicShare sh" if "(None, b) \<in> set (gs_log ?fin)" "deserialize solo_bus b = Some m" for b m sh
      using that by (auto simp: demo_state_def solo_bus_def solo_begin_def demo_signed_def split: if_splits)
    show "(1, \<lparr>pc_id = 1, pc_A = [9]\<rparr>) \<in> set (rd_commitments (th_round (gs_threads ?fin 0)))" by (simp only: held list.set insertI1)
  qed simp_all
  then obtain j b m sh where "j < 1" "b \<in> set (posted (th_wire (gs_threads ?fin j)))" "deserialize solo_bus b = Some m"
    "msg m = DkgPublicShare sh" "dps_party_id sh = 1" by (elim exE conjE bexE) (simp only: list.size One_nat_def add_0)
  then have "\<exists>j < 1. \<exists>b \<in> set (posted (th_wire (gs_threads ?fin j))). \<exists>m sh. deserialize solo_bus b = Some m
        \<and> msg m = DkgPublicShare sh \<and> dps_party_id sh = 1"
    by (intro exI [of _ j] bexI [of _ b] exI [of _ m] exI [of _ sh] conjI)
  with start steps held show ?thesis by (intro exI [of _ ?init] exI [of _ ?fin] conjI)
qed

end
