(* ===== verification/Programs.thy ===== *)
theory Programs
  imports Prelude
begin

text \<open>
  How the programs of the repository end: by themselves, with an error that was logged or returned, by a
  panic; or they are still in a loop that has no end of its own.
\<close>

datatype program_end = Finished | Reported | Crashed | Running

fun end_of :: "('e, 'a) outcome \<Rightarrow> program_end" where
  "end_of (Ok x) = Finished"
| "end_of (Err e) = Reported"
| "end_of Panic = Crashed"

text \<open>\<^verbatim>\<open>if let Err(e) = .. { panic!(..) }\<close>, where other programs log the error.\<close>

fun panics :: "program_end \<Rightarrow> program_end" where
  "panics Reported = Crashed"
| "panics x = x"

lemma end_of_iff [simp]:
  "end_of r = Finished \<longleftrightarrow> is_ok r" "end_of r \<noteq> Running" "end_of r = Crashed \<longleftrightarrow> r = Panic"
  by (cases r; simp)+

section \<open>Files\<close>

text \<open>
  Text files by their paths. Writing creates the file or empties it, which can fail; a write that fails has
  stored some beginning of the text.
\<close>

type_synonym text_files = "string \<Rightarrow> string option"

record file_faults =
  ff_creates :: "string \<Rightarrow> bool"
  ff_write_stops :: "string \<Rightarrow> nat option"

datatype file_error = CreateFailed | WriteFailed

definition write_file :: "file_faults \<Rightarrow> string \<Rightarrow> string \<Rightarrow> text_files \<Rightarrow> (file_error, unit) outcome \<times> text_files" where
  "write_file F p t fs =
     (if \<not> ff_creates F p then (Err CreateFailed, fs)
      else
        (case ff_write_stops F p of
           None \<Rightarrow> (Ok (), fs(p \<mapsto> t))
         | Some n \<Rightarrow> (Err WriteFailed, fs(p \<mapsto> take n t))))"

lemma write_file_Ok: "write_file F p t fs = (Ok u, fs') \<Longrightarrow> fs' = fs(p \<mapsto> t)"
  by (auto simp: write_file_def split: if_splits option.splits)

lemma write_file_frame: "write_file F p t fs = (r, fs') \<Longrightarrow> q \<noteq> p \<Longrightarrow> fs' q = fs q"
  by (auto simp: write_file_def split: if_splits option.splits)

end
