(* ===== verification/SignerPrograms.thy ===== *)
theory SignerPrograms
  imports SignerThreads Programs
begin

text \<open>
  The programs that run a signer: \<^verbatim>\<open>frost-signer/src/main.rs\<close> and the crate \<^verbatim>\<open>stacks-signer\<close>, which wraps the same
  signer, ends with a panic where the first logs an error, and also generates keys. A run of the two threads
  of a signer is given by a schedule, which says whose turn it is; a thread that has ended or waits lets its turn pass.
\<close>

section \<open>Schedules\<close>

datatype turn = Polling | Signing

fun take_turn ::
  "('fs, 'rng, 'id, 'pt, 'sc, 'pk) env \<Rightarrow> ('id, 'pt, 'sc) codec \<Rightarrow> ('pk, 'sc) FrostSigner \<Rightarrow> (nat \<Rightarrow> 'rng) \<Rightarrow> turn
    \<Rightarrow> ('fs, 'id, 'pt, 'sc, 'pk) threads \<Rightarrow> ('fs, 'id, 'pt, 'sc, 'pk) threads" where
  "take_turn e cd s rngs Polling t = (if th_poll_end t = None then poll_iteration (cry e) cd s t else t)"
| "take_turn e cd s rngs Signing t =
     (if th_sign_end t \<noteq> None then t
      else if th_taken t < length (pl_tx (th_poller t))
      then sign_iteration e cd s (rngs (th_taken t)) (pl_tx (th_poller t) ! th_taken t) t
      else if th_taken t = length (pl_tx (th_poller t)) \<and> th_poll_end t \<noteq> None then t\<lparr>th_sign_end := Some (Err RecvError)\<rparr>
      else t)"

abbreviation run_schedule where
  "run_schedule e cd s rngs sched t \<equiv> fold (take_turn e cd s rngs) sched t"

text \<open>Schedules give exactly the runs of the step relation.\<close>

lemma take_turn_steps: "(thread_step e cd s rngs)\<^sup>*\<^sup>* t (take_turn e cd s rngs x t)"
  by (cases x) (auto intro: thread_step.intros)

lemma schedule_steps: "(thread_step e cd s rngs)\<^sup>*\<^sup>* t (run_schedule e cd s rngs sched t)"
proof (induction sched arbitrary: t)
  case (Cons x sched)
  with take_turn_steps show ?case by (metis fold_simps(2) rtranclp_trans)
qed simp

lemma step_take_turn: "thread_step e cd s rngs t t' \<Longrightarrow> \<exists>x. t' = take_turn e cd s rngs x t"
proof (induction rule: thread_step.induct)
  case (poll t)
  then show ?case by (intro exI [of _ Polling]) simp
next
  case (recv t)
  then show ?case by (intro exI [of _ Signing]) simp
next
  case (recv_fails t)
  then show ?case by (intro exI [of _ Signing]) simp
qed

lemma steps_schedule: "(thread_step e cd s rngs)\<^sup>*\<^sup>* t t' \<longleftrightarrow> (\<exists>sched. t' = run_schedule e cd s rngs sched t)"
proof
  assume "(thread_step e cd s rngs)\<^sup>*\<^sup>* t t'"
  then show "\<exists>sched. t' = run_schedule e cd s rngs sched t"
  proof (induction rule: rtranclp_induct)
    case base
    show ?case by (intro exI [of _ "[]"]) simp
  next
    case (step u v)
    then obtain sched x where "u = run_schedule e cd s rngs sched t" "v = take_turn e cd s rngs x u"
      by (blast dest: step_take_turn)
    then show ?case by (intro exI [of _ "sched @ [x]"]) simp
  qed
qed (auto intro: schedule_steps)

section \<open>The programs\<close>

text \<open>The end of a signer that was started, as its caller sees it: \<^verbatim>\<open>start_p2p_sync\<close> returns when the signing loop ends.\<close>

definition signer_end ::
  "('fs, 'rng, 'id, 'pt, 'sc, 'pk) env \<Rightarrow> ('id, 'pt, 'sc) codec \<Rightarrow> 'rng \<Rightarrow> (nat \<Rightarrow> 'rng) \<Rightarrow> wire \<Rightarrow> wire \<Rightarrow> turn list
    \<Rightarrow> ('pk, 'sc) FrostSigner \<Rightarrow> program_end" where
  "signer_end e cd rng rngs w_in w_out sched s =
     (case start_p2p_sync e rng s w_in w_out of
        Ok t \<Rightarrow> (case th_sign_end (run_schedule e cd s rngs sched t) of None \<Rightarrow> Running | Some r \<Rightarrow> end_of r)
      | Err er \<Rightarrow> Reported
      | Panic \<Rightarrow> Crashed)"

definition frost_signer_main ::
  "('pk, 'sc) key_parsers \<Rightarrow> (string \<Rightarrow> string option) \<Rightarrow> (string \<Rightarrow> RawConfig option)
    \<Rightarrow> ('fs, 'rng, 'id, 'pt, 'sc, 'pk) env \<Rightarrow> ('id, 'pt, 'sc) codec \<Rightarrow> 'rng \<Rightarrow> (nat \<Rightarrow> 'rng) \<Rightarrow> wire \<Rightarrow> wire \<Rightarrow> turn list
    \<Rightarrow> string \<Rightarrow> u32 \<Rightarrow> program_end" where
  "frost_signer_main kp read_to_string toml e cd rng rngs w_in w_out sched path i =
     (case Config_from_path kp read_to_string toml path of
        Ok config \<Rightarrow> signer_end e cd rng rngs w_in w_out sched (FrostSigner_new config i)
      | Err er \<Rightarrow> Reported
      | Panic \<Rightarrow> Crashed)"

text \<open>\<^verbatim>\<open>stacks_signer::signer::Signer\<close>, a wrapper.\<close>

datatype ('pk, 'sc) StacksSigner = StacksSigner (frost_signer: "('pk, 'sc) FrostSigner")

definition StacksSigner_new :: "('pk, 'sc) Config \<Rightarrow> u32 \<Rightarrow> ('pk, 'sc) StacksSigner" where
  "StacksSigner_new config i = StacksSigner (FrostSigner_new config i)"

text \<open>Key generation, for a key that was drawn; the value is what is printed.\<close>

definition generate_private_key ::
  "('sc \<Rightarrow> string) \<Rightarrow> file_faults \<Rightarrow> 'sc \<Rightarrow> string option \<Rightarrow> text_files \<Rightarrow> (file_error, string list) outcome \<times> text_files" where
  "generate_private_key show_scalar F key filepath fs =
     (case filepath of
        Some p \<Rightarrow> (case write_file F p (show_scalar key) fs of (r, fs1) \<Rightarrow> (obind r (\<lambda>_. Ok []), fs1))
      | None \<Rightarrow> (Ok [show_scalar key], fs))"

datatype signer_command = RunSigner u32 string | PrivateKey "string option" | PublicKey string

definition stacks_signer_main ::
  "('pk, 'sc) key_parsers \<Rightarrow> (string \<Rightarrow> RawConfig option) \<Rightarrow> ('fs, 'rng, 'id, 'pt, 'sc, 'pk) env \<Rightarrow> ('id, 'pt, 'sc) codec
    \<Rightarrow> ('sc \<Rightarrow> string) \<Rightarrow> ('sc \<Rightarrow> string) \<Rightarrow> file_faults \<Rightarrow> 'sc \<Rightarrow> 'rng \<Rightarrow> (nat \<Rightarrow> 'rng) \<Rightarrow> wire \<Rightarrow> wire \<Rightarrow> turn list \<Rightarrow> signer_command \<Rightarrow> text_files
    \<Rightarrow> program_end \<times> string list \<times> text_files" where
  "stacks_signer_main kp toml e cd show_scalar show_point F key rng rngs w_in w_out sched cmd fs =
     (case cmd of
        RunSigner i path \<Rightarrow>
          (case Config_from_path kp fs toml path of
             Ok config \<Rightarrow>
               (panics (signer_end e cd rng rngs w_in w_out sched (frost_signer (StacksSigner_new config i))), [], fs)
           | Err er \<Rightarrow> (Crashed, [], fs)
           | Panic \<Rightarrow> (Crashed, [], fs))
      | PrivateKey filepath \<Rightarrow>
          (case generate_private_key show_scalar F key filepath fs of
             (Ok out, fs1) \<Rightarrow> (Finished, out, fs1)
           | (Err er, fs1) \<Rightarrow> (Crashed, [], fs1)
           | (Panic, fs1) \<Rightarrow> (Crashed, [], fs1))
      | PublicKey path \<Rightarrow>
          (case Config_from_path kp fs toml path of
             Ok config \<Rightarrow> (Finished, [show_point (network_private_key config)], fs)
           | Err er \<Rightarrow> (Crashed, [], fs)
           | Panic \<Rightarrow> (Crashed, [], fs)))"

section \<open>Properties\<close>

lemma take_turn_not_ok: "th_sign_end t \<noteq> Some (Ok u) \<Longrightarrow> th_sign_end (take_turn e cd s rngs x t) \<noteq> Some (Ok u)"
  by (cases x) (auto simp: poll_iteration_def sign_iteration_def Let_def split: prod.splits outcome.splits)

lemma signer_end_not_Finished: "signer_end e cd rng rngs w_in w_out sched s \<noteq> Finished"
proof (cases "start_p2p_sync e rng s w_in w_out")
  case (Ok t)
  then have "th_sign_end t \<noteq> Some (Ok u)" for u by (auto simp: start_p2p_sync_def obind_Ok_iff)
  then have "th_sign_end (run_schedule e cd s rngs sched t) \<noteq> Some (Ok u)" for u
    by (induction sched arbitrary: t) (auto dest: take_turn_not_ok)
  with Ok show ?thesis by (auto simp: signer_end_def is_ok_iff split: option.split)
qed (simp_all add: signer_end_def)

text \<open>
  A signer never stops by itself. Whatever the network does and however the threads are scheduled, neither program
  that runs a signer finishes: it is running, or it has ended with an error or a panic. The two end on the same runs,
  and where \<^verbatim>\<open>frost-signer\<close> logs an error and exits normally, \<^verbatim>\<open>stacks-signer\<close> panics.
\<close>

theorem signer_programs_end_alike:
  "frost_signer_main kp fs toml e cd rng rngs w_in w_out sched path i \<noteq> Finished
   \<and> stacks_signer_main kp toml e cd show_scalar show_point F key rng rngs w_in w_out sched (RunSigner i path) fs
       = (panics (frost_signer_main kp fs toml e cd rng rngs w_in w_out sched path i), [], fs)"
  using signer_end_not_Finished [of e cd rng rngs w_in w_out sched]
  by (auto simp: frost_signer_main_def stacks_signer_main_def StacksSigner_new_def split: outcome.split)

text \<open>
  A generated key is the key that is configured. Let reading undo the printing of keys. When \<^verbatim>\<open>stacks-signer private-key\<close> has
  written a key to a file and the text of the file is put as the network key into a configuration that
  is otherwise valid, \<^verbatim>\<open>stacks-signer public-key\<close> prints the public key of the generated key.
\<close>

theorem generated_key_roundtrip:
  assumes codec: "\<And>k. parse_sk kp (show_scalar k) = Some k"
    and gen: "stacks_signer_main kp toml e cd show_scalar show_point F key rng rngs w_in w_out sched (PrivateKey (Some p)) fs = (Finished, out, fs1)"
    and conf: "path \<noteq> p" "fs path = Some content" "toml content = Some raw" "fs1 p = Some (rc_network_private_key raw)"
    and valid: "Config_try_from kp raw = Ok config"
  shows "out = [] \<and> stacks_signer_main kp toml e cd show_scalar show_point F key' rng rngs w_in w_out sched (PublicKey path) fs1
    = (Finished, [show_point key], fs1)"
proof -
  from gen have fs1: "fs1 = fs(p \<mapsto> show_scalar key)" "out = []"
    by (auto simp: stacks_signer_main_def generate_private_key_def obind_Ok_iff split: prod.splits outcome.splits dest: write_file_Ok)
  with conf(4) codec [of key] have "parse_sk kp (rc_network_private_key raw) = Some key" by simp
  with valid have "network_private_key config = key"
    by (auto simp: Config_try_from_def Config_new_def RawConfig_network_private_key_def obind_Ok_iff)
  with conf fs1 valid show ?thesis
    by (simp add: stacks_signer_main_def Config_from_path_def)
qed

definition demo_disk :: file_faults where
  "demo_disk = \<lparr>ff_creates = (\<lambda>p. True), ff_write_stops = (\<lambda>p. None)\<rparr>"

definition demo_parsers :: "(nat, nat) key_parsers" where
  "demo_parsers = \<lparr>parse_pk = (\<lambda>t. Some 1), parse_sk = (\<lambda>t. Some (length t))\<rparr>"

definition demo_toml :: "string \<Rightarrow> RawConfig option" where
  "demo_toml t = Some \<lparr>rc_http_relay_url = [], rc_keys_threshold = 1, rc_network_private_key = t, rc_signers = [],
     rc_coordinator_public_key = []\<rparr>"

theorem generated_key_roundtrip_witness:
  "\<exists>fs1. stacks_signer_main demo_parsers demo_toml demo_env answer_codec (\<lambda>k. replicate k CHR ''k'')
      (\<lambda>k. replicate k CHR ''P'') demo_disk 3 0 (\<lambda>n. n)
      (demo_wire []) (demo_wire []) [] (PrivateKey (Some ''key'')) [''conf'' \<mapsto> ''kkk''] = (Finished, [], fs1)
    \<and> stacks_signer_main demo_parsers demo_toml demo_env answer_codec (\<lambda>k. replicate k CHR ''k'')
      (\<lambda>k. replicate k CHR ''P'') demo_disk 9 0 (\<lambda>n. n)
      (demo_wire []) (demo_wire []) [] (PublicKey ''conf'') fs1 = (Finished, [''PPP''], fs1)"
proof -
  let ?fs = "[''conf'' \<mapsto> ''kkk'']" and ?fs1 = "[''conf'' \<mapsto> ''kkk'', ''key'' \<mapsto> ''kkk'']"
  let ?main = "\<lambda>k. stacks_signer_main demo_parsers demo_toml demo_env answer_codec (\<lambda>k. replicate k CHR ''k'')
      (\<lambda>k. replicate k CHR ''P'') demo_disk k 0 (\<lambda>n. n)
      (demo_wire []) (demo_wire []) []"
  have gen: "?main 3 (PrivateKey (Some ''key'')) ?fs = (Finished, [], ?fs1)"
    by (simp add: stacks_signer_main_def generate_private_key_def write_file_def demo_disk_def numeral_3_eq_3)
  have "is_ok (Config_try_from demo_parsers (the (demo_toml ''kkk'')))"
    by (simp add: Config_try_from_def RawConfig_coordinator_public_key_def parse_public_key_def RawConfig_public_keys_def
        RawConfig_signer_key_ids_def RawConfig_network_private_key_def Config_new_def u32_try_from_def PublicKeys_default_def
        demo_parsers_def demo_toml_def)
  then obtain config where config: "Config_try_from demo_parsers (the (demo_toml ''kkk'')) = Ok config" unfolding is_ok_iff by blast
  have "[] = ([] :: string list) \<and> ?main 9 (PublicKey ''conf'') ?fs1 = (Finished, [replicate 3 CHR ''P''], ?fs1)"
    by (rule generated_key_roundtrip [OF _ gen _ _ _ _ config, where content = "''kkk''"])
      (simp_all add: demo_parsers_def demo_toml_def)
  with gen show ?thesis by (auto simp: numeral_3_eq_3)
qed

end
