(* ===== verification/Rpc.thy ===== *)
theory Rpc
  imports Http
begin

text \<open>
  Remote calls of \<^verbatim>\<open>yarpc\<close>: an HTTP exchange on a two-way stream (\<^verbatim>\<open>yarpc/src/http/io_stream.rs\<close>) and the bridge
  to a JavaScript process (\<^verbatim>\<open>yarpc/src/rpc/js.rs\<close>), which exchanges one line of JSON for another. The other side
  is a parameter: a function from its state and the bytes flushed to it to what it writes before it waits for
  more, or nothing when it no longer takes input. The calls are shown to read the lines in the order in which
  they were written, whoever asked for them.
\<close>

section \<open>Streams with a peer\<close>

datatype rpc_error = SpawnError | WriteError | JsonError | Io io_error

record 'c peer_stream =
  peer :: 'c
  unread :: bytes

type_synonym 'c peer_feed = "'c \<Rightarrow> bytes \<Rightarrow> ('c \<times> bytes) option"

text \<open>\<^verbatim>\<open>write_all\<close> and \<^verbatim>\<open>flush\<close>: the bytes reach the other side, and what it writes can be read.\<close>

definition write_flush :: "'c peer_feed \<Rightarrow> 'c peer_stream \<Rightarrow> bytes \<Rightarrow> (rpc_error, 'c peer_stream) outcome" where
  "write_flush feed st bs =
     (case feed (peer st) bs of
        None \<Rightarrow> Err WriteError
      | Some (c, out) \<Rightarrow> Ok \<lparr>peer = c, unread = unread st @ out\<rparr>)"

definition lift_io :: "(io_error, 'a) outcome \<Rightarrow> (rpc_error, 'a) outcome" where
  "lift_io r = (case r of Ok x \<Rightarrow> Ok x | Err e \<Rightarrow> Err (Io e) | Panic \<Rightarrow> Panic)"

definition IoStream_call ::
  "'c peer_feed \<Rightarrow> 'c peer_stream \<Rightarrow> Request \<Rightarrow> (rpc_error, Response \<times> 'c peer_stream) outcome" where
  "IoStream_call feed st request =
     obind (write_flush feed st (Request_write request)) (\<lambda>st1.
     obind (lift_io (Response_read (unread st1))) (\<lambda>(response, rest).
       Ok (response, st1\<lparr>unread := rest\<rparr>)))"

section \<open>The JavaScript bridge\<close>

text \<open>
  \<^verbatim>\<open>serde_json\<close>: the bytes of a value as text, and a value read from text; what is read is a \<^verbatim>\<open>JsResult\<close>, an error
  text or a value. \<^verbatim>\<open>None\<close> stands for its errors.
\<close>

record ('i, 'o) json =
  to_json :: "'i \<Rightarrow> bytes option"
  from_json :: "string \<Rightarrow> (string + 'o) option"

text \<open>\<^verbatim>\<open>Js::new\<close>: the process is started, or the start fails; no line has been read yet.\<close>

definition Js_new :: "(string \<Rightarrow> 'c option) \<Rightarrow> string \<Rightarrow> (rpc_error, 'c peer_stream) outcome" where
  "Js_new spawn path =
     (case spawn path of None \<Rightarrow> Err SpawnError | Some c \<Rightarrow> Ok \<lparr>peer = c, unread = []\<rparr>)"

fun to_io_result :: "string + 'o \<Rightarrow> (rpc_error, 'o) outcome" where
  "to_io_result (Inl e) = Err (Io (InvalidData e))"
| "to_io_result (Inr v) = Ok v"

definition decode_line :: "('i, 'o) json \<Rightarrow> string \<Rightarrow> (rpc_error, 'o) outcome" where
  "decode_line J line = (case from_json J line of None \<Rightarrow> Err JsonError | Some r \<Rightarrow> to_io_result r)"

text \<open>A call that fails leaves the stream as far as it was read; the end of the stream is read to the end.\<close>

definition Js_call ::
  "('i, 'o) json \<Rightarrow> 'c peer_feed \<Rightarrow> 'c peer_stream \<Rightarrow> 'i \<Rightarrow> (rpc_error, 'o) outcome \<times> 'c peer_stream" where
  "Js_call J feed js input =
     (case to_json J input of
        None \<Rightarrow> (Err JsonError, js)
      | Some i \<Rightarrow>
          (case write_flush feed js (i @ [10]) of
             Err e \<Rightarrow> (Err e, js)
           | Panic \<Rightarrow> (Panic, js)
           | Ok js1 \<Rightarrow>
               (case read_string_until (CHR 0x0A) (unread js1) of
                  Ok (line, rest) \<Rightarrow> (decode_line J line, js1\<lparr>unread := rest\<rparr>)
                | Err e \<Rightarrow> (Err (Io e), js1\<lparr>unread := []\<rparr>)
                | Panic \<Rightarrow> (Panic, js1))))"

text \<open>Several calls, one after another, by a client that goes on after an error.\<close>

fun Js_calls ::
  "('i, 'o) json \<Rightarrow> 'c peer_feed \<Rightarrow> 'c peer_stream \<Rightarrow> 'i list \<Rightarrow> (rpc_error, 'o) outcome list \<times> 'c peer_stream" where
  "Js_calls J feed js [] = ([], js)"
| "Js_calls J feed js (i # is) =
     (let (r, js1) = Js_call J feed js i; (rs, js2) = Js_calls J feed js1 is in (r # rs, js2))"

section \<open>Exchanges\<close>

text \<open>The lines that a process writes in answer to a list of inputs, when it writes one for each.\<close>

fun answers :: "('c \<Rightarrow> 'i \<Rightarrow> 'c) \<Rightarrow> ('c \<Rightarrow> 'i \<Rightarrow> bytes) \<Rightarrow> 'c \<Rightarrow> 'i list \<Rightarrow> bytes list" where
  "answers nxt ans c [] = []"
| "answers nxt ans c (i # is) = ans c i # answers nxt ans (nxt c i) is"

definition as_line :: "bytes \<Rightarrow> bytes" where
  "as_line bs = bs @ [10]"

text \<open>How \<^verbatim>\<open>read_string_until\<close> turns the bytes of a line into text.\<close>

definition cast_chars :: "bytes \<Rightarrow> string" where
  "cast_chars bs = map as_char bs"

lemma as_char_newline: "as_char b = CHR 0x0A \<longleftrightarrow> b = 10"
proof -
  have "CHR 0x0A = char_of (10 :: nat)"
    by (simp add: char_of_def bit_simps)
  moreover have "unat b < 256"
    using unsigned_less [of b, where ?'a = nat] by simp
  moreover have "char_of (n :: nat) = char_of m \<longleftrightarrow> n = m" if "n < 256" "m < 256" for n m
    using that by (simp add: char_of_eq_iff take_bit_eq_mod)
  ultimately show ?thesis
    by (simp add: as_char_def word_unat_eq_iff)
qed

lemma read_string_until_line:
  "10 \<notin> set bs \<Longrightarrow> read_string_until (CHR 0x0A) (as_line bs @ rest) = Ok (cast_chars bs, rest)"
  by (induction bs) (auto simp: as_line_def cast_chars_def as_char_newline)

text \<open>A process that takes a line of JSON for every input and writes one line in answer.\<close>

definition line_server ::
  "('i, 'o) json \<Rightarrow> 'c peer_feed \<Rightarrow> ('i \<Rightarrow> bytes) \<Rightarrow> ('c \<Rightarrow> 'i \<Rightarrow> 'c) \<Rightarrow> ('c \<Rightarrow> 'i \<Rightarrow> bytes) \<Rightarrow> bool" where
  "line_server J feed enc nxt ans \<longleftrightarrow>
     (\<forall>c i. to_json J i = Some (enc i) \<and> feed c (enc i @ [10]) = Some (nxt c i, as_line (ans c i)) \<and> 10 \<notin> set (ans c i))"

text \<open>One call takes the oldest line that is there, and the answer joins the end.\<close>

lemma Js_call_fifo:
  assumes "line_server J feed enc nxt ans" and "\<forall>l \<in> set pending. 10 \<notin> set l"
  shows "Js_call J feed \<lparr>peer = c, unread = concat (map as_line pending)\<rparr> i
    = (decode_line J (cast_chars (hd (pending @ [ans c i]))),
       \<lparr>peer = nxt c i, unread = concat (map as_line (tl (pending @ [ans c i])))\<rparr>)"
proof -
  let ?lines = "pending @ [ans c i]"
  have written: "write_flush feed \<lparr>peer = c, unread = concat (map as_line pending)\<rparr> (enc i @ [10])
      = Ok \<lparr>peer = nxt c i, unread = concat (map as_line ?lines)\<rparr>"
    using assms(1) by (simp add: write_flush_def line_server_def)
  have "\<forall>l \<in> set ?lines. 10 \<notin> set l"
    using assms by (simp add: line_server_def)
  then have "10 \<notin> set (hd ?lines)" by (cases pending) auto
  moreover have "concat (map as_line ?lines) = as_line (hd ?lines) @ concat (map as_line (tl ?lines))"
    by (cases pending) auto
  ultimately have "read_string_until (CHR 0x0A) (concat (map as_line ?lines))
      = Ok (cast_chars (hd ?lines), concat (map as_line (tl ?lines)))"
    using read_string_until_line by metis
  moreover have "to_json J i = Some (enc i)"
    using assms(1) by (simp add: line_server_def)
  ultimately show ?thesis
    unfolding Js_call_def by (simp only: written option.case outcome.case prod.case peer_stream.simps)
qed

lemma Js_calls_fifo:
  assumes "line_server J feed enc nxt ans"
  shows "\<forall>l \<in> set pending. 10 \<notin> set l \<Longrightarrow>
    Js_calls J feed \<lparr>peer = c, unread = concat (map as_line pending)\<rparr> is
    = (map (\<lambda>l. decode_line J (cast_chars l)) (take (length is) (pending @ answers nxt ans c is)),
       \<lparr>peer = foldl nxt c is, unread = concat (map as_line (drop (length is) (pending @ answers nxt ans c is)))\<rparr>)"
proof (induction "is" arbitrary: c pending)
  case (Cons i "is")
  let ?lines = "pending @ [ans c i]"
  have lines: "?lines = hd ?lines # tl ?lines" by (cases pending) auto
  have "\<forall>l \<in> set (tl ?lines). 10 \<notin> set l"
    using Cons.prems assms by (cases pending) (auto simp: line_server_def)
  from Cons.IH [OF this, of "nxt c i"] Js_call_fifo [OF assms Cons.prems, of c i]
  have "Js_calls J feed \<lparr>peer = c, unread = concat (map as_line pending)\<rparr> (i # is)
    = (map (\<lambda>l. decode_line J (cast_chars l)) (hd ?lines # take (length is) (tl ?lines @ answers nxt ans (nxt c i) is)),
       \<lparr>peer = foldl nxt (nxt c i) is,
        unread = concat (map as_line (drop (length is) (tl ?lines @ answers nxt ans (nxt c i) is)))\<rparr>)"
    by simp
  moreover have "pending @ answers nxt ans c (i # is) = hd ?lines # (tl ?lines @ answers nxt ans (nxt c i) is)"
    using lines by (metis answers.simps(2) append.assoc append_Cons append_Nil)
  ultimately show ?case by (simp only: length_Cons take_Suc_Cons drop_Suc_Cons foldl_Cons)
qed simp

lemma length_answers [simp]: "length (answers nxt ans c is) = length is"
  by (induction "is" arbitrary: c) simp_all

text \<open>
  The calls on a process that answers every line with a line return its answers, each to the call that
  asked, and nothing is left unread. If the process had written lines of its own before, every
  call returns the line that many places earlier instead, and as many answers stay unread: the calls never
  catch up.
\<close>

theorem Js_calls_in_step:
  assumes "line_server J feed enc nxt ans" and "\<forall>l \<in> set stray. 10 \<notin> set l"
  shows "Js_calls J feed \<lparr>peer = c, unread = []\<rparr> is
      = (map (\<lambda>l. decode_line J (cast_chars l)) (answers nxt ans c is), \<lparr>peer = foldl nxt c is, unread = []\<rparr>)
    \<and> fst (Js_calls J feed \<lparr>peer = c, unread = concat (map as_line stray)\<rparr> is)
      = map (\<lambda>l. decode_line J (cast_chars l)) (take (length is) (stray @ answers nxt ans c is))
    \<and> unread (snd (Js_calls J feed \<lparr>peer = c, unread = concat (map as_line stray)\<rparr> is))
      = concat (map as_line (drop (length is) (stray @ answers nxt ans c is)))"
  using Js_calls_fifo [OF assms(1), of "[]"] Js_calls_fifo [OF assms] by simp

text \<open>A process that sends every line back: \<^verbatim>\<open>{"Ok":...}\<close> is shortened to a character in front.\<close>

definition demo_json :: "(u8, string) json" where
  "demo_json = \<lparr>to_json = (\<lambda>i. Some (if i = 10 then [65] else [i])),
     from_json = (\<lambda>s. if s = [] then None else Some (Inr s))\<rparr>"

definition mirror :: "nat peer_feed" where
  "mirror c bs = Some (Suc c, bs)"

lemma mirror_line_server:
  "line_server demo_json mirror (\<lambda>i. if i = 10 then [65] else [i]) (\<lambda>c i. Suc c) (\<lambda>c i. if i = 10 then [65] else [i])"
  by (simp add: line_server_def demo_json_def mirror_def as_line_def)

theorem Js_calls_in_step_witness:
  "fst (Js_calls demo_json mirror \<lparr>peer = 0, unread = [72, 105, 10]\<rparr> [1, 2]) = [Ok ''Hi'', Ok [CHR 0x01]]"
proof -
  have "as_char 72 = CHR ''H''" "as_char 105 = CHR ''i''" "as_char 1 = CHR 0x01"
    by (simp_all add: as_char_def char_of_def bit_simps)
  then show ?thesis
    using Js_calls_in_step [OF mirror_line_server, of "[[72, 105]]" 0 "[1, 2]"]
    by (simp add: as_line_def cast_chars_def decode_line_def demo_json_def)
qed

text \<open>Text outside ASCII does not survive: each byte of its encoding becomes a character.\<close>

lemma cast_chars_as_bytes_length: "length t \<le> length (cast_chars (as_bytes t))"
  by (induction t) (auto simp: cast_chars_def as_bytes_def char_bytes_def Let_def)

lemma cast_chars_as_bytes: "cast_chars (as_bytes t) = t \<longleftrightarrow> is_ascii t"
proof (induction t)
  case (Cons c t)
  show ?case
  proof (cases "(of_char c :: nat) < 128")
    case True
    with Cons show ?thesis by (simp add: cast_chars_def as_bytes_Cons_ascii)
  next
    case False
    then have "length (cast_chars (as_bytes (c # t))) = 2 + length (cast_chars (as_bytes t))"
      by (simp add: cast_chars_def as_bytes_def char_bytes_def Let_def)
    then have "cast_chars (as_bytes (c # t)) \<noteq> c # t"
      using cast_chars_as_bytes_length [of t] by (auto dest: arg_cong [where f = length])
    with False show ?thesis by simp
  qed
qed (simp add: cast_chars_def)

lemma of_nat_not_newline: "n < 256 \<Longrightarrow> n \<noteq> 10 \<Longrightarrow> (of_nat n :: u8) \<noteq> 10"
  using of_nat_inverse [of n "10 :: u8"] by auto

lemma char_bytes_no_newline:
  assumes "ch \<noteq> CHR 0x0A"
  shows "10 \<notin> set (char_bytes ch)"
proof -
  let ?n = "of_char ch :: nat"
  have "char_of ?n = ch" by simp
  moreover have "CHR 0x0A = char_of (10 :: nat)" by (simp add: char_of_def bit_simps)
  ultimately have "?n \<noteq> 10" using assms by metis
  moreover have "?n < 256" by simp
  then have "?n div 64 < 4" "?n mod 64 < 64" by (simp_all add: less_mult_imp_div_less)
  then have "192 + ?n div 64 < 256" "128 + ?n mod 64 < 256" by linarith+
  ultimately have "(of_nat ?n :: u8) \<noteq> 10" "(of_nat (192 + ?n div 64) :: u8) \<noteq> 10" "(of_nat (128 + ?n mod 64) :: u8) \<noteq> 10"
    by (intro of_nat_not_newline; simp)+
  then show ?thesis by (auto simp: char_bytes_def Let_def simp del: of_nat_add)
qed

lemma as_bytes_no_newline:
  assumes "CHR 0x0A \<notin> set t"
  shows "10 \<notin> set (as_bytes t)"
proof
  assume "10 \<in> set (as_bytes t)"
  then obtain ch where ch: "ch \<in> set t" "10 \<in> set (char_bytes ch)"
    unfolding as_bytes_def set_concat set_map by blast
  with assms have "ch \<noteq> CHR 0x0A" by (rule_tac notI) (erule notE, simp only:)
  from char_bytes_no_newline [OF this] ch(2) show False by (rule notE)
qed

text \<open>
  A line of text that the process writes reaches the decoder unchanged exactly if it is ASCII: the bytes of
  every other character are turned into two characters, although the reader's result is taken as UTF-8 text.
\<close>

theorem Js_call_mangles_text:
  assumes "to_json J i = Some bs" and "feed c (bs @ [10]) = Some (c1, as_bytes t @ [10])" and "CHR 0x0A \<notin> set t"
  shows "\<exists>line. Js_call J feed \<lparr>peer = c, unread = []\<rparr> i = (decode_line J line, \<lparr>peer = c1, unread = []\<rparr>)
    \<and> (line = t \<longleftrightarrow> is_ascii t)"
proof -
  have "10 \<notin> set (as_bytes t)"
    using assms(3) as_bytes_no_newline by blast
  from read_string_until_line [OF this, of "[]"]
  have "Js_call J feed \<lparr>peer = c, unread = []\<rparr> i = (decode_line J (cast_chars (as_bytes t)), \<lparr>peer = c1, unread = []\<rparr>)"
    using assms(1,2) by (simp add: Js_call_def write_flush_def as_line_def)
  with cast_chars_as_bytes show ?thesis by blast
qed

text \<open>
  An exchange with a peer that reads the request and writes the response gives that response and leaves the stream where
  it was, for a request and a response of the forms that the format can carry.
\<close>

theorem IoStream_call_exchange:
  assumes "wf_Request req" and "wf_Response (serve c req)"
    and "\<And>bs r. Request_read bs = Ok (r, []) \<Longrightarrow> feed c bs = Some (nxt c r, Response_write (serve c r))"
  shows "IoStream_call feed \<lparr>peer = c, unread = []\<rparr> req = Ok (serve c req, \<lparr>peer = nxt c req, unread = []\<rparr>)"
  using Request_read_write [OF assms(1), of "[]"] Response_read_write [OF assms(2), of "[]"] assms(3) [of "Request_write req" req]
  by (simp add: IoStream_call_def write_flush_def lift_io_def)

end
