(* ===== verification/RelayClient.thy ===== *)
theory RelayClient
  imports Relay Rpc Programs
begin

text \<open>
  A client of the relay over TCP (\<^verbatim>\<open>relay-server/src/bin/relay-server-test.rs\<close>): a connection for every request, with the
  HTTP exchange of theory \<open>Rpc\<close> on it and the server of theory \<open>Relay\<close> at the other end. The proxy over this client
  keeps the contract of a message store too, and the program's own test passes.
\<close>

section \<open>RemoteServer\<close>

text \<open>The relay as the peer of a connection: after an error it closes the connection without a response.\<close>

definition relay_feed :: "MemState peer_feed" where
  "relay_feed s bs =
     (case Server_update s bs of
        (Ok (out, rest), s1) \<Rightarrow> Some (s1, out)
      | (Err e, s1) \<Rightarrow> Some (s1, [])
      | (Panic, s1) \<Rightarrow> Some (s1, []))"

text \<open>
  \<^verbatim>\<open>TcpStream::connect(ADDR).unwrap().call(request)\<close>; the server is taken to accept the connection, and a write that fails is
  an error of the stream.
\<close>

definition RemoteServer_call :: "MemState \<Rightarrow> Request \<Rightarrow> (io_error, Response) outcome \<times> MemState" where
  "RemoteServer_call s request =
     ((case IoStream_call relay_feed \<lparr>peer = s, unread = []\<rparr> request of
         Ok (response, st) \<Rightarrow> Ok response
       | Err (Io e) \<Rightarrow> Err e
       | Err _ \<Rightarrow> Err UnexpectedEof
       | Panic \<Rightarrow> Panic),
      snd (Server_update s (Request_write request)))"

lemma RemoteServer_call_eq:
  assumes "Server_update s (Request_write request) = (Ok (Response_write response, []), s1)" and "wf_Response response"
  shows "RemoteServer_call s request = (Ok response, s1)" and "Server_call s request = (Ok response, s1)"
  using assms Response_read_write [OF assms(2), of "[]"]
  by (simp_all add: RemoteServer_call_def relay_feed_def IoStream_call_def write_flush_def lift_io_def Server_call_def
      Server_raw_call_def)

lemma wf_ok_response: "proxy_msg content \<Longrightarrow> wf_Response (Response_new 200 ''OK'' [] content)"
  by (simp add: wf_Response_def Response_new_def wf_headers_def wf_word_def PROTOCOL_def proxy_msg_def)

lemma get_update:
  assumes "proxy_invar s" and "proxy_id n"
  obtains content s1 where "Server_update s (Request_write (Request_new GET (''/?id='' @ n) [] []))
    = (Ok (Response_write (Response_new 200 ''OK'' [] content), []), s1)" "proxy_msg content"
proof -
  have "Request_read (Request_write (Request_new GET (''/?id='' @ n) [] [])) = Ok (Request_new GET (''/?id='' @ n) [] [], [])"
    using assms(2) by (intro Request_call_roundtrip wf_get_url) (simp_all add: proxy_id_def isize_bound_def)
  moreover have "map_of (url_query (''/?id='' @ n)) ''id'' = Some n"
    using assms(2) by (intro url_query_id) (simp add: proxy_id_def)
  moreover have "proxy_msg (queue s ! i)" if "i < length (queue s)" for i
    using assms(1) that by (auto simp: proxy_invar_def list_all_length)
  moreover have "proxy_msg []" by (simp add: proxy_msg_def isize_bound_def)
  ultimately show ?thesis
    using that by (cases "mem_pos s n < length (queue s)") (simp_all add: Server_update_def mem_get_eq)
qed

text \<open>On requests of the proxy the remote server gives what the server in the same process gives.\<close>

lemma remote_get_eq:
  assumes "proxy_invar s" and "proxy_id n"
  shows "ProxyState_get RemoteServer_call s n = ProxyState_get Server_call s n"
proof -
  obtain content s1 where u: "Server_update s (Request_write (Request_new GET (''/?id='' @ n) [] []))
    = (Ok (Response_write (Response_new 200 ''OK'' [] content), []), s1)" and "proxy_msg content"
    using get_update [OF assms] .
  from RemoteServer_call_eq [OF u wf_ok_response [OF this(2)]] show ?thesis by (simp add: ProxyState_get_def)
qed

lemma remote_post_eq:
  assumes "proxy_msg m"
  shows "ProxyState_post RemoteServer_call s m = ProxyState_post Server_call s m"
proof -
  have "Request_read (Request_write (Request_new POST ''/'' [] m)) = Ok (Request_new POST ''/'' [] m, [])"
    using assms by (intro Request_call_roundtrip) (simp_all add: proxy_msg_def wf_word_def)
  then have u: "Server_update s (Request_write (Request_new POST ''/'' [] m))
      = (Ok (Response_write (Response_new 200 ''OK'' [] []), []), s\<lparr>queue := queue s @ [m]\<rparr>)"
    by (simp add: Server_update_def MemState_post_def)
  have "proxy_msg []" by (simp add: proxy_msg_def isize_bound_def)
  from RemoteServer_call_eq [OF u wf_ok_response [OF this]] show ?thesis by (simp add: ProxyState_post_def)
qed

interpretation remote: relay_state "ProxyState_get RemoteServer_call" "ProxyState_post RemoteServer_call"
  queue mem_pos proxy_invar proxy_id proxy_msg
  by unfold_locales
    (auto simp: remote_get_eq remote_post_eq proxy.pos_bound proxy.get_none intro: proxy.get_new proxy.post_appends)

section \<open>The test program\<close>

datatype test_step = ExpectEmpty string | ExpectMsg bytes string | DoPost bytes

text \<open>\<^verbatim>\<open>unwrap\<close> and \<^verbatim>\<open>assert\<close> panic.\<close>

fun run_test ::
  "('s \<Rightarrow> string \<Rightarrow> (io_error, bytes) outcome \<times> 's) \<Rightarrow> ('s \<Rightarrow> bytes \<Rightarrow> (io_error, unit) outcome \<times> 's)
    \<Rightarrow> 's \<Rightarrow> test_step list \<Rightarrow> (unit, 's) outcome" where
  "run_test get post s [] = Ok s"
| "run_test get post s (ExpectEmpty n # steps) =
     (case get s n of (Ok m, s1) \<Rightarrow> if m = [] then run_test get post s1 steps else Panic | _ \<Rightarrow> Panic)"
| "run_test get post s (ExpectMsg m n # steps) =
     (case get s n of (Ok m', s1) \<Rightarrow> if m = m' then run_test get post s1 steps else Panic | _ \<Rightarrow> Panic)"
| "run_test get post s (DoPost m # steps) =
     (case post s m of (Ok u, s1) \<Rightarrow> run_test get post s1 steps | _ \<Rightarrow> Panic)"

definition test_main :: "test_step list" where
  "test_main = (let msg = (\<lambda>d. as_bytes (''Msg # '' @ d)) in
     [ExpectEmpty ''1'', ExpectEmpty ''3'', DoPost (msg ''0''),
      ExpectMsg (msg ''0'') ''1'', ExpectMsg (msg ''0'') ''5'', ExpectMsg (msg ''0'') ''4'', ExpectEmpty ''1'',
      DoPost (msg ''1''),
      ExpectMsg (msg ''1'') ''1'', ExpectMsg (msg ''0'') ''3'', ExpectMsg (msg ''1'') ''5'',
      DoPost (msg ''2''),
      ExpectMsg (msg ''2'') ''1'', ExpectMsg (msg ''1'') ''4'', ExpectMsg (msg ''2'') ''4''])"

text \<open>The operations of a test, all of them of the form that the proxy can carry.\<close>

fun test_ok :: "test_step \<Rightarrow> bool" where
  "test_ok (ExpectEmpty n) = proxy_id n"
| "test_ok (ExpectMsg m n) = proxy_id n"
| "test_ok (DoPost m) = proxy_msg m"

lemma remote_run_test:
  assumes "proxy_invar s" and "list_all test_ok steps"
  shows "run_test (ProxyState_get RemoteServer_call) (ProxyState_post RemoteServer_call) s steps
    = run_test MemState_get MemState_post s steps"
  using assms
proof (induction steps arbitrary: s)
  case (Cons step steps)
  have get: "ProxyState_get RemoteServer_call s n = MemState_get s n \<and> proxy_invar (snd (MemState_get s n))" if "proxy_id n" for n
    using that Cons.prems(1) remote_get_eq proxy_get_eq mem_invar_insert
    by (auto simp: mem_get_eq proxy_invar_def)
  have post: "ProxyState_post RemoteServer_call s m = MemState_post s m \<and> proxy_invar (snd (MemState_post s m))" if "proxy_msg m" for m
    using that Cons.prems(1) remote_post_eq proxy_post_eq mem_post_keeps
    by (auto simp: MemState_post_def proxy_invar_def)
  show ?case
    using Cons.prems(2) get post Cons.IH
    by (cases step) (auto simp: case_prod_beta split: prod.splits outcome.splits)
qed simp

text \<open>
  What a program observes of the relay through TCP connections and HTTP is what it observes of the store in
  memory: every sequence of reads, posts and checks has the same outcome and leaves the store in the same state.
\<close>

theorem remote_test_refines_store:
  assumes "proxy_invar s" and "list_all test_ok steps"
  shows "run_test (ProxyState_get RemoteServer_call) (ProxyState_post RemoteServer_call) s steps
    = run_test MemState_get MemState_post s steps"
  using assms by (rule remote_run_test)

lemma test_main_ok: "list_all test_ok test_main"
  by (simp add: test_main_def Let_def proxy_id_def proxy_msg_def wf_word_def as_bytes_def char_bytes_def isize_bound_def)

theorem remote_test_refines_store_witness:
  "run_test (ProxyState_get RemoteServer_call) (ProxyState_post RemoteServer_call) MemState_default test_main
    = run_test MemState_get MemState_post MemState_default test_main"
  by (rule remote_test_refines_store) (simp_all add: test_main_ok proxy_invar_def)

text \<open>The test of the repository passes against a fresh server.\<close>

lemma as_bytes_test_msgs:
  "as_bytes ''Msg # 0'' \<noteq> []" "as_bytes ''Msg # 1'' \<noteq> []" "as_bytes ''Msg # 2'' \<noteq> []"
  by (simp_all add: as_bytes_def char_bytes_def)

lemma mem_test_passes: "is_ok (run_test MemState_get MemState_post MemState_default test_main)"
  using as_bytes_test_msgs
  by (simp add: test_main_def Let_def MemState_get_def MemState_post_def MemState_default_def)

lemma relay_server_test_passes:
  "is_ok (run_test (ProxyState_get RemoteServer_call) (ProxyState_post RemoteServer_call) MemState_default test_main)"
proof -
  have "proxy_invar MemState_default" by (simp add: proxy_invar_def)
  then show ?thesis using mem_test_passes remote_run_test [OF _ test_main_ok] by simp
qed

section \<open>The program relay-server\<close>

text \<open>\<^verbatim>\<open>main\<close> of the server on the connections it is given; an address that cannot be bound is unwrapped.\<close>

definition relay_server_main :: "bool \<Rightarrow> (io_error, bytes) outcome list \<Rightarrow> program_end" where
  "relay_server_main binds conns =
     (if binds then (case Server_run MemState_default conns of (outs, s, alive) \<Rightarrow> if alive then Running else Crashed)
      else Crashed)"

text \<open>A failed connection neither ends the program nor changes how it goes on.\<close>

lemma relay_server_main_skips_failed: "relay_server_main binds (Err e # conns) = relay_server_main binds conns"
  by (simp add: relay_server_main_def)

end
