(* ===== verification/BitcoinNode.thy ===== *)
theory BitcoinNode
  imports Prelude
begin

text \<open>
  The client of the bitcoin node (\<^verbatim>\<open>stacks-coordinator/src/bitcoin_node.rs\<close>). A JSON value of
  \<^verbatim>\<open>serde_json\<close> is the datatype \<open>json\<close>. The remote procedure call itself, the join of URLs, the
  descriptor checksum, the conversion of an amount in BTC to satoshis and the encoding of a
  transaction come from other crates and are the record \<open>bitcoind\<close>.
\<close>

section \<open>JSON values\<close>

text \<open>A number is an integer or some other literal, kept as its text.\<close>

datatype json =
    JNull
  | JBool bool
  | JInt int
  | JFloat string
  | JStr string
  | JArr "json list"
  | JObj "(string \<times> json) list"

fun json_get :: "string \<Rightarrow> json \<Rightarrow> json option" where
  "json_get k (JObj kvs) = map_of kvs k"
| "json_get k j = None"

text \<open>\<^verbatim>\<open>value["key"]\<close>: null when there is no such entry.\<close>

definition json_index :: "json \<Rightarrow> string \<Rightarrow> json" where
  "json_index j k = (case json_get k j of Some v \<Rightarrow> v | None \<Rightarrow> JNull)"

fun as_str :: "json \<Rightarrow> string option" where
  "as_str (JStr s) = Some s"
| "as_str j = None"

fun as_bool :: "json \<Rightarrow> bool option" where
  "as_bool (JBool b) = Some b"
| "as_bool j = None"

fun as_u64 :: "json \<Rightarrow> u64 option" where
  "as_u64 (JInt n) = (if 0 \<le> n \<and> n < 2 ^ 64 then Some (of_int n) else None)"
| "as_u64 j = None"

fun as_array :: "json \<Rightarrow> json list option" where
  "as_array (JArr xs) = Some xs"
| "as_array j = None"

fun is_number :: "json \<Rightarrow> bool" where
  "is_number (JInt n) = True"
| "is_number (JFloat s) = True"
| "is_number j = False"

section \<open>Calls\<close>

datatype bitcoin_node_error =
    IOError
  | RPCError string
  | InvalidResponseJSON string
  | InvalidUTXO string
  | InvalidTxHash
  | DescriptorError
  | UrlParseError

record UTXO =
  ut_txid :: string
  ut_vout :: u32
  ut_address :: string
  ut_label :: string
  ut_scriptPubKey :: string
  ut_amount :: u64
  ut_confirmations :: u64
  ut_redeemScript :: string
  ut_witnessScript :: string
  ut_spendable :: bool
  ut_solvable :: bool
  ut_reused :: bool
  ut_desc :: string
  ut_safe :: bool

text \<open>
  \<open>rpc_post\<close> posts a body to a URL: \<open>Err\<close> with the text of \<^verbatim>\<open>parse_rpc_error\<close>, or the body of the
  answer, \<open>None\<close> when it is not JSON.
\<close>

record ('tx, 'th) bitcoind =
  rpc_post :: "string \<Rightarrow> json \<Rightarrow> (string, json option) outcome"
  url_join :: "string \<Rightarrow> string \<Rightarrow> string option"
  calc_checksum :: "string \<Rightarrow> string option"
  from_btc :: "json \<Rightarrow> u64 option"
  show_f64 :: "json \<Rightarrow> string"
  encode_tx :: "'tx \<Rightarrow> string option"
  parse_txhash :: "string \<Rightarrow> 'th option"

record LocalhostBitcoinNode =
  bitcoind_api :: string
  wallet_name :: string

definition LocalhostBitcoinNode_new :: "string \<Rightarrow> LocalhostBitcoinNode" where
  "LocalhostBitcoinNode_new api = \<lparr>bitcoind_api = api, wallet_name = ''stacks_coordinator''\<rparr>"

definition call_path ::
  "('tx, 'th) bitcoind \<Rightarrow> LocalhostBitcoinNode \<Rightarrow> string \<Rightarrow> json \<Rightarrow> string option
    \<Rightarrow> (bitcoin_node_error, json) outcome" where
  "call_path bd n meth params path =
     (let json_rpc = JObj [(''jsonrpc'', JStr ''2.0''), (''id'', JStr ''stx''), (''method'', JStr meth), (''params'', params)] in
      obind (case path of
               Some p \<Rightarrow> ok_or UrlParseError (url_join bd (bitcoind_api n) p)
             | None \<Rightarrow> Ok (bitcoind_api n)) (\<lambda>url.
      obind (map_err RPCError (rpc_post bd url json_rpc)) (\<lambda>body.
      obind (ok_or IOError body) (\<lambda>json_response.
        ok_or (InvalidResponseJSON ''Missing entry 'result'.'') (json_get ''result'' json_response)))))"

definition node_call where
  "node_call bd n meth params = call_path bd n meth params None"

definition call_wallet where
  "call_wallet bd n meth params = call_path bd n meth params (Some (''/wallet/'' @ wallet_name n))"

definition raw_to_utxo :: "('tx, 'th) bitcoind \<Rightarrow> json \<Rightarrow> (bitcoin_node_error, UTXO) outcome" where
  "raw_to_utxo bd raw =
     obind (ok_or (InvalidResponseJSON ''Could not parse txid'') (as_str (json_index raw ''txid''))) (\<lambda>txid.
     obind (ok_or (InvalidResponseJSON ''Could not parse vout'') (as_u64 (json_index raw ''vout''))) (\<lambda>vout.
     obind (ok_or (InvalidResponseJSON ''Could not parse address'') (as_str (json_index raw ''address''))) (\<lambda>address.
     obind (ok_or (InvalidResponseJSON ''Could not parse label'') (as_str (json_index raw ''label''))) (\<lambda>label.
     obind (ok_or (InvalidResponseJSON ''Could not parse scriptPubKey'') (as_str (json_index raw ''scriptPubKey''))) (\<lambda>spk.
     obind (if is_number (json_index raw ''amount'')
            then ok_or (InvalidResponseJSON (''Could not parse the float '' @ show_f64 bd (json_index raw ''amount'') @
              '' as a bitcoin amount'')) (from_btc bd (json_index raw ''amount''))
            else Err (InvalidResponseJSON ''Amount not provided or wrong type'')) (\<lambda>amount.
     obind (ok_or (InvalidResponseJSON ''Could not parse confirmations'') (as_u64 (json_index raw ''confirmations''))) (\<lambda>confirmations.
     obind (ok_or (InvalidResponseJSON ''Could not parse spendable'') (as_bool (json_index raw ''spendable''))) (\<lambda>spendable.
     obind (ok_or (InvalidResponseJSON ''Could not parse solvable'') (as_bool (json_index raw ''solvable''))) (\<lambda>solvable.
     obind (ok_or (InvalidResponseJSON ''Could not parse safe'') (as_bool (json_index raw ''safe''))) (\<lambda>safe.
       Ok \<lparr>ut_txid = txid, ut_vout = ucast vout, ut_address = address, ut_label = label, ut_scriptPubKey = spk,
           ut_amount = amount, ut_confirmations = confirmations, ut_redeemScript = [], ut_witnessScript = [],
           ut_spendable = spendable, ut_solvable = solvable, ut_reused = False, ut_desc = [], ut_safe = safe\<rparr>))))))))))"

text \<open>\<^verbatim>\<open>collect\<close> into a \<^verbatim>\<open>Result\<close>: the first error ends it.\<close>

fun collect_utxos :: "('tx, 'th) bitcoind \<Rightarrow> json list \<Rightarrow> (bitcoin_node_error, UTXO list) outcome" where
  "collect_utxos bd [] = Ok []"
| "collect_utxos bd (j # js) = obind (raw_to_utxo bd j) (\<lambda>u. obind (collect_utxos bd js) (\<lambda>us. Ok (u # us)))"

definition list_unspent ::
  "('tx, 'th) bitcoind \<Rightarrow> LocalhostBitcoinNode \<Rightarrow> string \<Rightarrow> (bitcoin_node_error, UTXO list) outcome" where
  "list_unspent bd n address =
     obind (call_wallet bd n ''listunspent'' (JArr [JInt 0, JInt 9999999, JArr [JStr address]])) (\<lambda>response.
     obind (ok_or (InvalidResponseJSON ''Listunspent response is not an array'') (as_array response)) (\<lambda>raws.
       collect_utxos bd raws))"

definition broadcast_bitcoin ::
  "('tx, 'th) bitcoind \<Rightarrow> LocalhostBitcoinNode \<Rightarrow> 'tx \<Rightarrow> (bitcoin_node_error, 'th) outcome" where
  "broadcast_bitcoin bd n tx =
     obind (ok_or IOError (encode_tx bd tx)) (\<lambda>raw_tx.
     obind (node_call bd n ''sendrawtransaction'' (JArr [JStr raw_tx])) (\<lambda>result.
     obind (ok_or (InvalidResponseJSON ''No transaction hash in sendrawtransaction response'') (as_str result)) (\<lambda>s.
       ok_or InvalidTxHash (parse_txhash bd s))))"

text \<open>The answer must have the shape of \<^verbatim>\<open>Wallet\<close>: a name and a warning.\<close>

definition create_empty_wallet ::
  "('tx, 'th) bitcoind \<Rightarrow> LocalhostBitcoinNode \<Rightarrow> (bitcoin_node_error, unit) outcome" where
  "create_empty_wallet bd n =
     obind (node_call bd n ''createwallet'' (JArr [JStr (wallet_name n), JBool True, JBool True, JStr [],
              JBool False, JBool True, JBool True])) (\<lambda>w.
       case (Option.bind (json_get ''name'' w) as_str, Option.bind (json_get ''warning'' w) as_str) of
         (Some name, Some warning) \<Rightarrow> Ok ()
       | _ \<Rightarrow> Err (InvalidResponseJSON ''Wallet''))"

definition import_address ::
  "('tx, 'th) bitcoind \<Rightarrow> LocalhostBitcoinNode \<Rightarrow> string \<Rightarrow> (bitcoin_node_error, unit) outcome" where
  "import_address bd n address =
     (let descriptor = ''addr('' @ address @ '')'' in
      obind (ok_or DescriptorError (calc_checksum bd descriptor)) (\<lambda>checksum.
      obind (call_wallet bd n ''importdescriptors'' (JArr [JArr [JObj [
               (''desc'', JStr (descriptor @ ''#'' @ checksum)), (''timestamp'', JStr ''now''), (''internal'', JBool False),
               (''watchonly'', JBool True), (''label'', JStr []), (''keypool'', JBool True), (''rescan'', JBool True)]]])) (\<lambda>r.
        Ok ())))"

fun str_contains :: "string \<Rightarrow> string \<Rightarrow> bool" where
  "str_contains [] pat = (pat = [])"
| "str_contains (c # cs) pat = (take (length pat) (c # cs) = pat \<or> str_contains cs pat)"

definition load_wallet ::
  "('tx, 'th) bitcoind \<Rightarrow> LocalhostBitcoinNode \<Rightarrow> string \<Rightarrow> (bitcoin_node_error, unit) outcome" where
  "load_wallet bd n address =
     (case create_empty_wallet bd n of
        Err (RPCError message) \<Rightarrow>
          if str_contains message ''Database already exists'' then import_address bd n address
          else Err (RPCError message)
      | Panic \<Rightarrow> Panic
      | _ \<Rightarrow> import_address bd n address)"

section \<open>Lemmas\<close>

lemma collect_utxos_Ok:
  "collect_utxos bd js = Ok us \<longleftrightarrow> list_all2 (\<lambda>j u. raw_to_utxo bd j = Ok u) js us"
proof (induction js arbitrary: us)
  case (Cons j js)
  then show ?case by (cases us) (auto simp: obind_Ok_iff)
qed auto

text \<open>Every unspent output has exactly the numbers of the node's answer; an output index beyond 32
  bits is cut to its low half.\<close>

lemma raw_to_utxo_fields:
  assumes "raw_to_utxo bd raw = Ok u"
  shows "as_str (json_index raw ''txid'') = Some (ut_txid u)"
    and "\<exists>v. as_u64 (json_index raw ''vout'') = Some v \<and> ut_vout u = ucast v"
    and "from_btc bd (json_index raw ''amount'') = Some (ut_amount u)"
    and "as_str (json_index raw ''scriptPubKey'') = Some (ut_scriptPubKey u)"
  using assms by (auto simp: raw_to_utxo_def obind_Ok_iff split: if_splits)

end
