(* ===== verification/StacksNode.thy ===== *)
theory StacksNode
  imports BitcoinNode FrostConfig
begin

text \<open>
  The client of the stacks node (\<^verbatim>\<open>stacks-coordinator/src/stacks_node/mod.rs\<close> and \<^verbatim>\<open>client.rs\<close>).
  What the node answers while a call runs is the record \<open>node_http\<close>, together with the decoders of
  the \<^verbatim>\<open>blockstack_lib\<close>, \<^verbatim>\<open>wsts\<close> and \<^verbatim>\<open>bitcoin\<close> crates. Clarity values are a datatype with the
  constructors the client looks at.
\<close>

section \<open>Operations, values and errors\<close>

text \<open>The operations of \<^verbatim>\<open>blockstack_lib\<close>, with the fields the program reads.\<close>

record ('tx, 'bh, 'pr) PegInOp =
  pi_recipient :: 'pr
  pi_amount :: u64
  pi_txid :: 'tx
  pi_block_height :: u64
  pi_burn_header_hash :: 'bh

record ('tx, 'bh, 'ad) PegOutRequestOp =
  po_amount :: u64
  po_recipient :: 'ad
  po_fulfillment_fee :: u64
  po_txid :: 'tx
  po_block_height :: u64
  po_burn_header_hash :: 'bh

datatype clarity =
    CUInt u128
  | CBuffer bytes
  | CList "clarity list"
  | CASCII string
  | CPrincipal string
  | CTuple "(string \<times> clarity) list"
  | COptional "clarity option"
  | COther string

datatype BroadcastError =
    FeeTooLow u64 u64
  | NotEnoughFunds string
  | ConflictingNonceInMempool
  | Other string

datatype stacks_node_error =
    InvalidJsonEntry string
  | UnknownBlockHeight u64
  | UnknownAddress string
  | NodeJsonError
  | ReqwestError
  | CodecError
  | NodeTimeout
  | BehindChainTip
  | BroadcastError BroadcastError
  | ReadOnlyFailure string
  | SerializationError
  | NoCoordinatorData
  | NoSignerData u128
  | MalformedClarityValue string clarity
  | Utf8Error
  | NodeUrlParseError

text \<open>A rejected broadcast, from the body of the node's answer.\<close>

definition BroadcastError_from :: "(json \<Rightarrow> string) \<Rightarrow> json \<Rightarrow> BroadcastError" where
  "BroadcastError_from show_json v =
     (let reason = (case Option.bind (json_get ''reason'' v) as_str of Some r \<Rightarrow> r | None \<Rightarrow> ''Unknown Reason'') in
      if reason = ''FeeTooLow'' then
        FeeTooLow (case Option.bind (json_get ''expected'' v) as_u64 of Some n \<Rightarrow> n | None \<Rightarrow> 0)
          (case Option.bind (json_get ''actual'' v) as_u64 of Some n \<Rightarrow> n | None \<Rightarrow> 0)
      else if reason = ''NotEnoughFunds'' then
        NotEnoughFunds (show_json (case json_get ''reason_data'' v of Some d \<Rightarrow> d | None \<Rightarrow> JStr ''No Reason Data''))
      else if reason = ''ConflictingNonceInMempool'' then ConflictingNonceInMempool
      else Other reason)"

section \<open>The client\<close>

text \<open>
  \<open>nh_get\<close>: the answer to a GET, retried under the backoff timer: \<open>None\<close> when it ran out. \<open>nh_post\<close>: the
  answer to a POST, \<open>None\<close> when it could not be sent. An answer has a status and a body, \<open>None\<close> when
  the body is not JSON.
\<close>

record ('tx, 'bh, 'pr, 'ad, 'stx, 'pk, 'xk) node_http =
  nh_join :: "string \<Rightarrow> string \<Rightarrow> string option"
  nh_get :: "string \<Rightarrow> (nat \<times> json option) option"
  nh_post :: "string \<Rightarrow> string \<Rightarrow> bytes \<Rightarrow> (nat \<times> json option) option"
  nh_show_json :: "json \<Rightarrow> string"
  nh_peg_in_ops :: "json \<Rightarrow> ('tx, 'bh, 'pr) PegInOp list option"
  nh_peg_out_ops :: "json \<Rightarrow> ('tx, 'bh, 'ad) PegOutRequestOp list option"
  nh_clarity :: "string \<Rightarrow> clarity option"
  nh_show_clarity :: "clarity \<Rightarrow> string"
  nh_serialize_tx :: "'stx \<Rightarrow> bytes option"
  nh_public_key :: "bytes \<Rightarrow> 'pk option"
  nh_xonly_key :: "bytes \<Rightarrow> 'xk option"

record NodeClient =
  nc_node_url :: string
  nc_contract_name :: string
  nc_contract_address :: string
  nc_next_nonce :: "u64 option"

definition NodeClient_new :: "string \<Rightarrow> string \<Rightarrow> string \<Rightarrow> NodeClient" where
  "NodeClient_new url name addr =
     \<lparr>nc_node_url = url, nc_contract_name = name, nc_contract_address = addr, nc_next_nonce = None\<rparr>"

definition build_url where
  "build_url H c route = ok_or NodeUrlParseError (nh_join H (nc_node_url c) route)"

definition get_response ::
  "('tx, 'bh, 'pr, 'ad, 'stx, 'pk, 'xk) node_http \<Rightarrow> NodeClient \<Rightarrow> string
    \<Rightarrow> (stacks_node_error, nat \<times> json option) outcome" where
  "get_response H c route =
     obind (build_url H c route) (\<lambda>url. ok_or NodeTimeout (nh_get H url))"

definition get_burn_ops ::
  "('tx, 'bh, 'pr, 'ad, 'stx, 'pk, 'xk) node_http \<Rightarrow> NodeClient \<Rightarrow> (json \<Rightarrow> 'op list option) \<Rightarrow> u64 \<Rightarrow> string
    \<Rightarrow> (stacks_node_error, 'op list) outcome" where
  "get_burn_ops H c decode block_height op =
     obind (get_response H c (''/v2/burn_ops/'' @ show_nat (unat block_height) @ ''/'' @ op)) (\<lambda>(status, body).
     obind (ok_or (UnknownBlockHeight block_height) body) (\<lambda>j.
       ok_or NodeJsonError (decode (json_index j op))))"

definition get_peg_in_ops where
  "get_peg_in_ops H c h = get_burn_ops H c (nh_peg_in_ops H) h ''peg_in''"

definition get_peg_out_request_ops where
  "get_peg_out_request_ops H c h = get_burn_ops H c (nh_peg_out_ops H) h ''peg_out_request''"

definition burn_block_height ::
  "('tx, 'bh, 'pr, 'ad, 'stx, 'pk, 'xk) node_http \<Rightarrow> NodeClient \<Rightarrow> (stacks_node_error, u64) outcome" where
  "burn_block_height H c =
     obind (get_response H c ''/v2/info'') (\<lambda>(status, body).
     obind (ok_or ReqwestError body) (\<lambda>j.
       ok_or (InvalidJsonEntry ''burn_block_height'') (as_u64 (json_index j ''burn_block_height''))))"

definition next_nonce ::
  "('tx, 'bh, 'pr, 'ad, 'stx, 'pk, 'xk) node_http \<Rightarrow> string \<Rightarrow> NodeClient
    \<Rightarrow> (stacks_node_error, u64) outcome \<times> NodeClient" where
  "next_nonce H address c =
     (case nc_next_nonce c of
        Some nonce \<Rightarrow> (Ok (nonce + 1), c\<lparr>nc_next_nonce := Some (nonce + 1)\<rparr>)
      | None \<Rightarrow>
          (case obind (get_response H c (''/v2/accounts/'' @ address)) (\<lambda>(status, body).
                  if status = 404 then Err (UnknownAddress address)
                  else obind (ok_or BehindChainTip body) (\<lambda>j.
                    ok_or (InvalidJsonEntry ''nonce'') (Option.bind (json_get ''nonce'' j) as_u64))) of
             Ok nonce \<Rightarrow> (Ok nonce, c\<lparr>nc_next_nonce := Some nonce\<rparr>)
           | Err e \<Rightarrow> (Err e, c)
           | Panic \<Rightarrow> (Panic, c)))"

definition broadcast_transaction ::
  "('tx, 'bh, 'pr, 'ad, 'stx, 'pk, 'xk) node_http \<Rightarrow> NodeClient \<Rightarrow> 'stx \<Rightarrow> (stacks_node_error, unit) outcome" where
  "broadcast_transaction H c tx =
     obind (build_url H c ''/v2/transactions'') (\<lambda>url.
     obind (ok_or CodecError (nh_serialize_tx H tx)) (\<lambda>buffer.
     obind (ok_or ReqwestError (nh_post H url ''application/octet-stream'' buffer)) (\<lambda>(status, body).
       if status \<noteq> 200 then
         obind (ok_or ReqwestError body) (\<lambda>j. Err (BroadcastError (BroadcastError_from (nh_show_json H) j)))
       else Ok ())))"

section \<open>Read-only contract calls\<close>

definition call_read ::
  "('tx, 'bh, 'pr, 'ad, 'stx, 'pk, 'xk) node_http \<Rightarrow> NodeClient \<Rightarrow> string \<Rightarrow> string \<Rightarrow> string list
    \<Rightarrow> (stacks_node_error, string) outcome" where
  "call_read H c sender function_name function_args =
     (let body = nh_show_json H (JObj [(''sender'', JStr sender), (''arguments'', JArr (map JStr function_args))]) in
      obind (build_url H c (''/v2/contracts/call-read/'' @ nc_contract_address c @ ''/'' @ nc_contract_name c @ ''/''
              @ function_name)) (\<lambda>url.
      obind (ok_or ReqwestError (nh_post H url ''application/json'' (as_bytes body))) (\<lambda>(status, resp).
      obind (ok_or ReqwestError resp) (\<lambda>response.
        if Option.bind (json_get ''okay'' response) as_bool \<noteq> Some True then
          obind (ok_or (InvalidJsonEntry ''cause'') (json_get ''cause'' response)) (\<lambda>cause.
            Err (ReadOnlyFailure (function_name @ '': '' @ nh_show_json H cause)))
        else
          obind (ok_or (InvalidJsonEntry ''result'') (json_get ''result'' response)) (\<lambda>result.
            ok_or (ReadOnlyFailure ''Expected string result.'') (as_str result))))))"

definition call_clarity where
  "call_clarity H c sender function_name function_args =
     obind (call_read H c sender function_name function_args) (\<lambda>hex. ok_or SerializationError (nh_clarity H hex))"

definition call_uint where
  "call_uint H c sender function_name =
     obind (call_clarity H c sender function_name []) (\<lambda>v.
       case v of CUInt n \<Rightarrow> Ok n | _ \<Rightarrow> Err (MalformedClarityValue function_name v))"

definition num_signers where
  "num_signers H c sender = call_uint H c sender ''get-num-signers''"

definition keys_threshold_call where
  "keys_threshold_call H c sender = call_uint H c sender ''get-threshold''"

text \<open>\<^verbatim>\<open>try_into().unwrap()\<close> from 128 to 32 bits.\<close>

definition u32_of_u128 :: "u128 \<Rightarrow> ('e, u32) outcome" where
  "u32_of_u128 n = (if unat n < 2 ^ 32 then Ok (ucast n) else Panic)"

text \<open>The loop over the key ids of one signer.\<close>

fun signer_keys_loop ::
  "clarity \<Rightarrow> 'pk \<Rightarrow> clarity list \<Rightarrow> 'pk PublicKeys \<Rightarrow> u32 list
    \<Rightarrow> (stacks_node_error, u32 list) outcome \<times> 'pk PublicKeys" where
  "signer_keys_loop data pk [] pks acc = (Ok acc, pks)"
| "signer_keys_loop data pk (k # ks) pks acc =
     (case k of
        CUInt n \<Rightarrow>
          (case u32_of_u128 n of
             Ok i \<Rightarrow> signer_keys_loop data pk ks (pks\<lparr>key_ids := hm_insert i pk (key_ids pks)\<rparr>) (acc @ [i])
           | Err e \<Rightarrow> (Err e, pks)
           | Panic \<Rightarrow> (Panic, pks))
      | _ \<Rightarrow> (Err (MalformedClarityValue ''get-signer-data'' data), pks))"

text \<open>\<^verbatim>\<open>signer_data\<close>, which fills the two tables it is given.\<close>

definition signer_data ::
  "('tx, 'bh, 'pr, 'ad, 'stx, 'pk, 'xk) node_http \<Rightarrow> NodeClient \<Rightarrow> string \<Rightarrow> u128
    \<Rightarrow> 'pk PublicKeys \<times> SignerKeyIds \<Rightarrow> (stacks_node_error, unit) outcome \<times> 'pk PublicKeys \<times> SignerKeyIds" where
  "signer_data H c sender i tables =
     (let fname = ''get-signer-data''; (pks, skis) = tables in
      case call_clarity H c sender fname [nh_show_clarity H (CUInt i)] of
        Err e \<Rightarrow> (Err e, pks, skis)
      | Panic \<Rightarrow> (Panic, pks, skis)
      | Ok data \<Rightarrow>
          (case data of
             COptional (Some (CTuple tup)) \<Rightarrow>
               (case map_of tup ''public-key'' of
                  Some (CBuffer key) \<Rightarrow>
                    (case nh_public_key H key of
                       None \<Rightarrow> (Err (MalformedClarityValue fname data), pks, skis)
                     | Some pk \<Rightarrow>
                         (case u32_of_u128 i of
                            Ok i32 \<Rightarrow>
                              (let pks1 = pks\<lparr>signers := hm_insert i32 pk (signers pks)\<rparr> in
                               case map_of tup ''key-ids'' of
                                 Some (CList ks) \<Rightarrow>
                                   (case signer_keys_loop data pk ks pks1 [] of
                                      (Ok ids, pks2) \<Rightarrow>
                                        (Err (MalformedClarityValue fname data), pks2, hm_insert i32 ids skis)
                                    | (Err e, pks2) \<Rightarrow> (Err e, pks2, skis)
                                    | (Panic, pks2) \<Rightarrow> (Panic, pks2, skis))
                               | _ \<Rightarrow> (Err (MalformedClarityValue fname data), pks1, skis))
                          | Err e \<Rightarrow> (Err e, pks, skis)
                          | Panic \<Rightarrow> (Panic, pks, skis)))
                | _ \<Rightarrow> (Err (MalformedClarityValue fname data), pks, skis))
           | COptional _ \<Rightarrow> (Err (NoSignerData i), pks, skis)
           | _ \<Rightarrow> (Err (MalformedClarityValue fname data), pks, skis)))"

fun all_signer_data ::
  "('tx, 'bh, 'pr, 'ad, 'stx, 'pk, 'xk) node_http \<Rightarrow> NodeClient \<Rightarrow> string \<Rightarrow> u128 list
    \<Rightarrow> 'pk PublicKeys \<times> SignerKeyIds \<Rightarrow> (stacks_node_error, 'pk PublicKeys \<times> SignerKeyIds) outcome" where
  "all_signer_data H c sender [] tables = Ok tables"
| "all_signer_data H c sender (i # is) tables =
     (case signer_data H c sender i tables of
        (Ok u, tables1) \<Rightarrow> all_signer_data H c sender is tables1
      | (Err e, tables1) \<Rightarrow> Err e
      | (Panic, tables1) \<Rightarrow> Panic)"

definition signer_tables where
  "signer_tables H c sender =
     obind (num_signers H c sender) (\<lambda>total.
       all_signer_data H c sender (map of_nat [1..<Suc (unat total)]) (PublicKeys_default, []))"

definition public_keys_call where
  "public_keys_call H c sender = obind (signer_tables H c sender) (\<lambda>(pks, skis). Ok pks)"

definition signer_key_ids_call where
  "signer_key_ids_call H c sender = obind (signer_tables H c sender) (\<lambda>(pks, skis). Ok skis)"

definition coordinator_public_key_call ::
  "('tx, 'bh, 'pr, 'ad, 'stx, 'pk, 'xk) node_http \<Rightarrow> NodeClient \<Rightarrow> string
    \<Rightarrow> (stacks_node_error, 'pk option) outcome" where
  "coordinator_public_key_call H c sender =
     (let fname = ''get-coordinator-data'' in
      obind (call_clarity H c sender fname []) (\<lambda>data.
        case data of
          COptional opt \<Rightarrow>
            (case opt of
               Some (CTuple tup) \<Rightarrow>
                 obind (ok_or (MalformedClarityValue fname data) (map_of tup ''key'')) (\<lambda>v.
                   case v of
                     CBuffer key \<Rightarrow>
                       obind (ok_or (MalformedClarityValue fname data) (nh_public_key H key)) (\<lambda>pk. Ok (Some pk))
                   | _ \<Rightarrow> Err (MalformedClarityValue fname data))
             | _ \<Rightarrow> Err (MalformedClarityValue fname data))
        | _ \<Rightarrow> Ok None))"

definition bitcoin_wallet_public_key_call ::
  "('tx, 'bh, 'pr, 'ad, 'stx, 'pk, 'xk) node_http \<Rightarrow> NodeClient \<Rightarrow> string
    \<Rightarrow> (stacks_node_error, 'xk option) outcome" where
  "bitcoin_wallet_public_key_call H c sender =
     (let fname = ''get-bitcoin-wallet-public-key'' in
      obind (call_clarity H c sender fname []) (\<lambda>data.
        case data of
          COptional (Some (CBuffer key)) \<Rightarrow>
            obind (ok_or (MalformedClarityValue fname data) (nh_xonly_key H key)) (\<lambda>xk. Ok (Some xk))
        | COptional _ \<Rightarrow> Ok None
        | _ \<Rightarrow> Err (MalformedClarityValue fname data)))"

section \<open>Properties\<close>

lemma signer_data_not_Ok: "fst (signer_data H c sender i tables) \<noteq> Ok u"
  by (auto simp: signer_data_def Let_def split: prod.splits outcome.splits clarity.splits option.splits)

lemma all_signer_data_Ok: "all_signer_data H c sender is tables = Ok res \<longleftrightarrow> is = [] \<and> res = tables"
proof (cases "is")
  case (Cons i js)
  obtain r ts where "signer_data H c sender i tables = (r, ts)" by (cases "signer_data H c sender i tables") auto
  with signer_data_not_Ok [of H c sender i tables] Cons show ?thesis by (cases r) auto
qed auto

text \<open>
  The signers' keys can never be read from the contract. \<^verbatim>\<open>signer_data\<close> ends in an error even when
  the contract's answer has the expected shape, so \<^verbatim>\<open>public_keys\<close> and \<^verbatim>\<open>signer_key_ids\<close> return tables
  only when the contract has no signers at all, and then the tables are empty.
\<close>

theorem signer_keys_unreadable:
  "(is_ok (public_keys_call H c sender) \<longleftrightarrow> num_signers H c sender = Ok 0)
   \<and> (is_ok (signer_key_ids_call H c sender) \<longleftrightarrow> num_signers H c sender = Ok 0)
   \<and> fst (signer_data H c sender i tables) \<noteq> Ok ()"
proof -
  have "signer_tables H c sender = Ok res \<longleftrightarrow> num_signers H c sender = Ok 0 \<and> res = (PublicKeys_default, [])" for res
  proof -
    have "map of_nat [1..<Suc (unat n)] = ([] :: u128 list) \<longleftrightarrow> n = 0" for n :: u128
      by (auto simp: not_le less_Suc_eq_le unat_eq_zero)
    then show ?thesis by (auto simp: signer_tables_def obind_Ok_iff all_signer_data_Ok)
  qed
  then show ?thesis
    by (auto simp: is_ok_iff public_keys_call_def signer_key_ids_call_def obind_Ok_iff signer_data_not_Ok)
qed

text \<open>
  The two ways of having no coordinator are mixed up. Where the contract answers with an empty
  optional, which is its way of saying that no coordinator is set, \<^verbatim>\<open>coordinator_public_key\<close> reports a
  malformed value; where the answer is not an optional at all, it reports that there is no
  coordinator. A well-formed answer gives the key.
\<close>

theorem coordinator_key_cases:
  assumes "call_clarity H c sender ''get-coordinator-data'' [] = Ok data"
  shows "coordinator_public_key_call H c sender =
    (case data of
       COptional None \<Rightarrow> Err (MalformedClarityValue ''get-coordinator-data'' data)
     | COptional (Some (CTuple tup)) \<Rightarrow>
         (case map_of tup ''key'' of
            Some (CBuffer key) \<Rightarrow>
              (case nh_public_key H key of
                 Some pk \<Rightarrow> Ok (Some pk)
               | None \<Rightarrow> Err (MalformedClarityValue ''get-coordinator-data'' data))
          | _ \<Rightarrow> Err (MalformedClarityValue ''get-coordinator-data'' data))
     | COptional (Some v) \<Rightarrow> Err (MalformedClarityValue ''get-coordinator-data'' data)
     | _ \<Rightarrow> Ok None)"
  using assms
  by (auto simp: coordinator_public_key_call_def Let_def split: clarity.split option.split)

definition demo_http :: "json \<Rightarrow> clarity \<Rightarrow> (nat, nat, nat, nat, bytes, bytes, bytes) node_http" where
  "demo_http j v = \<lparr>nh_join = (\<lambda>b r. Some (b @ r)), nh_get = (\<lambda>u. Some (200, Some j)),
     nh_post = (\<lambda>u t b. Some (200, Some j)), nh_show_json = (\<lambda>j. []), nh_peg_in_ops = (\<lambda>j. Some []),
     nh_peg_out_ops = (\<lambda>j. Some []), nh_clarity = (\<lambda>s. Some v), nh_show_clarity = (\<lambda>v. []),
     nh_serialize_tx = (\<lambda>t. Some t), nh_public_key = (\<lambda>b. Some b), nh_xonly_key = (\<lambda>b. Some b)\<rparr>"

definition demo_okay :: json where
  "demo_okay = JObj [(''okay'', JBool True), (''result'', JStr ''0x09''), (''nonce'', JInt 41)]"

definition demo_client :: NodeClient where
  "demo_client = NodeClient_new ''http://node'' ''sbtc'' ''ST1''"

theorem coordinator_key_cases_witness:
  "coordinator_public_key_call (demo_http demo_okay (COptional None)) demo_client ''ST1''
     = Err (MalformedClarityValue ''get-coordinator-data'' (COptional None))"
proof -
  have "call_clarity (demo_http demo_okay (COptional None)) demo_client ''ST1'' ''get-coordinator-data'' []
      = Ok (COptional None)"
    by (simp add: call_clarity_def call_read_def build_url_def demo_http_def demo_okay_def Let_def)
  from coordinator_key_cases [OF this] show ?thesis by simp
qed

text \<open>Asking for a nonce \<open>k\<close> times.\<close>

fun nonce_run ::
  "('tx, 'bh, 'pr, 'ad, 'stx, 'pk, 'xk) node_http \<Rightarrow> string \<Rightarrow> nat \<Rightarrow> NodeClient
    \<Rightarrow> (stacks_node_error, u64) outcome list \<times> NodeClient" where
  "nonce_run H a 0 c = ([], c)"
| "nonce_run H a (Suc k) c =
     (case next_nonce H a c of (r, c1) \<Rightarrow> (case nonce_run H a k c1 of (rs, c2) \<Rightarrow> (r # rs, c2)))"

lemma nonce_run_cached:
  assumes "nc_next_nonce c = Some n"
  shows "fst (nonce_run H a k c) = map (\<lambda>i. Ok (n + 1 + of_nat i)) [0..<k]"
  using assms
proof (induction k arbitrary: c n)
  case (Suc k)
  have "fst (nonce_run H a (Suc k) c) = Ok (n + 1) # fst (nonce_run H a k (c\<lparr>nc_next_nonce := Some (n + 1)\<rparr>))"
    using Suc.prems by (simp add: next_nonce_def case_prod_beta)
  also have "\<dots> = Ok (n + 1) # map (\<lambda>i. Ok (n + 1 + 1 + of_nat i)) [0..<k]"
    using Suc.IH [of "c\<lparr>nc_next_nonce := Some (n + 1)\<rparr>" "n + 1"] by simp
  also have "\<dots> = map (\<lambda>i. Ok (n + 1 + of_nat i)) [0..<Suc k]"
    by (simp add: upt_conv_Cons map_Suc_upt [symmetric] add.assoc del: upt_Suc)
  finally show ?case .
qed simp

text \<open>
  Nonces are handed out one by one. Once the node has told the account's nonce \<open>n\<close>, \<open>k\<close> calls of
  \<^verbatim>\<open>next_nonce\<close> return \<open>n, n + 1, n + 2, ...\<close>, wrapping at 64 bits, without asking the node again; no
  nonce is given twice within \<open>2 ^ 64\<close> calls. As long as the node does not tell it, every call fails
  and the client stays as it was.
\<close>

theorem nonces_are_consecutive:
  assumes "nc_next_nonce c = None"
  shows "case next_nonce H a c of
      (Ok n, c1) \<Rightarrow> fst (nonce_run H a k c) = map (\<lambda>i. Ok (n + of_nat i)) [0..<k]
        \<and> (k \<le> 2 ^ 64 \<longrightarrow> distinct (fst (nonce_run H a k c)))
    | (_, c1) \<Rightarrow> c1 = c \<and> (\<forall>r. r \<in> set (fst (nonce_run H a k c)) \<longrightarrow> r = fst (next_nonce H a c))"
proof -
  obtain r c1 where n: "next_nonce H a c = (r, c1)" by fastforce
  show ?thesis
  proof (cases r)
    case (Ok m)
    with n assms have c1: "nc_next_nonce c1 = Some m"
      by (auto simp: next_nonce_def split: outcome.splits)
    have run: "fst (nonce_run H a k c) = map (\<lambda>i. Ok (m + of_nat i)) [0..<k]"
    proof (cases k)
      case (Suc j)
      then have "fst (nonce_run H a k c) = Ok m # map (\<lambda>i. Ok (m + 1 + of_nat i)) [0..<j]"
        using n Ok nonce_run_cached [OF c1, of H a j] by (simp add: case_prod_beta)
      then show ?thesis
        by (simp add: Suc upt_conv_Cons map_Suc_upt [symmetric] add.assoc del: upt_Suc)
    qed simp
    have "inj_on (\<lambda>i. (Ok (m + of_nat i) :: (stacks_node_error, u64) outcome)) {0..<k}" if "k \<le> 2 ^ 64"
    proof (rule inj_onI)
      fix x y assume xy: "x \<in> {0..<k}" "y \<in> {0..<k}" "(Ok (m + of_nat x) :: (stacks_node_error, u64) outcome) = Ok (m + of_nat y)"
      then have "unat (of_nat x :: u64) = unat (of_nat y :: u64)" by simp
      moreover have "x < 2 ^ 64" "y < 2 ^ 64" using xy that by auto
      ultimately show "x = y" by (simp add: unat_of_nat)
    qed
    then have "k \<le> 2 ^ 64 \<longrightarrow> distinct (fst (nonce_run H a k c))" by (simp add: run distinct_map)
    with run n Ok show ?thesis by simp
  next
    case (Err e)
    with n assms have c: "c1 = c" by (auto simp: next_nonce_def split: outcome.splits)
    have "\<forall>x \<in> set (fst (nonce_run H a k c)). x = r"
      using n c by (induction k) (auto simp: case_prod_beta)
    with n Err c show ?thesis by auto
  next
    case Panic
    with n assms have c: "c1 = c" by (auto simp: next_nonce_def split: outcome.splits)
    have "\<forall>x \<in> set (fst (nonce_run H a k c)). x = r"
      using n c by (induction k) (auto simp: case_prod_beta)
    with n Panic c show ?thesis by auto
  qed
qed

theorem nonces_are_consecutive_witness:
  "fst (nonce_run (demo_http demo_okay (CUInt 0)) ''ST1'' 3 demo_client) = [Ok 41, Ok 42, Ok 43]"
proof -
  have "nc_next_nonce demo_client = None" by (simp add: demo_client_def NodeClient_new_def)
  from nonces_are_consecutive [OF this, of "demo_http demo_okay (CUInt 0)" "''ST1''" 3] show ?thesis
    by (simp add: next_nonce_def get_response_def build_url_def demo_http_def demo_okay_def demo_client_def
        NodeClient_new_def upt_rec)
qed

end
