(* ===== verification/PegQueue.thy ===== *)
theory PegQueue
  imports StacksNode "HOL-Library.Multiset"
begin

text \<open>
  The queue of peg operations of the stacks coordinator
  (\<^verbatim>\<open>stacks-coordinator/src/peg_queue/mod.rs\<close> and \<^verbatim>\<open>sqlite_peg_queue.rs\<close>): a table of rows with the
  primary key (txid, burn header hash) and one cell with the last processed block height.
  \<^verbatim>\<open>REPLACE\<close> removes the row with the same key and adds the new one at the end; a statement on the
  database is taken to succeed, apart from the conversions of rows and from a query for one row
  that finds none.

  Transaction ids, block hashes, principals and bitcoin addresses are type variables;
  their hex forms and the JSON form of an operation are the record \<open>row_codec\<close>.
\<close>

section \<open>Operations and entries\<close>

datatype ('tx, 'bh, 'pr, 'ad) SbtcOp =
    PegIn "('tx, 'bh, 'pr) PegInOp"
  | PegOutRequest "('tx, 'bh, 'ad) PegOutRequestOp"

fun as_peg_in :: "('tx, 'bh, 'pr, 'ad) SbtcOp \<Rightarrow> ('tx, 'bh, 'pr) PegInOp option" where
  "as_peg_in (PegIn op) = Some op"
| "as_peg_in (PegOutRequest op) = None"

fun as_peg_out_request :: "('tx, 'bh, 'pr, 'ad) SbtcOp \<Rightarrow> ('tx, 'bh, 'ad) PegOutRequestOp option" where
  "as_peg_out_request (PegIn op) = None"
| "as_peg_out_request (PegOutRequest op) = Some op"

datatype Status = New | Pending | Acknowledged

fun Status_as_str :: "Status \<Rightarrow> string" where
  "Status_as_str New = ''new''"
| "Status_as_str Pending = ''pending''"
| "Status_as_str Acknowledged = ''acknowledged''"

datatype rusqlite_error = QueryReturnedNoRows | InvalidColumnType

datatype sqlite_error =
    RusqliteError rusqlite_error
  | JsonError
  | HexError
  | InvalidStatusError string

definition Status_from_str :: "string \<Rightarrow> (sqlite_error, Status) outcome" where
  "Status_from_str s =
     (if s = ''new'' then Ok New
      else if s = ''pending'' then Ok Pending
      else if s = ''acknowledged'' then Ok Acknowledged
      else Err (InvalidStatusError s))"

record ('tx, 'bh, 'pr, 'ad) Entry =
  en_burn_header_hash :: 'bh
  en_txid :: 'tx
  en_block_height :: u64
  en_op :: "('tx, 'bh, 'pr, 'ad) SbtcOp"
  en_status :: Status

definition Entry_from_peg_in :: "('tx, 'bh, 'pr) PegInOp \<Rightarrow> ('tx, 'bh, 'pr, 'ad) Entry" where
  "Entry_from_peg_in op =
     \<lparr>en_burn_header_hash = pi_burn_header_hash op, en_txid = pi_txid op, en_block_height = pi_block_height op,
      en_op = PegIn op, en_status = New\<rparr>"

definition Entry_from_peg_out :: "('tx, 'bh, 'ad) PegOutRequestOp \<Rightarrow> ('tx, 'bh, 'pr, 'ad) Entry" where
  "Entry_from_peg_out op =
     \<lparr>en_burn_header_hash = po_burn_header_hash op, en_txid = po_txid op, en_block_height = po_block_height op,
      en_op = PegOutRequest op, en_status = New\<rparr>"

section \<open>Rows\<close>

record row =
  row_txid :: string
  row_burn_header_hash :: string
  row_block_height :: u64
  row_op :: string
  row_status :: string

record ('tx, 'bh, 'pr, 'ad) row_codec =
  txid_to_hex :: "'tx \<Rightarrow> string"
  txid_from_hex :: "string \<Rightarrow> 'tx option"
  bhh_to_hex :: "'bh \<Rightarrow> string"
  bhh_from_hex :: "string \<Rightarrow> 'bh option"
  op_to_json :: "('tx, 'bh, 'pr, 'ad) SbtcOp \<Rightarrow> string option"
  op_from_json :: "string \<Rightarrow> ('tx, 'bh, 'pr, 'ad) SbtcOp option"

text \<open>A failed conversion inside \<^verbatim>\<open>from_row\<close> becomes \<^verbatim>\<open>InvalidColumnType\<close>.\<close>

definition Entry_from_row ::
  "('tx, 'bh, 'pr, 'ad) row_codec \<Rightarrow> row \<Rightarrow> (rusqlite_error, ('tx, 'bh, 'pr, 'ad) Entry) outcome" where
  "Entry_from_row rc r =
     obind (ok_or InvalidColumnType (txid_from_hex rc (row_txid r))) (\<lambda>txid.
     obind (ok_or InvalidColumnType (bhh_from_hex rc (row_burn_header_hash r))) (\<lambda>bhh.
     obind (ok_or InvalidColumnType (op_from_json rc (row_op r))) (\<lambda>op.
     obind (map_err (\<lambda>e. InvalidColumnType) (Status_from_str (row_status r))) (\<lambda>status.
       Ok \<lparr>en_burn_header_hash = bhh, en_txid = txid, en_block_height = row_block_height r,
           en_op = op, en_status = status\<rparr>))))"

text \<open>The database: the rows of \<^verbatim>\<open>sbtc_ops\<close>, and the height in \<^verbatim>\<open>peg_queue_metadata\<close> when there is one.\<close>

record queue_db =
  sbtc_ops :: "row list"
  last_processed :: "u64 option"

definition replace_row :: "row \<Rightarrow> row list \<Rightarrow> row list" where
  "replace_row r rows =
     filter (\<lambda>r'. \<not> (row_txid r' = row_txid r \<and> row_burn_header_hash r' = row_burn_header_hash r)) rows @ [r]"

definition queue_insert ::
  "('tx, 'bh, 'pr, 'ad) row_codec \<Rightarrow> ('tx, 'bh, 'pr, 'ad) Entry \<Rightarrow> queue_db
    \<Rightarrow> (sqlite_error, unit) outcome \<times> queue_db" where
  "queue_insert rc e q =
     (case op_to_json rc (en_op e) of
        None \<Rightarrow> (Err JsonError, q)
      | Some op \<Rightarrow>
          (Ok (), q\<lparr>sbtc_ops := replace_row
             \<lparr>row_txid = txid_to_hex rc (en_txid e), row_burn_header_hash = bhh_to_hex rc (en_burn_header_hash e),
              row_block_height = en_block_height e, row_op = op, row_status = Status_as_str (en_status e)\<rparr>
             (sbtc_ops q)\<rparr>))"

text \<open>\<^verbatim>\<open>ORDER BY block_height, op ASC\<close>: the height is a signed integer column, the operation a text
  column compared byte by byte. The row that comes first; of two equal ones the earlier.\<close>

fun text_less :: "string \<Rightarrow> string \<Rightarrow> bool" where
  "text_less xs [] = False"
| "text_less [] (y # ys) = True"
| "text_less (x # xs) (y # ys) =
     (of_char x < (of_char y :: nat) \<or> (x = y \<and> text_less xs ys))"

definition row_less :: "row \<Rightarrow> row \<Rightarrow> bool" where
  "row_less a b \<longleftrightarrow>
     sint (row_block_height a) < sint (row_block_height b)
     \<or> (row_block_height a = row_block_height b \<and> text_less (row_op a) (row_op b))"

fun first_row :: "row list \<Rightarrow> row option" where
  "first_row [] = None"
| "first_row (r # rs) =
     (case first_row rs of
        None \<Rightarrow> Some r
      | Some best \<Rightarrow> if row_less best r then Some best else Some r)"

definition get_single_entry_with_status ::
  "('tx, 'bh, 'pr, 'ad) row_codec \<Rightarrow> Status \<Rightarrow> queue_db
    \<Rightarrow> (sqlite_error, ('tx, 'bh, 'pr, 'ad) Entry option) outcome" where
  "get_single_entry_with_status rc status q =
     (case first_row (filter (\<lambda>r. row_status r = Status_as_str status) (sbtc_ops q)) of
        None \<Rightarrow> Ok None
      | Some r \<Rightarrow> obind (map_err RusqliteError (Entry_from_row rc r)) (\<lambda>e. Ok (Some e)))"

definition get_entry ::
  "('tx, 'bh, 'pr, 'ad) row_codec \<Rightarrow> 'tx \<Rightarrow> 'bh \<Rightarrow> queue_db
    \<Rightarrow> (sqlite_error, ('tx, 'bh, 'pr, 'ad) Entry) outcome" where
  "get_entry rc txid bhh q =
     (case filter (\<lambda>r. row_txid r = txid_to_hex rc txid \<and> row_burn_header_hash r = bhh_to_hex rc bhh) (sbtc_ops q) of
        [] \<Rightarrow> Err (RusqliteError QueryReturnedNoRows)
      | r # rs \<Rightarrow> map_err RusqliteError (Entry_from_row rc r))"

definition last_processed_block_height :: "queue_db \<Rightarrow> (sqlite_error, u64) outcome" where
  "last_processed_block_height q = ok_or (RusqliteError QueryReturnedNoRows) (last_processed q)"

definition insert_last_processed_block_height :: "u64 \<Rightarrow> queue_db \<Rightarrow> queue_db" where
  "insert_last_processed_block_height h q = q\<lparr>last_processed := Some h\<rparr>"

definition saturating_pred :: "u64 \<Rightarrow> u64" where
  "saturating_pred h = (if h = 0 then 0 else h - 1)"

text \<open>\<^verbatim>\<open>from_connection\<close> on an existing database; \<^verbatim>\<open>new\<close> and \<^verbatim>\<open>in_memory\<close> differ in the database only.\<close>

definition from_connection :: "queue_db \<Rightarrow> u64 option \<Rightarrow> u64 \<Rightarrow> queue_db" where
  "from_connection db start_block_height current_block_height =
     (case start_block_height of
        Some s \<Rightarrow> insert_last_processed_block_height (saturating_pred s) db
      | None \<Rightarrow>
          (case last_processed_block_height db of
             Ok h \<Rightarrow> db
           | Err e \<Rightarrow> insert_last_processed_block_height (saturating_pred current_block_height) db
           | Panic \<Rightarrow> db))"

definition in_memory :: "u64 option \<Rightarrow> u64 \<Rightarrow> queue_db" where
  "in_memory = from_connection \<lparr>sbtc_ops = [], last_processed = None\<rparr>"

section \<open>The queue's operations\<close>

text \<open>What the queue asks of a stacks node.\<close>

record ('tx, 'bh, 'pr, 'ad) peg_node =
  nd_get_peg_in_ops :: "u64 \<Rightarrow> (stacks_node_error, ('tx, 'bh, 'pr) PegInOp list) outcome"
  nd_get_peg_out_request_ops :: "u64 \<Rightarrow> (stacks_node_error, ('tx, 'bh, 'ad) PegOutRequestOp list) outcome"
  nd_burn_block_height :: "(stacks_node_error, u64) outcome"

datatype peg_queue_error =
    SqlitePegQueueError sqlite_error
  | StacksNodeError stacks_node_error

fun insert_all ::
  "('tx, 'bh, 'pr, 'ad) row_codec \<Rightarrow> ('tx, 'bh, 'pr, 'ad) Entry list \<Rightarrow> queue_db
    \<Rightarrow> (peg_queue_error, unit) outcome \<times> queue_db" where
  "insert_all rc [] q = (Ok (), q)"
| "insert_all rc (e # es) q =
     (case queue_insert rc e q of
        (Ok u, q1) \<Rightarrow> insert_all rc es q1
      | (Err er, q1) \<Rightarrow> (Err (SqlitePegQueueError er), q1)
      | (Panic, q1) \<Rightarrow> (Panic, q1))"

text \<open>Both halves of a block: a height the node does not know is skipped.\<close>

definition poll_peg_in_ops ::
  "('tx, 'bh, 'pr, 'ad) row_codec \<Rightarrow> ('tx, 'bh, 'pr, 'ad) peg_node \<Rightarrow> u64 \<Rightarrow> queue_db
    \<Rightarrow> (peg_queue_error, unit) outcome \<times> queue_db" where
  "poll_peg_in_ops rc nd h q =
     (case nd_get_peg_in_ops nd h of
        Err (UnknownBlockHeight k) \<Rightarrow> (Ok (), q)
      | Err e \<Rightarrow> (Err (StacksNodeError e), q)
      | Ok ops \<Rightarrow> insert_all rc (map Entry_from_peg_in ops) q
      | Panic \<Rightarrow> (Panic, q))"

definition poll_peg_out_request_ops ::
  "('tx, 'bh, 'pr, 'ad) row_codec \<Rightarrow> ('tx, 'bh, 'pr, 'ad) peg_node \<Rightarrow> u64 \<Rightarrow> queue_db
    \<Rightarrow> (peg_queue_error, unit) outcome \<times> queue_db" where
  "poll_peg_out_request_ops rc nd h q =
     (case nd_get_peg_out_request_ops nd h of
        Err (UnknownBlockHeight k) \<Rightarrow> (Ok (), q)
      | Err e \<Rightarrow> (Err (StacksNodeError e), q)
      | Ok ops \<Rightarrow> insert_all rc (map Entry_from_peg_out ops) q
      | Panic \<Rightarrow> (Panic, q))"

fun poll_blocks ::
  "('tx, 'bh, 'pr, 'ad) row_codec \<Rightarrow> ('tx, 'bh, 'pr, 'ad) peg_node \<Rightarrow> u64 list \<Rightarrow> queue_db
    \<Rightarrow> (peg_queue_error, unit) outcome \<times> queue_db" where
  "poll_blocks rc nd [] q = (Ok (), q)"
| "poll_blocks rc nd (h # hs) q =
     (case poll_peg_in_ops rc nd h q of
        (Ok u, q1) \<Rightarrow>
          (case poll_peg_out_request_ops rc nd h q1 of
             (Ok v, q2) \<Rightarrow> poll_blocks rc nd hs (insert_last_processed_block_height h q2)
           | (Err er, q2) \<Rightarrow> (Err er, q2)
           | (Panic, q2) \<Rightarrow> (Panic, q2))
      | (Err er, q1) \<Rightarrow> (Err er, q1)
      | (Panic, q1) \<Rightarrow> (Panic, q1))"

text \<open>The heights \<open>a..=b\<close>.\<close>

definition heights :: "u64 \<Rightarrow> u64 \<Rightarrow> u64 list" where
  "heights a b = map of_nat [unat a..<Suc (unat b)]"

definition queue_poll ::
  "('tx, 'bh, 'pr, 'ad) row_codec \<Rightarrow> ('tx, 'bh, 'pr, 'ad) peg_node \<Rightarrow> queue_db
    \<Rightarrow> (peg_queue_error, unit) outcome \<times> queue_db" where
  "queue_poll rc nd q =
     (case nd_burn_block_height nd of
        Ok target \<Rightarrow>
          (case last_processed_block_height q of
             Ok h \<Rightarrow>
               if target < h + 1 then (Ok (), q) else poll_blocks rc nd (heights (h + 1) target) q
           | Err er \<Rightarrow> (Err (SqlitePegQueueError er), q)
           | Panic \<Rightarrow> (Panic, q))
      | Err er \<Rightarrow> (Err (StacksNodeError er), q)
      | Panic \<Rightarrow> (Panic, q))"

definition queue_sbtc_op ::
  "('tx, 'bh, 'pr, 'ad) row_codec \<Rightarrow> queue_db
    \<Rightarrow> (peg_queue_error, ('tx, 'bh, 'pr, 'ad) SbtcOp option) outcome \<times> queue_db" where
  "queue_sbtc_op rc q =
     (case get_single_entry_with_status rc New q of
        Ok None \<Rightarrow> (Ok None, q)
      | Ok (Some e) \<Rightarrow>
          (case queue_insert rc (e\<lparr>en_status := Pending\<rparr>) q of
             (Ok u, q1) \<Rightarrow> (Ok (Some (en_op e)), q1)
           | (Err er, q1) \<Rightarrow> (Err (SqlitePegQueueError er), q1)
           | (Panic, q1) \<Rightarrow> (Panic, q1))
      | Err er \<Rightarrow> (Err (SqlitePegQueueError er), q)
      | Panic \<Rightarrow> (Panic, q))"

definition queue_acknowledge ::
  "('tx, 'bh, 'pr, 'ad) row_codec \<Rightarrow> 'tx \<Rightarrow> 'bh \<Rightarrow> queue_db
    \<Rightarrow> (peg_queue_error, unit) outcome \<times> queue_db" where
  "queue_acknowledge rc txid bhh q =
     (case get_entry rc txid bhh q of
        Ok e \<Rightarrow>
          (case queue_insert rc (e\<lparr>en_status := Acknowledged\<rparr>) q of
             (Ok u, q1) \<Rightarrow> (Ok (), q1)
           | (Err er, q1) \<Rightarrow> (Err (SqlitePegQueueError er), q1)
           | (Panic, q1) \<Rightarrow> (Panic, q1))
      | Err er \<Rightarrow> (Err (SqlitePegQueueError er), q)
      | Panic \<Rightarrow> (Panic, q))"

section \<open>The order of the rows\<close>

lemma text_less_irrefl [simp]: "\<not> text_less xs xs"
  by (induction xs) auto

lemma text_less_trans: "text_less xs ys \<Longrightarrow> text_less ys zs \<Longrightarrow> text_less xs zs"
proof (induction xs zs arbitrary: ys rule: text_less.induct)
  case (3 x xs z zs)
  then show ?case by (cases ys) auto
next
  case (1 xs)
  then show ?case by (cases ys) auto
qed simp

lemma text_less_total: "text_less xs ys \<or> xs = ys \<or> text_less ys xs"
proof (induction xs ys rule: text_less.induct)
  case (1 xs)
  then show ?case by (cases xs) auto
next
  case (3 x xs y ys)
  then show ?case
    using linorder_less_linear [of "of_char x :: nat" "of_char y"] by auto
qed auto

lemma row_less_irrefl [simp]: "\<not> row_less r r"
  by (simp add: row_less_def)

lemma row_less_asym: "row_less a b \<Longrightarrow> \<not> row_less b a"
  by (auto simp: row_less_def dest: text_less_trans)

lemma sint_eq_iff: "sint a = sint b \<longleftrightarrow> a = b" for a b :: u64
  by (auto intro: signed_word_eqI)

lemma row_not_less_trans:
  assumes "\<not> row_less b a" and "\<not> row_less c b"
  shows "\<not> row_less c a"
proof
  assume ca: "row_less c a"
  show False
  proof (cases "sint (row_block_height c) < sint (row_block_height a)")
    case True
    with assms show False unfolding row_less_def by linarith
  next
    case False
    with ca have h: "row_block_height c = row_block_height a" and t: "text_less (row_op c) (row_op a)"
      by (auto simp: row_less_def)
    with assms have "row_block_height b = row_block_height a"
      using sint_eq_iff [of "row_block_height a" "row_block_height b"] unfolding row_less_def by force
    with assms h t show False
      using text_less_total [of "row_op b" "row_op a"] text_less_total [of "row_op c" "row_op b"] text_less_trans
      unfolding row_less_def by auto
  qed
qed

lemma first_row_None [simp]: "first_row rs = None \<longleftrightarrow> rs = []"
  by (cases rs) (auto split: option.splits)

lemma first_row_Some:
  assumes "first_row rs = Some r"
  shows "r \<in> set rs \<and> (\<forall>r' \<in> set rs. \<not> row_less r' r)"
  using assms
proof (induction rs arbitrary: r)
  case (Cons x rs)
  show ?case
  proof (cases "first_row rs")
    case None
    with Cons.prems show ?thesis by simp
  next
    case (Some best)
    with Cons.IH have best: "best \<in> set rs" "\<forall>r' \<in> set rs. \<not> row_less r' best" by auto
    show ?thesis
    proof (cases "row_less best x")
      case True
      with Cons.prems Some best show ?thesis by (auto dest: row_less_asym)
    next
      case False
      with Cons.prems Some best show ?thesis by (auto dest: row_not_less_trans)
    qed
  qed
qed simp

section \<open>Entries of a queue\<close>

text \<open>What the code relies on: the text forms of ids and operations decode to what was encoded.\<close>

definition codec_ok :: "('tx, 'bh, 'pr, 'ad) row_codec \<Rightarrow> bool" where
  "codec_ok rc \<longleftrightarrow>
     (\<forall>t. txid_from_hex rc (txid_to_hex rc t) = Some t)
     \<and> (\<forall>h. bhh_from_hex rc (bhh_to_hex rc h) = Some h)
     \<and> (\<forall>op. \<exists>s. op_to_json rc op = Some s \<and> op_from_json rc s = Some op)"

definition row_of :: "('tx, 'bh, 'pr, 'ad) row_codec \<Rightarrow> ('tx, 'bh, 'pr, 'ad) Entry \<Rightarrow> row" where
  "row_of rc e =
     \<lparr>row_txid = txid_to_hex rc (en_txid e), row_burn_header_hash = bhh_to_hex rc (en_burn_header_hash e),
      row_block_height = en_block_height e, row_op = the (op_to_json rc (en_op e)),
      row_status = Status_as_str (en_status e)\<rparr>"

abbreviation entry_key where
  "entry_key e \<equiv> (en_txid e, en_burn_header_hash e)"

definition entries :: "('tx, 'bh, 'pr, 'ad) row_codec \<Rightarrow> queue_db \<Rightarrow> ('tx, 'bh, 'pr, 'ad) Entry list" where
  "entries rc q = List.map_filter (\<lambda>r. case Entry_from_row rc r of Ok e \<Rightarrow> Some e | _ \<Rightarrow> None) (sbtc_ops q)"

text \<open>The invariant: every row was written by the queue, and no two rows have the same key.\<close>

definition queue_inv :: "('tx, 'bh, 'pr, 'ad) row_codec \<Rightarrow> queue_db \<Rightarrow> bool" where
  "queue_inv rc q \<longleftrightarrow> (\<exists>es. sbtc_ops q = map (row_of rc) es \<and> distinct (map entry_key es))"

lemma Status_roundtrip [simp]: "Status_from_str (Status_as_str st) = Ok st"
  by (cases st) (simp_all add: Status_from_str_def)

lemma Status_as_str_inject [simp]: "Status_as_str a = Status_as_str b \<longleftrightarrow> a = b"
  by (cases a; cases b) simp_all

lemma Entry_from_row_of: "codec_ok rc \<Longrightarrow> Entry_from_row rc (row_of rc e) = Ok e"
proof -
  assume ok: "codec_ok rc"
  then obtain s where "op_to_json rc (en_op e) = Some s" "op_from_json rc s = Some (en_op e)"
    unfolding codec_ok_def by blast
  with ok show ?thesis by (simp add: codec_ok_def Entry_from_row_def row_of_def)
qed

lemma entries_map_row_of:
  assumes "codec_ok rc" and "sbtc_ops q = map (row_of rc) es"
  shows "entries rc q = es"
proof -
  have "List.map_filter (\<lambda>r. case Entry_from_row rc r of Ok e \<Rightarrow> Some e | _ \<Rightarrow> None) (map (row_of rc) es) = es"
    by (induction es) (simp_all add: List.map_filter_def Entry_from_row_of [OF assms(1)])
  with assms(2) show ?thesis by (simp add: entries_def)
qed

lemma queue_invD:
  assumes "codec_ok rc" and "queue_inv rc q"
  shows "sbtc_ops q = map (row_of rc) (entries rc q)" and "distinct (map entry_key (entries rc q))"
  using assms entries_map_row_of [OF assms(1)] unfolding queue_inv_def by auto

lemma codec_inject:
  assumes "codec_ok rc"
  shows "txid_to_hex rc t = txid_to_hex rc t' \<longleftrightarrow> t = t'" and "bhh_to_hex rc h = bhh_to_hex rc h' \<longleftrightarrow> h = h'"
  using assms unfolding codec_ok_def by (metis option.inject)+

lemma queue_insert_entries:
  assumes "codec_ok rc" and "queue_inv rc q"
  shows "\<exists>q'. queue_insert rc e q = (Ok (), q') \<and> queue_inv rc q' \<and> last_processed q' = last_processed q
    \<and> entries rc q' = filter (\<lambda>x. entry_key x \<noteq> entry_key e) (entries rc q) @ [e]"
proof -
  let ?es = "filter (\<lambda>x. entry_key x \<noteq> entry_key e) (entries rc q) @ [e]"
  from assms(1) obtain s where "op_to_json rc (en_op e) = Some s" unfolding codec_ok_def by blast
  then have ins: "queue_insert rc e q = (Ok (), q\<lparr>sbtc_ops := replace_row (row_of rc e) (sbtc_ops q)\<rparr>)"
    by (simp add: queue_insert_def row_of_def)
  have "replace_row (row_of rc e) (map (row_of rc) es) = map (row_of rc) (filter (\<lambda>x. entry_key x \<noteq> entry_key e) es @ [e])" for es
    by (induction es) (auto simp: replace_row_def row_of_def codec_inject [OF assms(1)])
  then have rows: "replace_row (row_of rc e) (sbtc_ops q) = map (row_of rc) ?es"
    using queue_invD(1) [OF assms] by simp
  have "distinct (map entry_key ?es)"
    using queue_invD(2) [OF assms] by (auto simp: distinct_map_filter)
  then have "queue_inv rc (q\<lparr>sbtc_ops := replace_row (row_of rc e) (sbtc_ops q)\<rparr>)"
    unfolding queue_inv_def rows by (intro exI [of _ ?es]) simp
  moreover have "entries rc (q\<lparr>sbtc_ops := replace_row (row_of rc e) (sbtc_ops q)\<rparr>) = ?es"
    using rows by (intro entries_map_row_of [OF assms(1)]) simp
  ultimately show ?thesis using ins by simp
qed

section \<open>A queue of work\<close>

text \<open>
  What the coordinator's loop relies on: taking succeeds, it finds nothing only when no fresh
  operation is left, and what it returns was fresh and is no longer.
\<close>

locale work_queue =
  fixes take_op :: "'q \<Rightarrow> ('e, 'op option) outcome \<times> 'q"
    and fresh :: "'q \<Rightarrow> 'op multiset"
    and invar :: "'q \<Rightarrow> bool"
  assumes take_total: "invar q \<Longrightarrow> \<exists>res q'. take_op q = (Ok res, q') \<and> invar q'"
    and take_None: "invar q \<Longrightarrow> take_op q = (Ok None, q') \<Longrightarrow> fresh q = {#} \<and> q' = q"
    and take_Some: "invar q \<Longrightarrow> take_op q = (Ok (Some op), q') \<Longrightarrow> fresh q = add_mset op (fresh q')"

text \<open>Taking until nothing is left, at most \<open>n\<close> times: the operations in the order they were taken.\<close>

fun drain :: "('q \<Rightarrow> ('e, 'op option) outcome \<times> 'q) \<Rightarrow> nat \<Rightarrow> 'q \<Rightarrow> 'op list \<times> 'q" where
  "drain tk 0 q = ([], q)"
| "drain tk (Suc n) q =
     (case tk q of
        (Ok (Some op), q1) \<Rightarrow> (case drain tk n q1 of (ops, q2) \<Rightarrow> (op # ops, q2))
      | (_, q1) \<Rightarrow> ([], q1))"

context work_queue
begin

lemma drain_all:
  assumes "invar q" and "size (fresh q) \<le> n"
  shows "\<exists>ops q'. drain take_op n q = (ops, q') \<and> invar q' \<and> fresh q' = {#} \<and> mset ops = fresh q"
  using assms
proof (induction n arbitrary: q)
  case 0
  then show ?case by simp
next
  case (Suc n)
  from take_total [OF Suc.prems(1)] obtain res q1 where t: "take_op q = (Ok res, q1)" and inv: "invar q1" by blast
  show ?case
  proof (cases res)
    case None
    with t take_None [OF Suc.prems(1)] Suc.prems(1) show ?thesis by auto
  next
    case (Some op)
    with t take_Some [OF Suc.prems(1)] have f: "fresh q = add_mset op (fresh q1)" by blast
    with Suc.prems(2) have "size (fresh q1) \<le> n" by simp
    from Suc.IH [OF inv this] f t Some show ?thesis by auto
  qed
qed

end

definition fresh_ops :: "('tx, 'bh, 'pr, 'ad) row_codec \<Rightarrow> queue_db \<Rightarrow> ('tx, 'bh, 'pr, 'ad) SbtcOp multiset" where
  "fresh_ops rc q = mset (map en_op (filter (\<lambda>e. en_status e = New) (entries rc q)))"

lemma new_rows:
  assumes "codec_ok rc" and "queue_inv rc q"
  shows "filter (\<lambda>r. row_status r = Status_as_str New) (sbtc_ops q)
    = map (row_of rc) (filter (\<lambda>e. en_status e = New) (entries rc q))"
proof -
  have "filter (\<lambda>r. row_status r = Status_as_str New) (map (row_of rc) es)
      = map (row_of rc) (filter (\<lambda>e. en_status e = New) es)" for es
    by (induction es) (simp_all add: row_of_def del: Status_as_str.simps)
  then show ?thesis using queue_invD(1) [OF assms] by metis
qed

text \<open>What \<^verbatim>\<open>sbtc_op\<close> finds and leaves behind.\<close>

lemma queue_sbtc_op_cases:
  assumes "codec_ok rc" and "queue_inv rc q"
  obtains (none) "queue_sbtc_op rc q = (Ok None, q)" "filter (\<lambda>e. en_status e = New) (entries rc q) = []"
  | (some) e q' where "queue_sbtc_op rc q = (Ok (Some (en_op e)), q')" "queue_inv rc q'"
      "e \<in> set (entries rc q)" "en_status e = New"
      "\<And>e'. e' \<in> set (entries rc q) \<Longrightarrow> en_status e' = New \<Longrightarrow> \<not> row_less (row_of rc e') (row_of rc e)"
      "entries rc q' = filter (\<lambda>x. entry_key x \<noteq> entry_key e) (entries rc q) @ [e\<lparr>en_status := Pending\<rparr>]"
      "last_processed q' = last_processed q"
proof (cases "first_row (filter (\<lambda>r. row_status r = Status_as_str New) (sbtc_ops q))")
  case None
  then have "filter (\<lambda>e. en_status e = New) (entries rc q) = []"
    using new_rows [OF assms] by (simp del: Status_as_str.simps)
  with None show ?thesis
    by (intro none) (simp_all add: queue_sbtc_op_def get_single_entry_with_status_def del: Status_as_str.simps)
next
  case (Some r)
  let ?new = "filter (\<lambda>e. en_status e = New) (entries rc q)"
  from first_row_Some [OF Some] have r: "r \<in> set (map (row_of rc) ?new)"
    and least: "\<forall>r' \<in> set (map (row_of rc) ?new). \<not> row_less r' r"
    unfolding new_rows [OF assms] by auto
  then obtain e where e: "e \<in> set ?new" "r = row_of rc e" by auto
  from queue_insert_entries [OF assms, of "e\<lparr>en_status := Pending\<rparr>"] obtain q' where
    q': "queue_insert rc (e\<lparr>en_status := Pending\<rparr>) q = (Ok (), q')" "queue_inv rc q'"
      "last_processed q' = last_processed q"
      "entries rc q' = filter (\<lambda>x. entry_key x \<noteq> entry_key e) (entries rc q) @ [e\<lparr>en_status := Pending\<rparr>]"
    by auto
  have "queue_sbtc_op rc q = (Ok (Some (en_op e)), q')"
    using Some e(2) q'(1)
    by (simp add: queue_sbtc_op_def get_single_entry_with_status_def Entry_from_row_of [OF assms(1)]
        del: Status_as_str.simps)
  then show ?thesis
    by (rule some [OF _ q'(2) _ _ _ q'(4) q'(3)]) (use e least in auto)
qed

lemma mset_remove_entry:
  assumes "distinct (map entry_key es)" and "e \<in> set es"
  shows "mset es = add_mset e (mset (filter (\<lambda>x. entry_key x \<noteq> entry_key e) es))"
  using assms
proof (induction es)
  case (Cons x es)
  show ?case
  proof (cases "x = e")
    case True
    have "filter (\<lambda>x. entry_key x \<noteq> entry_key e) es = es"
      using Cons.prems(1) True by (intro filter_True) (auto simp: image_iff)
    with True show ?thesis by simp
  next
    case False
    with Cons.prems have "entry_key x \<noteq> entry_key e" by auto
    with Cons False show ?thesis by simp
  qed
qed simp

interpretation sqlite: work_queue "queue_sbtc_op rc" "fresh_ops rc" "\<lambda>q. codec_ok rc \<and> queue_inv rc q"
  for rc :: "('tx, 'bh, 'pr, 'ad) row_codec"
proof unfold_locales
  fix q q' :: queue_db and op
  assume inv: "codec_ok rc \<and> queue_inv rc q"
  then have c: "codec_ok rc" and i: "queue_inv rc q" by auto
  show "\<exists>res q'. queue_sbtc_op rc q = (Ok res, q') \<and> codec_ok rc \<and> queue_inv rc q'"
    by (rule queue_sbtc_op_cases [OF c i]) (use inv in auto)
  show "queue_sbtc_op rc q = (Ok None, q') \<Longrightarrow> fresh_ops rc q = {#} \<and> q' = q"
    by (rule queue_sbtc_op_cases [OF c i]) (auto simp: fresh_ops_def)
  assume taken: "queue_sbtc_op rc q = (Ok (Some op), q')"
  obtain e where e: "op = en_op e" "e \<in> set (entries rc q)" "en_status e = New"
    "entries rc q' = filter (\<lambda>x. entry_key x \<noteq> entry_key e) (entries rc q) @ [e\<lparr>en_status := Pending\<rparr>]"
    by (rule queue_sbtc_op_cases [OF c i]) (use taken in auto)
  from mset_remove_entry [OF queue_invD(2) [OF c i] e(2)]
  have "filter_mset (\<lambda>e. en_status e = New) (mset (entries rc q))
      = filter_mset (\<lambda>e. en_status e = New) (add_mset e (mset (filter (\<lambda>x. entry_key x \<noteq> entry_key e) (entries rc q))))"
    by simp
  with e show "fresh_ops rc q = add_mset op (fresh_ops rc q')"
    by (simp add: fresh_ops_def filter_filter_mset conj_commute)
qed

section \<open>Refinement: a map from keys to entries\<close>

definition queue_abs :: "('tx, 'bh, 'pr, 'ad) row_codec \<Rightarrow> queue_db \<Rightarrow> 'tx \<times> 'bh \<Rightarrow> ('tx, 'bh, 'pr, 'ad) Entry option" where
  "queue_abs rc q = map_of (map (\<lambda>e. (entry_key e, e)) (entries rc q))"

definition put :: "('tx, 'bh, 'pr, 'ad) Entry \<Rightarrow> ('tx \<times> 'bh \<Rightarrow> ('tx, 'bh, 'pr, 'ad) Entry option)
    \<Rightarrow> 'tx \<times> 'bh \<Rightarrow> ('tx, 'bh, 'pr, 'ad) Entry option" where
  "put e m = m(entry_key e \<mapsto> e)"

lemma map_of_replaced:
  "map_of (map (\<lambda>e. (entry_key e, e)) (filter (\<lambda>x. entry_key x \<noteq> k) es @ [e]))
     = (map_of (map (\<lambda>e. (entry_key e, e)) es))(k \<mapsto> e)" if "entry_key e = k"
proof
  fix x
  show "map_of (map (\<lambda>e. (entry_key e, e)) (filter (\<lambda>x. entry_key x \<noteq> k) es @ [e])) x
      = ((map_of (map (\<lambda>e. (entry_key e, e)) es))(k \<mapsto> e)) x"
    using that by (induction es) (auto simp: map_add_def split: option.splits)
qed

lemma queue_insert_abs:
  assumes "codec_ok rc" and "queue_inv rc q"
  shows "\<exists>q'. queue_insert rc e q = (Ok (), q') \<and> queue_inv rc q' \<and> last_processed q' = last_processed q
    \<and> queue_abs rc q' = put e (queue_abs rc q)"
  using queue_insert_entries [OF assms, of e] map_of_replaced [of e "entry_key e"]
  by (auto simp: queue_abs_def put_def)

lemma insert_all_abs:
  assumes "codec_ok rc" and "queue_inv rc q"
  shows "\<exists>q'. insert_all rc es q = (Ok (), q') \<and> queue_inv rc q' \<and> last_processed q' = last_processed q
    \<and> queue_abs rc q' = fold put es (queue_abs rc q)"
  using assms(2)
proof (induction es arbitrary: q)
  case (Cons e es)
  from queue_insert_abs [OF assms(1) Cons.prems, of e] obtain q1 where q1: "queue_insert rc e q = (Ok (), q1)"
    "queue_inv rc q1" "last_processed q1 = last_processed q" "queue_abs rc q1 = put e (queue_abs rc q)" by blast
  with Cons.IH [OF q1(2)] show ?case by auto
qed simp

text \<open>What a node reports for a block; a height it does not know counts as an empty block.\<close>

definition block_entries :: "('tx, 'bh, 'pr, 'ad) peg_node \<Rightarrow> u64 \<Rightarrow> ('tx, 'bh, 'pr, 'ad) Entry list" where
  "block_entries nd h =
     (case nd_get_peg_in_ops nd h of Ok ops \<Rightarrow> map Entry_from_peg_in ops | _ \<Rightarrow> [])
     @ (case nd_get_peg_out_request_ops nd h of Ok ops \<Rightarrow> map Entry_from_peg_out ops | _ \<Rightarrow> [])"

definition node_answers :: "('tx, 'bh, 'pr, 'ad) peg_node \<Rightarrow> u64 \<Rightarrow> bool" where
  "node_answers nd h \<longleftrightarrow>
     (is_ok (nd_get_peg_in_ops nd h) \<or> (\<exists>k. nd_get_peg_in_ops nd h = Err (UnknownBlockHeight k)))
     \<and> (is_ok (nd_get_peg_out_request_ops nd h) \<or> (\<exists>k. nd_get_peg_out_request_ops nd h = Err (UnknownBlockHeight k)))"

lemma poll_block_abs:
  assumes "codec_ok rc" and "queue_inv rc q" and "node_answers nd h"
  shows "\<exists>q1 q2. poll_peg_in_ops rc nd h q = (Ok (), q1) \<and> poll_peg_out_request_ops rc nd h q1 = (Ok (), q2)
    \<and> queue_inv rc q2 \<and> queue_abs rc q2 = fold put (block_entries nd h) (queue_abs rc q)"
proof -
  obtain q1 where q1: "poll_peg_in_ops rc nd h q = (Ok (), q1)" "queue_inv rc q1"
    "queue_abs rc q1 = fold put (case nd_get_peg_in_ops nd h of Ok ops \<Rightarrow> map Entry_from_peg_in ops | _ \<Rightarrow> []) (queue_abs rc q)"
    using insert_all_abs [OF assms(1,2)] assms(2,3)
    by (fastforce simp: node_answers_def poll_peg_in_ops_def is_ok_iff)
  obtain q2 where "poll_peg_out_request_ops rc nd h q1 = (Ok (), q2)" "queue_inv rc q2"
    "queue_abs rc q2 = fold put (case nd_get_peg_out_request_ops nd h of Ok ops \<Rightarrow> map Entry_from_peg_out ops | _ \<Rightarrow> []) (queue_abs rc q1)"
    using insert_all_abs [OF assms(1) q1(2)] q1(2) assms(3)
    by (fastforce simp: node_answers_def poll_peg_out_request_ops_def is_ok_iff)
  with q1 show ?thesis by (auto simp: block_entries_def)
qed

lemma poll_blocks_abs:
  assumes "codec_ok rc" and "queue_inv rc q" and "\<forall>h \<in> set hs. node_answers nd h"
  shows "\<exists>q'. poll_blocks rc nd hs q = (Ok (), q') \<and> queue_inv rc q'
    \<and> last_processed q' = (if hs = [] then last_processed q else Some (last hs))
    \<and> queue_abs rc q' = fold put (concat (map (block_entries nd) hs)) (queue_abs rc q)"
  using assms(2,3)
proof (induction hs arbitrary: q)
  case (Cons h hs)
  from Cons.prems(2) have "node_answers nd h" by simp
  from poll_block_abs [OF assms(1) Cons.prems(1) this] obtain q1 q2 where
    b: "poll_peg_in_ops rc nd h q = (Ok (), q1)" "poll_peg_out_request_ops rc nd h q1 = (Ok (), q2)"
      "queue_inv rc q2" "queue_abs rc q2 = fold put (block_entries nd h) (queue_abs rc q)" by blast
  let ?q3 = "insert_last_processed_block_height h q2"
  have "queue_inv rc ?q3" "queue_abs rc ?q3 = queue_abs rc q2"
    using b(3) by (simp_all add: insert_last_processed_block_height_def queue_inv_def queue_abs_def entries_def)
  with Cons.IH [of ?q3] Cons.prems(2) b show ?case
    by (auto simp: insert_last_processed_block_height_def)
qed simp

section \<open>Properties\<close>

text \<open>
  C20. Every queued operation is handed out exactly once. Let the text codecs round-trip and let the
  table have been written by the queue. Taking operations until none is left ends after as many
  steps as there are new entries, never fails, returns exactly the new operations, each once, and
  leaves none new.
\<close>

theorem queue_hands_out_each_op_once:
  assumes "codec_ok rc" and "queue_inv rc q" and "size (fresh_ops rc q) \<le> n"
  shows "\<exists>ops q'. drain (queue_sbtc_op rc) n q = (ops, q') \<and> mset ops = fresh_ops rc q
    \<and> fresh_ops rc q' = {#} \<and> queue_sbtc_op rc q' = (Ok None, q')"
proof -
  from sqlite.drain_all [of rc q n] assms obtain ops q' where
    d: "drain (queue_sbtc_op rc) n q = (ops, q')" "queue_inv rc q'" "fresh_ops rc q' = {#}" "mset ops = fresh_ops rc q"
    by auto
  have "queue_sbtc_op rc q' = (Ok None, q')"
    by (rule queue_sbtc_op_cases [OF assms(1) d(2)]) (use d(3) in \<open>auto simp: fresh_ops_def filter_empty_conv\<close>)
  with d show ?thesis by blast
qed

text \<open>
  Operations are taken in the order of the chain. An operation that \<^verbatim>\<open>sbtc_op\<close> returns belongs to
  a new entry of the lowest block height, and, among those of that height, of the smallest JSON
  text; heights compare as the signed integers they are stored as. The entry is pending afterwards
  and every other entry is as it was.
\<close>

theorem sbtc_op_takes_first:
  assumes "codec_ok rc" and "queue_inv rc q" and "queue_sbtc_op rc q = (Ok (Some op), q')"
  shows "\<exists>e. queue_abs rc q (entry_key e) = Some e \<and> en_op e = op \<and> en_status e = New
    \<and> (\<forall>e'. e' \<in> set (entries rc q) \<longrightarrow> en_status e' = New \<longrightarrow>
         sint (en_block_height e) < sint (en_block_height e')
         \<or> en_block_height e = en_block_height e'
           \<and> \<not> text_less (the (op_to_json rc (en_op e'))) (the (op_to_json rc (en_op e))))
    \<and> queue_abs rc q' = put (e\<lparr>en_status := Pending\<rparr>) (queue_abs rc q)"
proof (rule queue_sbtc_op_cases [OF assms(1,2)])
  assume "queue_sbtc_op rc q = (Ok None, q)"
  with assms(3) show ?thesis by simp
next
  fix e q1
  assume e: "queue_sbtc_op rc q = (Ok (Some (en_op e)), q1)" "e \<in> set (entries rc q)" "en_status e = New"
    and least: "\<And>e'. e' \<in> set (entries rc q) \<Longrightarrow> en_status e' = New \<Longrightarrow> \<not> row_less (row_of rc e') (row_of rc e)"
    and q1: "entries rc q1 = filter (\<lambda>x. entry_key x \<noteq> entry_key e) (entries rc q) @ [e\<lparr>en_status := Pending\<rparr>]"
  have "queue_abs rc q (entry_key e) = Some e"
    using queue_invD(2) [OF assms(1,2)] e(2) unfolding queue_abs_def
    by (intro map_of_is_SomeI) (auto simp: comp_def)
  moreover have "queue_abs rc q' = put (e\<lparr>en_status := Pending\<rparr>) (queue_abs rc q)"
    using q1 e(1) assms(3) map_of_replaced [of "e\<lparr>en_status := Pending\<rparr>" "entry_key e" "entries rc q"]
    by (simp add: queue_abs_def put_def)
  moreover have "sint (en_block_height e) < sint (en_block_height e')
         \<or> en_block_height e = en_block_height e'
           \<and> \<not> text_less (the (op_to_json rc (en_op e'))) (the (op_to_json rc (en_op e)))"
    if "e' \<in> set (entries rc q)" "en_status e' = New" for e'
    using least [OF that] sint_eq_iff [of "en_block_height e" "en_block_height e'"]
    by (auto simp: row_less_def row_of_def)
  ultimately show ?thesis using e assms(3) by auto
qed

text \<open>
  Polling catches up with the chain. Let the last processed height be below the node's height
  \<open>t\<close> and let the node answer for every height in between, or say that it does not know it. Then
  \<^verbatim>\<open>poll\<close> succeeds, has entered as new, block by block, the peg-ins and then the peg-out requests the
  node reports, and the last processed height is \<open>t\<close>; polling again at the same height changes
  nothing (\<open>t\<close> is not the largest 64-bit number). A height the node does not know is counted as processed and not asked for again.
\<close>

theorem queue_poll_catches_up:
  assumes "codec_ok rc" and "queue_inv rc q"
    and "last_processed q = Some h" and "nd_burn_block_height nd = Ok t" and "h < t"
    and "\<forall>k. h < k \<longrightarrow> k \<le> t \<longrightarrow> node_answers nd k" and "unat t + 1 < 2 ^ 64"
  shows "\<exists>q'. queue_poll rc nd q = (Ok (), q') \<and> last_processed q' = Some t
    \<and> queue_abs rc q' = fold put (concat (map (block_entries nd) (heights (h + 1) t))) (queue_abs rc q)
    \<and> queue_poll rc nd q' = (Ok (), q')"
proof -
  have lt: "unat h < unat t" using assms(5) by (simp add: word_less_nat_alt)
  then have "unat h + 1 < 2 ^ 64" using unsigned_less [of t, where ?'a = nat] by simp
  with lt have un: "unat (h + 1) = Suc (unat h)" "unat h < unat t" by (simp_all add: unat_word_ariths)
  have range: "h < k \<and> k \<le> t" if "k \<in> set (heights (h + 1) t)" for k
  proof -
    from that un obtain n where n: "k = of_nat n" "Suc (unat h) \<le> n" "n \<le> unat t"
      by (auto simp: heights_def less_Suc_eq_le simp del: upt_Suc)
    then have "n < 2 ^ 64" using unsigned_less [of t, where ?'a = nat] by simp
    with n have "unat k = n" by (simp add: unat_of_nat)
    with n show ?thesis by (simp add: word_less_nat_alt word_le_nat_alt)
  qed
  have ne: "heights (h + 1) t \<noteq> []" "last (heights (h + 1) t) = t"
    using un by (simp_all add: heights_def last_map)
  have "\<not> t < h + 1" using un by (simp add: word_less_nat_alt)
  moreover obtain q' where q': "poll_blocks rc nd (heights (h + 1) t) q = (Ok (), q')" "last_processed q' = Some t"
    "queue_abs rc q' = fold put (concat (map (block_entries nd) (heights (h + 1) t))) (queue_abs rc q)"
    using poll_blocks_abs [OF assms(1,2), of "heights (h + 1) t" nd] assms(6) range ne by auto
  moreover have "t < t + 1" using assms(7) by (simp add: word_less_nat_alt unat_word_ariths)
  ultimately show ?thesis
    using assms(3,4) by (auto simp: queue_poll_def last_processed_block_height_def)
qed

lemma fold_put_kept:
  assumes "\<forall>e \<in> set es. en_status e = st" and "\<exists>y. m k = Some y \<and> en_status y = st"
  shows "\<exists>x. fold put es m k = Some x \<and> en_status x = st"
  using assms
proof (induction es arbitrary: m)
  case (Cons e es)
  have "\<exists>y. put e m k = Some y \<and> en_status y = st" using Cons.prems by (auto simp: put_def)
  with Cons show ?case by simp
qed simp

lemma fold_put_status:
  assumes "\<forall>e \<in> set es. en_status e = st" and "e \<in> set es"
  shows "\<exists>x. fold put es m (entry_key e) = Some x \<and> en_status x = st"
proof -
  from assms(2) obtain xs ys where es: "es = xs @ e # ys" by (auto simp: in_set_conv_decomp)
  have "\<exists>x. fold put ys (put e (fold put xs m)) (entry_key e) = Some x \<and> en_status x = st"
    using assms(1) es by (intro fold_put_kept) (auto simp: put_def)
  then show ?thesis by (simp add: es)
qed


section \<open>Witnesses\<close>

text \<open>A codec for ids that are 64-bit numbers: eight characters per number.\<close>

definition c8 :: "u64 \<Rightarrow> string" where
  "c8 w = map (\<lambda>b. char_of (unat b)) (u64_be w)"

definition d8 :: "string \<Rightarrow> u64" where
  "d8 s = of_nat (be_value (map (\<lambda>c. of_nat (of_char c)) s))"

fun demo_to_json :: "(u64, u64, unit, unit) SbtcOp \<Rightarrow> string" where
  "demo_to_json (PegIn op) =
     CHR ''I'' # c8 (pi_amount op) @ c8 (pi_txid op) @ c8 (pi_block_height op) @ c8 (pi_burn_header_hash op)"
| "demo_to_json (PegOutRequest op) =
     CHR ''O'' # c8 (po_amount op) @ c8 (po_txid op) @ c8 (po_block_height op) @ c8 (po_burn_header_hash op)
       @ c8 (po_fulfillment_fee op)"

definition field :: "nat \<Rightarrow> string \<Rightarrow> u64" where
  "field i s = d8 (take 8 (drop (8 * i) s))"

definition demo_from_json :: "string \<Rightarrow> (u64, u64, unit, unit) SbtcOp option" where
  "demo_from_json s =
     (case s of
        [] \<Rightarrow> None
      | c # r \<Rightarrow>
          if c = CHR ''I'' then
            Some (PegIn \<lparr>pi_recipient = (), pi_amount = field 0 r, pi_txid = field 1 r,
              pi_block_height = field 2 r, pi_burn_header_hash = field 3 r\<rparr>)
          else
            Some (PegOutRequest \<lparr>po_amount = field 0 r, po_recipient = (), po_fulfillment_fee = field 4 r,
              po_txid = field 1 r, po_block_height = field 2 r, po_burn_header_hash = field 3 r\<rparr>))"

definition demo_rows :: "(u64, u64, unit, unit) row_codec" where
  "demo_rows = \<lparr>txid_to_hex = c8, txid_from_hex = (\<lambda>s. Some (d8 s)), bhh_to_hex = c8,
     bhh_from_hex = (\<lambda>s. Some (d8 s)), op_to_json = (\<lambda>op. Some (demo_to_json op)), op_from_json = demo_from_json\<rparr>"

lemma d8_c8 [simp]: "d8 (c8 w) = w"
proof -
  have "of_nat (of_char (char_of (unat b))) = b" for b :: u8
    using unsigned_less [of b, where ?'a = nat] by simp
  then have "map (\<lambda>c. of_nat (of_char c)) (c8 w) = u64_be w"
    by (simp add: c8_def comp_def)
  then show ?thesis
    using unsigned_less [of w, where ?'a = nat] by (simp add: d8_def u64_be_def be_value_be_bytes del: be_value.simps)
qed

lemma length_c8 [simp]: "length (c8 w) = 8"
  by (simp add: c8_def)

lemma demo_json: "demo_from_json (demo_to_json op) = Some op"
  by (cases op) (simp_all add: demo_from_json_def field_def)

lemma demo_codec_ok: "codec_ok demo_rows"
  by (simp add: codec_ok_def demo_rows_def demo_json)

definition demo_in :: "u64 \<Rightarrow> u64 \<Rightarrow> (u64, u64, unit) PegInOp" where
  "demo_in h i = \<lparr>pi_recipient = (), pi_amount = 100, pi_txid = i, pi_block_height = h, pi_burn_header_hash = h\<rparr>"

text \<open>A queue that holds a pending peg-in of block 5 and two new ones of blocks 7 and 6.\<close>

definition demo_entries :: "(u64, u64, unit, unit) Entry list" where
  "demo_entries = [(Entry_from_peg_in (demo_in 5 1))\<lparr>en_status := Pending\<rparr>, Entry_from_peg_in (demo_in 7 2),
     Entry_from_peg_in (demo_in 6 3)]"

definition demo_queue :: queue_db where
  "demo_queue = \<lparr>sbtc_ops = map (row_of demo_rows) demo_entries, last_processed = Some 7\<rparr>"

lemma demo_queue_inv: "queue_inv demo_rows demo_queue"
  unfolding queue_inv_def demo_queue_def
  by (intro exI [of _ demo_entries]) (simp add: demo_entries_def Entry_from_peg_in_def demo_in_def)

lemma demo_queue_entries: "entries demo_rows demo_queue = demo_entries"
  by (rule entries_map_row_of [OF demo_codec_ok]) (simp add: demo_queue_def)

theorem queue_hands_out_each_op_once_witness:
  "\<exists>ops q'. drain (queue_sbtc_op demo_rows) 2 demo_queue = (ops, q')
     \<and> mset ops = {#PegIn (demo_in 7 2), PegIn (demo_in 6 3)#} \<and> queue_sbtc_op demo_rows q' = (Ok None, q')"
proof -
  have f: "fresh_ops demo_rows demo_queue = {#PegIn (demo_in 7 2), PegIn (demo_in 6 3)#}"
    by (simp add: fresh_ops_def demo_queue_entries demo_entries_def Entry_from_peg_in_def)
  then have "size (fresh_ops demo_rows demo_queue) \<le> 2" by simp
  from queue_hands_out_each_op_once [OF demo_codec_ok demo_queue_inv this] f show ?thesis by auto
qed

theorem sbtc_op_takes_first_witness:
  "\<exists>op q' e. queue_sbtc_op demo_rows demo_queue = (Ok (Some op), q') \<and> en_op e = op \<and> en_status e = New
     \<and> queue_abs demo_rows q' = put (e\<lparr>en_status := Pending\<rparr>) (queue_abs demo_rows demo_queue)"
proof -
  have "\<exists>op q'. queue_sbtc_op demo_rows demo_queue = (Ok (Some op), q')"
    by (rule queue_sbtc_op_cases [OF demo_codec_ok demo_queue_inv])
      (auto simp: demo_queue_entries demo_entries_def Entry_from_peg_in_def)
  then obtain op q' where t: "queue_sbtc_op demo_rows demo_queue = (Ok (Some op), q')" by blast
  from sbtc_op_takes_first [OF demo_codec_ok demo_queue_inv t] t show ?thesis by blast
qed

definition demo_node :: "u64 \<Rightarrow> (u64, u64, unit, unit) peg_node" where
  "demo_node t = \<lparr>nd_get_peg_in_ops = (\<lambda>h. if h = 5 then Ok [demo_in 5 1] else Err (UnknownBlockHeight h)),
     nd_get_peg_out_request_ops = (\<lambda>h. Ok []), nd_burn_block_height = Ok t\<rparr>"

theorem queue_poll_catches_up_witness:
  "\<exists>q'. queue_poll demo_rows (demo_node 8) demo_queue = (Ok (), q') \<and> last_processed q' = Some 8"
proof -
  have "\<exists>q'. queue_poll demo_rows (demo_node 8) demo_queue = (Ok (), q') \<and> last_processed q' = Some 8
    \<and> queue_abs demo_rows q' = fold put (concat (map (block_entries (demo_node 8)) (heights (7 + 1) 8)))
        (queue_abs demo_rows demo_queue)
    \<and> queue_poll demo_rows (demo_node 8) q' = (Ok (), q')"
    by (rule queue_poll_catches_up [OF demo_codec_ok demo_queue_inv])
      (auto simp: demo_queue_def demo_node_def node_answers_def)
  then show ?thesis by blast
qed


end
