(* ===== verification/BitcoinWallet.thy ===== *)
theory BitcoinWallet
  imports BitcoinNode PegQueue "HOL-Library.Sublist"
begin

text \<open>
  The bitcoin side of the peg wallet (\<^verbatim>\<open>stacks-coordinator/src/bitcoin_wallet.rs\<close>): the unsigned
  transaction that fulfills a peg-out request. Scripts and transaction ids of the \<^verbatim>\<open>bitcoin\<close> crate
  are byte strings and the type \<open>'bt\<close>; what the code calls of the crate is the record \<open>btc\<close>.
\<close>

section \<open>Transactions\<close>

datatype bitcoin_wallet_error =
    InsufficientFunds
  | InvalidTransactionID string
  | InvalidScriptPubKey string
  | MissingFulfillmentUTXO
  | MismatchedFulfillmentFee

record 'bt TxIn =
  ti_txid :: 'bt
  ti_vout :: u32
  ti_script_sig :: bytes
  ti_sequence :: u32
  ti_witness :: "bytes list"

record TxOut =
  to_value :: u64
  to_script_pubkey :: bytes

record 'bt Transaction =
  tx_version :: nat
  tx_lock_time :: u32
  tx_input :: "'bt TxIn list"
  tx_output :: "TxOut list"

text \<open>
  \<open>stx_txid_str\<close> is \<^verbatim>\<open>to_string\<close> of the operation's id, \<open>btc_txid\<close> is \<^verbatim>\<open>Txid::from_hex\<close>, \<open>hex_decode\<close> is
  \<^verbatim>\<open>hex::decode\<close>, \<open>p2tr\<close> the taproot script of a key that is taken as tweaked, \<open>op_return\<close> the script
  that carries data, \<open>dust_value\<close> the smallest amount a script is worth sending to.
\<close>

record ('tx, 'bt, 'xk, 'net, 'addr) btc =
  stx_txid_str :: "'tx \<Rightarrow> string"
  btc_txid :: "string \<Rightarrow> 'bt option"
  hex_decode :: "string \<Rightarrow> bytes option"
  p2tr :: "'xk \<Rightarrow> bytes"
  p2tr_address :: "'xk \<Rightarrow> 'net \<Rightarrow> 'addr"
  op_return :: "bytes \<Rightarrow> bytes"
  dust_value :: "bytes \<Rightarrow> u64"

record ('xk, 'addr) BitcoinWallet =
  bw_address :: 'addr
  bw_public_key :: 'xk

definition BitcoinWallet_new ::
  "('tx, 'bt, 'xk, 'net, 'addr) btc \<Rightarrow> 'xk \<Rightarrow> 'net \<Rightarrow> ('xk, 'addr) BitcoinWallet" where
  "BitcoinWallet_new B key net = \<lparr>bw_address = p2tr_address B key net, bw_public_key = key\<rparr>"

definition withdrawal_data_output :: "('tx, 'bt, 'xk, 'net, 'addr) btc \<Rightarrow> TxOut" where
  "withdrawal_data_output B =
     \<lparr>to_value = 0, to_script_pubkey = op_return B (take 35 ([0x54, 0x32, 0x21] @ replicate 35 0x2E))\<rparr>"

definition utxo_to_input ::
  "('tx, 'bt, 'xk, 'net, 'addr) btc \<Rightarrow> UTXO \<Rightarrow> (bitcoin_wallet_error, 'bt TxIn) outcome" where
  "utxo_to_input B u =
     obind (ok_or (InvalidTransactionID (ut_txid u)) (btc_txid B (ut_txid u))) (\<lambda>t.
       Ok \<lparr>ti_txid = t, ti_vout = ut_vout u, ti_script_sig = [], ti_sequence = 0xFFFFFFFD, ti_witness = []\<rparr>)"

definition utxo_to_output ::
  "('tx, 'bt, 'xk, 'net, 'addr) btc \<Rightarrow> UTXO \<Rightarrow> (bitcoin_wallet_error, TxOut) outcome" where
  "utxo_to_output B u =
     obind (ok_or (InvalidScriptPubKey (ut_scriptPubKey u)) (hex_decode B (ut_scriptPubKey u))) (\<lambda>s.
       Ok \<lparr>to_value = ut_amount u, to_script_pubkey = s\<rparr>)"

section \<open>Fulfilling a peg-out request\<close>

text \<open>The state of the loop over the unspent outputs.\<close>

record 'bt spend =
  sp_total :: u64
  sp_inputs :: "'bt TxIn list"
  sp_prevouts :: "TxOut list"
  sp_found :: bool

definition spend_utxo ::
  "('tx, 'bt, 'xk, 'net, 'addr) btc \<Rightarrow> UTXO \<Rightarrow> 'bt spend \<Rightarrow> (bitcoin_wallet_error, 'bt spend) outcome" where
  "spend_utxo B u s =
     obind (utxo_to_input B u) (\<lambda>i. obind (utxo_to_output B u) (\<lambda>out.
       Ok (s\<lparr>sp_inputs := sp_inputs s @ [i], sp_prevouts := sp_prevouts s @ [out]\<rparr>)))"

definition is_fulfillment ::
  "('tx, 'bt, 'xk, 'net, 'addr) btc \<Rightarrow> ('tx, 'bh, 'ad) PegOutRequestOp \<Rightarrow> UTXO \<Rightarrow> bool" where
  "is_fulfillment B op u \<longleftrightarrow> ut_txid u = stx_txid_str B (po_txid op) \<and> ut_vout u = 2"

fun consume_utxos ::
  "('tx, 'bt, 'xk, 'net, 'addr) btc \<Rightarrow> ('tx, 'bh, 'ad) PegOutRequestOp \<Rightarrow> UTXO list \<Rightarrow> 'bt spend
    \<Rightarrow> (bitcoin_wallet_error, 'bt spend) outcome" where
  "consume_utxos B op [] s = Ok s"
| "consume_utxos B op (u # us) s =
     (if is_fulfillment B op u then
        if ut_amount u \<noteq> po_fulfillment_fee op then Err MismatchedFulfillmentFee
        else obind (spend_utxo B u s) (\<lambda>s1. consume_utxos B op us (s1\<lparr>sp_found := True\<rparr>))
      else if sp_total s < po_amount op then
        obind (spend_utxo B u (s\<lparr>sp_total := sp_total s + ut_amount u\<rparr>)) (\<lambda>s1. consume_utxos B op us s1)
      else if sp_found s then Ok s
      else consume_utxos B op us s)"

definition fulfill_peg_out ::
  "('tx, 'bt, 'xk, 'net, 'addr) btc \<Rightarrow> ('xk, 'addr) BitcoinWallet \<Rightarrow> ('tx, 'bh, 'ad) PegOutRequestOp
    \<Rightarrow> UTXO list \<Rightarrow> (bitcoin_wallet_error, 'bt Transaction \<times> TxOut list) outcome" where
  "fulfill_peg_out B w op utxos =
     obind (consume_utxos B op utxos \<lparr>sp_total = 0, sp_inputs = [], sp_prevouts = [], sp_found = False\<rparr>) (\<lambda>s.
       if \<not> sp_found s then Err MissingFulfillmentUTXO
       else if sp_total s < po_amount op then Err InsufficientFunds
       else
         let change_amount = sp_total s - po_amount op;
             script_pubkey = p2tr B (bw_public_key w);
             withdrawal_output = \<lparr>to_value = po_amount op, to_script_pubkey = script_pubkey\<rparr>;
             change = (if dust_value B script_pubkey \<le> change_amount
                       then [\<lparr>to_value = change_amount, to_script_pubkey = script_pubkey\<rparr>] else []) in
         Ok (\<lparr>tx_version = 2, tx_lock_time = 0, tx_input = sp_inputs s,
              tx_output = [withdrawal_data_output B, withdrawal_output] @ change\<rparr>, sp_prevouts s))"

section \<open>What the loop spends\<close>

abbreviation amounts :: "UTXO list \<Rightarrow> nat" where
  "amounts us \<equiv> sum_list (map (\<lambda>u. unat (ut_amount u)) us)"

abbreviation others where
  "others B op us \<equiv> filter (\<lambda>u. \<not> is_fulfillment B op u) us"

definition outs_value :: "TxOut list \<Rightarrow> nat" where
  "outs_value os = sum_list (map (\<lambda>t. unat (to_value t)) os)"

text \<open>The inputs and previous outputs that stand for a list of unspent outputs.\<close>

definition spends where
  "spends B us is os \<longleftrightarrow>
     list_all2 (\<lambda>u i. utxo_to_input B u = Ok i) us is \<and> list_all2 (\<lambda>u t. utxo_to_output B u = Ok t) us os"

lemma spend_utxo_Ok:
  "spend_utxo B u s = Ok s' \<longleftrightarrow> (\<exists>i t. utxo_to_input B u = Ok i \<and> utxo_to_output B u = Ok t
     \<and> s' = s\<lparr>sp_inputs := sp_inputs s @ [i], sp_prevouts := sp_prevouts s @ [t]\<rparr>)"
  by (auto simp: spend_utxo_def obind_Ok_iff)

lemma spends_Cons: "utxo_to_input B u = Ok i \<Longrightarrow> utxo_to_output B u = Ok t \<Longrightarrow> spends B us is os
    \<Longrightarrow> spends B (u # us) (i # is) (t # os)"
  by (simp add: spends_def)

lemma unat_add_bound: "unat a + unat b < 2 ^ 64 \<Longrightarrow> unat (a + b) = unat a + unat b" for a b :: u64
  by (simp add: unat_word_ariths)

lemma consume_utxos_spends:
  assumes "consume_utxos B op us s = Ok s'" and "unat (sp_total s) + amounts us < 2 ^ 64"
  shows "\<exists>taken is os. subseq taken us \<and> spends B taken is os
    \<and> sp_inputs s' = sp_inputs s @ is \<and> sp_prevouts s' = sp_prevouts s @ os
    \<and> unat (sp_total s') = unat (sp_total s) + amounts (others B op taken)
    \<and> (sp_found s' \<longleftrightarrow> sp_found s \<or> (\<exists>u \<in> set taken. is_fulfillment B op u))
    \<and> (\<forall>u \<in> set taken. is_fulfillment B op u \<longrightarrow> ut_amount u = po_fulfillment_fee op)"
  using assms
proof (induction us arbitrary: s)
  case Nil
  then show ?case by (intro exI [of _ "[]"]) (auto simp: spends_def)
next
  case (Cons u us)
  show ?case
  proof (cases "is_fulfillment B op u \<or> sp_total s < po_amount op")
    case True
    define s0 where "s0 = (if is_fulfillment B op u then s else s\<lparr>sp_total := sp_total s + ut_amount u\<rparr>)"
    from Cons.prems(1) True obtain i t s2 where io: "utxo_to_input B u = Ok i" "utxo_to_output B u = Ok t"
      and s2: "s2 = s0\<lparr>sp_inputs := sp_inputs s @ [i], sp_prevouts := sp_prevouts s @ [t],
        sp_found := is_fulfillment B op u \<or> sp_found s\<rparr>"
      and fee: "is_fulfillment B op u \<longrightarrow> ut_amount u = po_fulfillment_fee op"
      and rest: "consume_utxos B op us s2 = Ok s'"
      by (cases "is_fulfillment B op u") (auto simp: obind_Ok_iff spend_utxo_Ok s0_def split: if_splits)
    have total: "unat (sp_total s2) = unat (sp_total s) + amounts (others B op [u])"
      using Cons.prems(2) unat_add_bound [of "sp_total s" "ut_amount u"] by (simp add: s2 s0_def)
    then have "unat (sp_total s2) + amounts us < 2 ^ 64"
      using Cons.prems(2) by (simp split: if_splits)
    from Cons.IH [OF rest this] obtain taken "is" os where IH: "subseq taken us" "spends B taken is os"
      "sp_inputs s' = sp_inputs s2 @ is" "sp_prevouts s' = sp_prevouts s2 @ os"
      "unat (sp_total s') = unat (sp_total s2) + amounts (others B op taken)"
      "sp_found s' \<longleftrightarrow> sp_found s2 \<or> (\<exists>u \<in> set taken. is_fulfillment B op u)"
      "\<forall>u \<in> set taken. is_fulfillment B op u \<longrightarrow> ut_amount u = po_fulfillment_fee op" by blast
    show ?thesis
      by (rule exI [of _ "u # taken"], rule exI [of _ "i # is"], rule exI [of _ "t # os"])
        (use IH io fee total in \<open>auto simp: s2 spends_Cons\<close>)
  next
    case False
    show ?thesis
    proof (cases "sp_found s")
      case True
      with False Cons.prems(1) have "s' = s" by simp
      with True show ?thesis by (intro exI [of _ "[]"]) (auto simp: spends_def)
    next
      case nf: False
      with False Cons.prems(1) have "consume_utxos B op us s = Ok s'" by simp
      from Cons.IH [OF this] Cons.prems(2) show ?thesis by (auto intro: list_emb_Cons)
    qed
  qed
qed

lemma spends_value:
  assumes "spends B us is os"
  shows "outs_value os = amounts us \<and> length is = length us"
proof -
  have "list_all2 (\<lambda>u t. utxo_to_output B u = Ok t) us os" "length is = length us"
    using assms by (auto simp: spends_def dest: list_all2_lengthD)
  moreover have "list_all2 (\<lambda>u t. utxo_to_output B u = Ok t) us os \<Longrightarrow> outs_value os = amounts us"
    by (induction us os rule: list_all2_induct) (auto simp: outs_value_def utxo_to_output_def obind_Ok_iff)
  ultimately show ?thesis by blast
qed

lemma amounts_split: "amounts us = amounts (others B op us) + amounts (filter (is_fulfillment B op) us)"
  by (induction us) auto

lemma subseq_distinct: "subseq xs ys \<Longrightarrow> distinct ys \<Longrightarrow> distinct xs"
  by (induction rule: list_emb.induct) (auto dest: list_emb_set)

lemma one_fulfillment:
  assumes "distinct (map (\<lambda>u. (ut_txid u, ut_vout u)) us)" and "u \<in> set us" and "is_fulfillment B op u"
  shows "filter (is_fulfillment B op) us = [u]"
  using assms
proof (induction us)
  case (Cons x us)
  show ?case
  proof (cases "is_fulfillment B op x")
    case True
    have none: "\<not> is_fulfillment B op y" if "y \<in> set us" for y
      using Cons.prems(1) True that by (auto simp: is_fulfillment_def image_iff)
    with Cons.prems(2,3) have "x = u" by auto
    with True none show ?thesis by (simp add: filter_empty_conv)
  next
    case False
    with Cons show ?thesis by auto
  qed
qed simp

section \<open>Properties\<close>

text \<open>
  C18. Fulfilling a peg-out neither creates nor loses money. Let the unspent outputs be distinct and
  their sum fit 64 bits. When \<^verbatim>\<open>fulfill_peg_out\<close> returns a transaction, its inputs spend some of them,
  in order and each once, among them exactly one fulfillment output, of the amount of the
  fulfillment fee; the previous outputs returned with it are those of the inputs, in the same
  order. The value of the inputs is the value of the outputs, plus the fulfillment fee, plus an
  amount that is either zero or below the dust limit.
\<close>

theorem fulfill_peg_out_conserves:
  assumes ok: "fulfill_peg_out B w op utxos = Ok (tx, prevouts)"
    and bound: "amounts utxos < 2 ^ 64" and dist: "distinct (map (\<lambda>u. (ut_txid u, ut_vout u)) utxos)"
  shows "\<exists>taken burned. subseq taken utxos \<and> spends B taken (tx_input tx) prevouts
    \<and> (\<exists>u. filter (is_fulfillment B op) taken = [u] \<and> ut_amount u = po_fulfillment_fee op)
    \<and> outs_value prevouts = outs_value (tx_output tx) + unat (po_fulfillment_fee op) + burned
    \<and> (burned = 0 \<or> burned < unat (dust_value B (p2tr B (bw_public_key w))))"
proof -
  let ?s0 = "\<lparr>sp_total = 0, sp_inputs = [], sp_prevouts = [], sp_found = False\<rparr>"
  let ?spk = "p2tr B (bw_public_key w)"
  from ok obtain s where s: "consume_utxos B op utxos ?s0 = Ok s" and found: "sp_found s"
    and enough: "\<not> sp_total s < po_amount op" and pre: "prevouts = sp_prevouts s" and ins: "tx_input tx = sp_inputs s"
    and outs: "tx_output tx = [withdrawal_data_output B, \<lparr>to_value = po_amount op, to_script_pubkey = ?spk\<rparr>]
      @ (if dust_value B ?spk \<le> sp_total s - po_amount op
         then [\<lparr>to_value = sp_total s - po_amount op, to_script_pubkey = ?spk\<rparr>] else [])"
    by (auto simp: fulfill_peg_out_def obind_Ok_iff Let_def split: if_splits)
  from consume_utxos_spends [OF s] bound obtain taken where t: "subseq taken utxos"
    "spends B taken (sp_inputs s) (sp_prevouts s)" "unat (sp_total s) = amounts (others B op taken)"
    "\<exists>u \<in> set taken. is_fulfillment B op u" "\<forall>u \<in> set taken. is_fulfillment B op u \<longrightarrow> ut_amount u = po_fulfillment_fee op"
    using found by auto
  have "distinct (map (\<lambda>u. (ut_txid u, ut_vout u)) taken)"
    by (rule subseq_distinct [OF subseq_map [OF t(1)] dist])
  then obtain u where one: "filter (is_fulfillment B op) taken = [u]" and u: "u \<in> set taken" "is_fulfillment B op u"
    using t(4) one_fulfillment by blast
  have val: "outs_value prevouts = unat (sp_total s) + unat (po_fulfillment_fee op)"
    using spends_value [OF t(2)] amounts_split [of taken B op] one t(3,5) u pre by simp
  let ?change = "sp_total s - po_amount op"
  have "po_amount op \<le> sp_total s" using enough by simp
  then have change: "unat ?change = unat (sp_total s) - unat (po_amount op)" "unat (po_amount op) \<le> unat (sp_total s)"
    by (simp_all add: unat_sub word_le_nat_alt)
  have "outs_value (tx_output tx) + (if dust_value B ?spk \<le> ?change then 0 else unat ?change) = unat (sp_total s)"
    using change by (simp add: outs outs_value_def withdrawal_data_output_def)
  with val t(2) one t(1,5) u pre ins show ?thesis
    by (intro exI [of _ taken] exI [of _ "if dust_value B ?spk \<le> ?change then 0 else unat ?change"])
      (auto simp: word_le_nat_alt)
qed

text \<open>
  C40. The payment does not depend on who asked for it. \<^verbatim>\<open>fulfill_peg_out\<close> returns the same transaction
  whatever the recipient of the request is, and the output that carries the requested amount pays
  to the peg wallet's own taproot script.
\<close>

theorem fulfill_peg_out_ignores_recipient:
  "fulfill_peg_out B w (op\<lparr>po_recipient := r\<rparr>) utxos = fulfill_peg_out B w op utxos
   \<and> (\<forall>tx prevouts. fulfill_peg_out B w op utxos = Ok (tx, prevouts) \<longrightarrow>
        tx_output tx ! 1 = \<lparr>to_value = po_amount op, to_script_pubkey = p2tr B (bw_public_key w)\<rparr>)"
proof
  have "consume_utxos B (op\<lparr>po_recipient := r\<rparr>) us = consume_utxos B op us" for us
  proof (induction us)
    case (Cons u us)
    then show ?case by (intro ext) (simp add: is_fulfillment_def)
  qed (simp add: fun_eq_iff)
  moreover have "po_amount (op\<lparr>po_recipient := r\<rparr>) = po_amount op" by simp
  ultimately show "fulfill_peg_out B w (op\<lparr>po_recipient := r\<rparr>) utxos = fulfill_peg_out B w op utxos"
    unfolding fulfill_peg_out_def by (simp only:)
qed (auto simp: fulfill_peg_out_def obind_Ok_iff Let_def split: if_splits)

text \<open>The loop's verdict: parseable outputs, and a fulfillment output, if any, of the right amount.\<close>

lemma consume_utxos_verdict:
  assumes "\<forall>u \<in> set us. btc_txid B (ut_txid u) \<noteq> None \<and> hex_decode B (ut_scriptPubKey u) \<noteq> None"
    and "\<forall>u \<in> set us. is_fulfillment B op u \<longrightarrow> ut_amount u = po_fulfillment_fee op"
    and "unat (sp_total s) + amounts us < 2 ^ 64"
  shows "\<exists>s'. consume_utxos B op us s = Ok s'
    \<and> (sp_found s' \<longleftrightarrow> sp_found s \<or> (\<exists>u \<in> set us. is_fulfillment B op u))
    \<and> (po_amount op \<le> sp_total s' \<longleftrightarrow> unat (po_amount op) \<le> unat (sp_total s) + amounts (others B op us))"
  using assms
proof (induction us arbitrary: s)
  case Nil
  then show ?case by (simp add: word_le_nat_alt)
next
  case (Cons u us)
  from Cons.prems(1) have io: "\<exists>i. utxo_to_input B u = Ok i" "\<exists>t. utxo_to_output B u = Ok t"
    by (auto simp: utxo_to_input_def utxo_to_output_def)
  then have sp: "\<exists>s1. spend_utxo B u x = Ok s1 \<and> sp_total s1 = sp_total x \<and> sp_found s1 = sp_found x" for x
    by (auto simp: spend_utxo_Ok)
  consider (ful) "is_fulfillment B op u" | (more) "\<not> is_fulfillment B op u" "sp_total s < po_amount op"
    | (stop) "\<not> is_fulfillment B op u" "\<not> sp_total s < po_amount op" "sp_found s"
    | (skip) "\<not> is_fulfillment B op u" "\<not> sp_total s < po_amount op" "\<not> sp_found s" by blast
  then show ?case
  proof cases
    case ful
    from sp [of s] obtain s1 where s1: "spend_utxo B u s = Ok s1" "sp_total s1 = sp_total s" by blast
    have "unat (sp_total (s1\<lparr>sp_found := True\<rparr>)) + amounts us < 2 ^ 64" using Cons.prems(3) s1 by simp
    from Cons.IH [OF _ _ this] Cons.prems ful s1 show ?thesis by simp
  next
    case more
    from sp [of "s\<lparr>sp_total := sp_total s + ut_amount u\<rparr>"] obtain s1 where
      s1: "spend_utxo B u (s\<lparr>sp_total := sp_total s + ut_amount u\<rparr>) = Ok s1"
        "sp_total s1 = sp_total s + ut_amount u" "sp_found s1 = sp_found s" by auto
    have "unat (sp_total s1) = unat (sp_total s) + unat (ut_amount u)"
      using Cons.prems(3) unat_add_bound [of "sp_total s" "ut_amount u"] s1 by simp
    with Cons.IH [of s1] Cons.prems more s1 show ?thesis by (simp add: add.assoc)
  next
    case stop
    then show ?thesis by (auto simp: word_le_nat_alt word_less_nat_alt)
  next
    case skip
    with Cons.IH [of s] Cons.prems show ?thesis by (auto simp: word_le_nat_alt word_less_nat_alt)
  qed
qed

text \<open>
  C19. When a peg-out can be fulfilled. Let the unspent outputs be distinct, parseable, and of a sum
  that fits 64 bits. A fulfillment output of another amount than the fee is refused, a missing one
  is reported, too little in the other outputs is reported; in every other case the transaction is
  built.
\<close>

theorem fulfill_peg_out_verdict:
  assumes parse: "\<forall>u \<in> set utxos. btc_txid B (ut_txid u) \<noteq> None \<and> hex_decode B (ut_scriptPubKey u) \<noteq> None"
    and bound: "amounts utxos < 2 ^ 64" and dist: "distinct (map (\<lambda>u. (ut_txid u, ut_vout u)) utxos)"
  shows "case filter (is_fulfillment B op) utxos of
      [] \<Rightarrow> fulfill_peg_out B w op utxos = Err MissingFulfillmentUTXO
    | u # us \<Rightarrow>
        if ut_amount u \<noteq> po_fulfillment_fee op then fulfill_peg_out B w op utxos = Err MismatchedFulfillmentFee
        else if amounts (others B op utxos) < unat (po_amount op)
        then fulfill_peg_out B w op utxos = Err InsufficientFunds
        else is_ok (fulfill_peg_out B w op utxos)"
proof (cases "\<exists>u \<in> set utxos. is_fulfillment B op u \<and> ut_amount u \<noteq> po_fulfillment_fee op")
  case True
  then obtain u where u: "u \<in> set utxos" "is_fulfillment B op u" "ut_amount u \<noteq> po_fulfillment_fee op" by blast
  have "consume_utxos B op us s = Err MismatchedFulfillmentFee"
    if "u \<in> set us" "filter (is_fulfillment B op) us = [u]" "\<not> sp_found s"
       "\<forall>u \<in> set us. btc_txid B (ut_txid u) \<noteq> None \<and> hex_decode B (ut_scriptPubKey u) \<noteq> None" for us s
    using that
  proof (induction us arbitrary: s)
    case (Cons x us)
    show ?case
    proof (cases "is_fulfillment B op x")
      case True
      with Cons.prems(2) u(3) show ?thesis by simp
    next
      case False
      with Cons.prems have "u \<in> set us" "filter (is_fulfillment B op) us = [u]" using u(2) by auto
      with Cons False show ?thesis
        by (auto simp: spend_utxo_def utxo_to_input_def utxo_to_output_def)
    qed
  qed simp
  with u parse one_fulfillment [OF dist u(1,2)] show ?thesis by (simp add: fulfill_peg_out_def)
next
  case False
  let ?s0 = "\<lparr>sp_total = 0, sp_inputs = [], sp_prevouts = [], sp_found = False\<rparr>"
  from consume_utxos_verdict [OF parse, of op ?s0] False bound obtain s' where
    s': "consume_utxos B op utxos ?s0 = Ok s'" "sp_found s' \<longleftrightarrow> (\<exists>u \<in> set utxos. is_fulfillment B op u)"
      "po_amount op \<le> sp_total s' \<longleftrightarrow> unat (po_amount op) \<le> amounts (others B op utxos)"
    by auto
  show ?thesis
  proof (cases "filter (is_fulfillment B op) utxos")
    case Nil
    with s' show ?thesis by (simp add: fulfill_peg_out_def filter_empty_conv)
  next
    case (Cons u us)
    then have "u \<in> set utxos" "is_fulfillment B op u" by (metis filter_eq_ConsD in_set_conv_decomp)+
    with s' False Cons show ?thesis by (auto simp: fulfill_peg_out_def Let_def not_less not_le)
  qed
qed

section \<open>Witnesses\<close>

definition demo_btc :: "(string, string, bytes, unit, unit) btc" where
  "demo_btc = \<lparr>stx_txid_str = (\<lambda>t. t), btc_txid = (\<lambda>s. Some s), hex_decode = (\<lambda>s. Some []), p2tr = (\<lambda>k. k),
     p2tr_address = (\<lambda>k n. ()), op_return = (\<lambda>d. 0x6A # d), dust_value = (\<lambda>s. 10)\<rparr>"

definition demo_utxo :: "string \<Rightarrow> u32 \<Rightarrow> u64 \<Rightarrow> UTXO" where
  "demo_utxo t v a = \<lparr>ut_txid = t, ut_vout = v, ut_address = [], ut_label = [], ut_scriptPubKey = [], ut_amount = a,
     ut_confirmations = 1, ut_redeemScript = [], ut_witnessScript = [], ut_spendable = True, ut_solvable = True,
     ut_reused = False, ut_desc = [], ut_safe = True\<rparr>"

definition demo_peg_out :: "(string, unit, string) PegOutRequestOp" where
  "demo_peg_out = \<lparr>po_amount = 100, po_recipient = ''alice'', po_fulfillment_fee = 7, po_txid = ''t'',
     po_block_height = 1, po_burn_header_hash = ()\<rparr>"

definition demo_utxos :: "UTXO list" where
  "demo_utxos = [demo_utxo ''a'' 0 60, demo_utxo ''t'' 2 7, demo_utxo ''b'' 1 70, demo_utxo ''c'' 0 500]"

definition demo_wallet :: "(bytes, unit) BitcoinWallet" where
  "demo_wallet = BitcoinWallet_new demo_btc [0x51] ()"

definition demo_fulfilled :: "string Transaction \<times> TxOut list" where
  "demo_fulfilled =
     (\<lparr>tx_version = 2, tx_lock_time = 0,
       tx_input = map (\<lambda>(t, v). \<lparr>ti_txid = t, ti_vout = v, ti_script_sig = [], ti_sequence = 0xFFFFFFFD, ti_witness = []\<rparr>)
         [(''a'', 0), (''t'', 2), (''b'', 1)],
       tx_output = [withdrawal_data_output demo_btc, \<lparr>to_value = 100, to_script_pubkey = [0x51]\<rparr>,
         \<lparr>to_value = 30, to_script_pubkey = [0x51]\<rparr>]\<rparr>,
      map (\<lambda>a. \<lparr>to_value = a, to_script_pubkey = []\<rparr>) [60, 7, 70])"

lemma demo_fulfills: "fulfill_peg_out demo_btc demo_wallet demo_peg_out demo_utxos = Ok demo_fulfilled"
  by (simp add: fulfill_peg_out_def demo_utxos_def demo_utxo_def demo_peg_out_def is_fulfillment_def demo_wallet_def
      BitcoinWallet_new_def spend_utxo_def utxo_to_input_def utxo_to_output_def demo_fulfilled_def Let_def
      demo_btc_def withdrawal_data_output_def)

theorem fulfill_peg_out_conserves_witness:
  "\<exists>burned. outs_value (snd demo_fulfilled) = outs_value (tx_output (fst demo_fulfilled)) + 7 + burned
     \<and> (burned = 0 \<or> burned < 10)"
proof -
  have run: "fulfill_peg_out demo_btc demo_wallet demo_peg_out demo_utxos = Ok (fst demo_fulfilled, snd demo_fulfilled)"
    using demo_fulfills by simp
  have "amounts demo_utxos < 2 ^ 64" and "distinct (map (\<lambda>u. (ut_txid u, ut_vout u)) demo_utxos)"
    by (simp_all add: demo_utxos_def demo_utxo_def)
  from fulfill_peg_out_conserves [OF run this] show ?thesis
    by (auto simp: demo_peg_out_def demo_btc_def)
qed

theorem fulfill_peg_out_ignores_recipient_witness:
  "tx_output (fst demo_fulfilled) ! 1 = \<lparr>to_value = 100, to_script_pubkey = [0x51]\<rparr>
   \<and> fulfill_peg_out demo_btc demo_wallet (demo_peg_out\<lparr>po_recipient := ''mallory''\<rparr>) demo_utxos = Ok demo_fulfilled"
proof -
  have run: "fulfill_peg_out demo_btc demo_wallet demo_peg_out demo_utxos = Ok (fst demo_fulfilled, snd demo_fulfilled)"
    using demo_fulfills by simp
  let ?ok = "fulfill_peg_out demo_btc demo_wallet (demo_peg_out\<lparr>po_recipient := ''mallory''\<rparr>) demo_utxos
      = fulfill_peg_out demo_btc demo_wallet demo_peg_out demo_utxos"
  from fulfill_peg_out_ignores_recipient have same: ?ok ..
  from run have "tx_output (fst demo_fulfilled) ! 1
      = \<lparr>to_value = po_amount demo_peg_out, to_script_pubkey = p2tr demo_btc (bw_public_key demo_wallet)\<rparr>"
    using conjunct2 [OF fulfill_peg_out_ignores_recipient] by blast
  with same demo_fulfills show ?thesis
    by (simp add: demo_peg_out_def demo_wallet_def BitcoinWallet_new_def demo_btc_def)
qed

theorem fulfill_peg_out_verdict_witness:
  "fulfill_peg_out demo_btc demo_wallet (demo_peg_out\<lparr>po_amount := 1000\<rparr>) demo_utxos = Err InsufficientFunds"
  using fulfill_peg_out_verdict [where utxos = demo_utxos and B = demo_btc
      and op = "demo_peg_out\<lparr>po_amount := 1000\<rparr>" and w = demo_wallet]
  by (simp add: demo_utxos_def demo_utxo_def demo_peg_out_def is_fulfillment_def demo_btc_def)

end
