(* ===== verification/StacksWallet.thy ===== *)
theory StacksWallet
  imports BitcoinWallet
begin

text \<open>
  The stacks side of the peg wallet (\<^verbatim>\<open>stacks-coordinator/src/stacks_wallet.rs\<close>), the union of both
  sides (\<^verbatim>\<open>peg_wallet.rs\<close>), \<^verbatim>\<open>util.rs\<close>, and the coordinator's configuration (\<^verbatim>\<open>config.rs\<close>).
  Constants, key handling and the signing of transactions come from \<^verbatim>\<open>blockstack_lib\<close>: the record
  \<open>blockstack\<close>.
\<close>

section \<open>Wallet\<close>

datatype TransactionVersion = Mainnet | Testnet

datatype stacks_wallet_error =
    ConfigError string
  | SigningError string
  | MalformedOp string
  | ClarityRuntimeError
  | BlockstackError

datatype peg_wallet_error =
    StacksWalletError stacks_wallet_error
  | BitcoinWalletError bitcoin_wallet_error

text \<open>A contract call as the wallet fills it in: what the network calls a standard transaction with
  one signature, anchor mode \<^verbatim>\<open>Any\<close> and post condition mode \<^verbatim>\<open>Allow\<close>.\<close>

record 'pub unsigned_tx =
  us_version :: TransactionVersion
  us_chain_id :: u32
  us_public_key :: 'pub
  us_nonce :: u64
  us_fee :: u64
  us_contract_address :: string
  us_contract_name :: string
  us_function_name :: string
  us_function_args :: "clarity list"

record ('tx, 'bh, 'pr, 'ad, 'stx, 'sk, 'pub, 'xk) blockstack =
  C32_MAINNET_SINGLESIG :: u8
  C32_TESTNET_SINGLESIG :: u8
  CHAIN_ID_MAINNET :: u32
  CHAIN_ID_TESTNET :: u32
  bs_from_private :: "'sk \<Rightarrow> 'pub"
  bs_clarity_name :: "string \<Rightarrow> string option"
  bs_p2pkh_ok :: "'pub \<Rightarrow> bool"
  bs_sign_origin :: "'sk \<Rightarrow> 'pub unsigned_tx \<Rightarrow> string + 'stx option"
  bs_txid_string :: "'tx \<Rightarrow> string"
  bs_principal :: "'pr \<Rightarrow> string"
  bs_stx_address :: "('tx, 'bh, 'ad) PegOutRequestOp \<Rightarrow> u8 \<Rightarrow> string option"
  bs_key_bytes :: "'pub \<Rightarrow> bytes"
  bs_xonly_bytes :: "'xk \<Rightarrow> bytes"
  bs_tuple_ok :: "(string \<times> clarity) list \<Rightarrow> bool"
  bs_key_from_hex :: "string \<Rightarrow> string + 'sk"
  bs_address_of_key :: "u8 \<Rightarrow> 'pub \<Rightarrow> string option"
  bs_address_ok :: "string \<Rightarrow> bool"
  bs_contract_name :: "string \<Rightarrow> string + string"

definition address_version ::
  "('tx, 'bh, 'pr, 'ad, 'stx, 'sk, 'pub, 'xk) blockstack \<Rightarrow> TransactionVersion \<Rightarrow> u8" where
  "address_version K version =
     (case version of Mainnet \<Rightarrow> C32_MAINNET_SINGLESIG K | Testnet \<Rightarrow> C32_TESTNET_SINGLESIG K)"

record ('sk, 'pub) StacksWallet =
  sw_contract_address :: string
  sw_contract_name :: string
  sw_sender_key :: 'sk
  sw_public_key :: 'pub
  sw_address :: string
  sw_version :: TransactionVersion
  sw_fee :: u64

definition StacksWallet_new ::
  "('tx, 'bh, 'pr, 'ad, 'stx, 'sk, 'pub, 'xk) blockstack \<Rightarrow> string \<Rightarrow> string \<Rightarrow> 'sk \<Rightarrow> string \<Rightarrow> TransactionVersion \<Rightarrow> u64
    \<Rightarrow> ('sk, 'pub) StacksWallet" where
  "StacksWallet_new K name addr key address version fee =
     \<lparr>sw_contract_address = addr, sw_contract_name = name, sw_sender_key = key, sw_public_key = bs_from_private K key,
      sw_address = address, sw_version = version, sw_fee = fee\<rparr>"

definition set_fee :: "u64 \<Rightarrow> ('sk, 'pub) StacksWallet \<Rightarrow> ('sk, 'pub) StacksWallet" where
  "set_fee fee w = w\<lparr>sw_fee := fee\<rparr>"

definition build_transaction_unsigned ::
  "('tx, 'bh, 'pr, 'ad, 'stx, 'sk, 'pub, 'xk) blockstack \<Rightarrow> ('sk, 'pub) StacksWallet \<Rightarrow> string \<Rightarrow> clarity list \<Rightarrow> u64
    \<Rightarrow> (stacks_wallet_error, 'pub unsigned_tx) outcome" where
  "build_transaction_unsigned K w function_name function_args nonce =
     obind (ok_or ClarityRuntimeError (bs_clarity_name K function_name)) (\<lambda>fname.
       if \<not> bs_p2pkh_ok K (sw_public_key w) then
         Err (SigningError ''Failed to create transaction spending condition from provided sender_key.'')
       else
         Ok \<lparr>us_version = sw_version w,
             us_chain_id = (if sw_version w = Testnet then CHAIN_ID_TESTNET K else CHAIN_ID_MAINNET K),
             us_public_key = sw_public_key w, us_nonce = nonce, us_fee = sw_fee w,
             us_contract_address = sw_contract_address w, us_contract_name = sw_contract_name w,
             us_function_name = fname, us_function_args = function_args\<rparr>)"

definition build_transaction_signed ::
  "('tx, 'bh, 'pr, 'ad, 'stx, 'sk, 'pub, 'xk) blockstack \<Rightarrow> ('sk, 'pub) StacksWallet \<Rightarrow> string \<Rightarrow> clarity list \<Rightarrow> u64
    \<Rightarrow> (stacks_wallet_error, 'stx) outcome" where
  "build_transaction_signed K w function_name function_args nonce =
     obind (build_transaction_unsigned K w function_name function_args nonce) (\<lambda>unsigned_tx.
       case bs_sign_origin K (sw_sender_key w) unsigned_tx of
         Inl e \<Rightarrow> Err (SigningError e)
       | Inr None \<Rightarrow> Err (SigningError ''Unable to retrieve signed transaction from the signer.'')
       | Inr (Some tx) \<Rightarrow> Ok tx)"

text \<open>\<^verbatim>\<open>BuildStacksTransaction\<close>: a peg-in is minted, a peg-out burned.\<close>

fun op_call ::
  "('tx, 'bh, 'pr, 'ad, 'stx, 'sk, 'pub, 'xk) blockstack \<Rightarrow> TransactionVersion \<Rightarrow> ('tx, 'bh, 'pr, 'ad) SbtcOp
    \<Rightarrow> (stacks_wallet_error, string \<times> clarity list) outcome" where
  "op_call K version (PegIn op) =
     Ok (''mint!'', [CUInt (ucast (pi_amount op)), CPrincipal (bs_principal K (pi_recipient op)),
                    CASCII (bs_txid_string K (pi_txid op))])"
| "op_call K version (PegOutRequest op) =
     obind (ok_or (MalformedOp ''Failed to recover stx address from peg-out request op.'')
              (bs_stx_address K op (address_version K version))) (\<lambda>address.
       Ok (''burn!'', [CUInt (ucast (po_amount op)), CPrincipal address, CASCII (bs_txid_string K (po_txid op))]))"

definition build_transaction ::
  "('tx, 'bh, 'pr, 'ad, 'stx, 'sk, 'pub, 'xk) blockstack \<Rightarrow> ('sk, 'pub) StacksWallet \<Rightarrow> ('tx, 'bh, 'pr, 'ad) SbtcOp \<Rightarrow> u64
    \<Rightarrow> (peg_wallet_error, 'stx) outcome" where
  "build_transaction K w op nonce =
     map_err StacksWalletError (obind (op_call K (sw_version w) op) (\<lambda>(fname, args).
       build_transaction_signed K w fname args nonce))"

definition build_set_bitcoin_wallet_public_key_transaction ::
  "('tx, 'bh, 'pr, 'ad, 'stx, 'sk, 'pub, 'xk) blockstack \<Rightarrow> ('sk, 'pub) StacksWallet \<Rightarrow> 'xk \<Rightarrow> u64
    \<Rightarrow> (peg_wallet_error, 'stx) outcome" where
  "build_set_bitcoin_wallet_public_key_transaction K w key nonce =
     map_err StacksWalletError
       (build_transaction_signed K w ''set-bitcoin-wallet-public-key'' [CBuffer (bs_xonly_bytes K key)] nonce)"

definition build_set_coordinator_data_transaction ::
  "('tx, 'bh, 'pr, 'ad, 'stx, 'sk, 'pub, 'xk) blockstack \<Rightarrow> ('sk, 'pub) StacksWallet \<Rightarrow> string \<Rightarrow> 'pub \<Rightarrow> u64
    \<Rightarrow> (peg_wallet_error, 'stx) outcome" where
  "build_set_coordinator_data_transaction K w address key nonce =
     (let data = [(''addr'', CPrincipal address), (''key'', CBuffer (bs_key_bytes K key))] in
      map_err StacksWalletError
        (if bs_tuple_ok K data then build_transaction_signed K w ''set-coordinator-data'' [CTuple data] nonce
         else Err BlockstackError))"

record ('xk, 'addr, 'sk, 'pub) WrapPegWallet =
  wp_bitcoin_wallet :: "('xk, 'addr) BitcoinWallet"
  wp_stacks_wallet :: "('sk, 'pub) StacksWallet"

section \<open>Configuration of the coordinator\<close>

datatype coord_config_error =
    CfgIOError
  | CfgTomlError
  | InvalidConfig string
  | InvalidContract string
  | CfgInvalidPrivateKey string

datatype bitcoin_network = Bitcoin | BitcoinTestnet

record CoordRawConfig =
  crc_sbtc_contract :: string
  crc_stacks_private_key :: string
  crc_stacks_node_rpc_url :: string
  crc_bitcoin_node_rpc_url :: string
  crc_frost_dkg_round_id :: u64
  crc_signer_config_path :: "string option"
  crc_start_block_height :: "u64 option"
  crc_data_directory :: "string option"
  crc_network :: "TransactionVersion option"
  crc_transaction_fee :: u64
  crc_http_relay_url :: "string option"
  crc_frost_state_file :: "string option"
  crc_network_private_key :: "string option"
  crc_polling_interval :: "u64 option"

record 'sk CoordConfig =
  cc_contract_name :: string
  cc_contract_address :: string
  cc_stacks_private_key :: 'sk
  cc_stacks_address :: string
  cc_stacks_node_rpc_url :: string
  cc_bitcoin_node_rpc_url :: string
  cc_frost_dkg_round_id :: u64
  cc_signer_config_path :: "string option"
  cc_start_block_height :: "u64 option"
  cc_data_directory :: "string option"
  cc_bitcoin_network :: bitcoin_network
  cc_stacks_version :: TransactionVersion
  cc_transaction_fee :: u64
  cc_http_relay_url :: "string option"
  cc_network_private_key :: "string option"
  cc_polling_interval :: u64

definition DEFAULT_POLLING_INTERVAL :: u64 where
  "DEFAULT_POLLING_INTERVAL = 5"

text \<open>An address followed by a name; anything after a second dot is ignored.\<close>

definition parse_contract ::
  "('tx, 'bh, 'pr, 'ad, 'stx, 'sk, 'pub, 'xk) blockstack \<Rightarrow> CoordRawConfig
    \<Rightarrow> (coord_config_error, string \<times> string) outcome" where
  "parse_contract K raw =
     (case split_char CHR ''.'' (crc_sbtc_contract raw) of
        [] \<Rightarrow> Err (InvalidContract ''Missing address'')
      | [address] \<Rightarrow> Err (InvalidContract ''Missing name.'')
      | address # name # rest \<Rightarrow>
          if \<not> bs_address_ok K address then Err (InvalidContract ''Bad contract address.'')
          else case bs_contract_name K name of
                 Inl e \<Rightarrow> Err (InvalidContract (''Bad contract name: '' @ e @ ''.''))
               | Inr n \<Rightarrow> Ok (n, address))"

definition parse_version :: "CoordRawConfig \<Rightarrow> TransactionVersion \<times> bitcoin_network" where
  "parse_version raw =
     (case (case crc_network raw of Some n \<Rightarrow> n | None \<Rightarrow> Mainnet) of
        Mainnet \<Rightarrow> (Mainnet, Bitcoin)
      | Testnet \<Rightarrow> (Testnet, BitcoinTestnet))"

definition parse_stacks_private_key ::
  "('tx, 'bh, 'pr, 'ad, 'stx, 'sk, 'pub, 'xk) blockstack \<Rightarrow> CoordRawConfig
    \<Rightarrow> (coord_config_error, 'sk \<times> string) outcome" where
  "parse_stacks_private_key K raw =
     (case bs_key_from_hex K (crc_stacks_private_key raw) of
        Inl e \<Rightarrow> Err (CfgInvalidPrivateKey e)
      | Inr key \<Rightarrow>
          obind (ok_or (CfgInvalidPrivateKey ''Failed to generate stacks address from private key.'')
                   (bs_address_of_key K (address_version K (fst (parse_version raw))) (bs_from_private K key)))
            (\<lambda>address. Ok (key, address)))"

definition checked_config ::
  "CoordRawConfig \<Rightarrow> string \<Rightarrow> string \<Rightarrow> 'sk \<Rightarrow> string \<Rightarrow> string \<Rightarrow> string \<Rightarrow> 'sk CoordConfig" where
  "checked_config raw name address key stacks_address stacks_url bitcoin_url =
     \<lparr>cc_contract_name = name, cc_contract_address = address, cc_stacks_private_key = key,
      cc_stacks_address = stacks_address, cc_stacks_node_rpc_url = stacks_url,
      cc_bitcoin_node_rpc_url = bitcoin_url, cc_frost_dkg_round_id = crc_frost_dkg_round_id raw,
      cc_signer_config_path = crc_signer_config_path raw,
      cc_start_block_height = crc_start_block_height raw, cc_data_directory = crc_data_directory raw,
      cc_bitcoin_network = snd (parse_version raw), cc_stacks_version = fst (parse_version raw),
      cc_transaction_fee = crc_transaction_fee raw, cc_http_relay_url = crc_http_relay_url raw,
      cc_network_private_key = crc_network_private_key raw,
      cc_polling_interval = (case crc_polling_interval raw of Some i \<Rightarrow> i
        | None \<Rightarrow> DEFAULT_POLLING_INTERVAL)\<rparr>"

text \<open>\<open>parse_url\<close> is \<^verbatim>\<open>Url::parse\<close>: the text of its error, or the URL.\<close>

definition CoordConfig_try_from ::
  "('tx, 'bh, 'pr, 'ad, 'stx, 'sk, 'pub, 'xk) blockstack \<Rightarrow> (string \<Rightarrow> string + string) \<Rightarrow> CoordRawConfig
    \<Rightarrow> (coord_config_error, 'sk CoordConfig) outcome" where
  "CoordConfig_try_from K parse_url raw =
     (if crc_signer_config_path raw = None \<and> crc_http_relay_url raw = None then
        Err (InvalidConfig ''Must specify http_relay_url when no signer_config_path specified.'')
      else if crc_signer_config_path raw = None \<and> crc_frost_state_file raw = None then
        Err (InvalidConfig ''Must specify frost_state_file when no signer_config_path specified.'')
      else if crc_signer_config_path raw = None \<and> crc_network_private_key raw = None then
        Err (InvalidConfig ''Must specify network_private_key when no signer config_path specified.'')
      else
        obind (parse_contract K raw) (\<lambda>(name, address).
        obind (parse_stacks_private_key K raw) (\<lambda>(key, stacks_address).
        case parse_url (crc_stacks_node_rpc_url raw) of
          Inl e \<Rightarrow> Err (InvalidConfig (''Invalid stacks_node_rpc_url: '' @ e))
        | Inr stacks_url \<Rightarrow>
            (case parse_url (crc_bitcoin_node_rpc_url raw) of
               Inl e \<Rightarrow> Err (InvalidConfig (''Invalid bitcoin_node_rpc_url: '' @ e))
             | Inr bitcoin_url \<Rightarrow>
                 Ok (checked_config raw name address key stacks_address stacks_url bitcoin_url)))))"

text \<open>Reading and decoding the file are arguments; a value that is no network name fails to decode.\<close>

definition CoordConfig_from_path ::
  "('tx, 'bh, 'pr, 'ad, 'stx, 'sk, 'pub, 'xk) blockstack \<Rightarrow> (string \<Rightarrow> string + string)
    \<Rightarrow> (string \<Rightarrow> string option) \<Rightarrow> (string \<Rightarrow> CoordRawConfig option) \<Rightarrow> string
    \<Rightarrow> (coord_config_error, 'sk CoordConfig) outcome" where
  "CoordConfig_from_path K parse_url read_file toml path =
     obind (ok_or CfgIOError (read_file path)) (\<lambda>text.
     obind (ok_or CfgTomlError (toml text)) (\<lambda>raw. CoordConfig_try_from K parse_url raw))"

section \<open>Lemmas\<close>

text \<open>A checked configuration says where the signers are: either by a file, or by itself.\<close>

lemma parse_version_consistent: "fst (parse_version raw) = Mainnet \<longleftrightarrow> snd (parse_version raw) = Bitcoin"
  by (simp add: parse_version_def split: TransactionVersion.split)

lemma parse_stacks_private_key_Ok:
  assumes "parse_stacks_private_key K raw = Ok (key, address)"
  shows "bs_address_of_key K (address_version K (fst (parse_version raw))) (bs_from_private K key) = Some address"
proof (cases "bs_key_from_hex K (crc_stacks_private_key raw)")
  case (Inl e)
  with assms show ?thesis by (simp add: parse_stacks_private_key_def)
next
  case (Inr k)
  with assms show ?thesis
    by (auto simp: parse_stacks_private_key_def obind_Ok_iff)
qed

lemma CoordConfig_try_from_Ok:
  assumes "CoordConfig_try_from K parse_url raw = Ok c"
  shows "cc_signer_config_path c \<noteq> None \<or> (cc_http_relay_url c \<noteq> None \<and> cc_network_private_key c \<noteq> None)"
    and "cc_stacks_version c = Mainnet \<longleftrightarrow> cc_bitcoin_network c = Bitcoin"
    and "bs_address_of_key K (address_version K (cc_stacks_version c)) (bs_from_private K (cc_stacks_private_key c))
        = Some (cc_stacks_address c)"
proof -
  let ?missing = "crc_signer_config_path raw = None \<and>
    (crc_http_relay_url raw = None \<or> crc_frost_state_file raw = None \<or> crc_network_private_key raw = None)"
  have m: "\<not> ?missing"
    using assms unfolding CoordConfig_try_from_def by (intro notI) (elim conjE disjE, simp_all split: if_splits)
  then have body: "obind (parse_contract K raw) (\<lambda>(name, address).
        obind (parse_stacks_private_key K raw) (\<lambda>(key, stacks_address).
        case parse_url (crc_stacks_node_rpc_url raw) of
          Inl e \<Rightarrow> Err (InvalidConfig (''Invalid stacks_node_rpc_url: '' @ e))
        | Inr stacks_url \<Rightarrow>
            (case parse_url (crc_bitcoin_node_rpc_url raw) of
               Inl e \<Rightarrow> Err (InvalidConfig (''Invalid bitcoin_node_rpc_url: '' @ e))
             | Inr bitcoin_url \<Rightarrow> Ok (checked_config raw name address key stacks_address stacks_url bitcoin_url)))) = Ok c"
    using assms unfolding CoordConfig_try_from_def by (auto split: if_splits)
  then obtain name address key sa url burl where k: "parse_stacks_private_key K raw = Ok (key, sa)"
    and c: "c = checked_config raw name address key sa url burl"
    by (cases "parse_url (crc_stacks_node_rpc_url raw)"; cases "parse_url (crc_bitcoin_node_rpc_url raw)")
      (auto simp: obind_Ok_iff)
  show "cc_signer_config_path c \<noteq> None \<or> (cc_http_relay_url c \<noteq> None \<and> cc_network_private_key c \<noteq> None)"
    using m by (auto simp: c checked_config_def)
  show "cc_stacks_version c = Mainnet \<longleftrightarrow> cc_bitcoin_network c = Bitcoin"
    by (simp add: c checked_config_def parse_version_consistent)
  show "bs_address_of_key K (address_version K (cc_stacks_version c)) (bs_from_private K (cc_stacks_private_key c))
      = Some (cc_stacks_address c)"
    using parse_stacks_private_key_Ok [OF k] by (simp add: c checked_config_def)
qed

text \<open>The transaction that is signed carries the nonce it was asked for and the wallet's current fee.\<close>

lemma build_transaction_Ok:
  assumes "build_transaction K w op nonce = Ok tx"
  obtains fname args u where "op_call K (sw_version w) op = Ok (fname, args)"
    and "build_transaction_unsigned K w fname args nonce = Ok u"
    and "bs_sign_origin K (sw_sender_key w) u = Inr (Some tx)"
    and "us_nonce u = nonce" and "us_fee u = sw_fee w" and "us_function_args u = args"
proof -
  from assms obtain fname args where c: "op_call K (sw_version w) op = Ok (fname, args)"
    and s: "build_transaction_signed K w fname args nonce = Ok tx"
    by (auto simp: build_transaction_def obind_Ok_iff)
  from s obtain u where u: "build_transaction_unsigned K w fname args nonce = Ok u"
    and r: "(case bs_sign_origin K (sw_sender_key w) u of
         Inl e \<Rightarrow> Err (SigningError e)
       | Inr None \<Rightarrow> Err (SigningError ''Unable to retrieve signed transaction from the signer.'')
       | Inr (Some tx) \<Rightarrow> Ok tx) = Ok tx"
    unfolding build_transaction_signed_def obind_Ok_iff by blast
  have "bs_sign_origin K (sw_sender_key w) u = Inr (Some tx)"
    using r by (cases "bs_sign_origin K (sw_sender_key w) u") (simp_all split: option.splits)
  moreover have "us_nonce u = nonce" "us_fee u = sw_fee w" "us_function_args u = args"
    using u by (auto simp: build_transaction_unsigned_def obind_Ok_iff split: if_splits)
  ultimately show ?thesis using that c u by blast
qed

end
