(* ===== verification/PegCoordinator.thy ===== *)
theory PegCoordinator
  imports StacksWallet
begin

text \<open>
  The coordinator's work on peg operations: the provided methods of the traits \<^verbatim>\<open>Coordinator\<close> and
  \<^verbatim>\<open>CoordinatorHelpers\<close> in \<^verbatim>\<open>stacks-coordinator/src/coordinator.rs\<close>. A trait is the record of its
  required methods; what they do to the implementor's state \<open>'st\<close> is explicit. Theory
  \<open>StacksCoordinator\<close> holds the implementation for \<^verbatim>\<open>StacksCoordinator\<close>.
\<close>

section \<open>Sequencing\<close>

text \<open>The operator \<^verbatim>\<open>?\<close> in a method that also changes the state.\<close>

definition and_then ::
  "('e, 'a) outcome \<times> 's \<Rightarrow> ('a \<Rightarrow> 's \<Rightarrow> ('e, 'b) outcome \<times> 's) \<Rightarrow> ('e, 'b) outcome \<times> 's" where
  "and_then p f = (case p of (Ok a, s) \<Rightarrow> f a s | (Err e, s) \<Rightarrow> (Err e, s) | (Panic, s) \<Rightarrow> (Panic, s))"

definition with_err :: "('e \<Rightarrow> 'f) \<Rightarrow> ('e, 'a) outcome \<times> 's \<Rightarrow> ('f, 'a) outcome \<times> 's" where
  "with_err g p = (map_err g (fst p), snd p)"

lemma and_then_simps [simp]:
  "and_then (Ok a, s) f = f a s" "and_then (Err e, s) f = (Err e, s)" "and_then (Panic, s) f = (Panic, s)"
  by (simp_all add: and_then_def)

lemma and_then_Ok:
  "and_then p f = (Ok b, s') \<longleftrightarrow> (\<exists>a s. p = (Ok a, s) \<and> f a s = (Ok b, s'))"
  by (auto simp: and_then_def split: prod.splits outcome.splits)

lemma and_then_cong [fundef_cong]:
  "p = q \<Longrightarrow> (\<And>a s. q = (Ok a, s) \<Longrightarrow> f a s = g a s) \<Longrightarrow> and_then p f = and_then q g"
  by (auto simp: and_then_def split: prod.splits outcome.splits)

lemma with_err_simps [simp]:
  "with_err g (Ok a, s) = (Ok a, s)" "with_err g (Err e, s) = (Err (g e), s)" "with_err g (Panic, s) = (Panic, s)"
  by (simp_all add: with_err_def)

lemma with_err_Ok [simp]: "with_err g p = (Ok a, s) \<longleftrightarrow> p = (Ok a, s)"
  by (cases p) (auto simp: with_err_def)

text \<open>The state after two steps is the state after the first or after the second.\<close>

lemma and_then_elim:
  assumes "and_then p f = (r, s')"
  obtains (first) e where "p = (Err e, s')" "r = Err e"
    | (stop) "p = (Panic, s')" "r = Panic"
    | (both) a s where "p = (Ok a, s)" "f a s = (r, s')"
  using assms by (auto simp: and_then_def split: prod.splits outcome.splits)

section \<open>The trait\<close>

text \<open>The error's messages are represented by what goes into them.\<close>

datatype config_problem =
    BadSignerConfigPath string config_error
  | BadSignerConfig config_error
  | BadNetworkPrivateKey
  | SharesNotOpened string
  | SharesNotParsed
  | SharesNotWritten string

datatype ('fe, 'se) peg_error =
    PegQueueError peg_queue_error
  | PegWalletError peg_wallet_error
  | FrostCoordinatorError 'fe
  | StacksError stacks_node_error
  | BitcoinNodeError bitcoin_node_error
  | CoordinatorConfigError config_problem
  | InvalidWalletKey string
  | SighashError 'se
  | NoCoordinator
  | MaxFeeRetriesExceeded
  | MaxNonceRetriesExceeded
  | PointError

text \<open>
  The methods the provided ones call: of the queue (\<open>cd_poll\<close>, \<open>cd_sbtc_op\<close>), of the stacks node
  (\<open>cd_next_nonce\<close> for the wallet's address, \<open>cd_broadcast\<close>), of the stacks wallet
  (\<open>cd_build_transaction\<close>, \<open>cd_set_fee\<close>), of the bitcoin node (\<open>cd_list_unspent\<close> for the wallet's
  address, \<open>cd_broadcast_btc\<close>), of the bitcoin wallet (\<open>cd_fulfill_peg_out\<close>) and of the frost coordinator
  (\<open>cd_sign\<close>, which gives the Schnorr proof). \<open>cd_sighash\<close> is \<^verbatim>\<open>SighashCache\<close> of the \<^verbatim>\<open>bitcoin\<close> crate
  and \<open>cd_proof_bytes\<close> is \<^verbatim>\<open>SchnorrProof::to_bytes\<close>.
\<close>

record ('st, 'tx, 'bh, 'pr, 'ad, 'stx, 'bt, 'proof, 'fe, 'se) coordinator =
  cd_poll :: "'st \<Rightarrow> (peg_queue_error, unit) outcome \<times> 'st"
  cd_sbtc_op :: "'st \<Rightarrow> (peg_queue_error, ('tx, 'bh, 'pr, 'ad) SbtcOp option) outcome \<times> 'st"
  cd_next_nonce :: "'st \<Rightarrow> (stacks_node_error, u64) outcome \<times> 'st"
  cd_broadcast :: "'stx \<Rightarrow> 'st \<Rightarrow> (stacks_node_error, unit) outcome \<times> 'st"
  cd_build_transaction :: "('tx, 'bh, 'pr, 'ad) SbtcOp \<Rightarrow> u64 \<Rightarrow> 'st \<Rightarrow> (peg_wallet_error, 'stx) outcome"
  cd_set_fee :: "u64 \<Rightarrow> 'st \<Rightarrow> 'st"
  cd_list_unspent :: "'st \<Rightarrow> (bitcoin_node_error, UTXO list) outcome \<times> 'st"
  cd_broadcast_btc :: "'bt Transaction \<Rightarrow> 'st \<Rightarrow> (bitcoin_node_error, unit) outcome \<times> 'st"
  cd_fulfill_peg_out :: "('tx, 'bh, 'ad) PegOutRequestOp \<Rightarrow> UTXO list \<Rightarrow> 'st
    \<Rightarrow> (bitcoin_wallet_error, 'bt Transaction \<times> TxOut list) outcome"
  cd_sign :: "bytes \<Rightarrow> 'st \<Rightarrow> ('fe, 'proof) outcome \<times> 'st"
  cd_sighash :: "'bt Transaction \<Rightarrow> nat \<Rightarrow> TxOut list \<Rightarrow> 'se + bytes"
  cd_proof_bytes :: "'proof \<Rightarrow> bytes"

definition MAX_NONCE_RETRIES :: nat where
  "MAX_NONCE_RETRIES = 10"

definition MAX_FEE_RETRIES :: nat where
  "MAX_FEE_RETRIES = 2"

section \<open>Broadcasting with retries\<close>

text \<open>The loop of \<^verbatim>\<open>try_broadcast_transaction\<close>. The counters stay below 12.\<close>

function broadcast_loop ::
  "('st, 'tx, 'bh, 'pr, 'ad, 'stx, 'bt, 'proof, 'fe, 'se) coordinator \<Rightarrow> ('tx, 'bh, 'pr, 'ad) SbtcOp
    \<Rightarrow> u64 \<Rightarrow> nat \<Rightarrow> nat \<Rightarrow> 'st \<Rightarrow> (('fe, 'se) peg_error, unit) outcome \<times> 'st" where
  "broadcast_loop C op nonce nonce_retries fee_retries s =
     (case cd_build_transaction C op nonce s of
        Ok tx \<Rightarrow>
          (case cd_broadcast C tx s of
             (Err (BroadcastError ConflictingNonceInMempool), s1) \<Rightarrow>
               if MAX_NONCE_RETRIES < nonce_retries + 1 then (Err MaxNonceRetriesExceeded, s1)
               else and_then (with_err StacksError (cd_next_nonce C s1)) (\<lambda>n s2.
                      broadcast_loop C op n (nonce_retries + 1) fee_retries s2)
           | (Err (BroadcastError (FeeTooLow expected actual)), s1) \<Rightarrow>
               if MAX_FEE_RETRIES < fee_retries + 1 then (Err MaxFeeRetriesExceeded, s1)
               else broadcast_loop C op nonce nonce_retries (fee_retries + 1) (cd_set_fee C expected s1)
           | (Err e, s1) \<Rightarrow> (Err (StacksError e), s1)
           | (Ok u, s1) \<Rightarrow> (Ok (), s1)
           | (Panic, s1) \<Rightarrow> (Panic, s1))
      | Err e \<Rightarrow> (Err (PegWalletError e), s)
      | Panic \<Rightarrow> (Panic, s))"
  by pat_completeness auto
termination
  by (relation "measure (\<lambda>(C, op, nonce, n, f, s). (11 - n) + (3 - f))")
    (auto simp: MAX_NONCE_RETRIES_def MAX_FEE_RETRIES_def)

declare broadcast_loop.simps [simp del]

definition try_broadcast_transaction ::
  "('st, 'tx, 'bh, 'pr, 'ad, 'stx, 'bt, 'proof, 'fe, 'se) coordinator \<Rightarrow> ('tx, 'bh, 'pr, 'ad) SbtcOp
    \<Rightarrow> 'st \<Rightarrow> (('fe, 'se) peg_error, unit) outcome \<times> 'st" where
  "try_broadcast_transaction C op s =
     and_then (with_err StacksError (cd_next_nonce C s)) (\<lambda>nonce s1. broadcast_loop C op nonce 0 0 s1)"

section \<open>Peg-ins and peg-outs\<close>

definition peg_in ::
  "('st, 'tx, 'bh, 'pr, 'ad, 'stx, 'bt, 'proof, 'fe, 'se) coordinator \<Rightarrow> ('tx, 'bh, 'pr) PegInOp
    \<Rightarrow> 'st \<Rightarrow> (('fe, 'se) peg_error, unit) outcome \<times> 'st" where
  "peg_in C op s = try_broadcast_transaction C (PegIn op) s"

definition push_witness :: "nat \<Rightarrow> bytes \<Rightarrow> 'bt Transaction \<Rightarrow> 'bt Transaction" where
  "push_witness i w tx =
     tx\<lparr>tx_input := (tx_input tx)[i := (tx_input tx ! i)\<lparr>ti_witness := ti_witness (tx_input tx ! i) @ [w]\<rparr>]\<rparr>"

text \<open>The signing loop, over the indices of the inputs. All hashes are of the unsigned transaction.\<close>

fun sign_inputs ::
  "('st, 'tx, 'bh, 'pr, 'ad, 'stx, 'bt, 'proof, 'fe, 'se) coordinator \<Rightarrow> 'bt Transaction \<Rightarrow> TxOut list
    \<Rightarrow> nat list \<Rightarrow> 'bt Transaction \<Rightarrow> 'st \<Rightarrow> (('fe, 'se) peg_error, 'bt Transaction) outcome \<times> 'st" where
  "sign_inputs C sighash_tx prevouts [] tx s = (Ok tx, s)"
| "sign_inputs C sighash_tx prevouts (i # is) tx s =
     (case cd_sighash C sighash_tx i prevouts of
        Inl e \<Rightarrow> (Err (SighashError e), s)
      | Inr h \<Rightarrow>
          and_then (with_err FrostCoordinatorError (cd_sign C h s)) (\<lambda>p s1.
            sign_inputs C sighash_tx prevouts is (push_witness i (cd_proof_bytes C p) tx) s1))"

definition coordinator_fulfill_peg_out ::
  "('st, 'tx, 'bh, 'pr, 'ad, 'stx, 'bt, 'proof, 'fe, 'se) coordinator \<Rightarrow> ('tx, 'bh, 'ad) PegOutRequestOp
    \<Rightarrow> 'st \<Rightarrow> (('fe, 'se) peg_error, 'bt Transaction) outcome \<times> 'st" where
  "coordinator_fulfill_peg_out C op s =
     and_then (with_err BitcoinNodeError (cd_list_unspent C s)) (\<lambda>utxos s1.
       case cd_fulfill_peg_out C op utxos s1 of
         Ok (tx, prevouts) \<Rightarrow> sign_inputs C tx prevouts [0..<length (tx_input tx)] tx s1
       | Err e \<Rightarrow> (Err (PegWalletError (BitcoinWalletError e)), s1)
       | Panic \<Rightarrow> (Panic, s1))"

definition peg_out ::
  "('st, 'tx, 'bh, 'pr, 'ad, 'stx, 'bt, 'proof, 'fe, 'se) coordinator \<Rightarrow> ('tx, 'bh, 'ad) PegOutRequestOp
    \<Rightarrow> 'st \<Rightarrow> (('fe, 'se) peg_error, unit) outcome \<times> 'st" where
  "peg_out C op s =
     and_then (coordinator_fulfill_peg_out C op s) (\<lambda>fulfill_tx s1.
     and_then (try_broadcast_transaction C (PegOutRequest op) s1) (\<lambda>u s2.
       with_err BitcoinNodeError (cd_broadcast_btc C fulfill_tx s2)))"

section \<open>The main loops\<close>

text \<open>The branches of \<^verbatim>\<open>process_queue\<close> on an operation.\<close>

fun handle_op ::
  "('st, 'tx, 'bh, 'pr, 'ad, 'stx, 'bt, 'proof, 'fe, 'se) coordinator \<Rightarrow> ('tx, 'bh, 'pr, 'ad) SbtcOp
    \<Rightarrow> 'st \<Rightarrow> (('fe, 'se) peg_error, unit) outcome \<times> 'st" where
  "handle_op C (PegIn op) s = peg_in C op s"
| "handle_op C (PegOutRequest op) s = peg_out C op s"

text \<open>The loop has no bound of its own: \<open>None\<close> is a run that does not end.\<close>

partial_function (option) process_queue ::
  "('st, 'tx, 'bh, 'pr, 'ad, 'stx, 'bt, 'proof, 'fe, 'se) coordinator
    \<Rightarrow> 'st \<Rightarrow> ((('fe, 'se) peg_error, unit) outcome \<times> 'st) option" where
  "process_queue C s =
     (case cd_sbtc_op C s of
        (Ok None, s1) \<Rightarrow> Some (Ok (), s1)
      | (Ok (Some op), s1) \<Rightarrow>
          (case handle_op C op s1 of
             (Ok u, s2) \<Rightarrow> process_queue C s2
           | (Err e, s2) \<Rightarrow> Some (Err e, s2)
           | (Panic, s2) \<Rightarrow> Some (Panic, s2))
      | (Err e, s1) \<Rightarrow> Some (Err (PegQueueError e), s1)
      | (Panic, s1) \<Rightarrow> Some (Panic, s1))"

text \<open>\<^verbatim>\<open>run\<close>, followed for \<open>n\<close> rounds; it ends earlier only with an error. The pause is left out.\<close>

fun coordinator_run ::
  "('st, 'tx, 'bh, 'pr, 'ad, 'stx, 'bt, 'proof, 'fe, 'se) coordinator
    \<Rightarrow> nat \<Rightarrow> 'st \<Rightarrow> ((('fe, 'se) peg_error, unit) outcome \<times> 'st) option" where
  "coordinator_run C 0 s = Some (Ok (), s)"
| "coordinator_run C (Suc n) s =
     (case cd_poll C s of
        (Ok u, s1) \<Rightarrow>
          (case process_queue C s1 of
             Some (Ok v, s2) \<Rightarrow> coordinator_run C n s2
           | r \<Rightarrow> r)
      | (Err e, s1) \<Rightarrow> Some (Err (PegQueueError e), s1)
      | (Panic, s1) \<Rightarrow> Some (Panic, s1))"

section \<open>What is sent\<close>

text \<open>A transaction sent to the stacks node or to the bitcoin node, and whether the node took it.\<close>

datatype ('stx, 'bt) sent = SbtcTx 'stx bool | BtcTx "'bt Transaction" bool

definition accepted_txs :: "('stx, 'bt) sent list \<Rightarrow> 'stx list" where
  "accepted_txs log = List.map_filter (\<lambda>x. case x of SbtcTx tx True \<Rightarrow> Some tx | _ \<Rightarrow> None) log"

definition paid :: "('stx, 'bt) sent list \<Rightarrow> 'bt Transaction list" where
  "paid log = List.map_filter (\<lambda>x. case x of BtcTx tx True \<Rightarrow> Some tx | _ \<Rightarrow> None) log"

definition peg_outs :: "('tx, 'bh, 'pr, 'ad) SbtcOp list \<Rightarrow> ('tx, 'bh, 'ad) PegOutRequestOp list" where
  "peg_outs ops = List.map_filter as_peg_out_request ops"

lemma log_simps [simp]:
  "accepted_txs [] = []" "accepted_txs (SbtcTx tx b # xs) = (if b then tx # accepted_txs xs else accepted_txs xs)"
  "accepted_txs (BtcTx t b # xs) = accepted_txs xs" "accepted_txs (xs @ ys) = accepted_txs xs @ accepted_txs ys"
  "paid [] = []" "paid (SbtcTx tx b # xs) = paid xs"
  "paid (BtcTx t b # xs) = (if b then t # paid xs else paid xs)" "paid (xs @ ys) = paid xs @ paid ys"
  "peg_outs [] = []" "peg_outs (PegIn i # ops) = peg_outs ops" "peg_outs (PegOutRequest q # ops) = q # peg_outs ops"
  by (simp_all add: accepted_txs_def paid_def peg_outs_def List.map_filter_def)

lemma accepted_rejected [simp]: "accepted_txs (map (\<lambda>tx. SbtcTx tx False) txs) = []"
  by (induction txs) simp_all

lemma accepted_all [simp]: "accepted_txs (map (\<lambda>tx. SbtcTx tx True) txs) = txs"
  by (induction txs) simp_all

lemma paid_sbtc [simp]: "paid (map (\<lambda>tx. SbtcTx tx b) txs) = []"
  by (induction txs) simp_all

text \<open>A transaction of the stacks wallet for an operation; a signed transaction that fulfills a request.\<close>

definition built_for ::
  "('st, 'tx, 'bh, 'pr, 'ad, 'stx, 'bt, 'proof, 'fe, 'se) coordinator \<Rightarrow> ('tx, 'bh, 'pr, 'ad) SbtcOp \<Rightarrow> 'stx \<Rightarrow> bool" where
  "built_for C op tx \<longleftrightarrow> (\<exists>nonce s. cd_build_transaction C op nonce s = Ok tx)"

definition fulfills ::
  "('st, 'tx, 'bh, 'pr, 'ad, 'stx, 'bt, 'proof, 'fe, 'se) coordinator \<Rightarrow> ('tx, 'bh, 'ad) PegOutRequestOp
    \<Rightarrow> 'bt Transaction \<Rightarrow> bool" where
  "fulfills C op tx \<longleftrightarrow> (\<exists>s s'. coordinator_fulfill_peg_out C op s = (Ok tx, s'))"

text \<open>The attempts to broadcast: rejected ones, and after them, on success only, an accepted one.\<close>

definition attempts ::
  "('st, 'tx, 'bh, 'pr, 'ad, 'stx, 'bt, 'proof, 'fe, 'se) coordinator \<Rightarrow> ('tx, 'bh, 'pr, 'ad) SbtcOp
    \<Rightarrow> (('fe, 'se) peg_error, unit) outcome \<Rightarrow> ('stx, 'bt) sent list \<Rightarrow> bool" where
  "attempts C op r new \<longleftrightarrow>
     (\<exists>rejected ok. new = map (\<lambda>tx. SbtcTx tx False) rejected @ map (\<lambda>tx. SbtcTx tx True) ok
        \<and> (\<forall>tx \<in> set (rejected @ ok). built_for C op tx) \<and> length ok = (if is_ok r then 1 else 0))"

lemma attempts_one: "cd_build_transaction C op nonce s = Ok tx \<Longrightarrow> is_ok r = b \<Longrightarrow> attempts C op r [SbtcTx tx b]"
  unfolding attempts_def built_for_def
  by (cases b) (force intro: exI [of _ "[]"] exI [of _ "[tx]"])+

lemma attempts_more:
  assumes "cd_build_transaction C op nonce s = Ok tx" and "attempts C op r new"
  shows "attempts C op r (SbtcTx tx False # new)"
proof -
  from assms(2) obtain rejected ok where new: "new = map (\<lambda>tx. SbtcTx tx False) rejected @ map (\<lambda>tx. SbtcTx tx True) ok"
    "\<forall>tx \<in> set (rejected @ ok). built_for C op tx" "length ok = (if is_ok r then 1 else 0)"
    unfolding attempts_def by blast
  with assms(1) show ?thesis
    unfolding attempts_def by (intro exI [of _ "tx # rejected"] exI [of _ ok]) (auto simp: built_for_def)
qed

lemma attempts_none: "\<not> is_ok r \<Longrightarrow> attempts C op r []"
  by (simp add: attempts_def)

text \<open>A part of the state that fetching a nonce or the outputs, setting the fee and signing leave alone.\<close>

locale coordinator_frame =
  fixes C :: "('st, 'tx, 'bh, 'pr, 'ad, 'stx, 'bt, 'proof, 'fe, 'se) coordinator"
    and part :: "'st \<Rightarrow> 'part"
  assumes next_nonce_part: "cd_next_nonce C s = (res_nonce, s') \<Longrightarrow> part s' = part s"
    and set_fee_part: "part (cd_set_fee C fee s) = part s"
    and list_unspent_part: "cd_list_unspent C s = (res_utxos, s') \<Longrightarrow> part s' = part s"
    and sign_part: "cd_sign C h s = (res_proof, s') \<Longrightarrow> part s' = part s"
begin

lemma sign_inputs_part: "sign_inputs C tx0 prevouts is tx s = (r, s') \<Longrightarrow> part s' = part s"
proof (induction "is" arbitrary: tx s)
  case (Cons i "is")
  show ?case
  proof (cases "cd_sighash C tx0 i prevouts")
    case (Inr h)
    obtain rp s1 where p: "cd_sign C h s = (rp, s1)" by fastforce
    with Cons Inr sign_part [OF p] show ?thesis by (cases rp) auto
  qed (use Cons.prems in simp)
qed simp

lemma fulfill_part:
  assumes "coordinator_fulfill_peg_out C op s = (r, s')"
  shows "part s' = part s"
proof -
  obtain ru s1 where u: "cd_list_unspent C s = (ru, s1)" by fastforce
  with assms list_unspent_part [OF u] show ?thesis
    by (cases ru) (auto simp: coordinator_fulfill_peg_out_def split: outcome.splits dest: sign_inputs_part)
qed

end

text \<open>The log of what was sent: the two broadcasts add to it, nothing else touches it.\<close>

locale coordinator_sends = coordinator_frame C sent
  for C :: "('st, 'tx, 'bh, 'pr, 'ad, 'stx, 'bt, 'proof, 'fe, 'se) coordinator"
    and sent :: "'st \<Rightarrow> ('stx, 'bt) sent list" +
  assumes sbtc_op_sent: "cd_sbtc_op C s = (res_op, s') \<Longrightarrow> sent s' = sent s"
    and broadcast_sent: "cd_broadcast C tx s = (res, s') \<Longrightarrow> sent s' = sent s @ [SbtcTx tx (is_ok res)]"
    and broadcast_btc_sent: "cd_broadcast_btc C t s = (res_btc, s') \<Longrightarrow> sent s' = sent s @ [BtcTx t (is_ok res_btc)]"
begin

text \<open>At most one attempt more than there are retries left, and giving up only when they are used up.\<close>

lemma broadcast_loop_sent:
  assumes "broadcast_loop C op nonce n f s = (r, s')" and "n \<le> MAX_NONCE_RETRIES" and "f \<le> MAX_FEE_RETRIES"
  shows "\<exists>new. sent s' = sent s @ new \<and> attempts C op r new \<and> length new \<le> 13 - n - f
    \<and> (r = Err MaxNonceRetriesExceeded \<longrightarrow> 11 \<le> length new + n)
    \<and> (r = Err MaxFeeRetriesExceeded \<longrightarrow> 3 \<le> length new + f)"
  using assms
proof (induction "(11 - n) + (3 - f)" arbitrary: nonce n f s rule: less_induct)
  case less
  note run = less.prems(1) [unfolded broadcast_loop.simps [of C op nonce n f s]]
  show ?case
  proof (cases "cd_build_transaction C op nonce s")
    case (Ok tx)
    obtain res s1 where b: "cd_broadcast C tx s = (res, s1)" by fastforce
    have log: "sent s1 = sent s @ [SbtcTx tx (is_ok res)]" by (rule broadcast_sent [OF b])
    note more = attempts_more [OF Ok] and one = attempts_one [OF Ok]
    consider (nonce) "res = Err (BroadcastError ConflictingNonceInMempool)"
      | (fee) expected actual where "res = Err (BroadcastError (FeeTooLow expected actual))"
      | (stop) "s' = s1" "is_ok r = is_ok res" "r \<noteq> Err MaxNonceRetriesExceeded" "r \<noteq> Err MaxFeeRetriesExceeded"
      using run Ok b by (auto split: outcome.splits stacks_node_error.splits BroadcastError.splits)
    then show ?thesis
    proof cases
      case nonce
      show ?thesis
      proof (cases "MAX_NONCE_RETRIES < n + 1")
        case True
        with run Ok b nonce have "s' = s1" "r = Err MaxNonceRetriesExceeded" by simp_all
        with log nonce one [of r False] True less.prems(2,3) show ?thesis
          by (auto simp: MAX_NONCE_RETRIES_def MAX_FEE_RETRIES_def)
      next
        case False
        obtain rn s2 where nn: "cd_next_nonce C s1 = (rn, s2)" by fastforce
        have log2: "sent s2 = sent s @ [SbtcTx tx False]" using next_nonce_part [OF nn] log nonce by simp
        show ?thesis
        proof (cases rn)
          case (Ok k)
          with run \<open>cd_build_transaction C op nonce s = Ok tx\<close> b nonce False nn
          have "broadcast_loop C op k (n + 1) f s2 = (r, s')" by simp
          moreover have "11 - (n + 1) + (3 - f) < 11 - n + (3 - f)" "n + 1 \<le> MAX_NONCE_RETRIES"
            using False by (simp_all add: MAX_NONCE_RETRIES_def)
          ultimately obtain new where
            "sent s' = sent s2 @ new" "attempts C op r new" "length new \<le> 13 - (n + 1) - f"
            "r = Err MaxNonceRetriesExceeded \<longrightarrow> 11 \<le> length new + (n + 1)"
            "r = Err MaxFeeRetriesExceeded \<longrightarrow> 3 \<le> length new + f"
            using less.hyps [of "n + 1" f k s2] less.prems(3) by blast
          with log2 more [of r new] False less.prems(2,3) show ?thesis
            by (intro exI [of _ "SbtcTx tx False # new"]) (auto simp: MAX_NONCE_RETRIES_def MAX_FEE_RETRIES_def)
        qed (use run \<open>cd_build_transaction C op nonce s = Ok tx\<close> b nonce False nn log2 one [of r False] less.prems(2,3)
          in \<open>auto simp: MAX_NONCE_RETRIES_def MAX_FEE_RETRIES_def\<close>)
      qed
    next
      case fee
      show ?thesis
      proof (cases "MAX_FEE_RETRIES < f + 1")
        case True
        with run Ok b fee have "s' = s1" "r = Err MaxFeeRetriesExceeded" by simp_all
        with log fee one [of r False] True less.prems(2,3) show ?thesis
          by (auto simp: MAX_NONCE_RETRIES_def MAX_FEE_RETRIES_def)
      next
        case False
        with run Ok b fee have "broadcast_loop C op nonce n (f + 1) (cd_set_fee C expected s1) = (r, s')" by simp
        moreover have "11 - n + (3 - (f + 1)) < 11 - n + (3 - f)" "f + 1 \<le> MAX_FEE_RETRIES"
          using False by (simp_all add: MAX_FEE_RETRIES_def)
        ultimately obtain new where
          "sent s' = sent (cd_set_fee C expected s1) @ new" "attempts C op r new" "length new \<le> 13 - n - (f + 1)"
          "r = Err MaxNonceRetriesExceeded \<longrightarrow> 11 \<le> length new + n"
          "r = Err MaxFeeRetriesExceeded \<longrightarrow> 3 \<le> length new + (f + 1)"
          using less.hyps [of n "f + 1" nonce "cd_set_fee C expected s1"] less.prems(2) by blast
        with log fee more [of r new] False less.prems(2,3) show ?thesis
          by (intro exI [of _ "SbtcTx tx False # new"])
            (auto simp: set_fee_part MAX_NONCE_RETRIES_def MAX_FEE_RETRIES_def)
      qed
    next
      case stop
      with log one [of r "is_ok res"] less.prems(2,3) show ?thesis
        by (auto simp: MAX_NONCE_RETRIES_def MAX_FEE_RETRIES_def)
    qed
  qed (use run attempts_none [of r C op] in auto)
qed

lemma try_broadcast_sent:
  assumes "try_broadcast_transaction C op s = (r, s')"
  shows "\<exists>new. sent s' = sent s @ new \<and> attempts C op r new \<and> length new \<le> 13
    \<and> (r = Err MaxNonceRetriesExceeded \<longrightarrow> 11 \<le> length new) \<and> (r = Err MaxFeeRetriesExceeded \<longrightarrow> 3 \<le> length new)"
proof -
  obtain rn s1 where n: "cd_next_nonce C s = (rn, s1)" by fastforce
  show ?thesis
  proof (cases rn)
    case (Ok nonce)
    with assms n have "broadcast_loop C op nonce 0 0 s1 = (r, s')" by (simp add: try_broadcast_transaction_def)
    from broadcast_loop_sent [OF this] next_nonce_part [OF n] show ?thesis by simp
  qed (use assms n next_nonce_part [OF n] attempts_none [of r C op] in
    \<open>auto simp: try_broadcast_transaction_def\<close>)
qed

text \<open>The bitcoin transaction is sent once, after an accepted stacks transaction, or not at all.\<close>

lemma peg_out_sent:
  assumes "peg_out C op s = (r, s')"
  shows "\<exists>new. sent s' = sent s @ new \<and>
    (\<not> is_ok r \<and> (\<exists>ra. \<not> is_ok ra \<and> attempts C (PegOutRequest op) ra new)
     \<or> (\<exists>before tx. new = before @ [BtcTx tx (is_ok r)]
          \<and> attempts C (PegOutRequest op) (Ok ()) before
          \<and> fulfills C op tx))"
proof -
  obtain rf s1 where f: "coordinator_fulfill_peg_out C op s = (rf, s1)" by fastforce
  note s1 = fulfill_part [OF f]
  show ?thesis
  proof (cases rf)
    case (Ok tx)
    obtain rb s2 where b: "try_broadcast_transaction C (PegOutRequest op) s1 = (rb, s2)" by fastforce
    from try_broadcast_sent [OF b] obtain new where
      new: "sent s2 = sent s @ new" "attempts C (PegOutRequest op) rb new" using s1 by auto
    show ?thesis
    proof (cases "is_ok rb")
      case True
      then have rb: "rb = Ok ()" by (cases rb) simp_all
      obtain rt where t: "cd_broadcast_btc C tx s2 = (rt, s')" and r: "is_ok r = is_ok rt"
        using assms f b Ok rb by (cases "cd_broadcast_btc C tx s2"; cases "fst (cd_broadcast_btc C tx s2)")
          (auto simp: peg_out_def)
      have "fulfills C op tx" using f Ok by (auto simp: fulfills_def)
      with broadcast_btc_sent [OF t] r new rb show ?thesis
        by (intro exI [of _ "new @ [BtcTx tx (is_ok r)]"]) simp
    next
      case False
      with assms f b Ok have "s' = s2" "\<not> is_ok r" by (cases rb; simp add: peg_out_def)+
      with new False show ?thesis by blast
    qed
  next
    case (Err e)
    with assms f s1 attempts_none [of r C "PegOutRequest op"] show ?thesis by (auto simp: peg_out_def intro: exI [of _ r])
  next
    case Panic
    with assms f s1 attempts_none [of r C "PegOutRequest op"] show ?thesis by (auto simp: peg_out_def intro: exI [of _ r])
  qed
qed

lemma attempts_accepted:
  assumes "attempts C op r new"
  shows "paid new = [] \<and> (\<forall>tx \<in> set (accepted_txs new). built_for C op tx) \<and> length (accepted_txs new) = (if is_ok r then 1 else 0)"
proof -
  from assms obtain rejected ok where new: "new = map (\<lambda>tx. SbtcTx tx False) rejected @ map (\<lambda>tx. SbtcTx tx True) ok"
    "\<forall>tx \<in> set (rejected @ ok). built_for C op tx" "length ok = (if is_ok r then 1 else 0)"
    unfolding attempts_def by blast
  then show ?thesis by simp
qed

text \<open>What handling one operation sends.\<close>

lemma handle_op_sent:
  assumes "handle_op C op s = (r, s')"
  shows "\<exists>new. sent s' = sent s @ new \<and> (\<forall>tx \<in> set (accepted_txs new). built_for C op tx)
    \<and> length (accepted_txs new) \<le> 1 \<and> length (paid new) \<le> length (peg_outs [op])
    \<and> (is_ok r \<longrightarrow> length (accepted_txs new) = 1 \<and> list_all2 (fulfills C) (peg_outs [op]) (paid new))"
proof (cases op)
  case (PegIn i)
  with assms have "try_broadcast_transaction C op s = (r, s')" by (simp add: peg_in_def)
  from try_broadcast_sent [OF this] obtain new where "sent s' = sent s @ new" "attempts C op r new" by blast
  with attempts_accepted [of op r new] PegIn show ?thesis by (auto split: if_splits)
next
  case (PegOutRequest q)
  with assms have "peg_out C q s = (r, s')" by simp
  from peg_out_sent [OF this] obtain new where new: "sent s' = sent s @ new"
    "\<not> is_ok r \<and> (\<exists>ra. \<not> is_ok ra \<and> attempts C op ra new)
     \<or> (\<exists>before tx. new = before @ [BtcTx tx (is_ok r)]
          \<and> attempts C op (Ok ()) before \<and> fulfills C q tx)"
    unfolding PegOutRequest by blast
  from new(2) attempts_accepted [of op] have "(\<forall>tx \<in> set (accepted_txs new). built_for C op tx)
      \<and> length (accepted_txs new) \<le> 1 \<and> length (paid new) \<le> length (peg_outs [op])
      \<and> (is_ok r \<longrightarrow> length (accepted_txs new) = 1 \<and> list_all2 (fulfills C) (peg_outs [op]) (paid new))"
    unfolding PegOutRequest by (auto split: if_splits)
  with new(1) show ?thesis by blast
qed

end

section \<open>Processing the queue\<close>

text \<open>
  The operations \<open>taken\<close> and what was sent for them: on success every one has its accepted stacks
  transaction and every peg-out its bitcoin transaction, in the order they were taken; otherwise
  this holds for all but the last.
\<close>

definition served ::
  "('st, 'tx, 'bh, 'pr, 'ad, 'stx, 'bt, 'proof, 'fe, 'se) coordinator \<Rightarrow> ('tx, 'bh, 'pr, 'ad) SbtcOp list
    \<Rightarrow> (('fe, 'se) peg_error, unit) outcome \<Rightarrow> ('stx, 'bt) sent list \<Rightarrow> bool" where
  "served C taken r new \<longleftrightarrow>
     (if is_ok r then list_all2 (built_for C) taken (accepted_txs new) \<and> list_all2 (fulfills C) (peg_outs taken) (paid new)
      else taken \<noteq> [] \<and> (\<exists>new1 new2. new = new1 @ new2
        \<and> list_all2 (built_for C) (butlast taken) (accepted_txs new1)
        \<and> list_all2 (fulfills C) (peg_outs (butlast taken)) (paid new1)
        \<and> length (accepted_txs new2) \<le> 1 \<and> (\<forall>tx \<in> set (accepted_txs new2). built_for C (last taken) tx)
        \<and> length (paid new2) \<le> length (peg_outs [last taken])))"

lemma peg_outs_Cons: "peg_outs (op # ops) = peg_outs [op] @ peg_outs ops"
  by (cases op) simp_all

lemma served_Cons:
  assumes "list_all2 (built_for C) [op] (accepted_txs new0)" and "list_all2 (fulfills C) (peg_outs [op]) (paid new0)"
    and "served C taken r new"
  shows "served C (op # taken) r (new0 @ new)"
proof (cases "is_ok r")
  case True
  with assms show ?thesis
    using list_all2_appendI [OF assms(1), of taken "accepted_txs new"]
      list_all2_appendI [OF assms(2), of "peg_outs taken" "paid new"]
    by (simp add: served_def peg_outs_Cons [of op taken])
next
  case False
  with assms(3) obtain new1 new2 where n: "taken \<noteq> []" "new = new1 @ new2"
    "list_all2 (built_for C) (butlast taken) (accepted_txs new1)"
    "list_all2 (fulfills C) (peg_outs (butlast taken)) (paid new1)"
    "length (accepted_txs new2) \<le> 1" "\<forall>tx \<in> set (accepted_txs new2). built_for C (last taken) tx"
    "length (paid new2) \<le> length (peg_outs [last taken])"
    by (auto simp: served_def)
  have "list_all2 (built_for C) (op # butlast taken) (accepted_txs (new0 @ new1))"
    using list_all2_appendI [OF assms(1) n(3)] by simp
  moreover have "list_all2 (fulfills C) (peg_outs (op # butlast taken)) (paid (new0 @ new1))"
    using list_all2_appendI [OF assms(2) n(4)] by (simp add: peg_outs_Cons [of op "butlast taken"])
  ultimately show ?thesis
    using False n unfolding served_def
    by (simp del: log_simps) (intro exI [of _ "new0 @ new1"] exI [of _ new2], simp del: log_simps)
qed

text \<open>A coordinator whose queue keeps its contract and is changed by nothing but taking from it.\<close>

locale coordinator_queue =
  coordinator_sends C sent + frame: coordinator_frame C part + work_queue "cd_sbtc_op C" fresh invar
  for C :: "('st, 'tx, 'bh, 'pr, 'ad, 'stx, 'bt, 'proof, 'fe, 'se) coordinator"
    and sent :: "'st \<Rightarrow> ('stx, 'bt) sent list" and part :: "'st \<Rightarrow> 'part"
    and fresh :: "'st \<Rightarrow> ('tx, 'bh, 'pr, 'ad) SbtcOp multiset" and invar :: "'st \<Rightarrow> bool" +
  assumes broadcast_part: "cd_broadcast C tx s = (res, s') \<Longrightarrow> part s' = part s"
    and broadcast_btc_part: "cd_broadcast_btc C t s = (res_btc, s') \<Longrightarrow> part s' = part s"
    and part_queue: "part s' = part s \<Longrightarrow> fresh s' = fresh s \<and> (invar s' \<longleftrightarrow> invar s)"
begin

lemma broadcast_loop_part: "broadcast_loop C op nonce n f s = (r, s') \<Longrightarrow> part s' = part s"
proof (induction "(11 - n) + (3 - f)" arbitrary: nonce n f s rule: less_induct)
  case less
  note run = less.prems(1) [unfolded broadcast_loop.simps [of C op nonce n f s]]
  show ?case
  proof (cases "cd_build_transaction C op nonce s")
    case (Ok tx)
    obtain res s1 where b: "cd_broadcast C tx s = (res, s1)" by fastforce
    obtain rn s2 where nn: "cd_next_nonce C s1 = (rn, s2)" by fastforce
    note kept = broadcast_part [OF b] frame.next_nonce_part [OF nn] frame.set_fee_part
    have "s' = s1 \<or> s' = s2 \<or> (\<exists>k. n \<le> 9 \<and> broadcast_loop C op k (n + 1) f s2 = (r, s'))
      \<or> (\<exists>fee. f \<le> 1 \<and> broadcast_loop C op nonce n (f + 1) (cd_set_fee C fee s1) = (r, s'))"
      using run Ok b nn
      by (cases rn) (auto simp: MAX_NONCE_RETRIES_def MAX_FEE_RETRIES_def not_less
          split: outcome.splits stacks_node_error.splits BroadcastError.splits if_splits)
    then show ?thesis
      using kept less.hyps [of "n + 1" f _ s2] less.hyps [of n "f + 1" nonce] by (elim disjE exE conjE) simp_all
  qed (use run in auto)
qed

lemma handle_op_part:
  assumes "handle_op C op s = (r, s')"
  shows "part s' = part s"
proof -
  have tried: "part s2 = part s1" if t: "try_broadcast_transaction C op' s1 = (r', s2)" for op' r' s1 s2
  proof -
    obtain rn s3 where n: "cd_next_nonce C s1 = (rn, s3)" by fastforce
    with t frame.next_nonce_part [OF n] show ?thesis
      by (cases rn) (auto simp: try_broadcast_transaction_def dest: broadcast_loop_part)
  qed
  show ?thesis
  proof (cases op)
    case (PegOutRequest q)
    obtain rf s1 where f: "coordinator_fulfill_peg_out C q s = (rf, s1)" by fastforce
    obtain rb s2 where b: "try_broadcast_transaction C (PegOutRequest q) s1 = (rb, s2)" by fastforce
    have btc: "part (snd (cd_broadcast_btc C t s2)) = part s2" for t
      by (rule broadcast_btc_part [OF prod.collapse [symmetric]])
    with assms PegOutRequest f b frame.fulfill_part [OF f] tried [OF b] btc show ?thesis
      by (cases rf; cases rb) (auto simp: peg_out_def with_err_def)
  qed (use assms tried in \<open>auto simp: peg_in_def\<close>)
qed

lemma process_queue_serves:
  assumes "invar s"
  shows "\<exists>r s' taken new. process_queue C s = Some (r, s') \<and> invar s' \<and> fresh s = mset taken + fresh s'
    \<and> sent s' = sent s @ new \<and> served C taken r new \<and> (is_ok r \<longrightarrow> fresh s' = {#})"
  using assms
proof (induction "size (fresh s)" arbitrary: s rule: less_induct)
  case less
  note pq = process_queue.simps [of C s]
  from take_total [OF less.prems] obtain res s1 where t: "cd_sbtc_op C s = (Ok res, s1)" "invar s1" by blast
  note log1 = sbtc_op_sent [OF t(1)]
  show ?case
  proof (cases res)
    case None
    with t take_None [OF less.prems] have "process_queue C s = Some (Ok (), s)" "fresh s = {#}" by (auto simp: pq)
    with less.prems show ?thesis
      by (intro exI [of _ "Ok ()"] exI [of _ s] exI [of _ "[]"] exI [of _ "[]"]) (simp add: served_def)
  next
    case (Some op)
    with t take_Some [OF less.prems] have f: "fresh s = add_mset op (fresh s1)" by blast
    obtain r2 s2 where h: "handle_op C op s1 = (r2, s2)" by fastforce
    from part_queue [OF handle_op_part [OF h]] t(2) have s2: "fresh s2 = fresh s1" "invar s2" by auto
    from handle_op_sent [OF h] log1 obtain new0 where n0: "sent s2 = sent s @ new0"
      "\<forall>tx \<in> set (accepted_txs new0). built_for C op tx" "length (accepted_txs new0) \<le> 1"
      "length (paid new0) \<le> length (peg_outs [op])"
      "is_ok r2 \<longrightarrow> length (accepted_txs new0) = 1 \<and> list_all2 (fulfills C) (peg_outs [op]) (paid new0)" by auto
    show ?thesis
    proof (cases "is_ok r2")
      case True
      have step: "process_queue C s = process_queue C s2" using True t Some h by (cases r2) (simp_all add: pq)
      have one: "list_all2 (built_for C) [op] (accepted_txs new0)"
        using n0(2,5) True by (auto simp: length_Suc_conv)
      from less.hyps [of s2] f s2 obtain r s' taken new where
        IH: "process_queue C s2 = Some (r, s')" "invar s'" "fresh s2 = mset taken + fresh s'" "sent s' = sent s2 @ new"
          "served C taken r new" "is_ok r \<longrightarrow> fresh s' = {#}" by auto
      have "served C (op # taken) r (new0 @ new)" using served_Cons [OF one _ IH(5)] n0(5) True by blast
      with IH step f s2 n0(1) show ?thesis
        by (intro exI [of _ r] exI [of _ s'] exI [of _ "op # taken"] exI [of _ "new0 @ new"]) simp
    next
      case False
      then obtain r where r: "process_queue C s = Some (r, s2)" "\<not> is_ok r"
        using t Some h by (cases r2) (simp_all add: pq)
      have "served C [op] r new0"
        using False r(2) n0 unfolding served_def
        by (simp del: log_simps) (intro exI [of _ "[]"] exI [of _ new0], simp)
      with r f s2 n0(1) show ?thesis
        by (intro exI [of _ r] exI [of _ s2] exI [of _ "[op]"] exI [of _ new0]) simp
    qed
  qed
qed

end

section \<open>Signatures\<close>

text \<open>\<open>tx\<close> is \<open>tx0\<close> with one witness more on every input: a proof that is good for the input's hash.\<close>

definition signed_tx ::
  "('st, 'tx, 'bh, 'pr, 'ad, 'stx, 'bt, 'proof, 'fe, 'se) coordinator \<Rightarrow> (bytes \<Rightarrow> 'proof \<Rightarrow> bool) \<Rightarrow> 'bt Transaction
    \<Rightarrow> TxOut list \<Rightarrow> 'bt Transaction \<Rightarrow> bool" where
  "signed_tx C good tx0 prevouts tx \<longleftrightarrow>
     tx\<lparr>tx_input := tx_input tx0\<rparr> = tx0 \<and> length (tx_input tx) = length (tx_input tx0)
     \<and> (\<forall>i < length (tx_input tx0). \<exists>h p. cd_sighash C tx0 i prevouts = Inr h \<and> good h p
          \<and> tx_input tx ! i
              = (tx_input tx0 ! i)\<lparr>ti_witness := ti_witness (tx_input tx0 ! i) @ [cd_proof_bytes C p]\<rparr>)"

locale coordinator_signer = coordinator_frame C part
  for C :: "('st, 'tx, 'bh, 'pr, 'ad, 'stx, 'bt, 'proof, 'fe, 'se) coordinator" and part :: "'st \<Rightarrow> 'part" +
  fixes good :: "'part \<Rightarrow> bytes \<Rightarrow> 'proof \<Rightarrow> bool"
  assumes sign_good: "cd_sign C h s = (Ok p, s') \<Longrightarrow> good (part s) h p"
begin

lemma sign_inputs_Ok:
  assumes "sign_inputs C tx0 prevouts is tx s = (Ok tx', s')" and "distinct is"
    and "set is \<subseteq> {..<length (tx_input tx)}"
  shows "tx'\<lparr>tx_input := tx_input tx\<rparr> = tx \<and> length (tx_input tx') = length (tx_input tx)
    \<and> (\<forall>i. i \<notin> set is \<longrightarrow> tx_input tx' ! i = tx_input tx ! i)
    \<and> (\<forall>i \<in> set is. \<exists>h p. cd_sighash C tx0 i prevouts = Inr h \<and> good (part s) h p
          \<and> tx_input tx' ! i
              = (tx_input tx ! i)\<lparr>ti_witness := ti_witness (tx_input tx ! i) @ [cd_proof_bytes C p]\<rparr>)"
  using assms
proof (induction "is" arbitrary: tx s)
  case (Cons j "is")
  from Cons.prems(1) obtain h p s1 where h: "cd_sighash C tx0 j prevouts = Inr h"
    and p: "cd_sign C h s = (Ok p, s1)"
    and rest: "sign_inputs C tx0 prevouts is (push_witness j (cd_proof_bytes C p) tx) s1 = (Ok tx', s')"
    by (auto simp: and_then_Ok split: sum.splits)
  note g = sign_good [OF p] and k = sign_part [OF p]
  let ?tx = "push_witness j (cd_proof_bytes C p) tx"
  have len: "length (tx_input ?tx) = length (tx_input tx)" by (simp add: push_witness_def)
  have IH: "tx'\<lparr>tx_input := tx_input ?tx\<rparr> = ?tx" "length (tx_input tx') = length (tx_input ?tx)"
    "\<forall>i. i \<notin> set is \<longrightarrow> tx_input tx' ! i = tx_input ?tx ! i"
    "\<forall>i \<in> set is. \<exists>h p. cd_sighash C tx0 i prevouts = Inr h \<and> good (part s1) h p
      \<and> tx_input tx' ! i
          = (tx_input ?tx ! i)\<lparr>ti_witness := ti_witness (tx_input ?tx ! i) @ [cd_proof_bytes C p]\<rparr>"
    using Cons.IH [OF rest] Cons.prems(2,3) len by auto
  have other: "tx_input ?tx ! i = tx_input tx ! i" if "i \<noteq> j" for i using that by (simp add: push_witness_def)
  have at_j: "tx_input tx' ! j = (tx_input tx ! j)\<lparr>ti_witness := ti_witness (tx_input tx ! j) @ [cd_proof_bytes C p]\<rparr>"
    using IH(3) Cons.prems(2,3) by (simp add: push_witness_def)
  have "tx'\<lparr>tx_input := tx_input tx\<rparr> = (tx'\<lparr>tx_input := tx_input ?tx\<rparr>)\<lparr>tx_input := tx_input tx\<rparr>" by simp
  also have "\<dots> = tx" unfolding IH(1) by (simp add: push_witness_def)
  finally have "tx'\<lparr>tx_input := tx_input tx\<rparr> = tx" .
  moreover have "\<exists>h p. cd_sighash C tx0 i prevouts = Inr h \<and> good (part s) h p
      \<and> tx_input tx' ! i = (tx_input tx ! i)\<lparr>ti_witness := ti_witness (tx_input tx ! i) @ [cd_proof_bytes C p]\<rparr>"
    if "i \<in> set (j # is)" for i
  proof (cases "i = j")
    case True
    with h g at_j show ?thesis by blast
  next
    case False
    with that IH(4) have "\<exists>h p'. cd_sighash C tx0 i prevouts = Inr h \<and> good (part s1) h p'
      \<and> tx_input tx' ! i
          = (tx_input ?tx ! i)\<lparr>ti_witness := ti_witness (tx_input ?tx ! i) @ [cd_proof_bytes C p']\<rparr>" by simp
    then show ?thesis unfolding k other [OF False] .
  qed
  ultimately show ?case using IH(2,3) len other by auto
qed simp

lemma fulfill_signed:
  assumes "coordinator_fulfill_peg_out C op s = (Ok tx, s')"
  shows "\<exists>utxos s1 tx0 prevouts. cd_list_unspent C s = (Ok utxos, s1)
    \<and> cd_fulfill_peg_out C op utxos s1 = Ok (tx0, prevouts) \<and> signed_tx C (good (part s)) tx0 prevouts tx"
proof -
  from assms obtain utxos s1 where u: "cd_list_unspent C s = (Ok utxos, s1)"
    and rest: "(case cd_fulfill_peg_out C op utxos s1 of
         Ok (tx, prevouts) \<Rightarrow> sign_inputs C tx prevouts [0..<length (tx_input tx)] tx s1
       | Err e \<Rightarrow> (Err (PegWalletError (BitcoinWalletError e)), s1)
       | Panic \<Rightarrow> (Panic, s1)) = (Ok tx, s')"
    by (auto simp: coordinator_fulfill_peg_out_def and_then_Ok)
  then obtain tx0 prevouts where f: "cd_fulfill_peg_out C op utxos s1 = Ok (tx0, prevouts)"
    and sg: "sign_inputs C tx0 prevouts [0..<length (tx_input tx0)] tx0 s1 = (Ok tx, s')"
    by (cases "cd_fulfill_peg_out C op utxos s1") auto
  from sign_inputs_Ok [OF sg] list_unspent_part [OF u] have "signed_tx C (good (part s)) tx0 prevouts tx"
    by (simp add: signed_tx_def atLeast0LessThan)
  with u f show ?thesis by blast
qed

end

end
