(* ===== verification/StacksCoordinator.thy ===== *)
theory StacksCoordinator
  imports PegCoordinator FrostCoordinator
begin

text \<open>
  The stacks coordinator itself (\<^verbatim>\<open>stacks-coordinator/src/coordinator.rs\<close>: the struct
  \<^verbatim>\<open>StacksCoordinator\<close>, its creation from a configuration, the files of key generation, and its
  implementation of the trait of theory \<open>PegCoordinator\<close>) and the choices of \<^verbatim>\<open>main.rs\<close>.

  The record \<open>services\<close> holds what comes from outside. The answers of the two nodes may differ from
  call to call: they are functions of a clock that the coordinator's state carries and that every
  call advances; while a coordinator is being created the calls are numbered by hand, and the clock
  of the new coordinator starts after them.
\<close>

section \<open>Services\<close>

record ('tx, 'bh, 'pr, 'ad, 'stx, 'sk, 'pub, 'xk, 'bt, 'addr, 'th, 'id, 'pt, 'sc, 'pk, 'ag, 'ae, 'te, 'sig, 'proof, 'se)
  services =
  se_node :: "nat \<Rightarrow> ('tx, 'bh, 'pr, 'ad, 'stx, 'pk, 'xk) node_http"
  se_bitcoind :: "nat \<Rightarrow> ('bt Transaction, 'th) bitcoind"
  se_rows :: "('tx, 'bh, 'pr, 'ad) row_codec"
  se_stacks :: "('tx, 'bh, 'pr, 'ad, 'stx, 'sk, 'pub, 'xk) blockstack"
  se_btc :: "('tx, 'bt, 'xk, bitcoin_network, 'addr) btc"
  se_frost :: "('id, 'pt, 'sc, 'pk, 'ag, 'ae, 'te, 'sig, 'proof) cenv"
  se_wire :: wire
  se_address :: "'addr \<Rightarrow> string"
  se_sighash :: "'bt Transaction \<Rightarrow> nat \<Rightarrow> TxOut list \<Rightarrow> 'se + bytes"
  se_proof_bytes :: "'proof \<Rightarrow> bytes"
  se_x_bytes :: "'pt \<Rightarrow> bytes"
  se_xonly :: "bytes \<Rightarrow> string + 'xk"
  se_lift_x :: "'xk \<Rightarrow> 'pt option"
  se_pk_bytes :: "'pk \<Rightarrow> bytes"
  se_secp_key :: "bytes \<Rightarrow> string + 'pub"
  se_scalar :: "bytes \<Rightarrow> 'sc option"
  se_key_parsers :: "('pk, 'sc) key_parsers"
  se_read_config :: "string \<Rightarrow> string option"
  se_toml :: "string \<Rightarrow> RawConfig option"
  se_shares_json :: "(u32 \<times> ('id, 'pt) DkgPublicShare) list \<Rightarrow> bytes option"
  se_shares_parse :: "bytes \<Rightarrow> (u32 \<times> ('id, 'pt) DkgPublicShare) list option"
  se_may_open :: "string \<Rightarrow> bool"
  se_database :: "string \<Rightarrow> queue_db"

text \<open>
  The struct, with two fields the model adds: the clock, and the log of what was sent to the nodes.
\<close>

record ('stx, 'sk, 'pub, 'xk, 'bt, 'addr, 'id, 'pt, 'sc, 'pk) StacksCoordinator =
  sc_frost :: "('id, 'pt, 'sc, 'pk) Coordinator"
  sc_queue :: queue_db
  sc_node :: NodeClient
  sc_bitcoin :: LocalhostBitcoinNode
  sc_wallet :: "('xk, 'addr, 'sk, 'pub) WrapPegWallet"
  sc_clock :: nat
  sc_sent :: "('stx, 'bt) sent list"

section \<open>The methods of the trait\<close>

abbreviation tick where
  "tick s \<equiv> s\<lparr>sc_clock := sc_clock s + 1\<rparr>"

definition sc_poll where
  "sc_poll E s =
     (let H = se_node E (sc_clock s);
          nd = \<lparr>nd_get_peg_in_ops = get_peg_in_ops H (sc_node s),
                nd_get_peg_out_request_ops = get_peg_out_request_ops H (sc_node s),
                nd_burn_block_height = burn_block_height H (sc_node s)\<rparr> in
      case queue_poll (se_rows E) nd (sc_queue s) of (r, q) \<Rightarrow> (r, tick (s\<lparr>sc_queue := q\<rparr>)))"

definition sc_sbtc_op where
  "sc_sbtc_op E s = (case queue_sbtc_op (se_rows E) (sc_queue s) of (r, q) \<Rightarrow> (r, s\<lparr>sc_queue := q\<rparr>))"

definition sc_next_nonce where
  "sc_next_nonce E s =
     (case next_nonce (se_node E (sc_clock s)) (sw_address (wp_stacks_wallet (sc_wallet s))) (sc_node s) of
        (r, nc) \<Rightarrow> (r, tick (s\<lparr>sc_node := nc\<rparr>)))"

definition sc_broadcast where
  "sc_broadcast E tx s =
     (let r = broadcast_transaction (se_node E (sc_clock s)) (sc_node s) tx in
      (r, tick (s\<lparr>sc_sent := sc_sent s @ [SbtcTx tx (is_ok r)]\<rparr>)))"

definition sc_build_transaction where
  "sc_build_transaction E op nonce s = build_transaction (se_stacks E) (wp_stacks_wallet (sc_wallet s)) op nonce"

definition sc_set_fee where
  "sc_set_fee fee s =
     s\<lparr>sc_wallet := (sc_wallet s)\<lparr>wp_stacks_wallet := set_fee fee (wp_stacks_wallet (sc_wallet s))\<rparr>\<rparr>"

definition sc_list_unspent where
  "sc_list_unspent E s =
     (list_unspent (se_bitcoind E (sc_clock s)) (sc_bitcoin s) (se_address E (bw_address (wp_bitcoin_wallet (sc_wallet s)))),
      tick s)"

definition sc_broadcast_btc where
  "sc_broadcast_btc E tx s =
     (let r = obind (broadcast_bitcoin (se_bitcoind E (sc_clock s)) (sc_bitcoin s) tx) (\<lambda>h. Ok ()) in
      (r, tick (s\<lparr>sc_sent := sc_sent s @ [BtcTx tx (is_ok r)]\<rparr>)))"

definition sc_fulfill_peg_out where
  "sc_fulfill_peg_out E op utxos s = fulfill_peg_out (se_btc E) (wp_bitcoin_wallet (sc_wallet s)) op utxos"

definition sc_sign_message ::
  "('tx, 'bh, 'pr, 'ad, 'stx, 'sk, 'pub, 'xk, 'bt, 'addr, 'th, 'id, 'pt, 'sc, 'pk, 'ag, 'ae, 'te, 'sig, 'proof, 'se) services
    \<Rightarrow> bytes \<Rightarrow> ('stx, 'sk, 'pub, 'xk, 'bt, 'addr, 'id, 'pt, 'sc, 'pk) StacksCoordinator
    \<Rightarrow> (('ae, 'te) coord_error, 'sig \<times> 'proof) outcome \<times> ('stx, 'sk, 'pub, 'xk, 'bt, 'addr, 'id, 'pt, 'sc, 'pk) StacksCoordinator" where
  "sc_sign_message E m s =
     (case sign_message (se_frost E) m (sc_frost s) of (r, c) \<Rightarrow> (r, s\<lparr>sc_frost := c\<rparr>))"

definition sc_sign_proof where
  "sc_sign_proof E m s = (case sc_sign_message E m s of (r, s1) \<Rightarrow> (obind r (\<lambda>(sig, p). Ok p), s1))"

definition StacksCoordinator_impl ::
  "('tx, 'bh, 'pr, 'ad, 'stx, 'sk, 'pub, 'xk, 'bt, 'addr, 'th, 'id, 'pt, 'sc, 'pk, 'ag, 'ae, 'te, 'sig, 'proof, 'se) services
    \<Rightarrow> (('stx, 'sk, 'pub, 'xk, 'bt, 'addr, 'id, 'pt, 'sc, 'pk) StacksCoordinator, 'tx, 'bh, 'pr, 'ad, 'stx, 'bt, 'proof,
        ('ae, 'te) coord_error, 'se) coordinator" where
  "StacksCoordinator_impl E =
     \<lparr>cd_poll = sc_poll E, cd_sbtc_op = sc_sbtc_op E, cd_next_nonce = sc_next_nonce E, cd_broadcast = sc_broadcast E,
      cd_build_transaction = sc_build_transaction E, cd_set_fee = sc_set_fee, cd_list_unspent = sc_list_unspent E,
      cd_broadcast_btc = sc_broadcast_btc E, cd_fulfill_peg_out = sc_fulfill_peg_out E, cd_sign = sc_sign_proof E,
      cd_sighash = se_sighash E, cd_proof_bytes = se_proof_bytes E\<rparr>"

definition run_dkg_round ::
  "('tx, 'bh, 'pr, 'ad, 'stx, 'sk, 'pub, 'xk, 'bt, 'addr, 'th, 'id, 'pt, 'sc, 'pk, 'ag, 'ae, 'te, 'sig, 'proof, 'se) services
    \<Rightarrow> ('stx, 'sk, 'pub, 'xk, 'bt, 'addr, 'id, 'pt, 'sc, 'pk) StacksCoordinator
    \<Rightarrow> ((('ae, 'te) coord_error, 'se) peg_error, 'xk) outcome \<times> ('stx, 'sk, 'pub, 'xk, 'bt, 'addr, 'id, 'pt, 'sc, 'pk) StacksCoordinator" where
  "run_dkg_round E s =
     (case run_distributed_key_generation (se_frost E) (sc_frost s) of
        (Ok p, c) \<Rightarrow>
          (case se_xonly E (se_x_bytes E p) of
             Inl e \<Rightarrow> (Err (InvalidWalletKey e), s\<lparr>sc_frost := c\<rparr>)
           | Inr xk \<Rightarrow> (Ok xk, s\<lparr>sc_frost := c\<rparr>))
      | (Err e, c) \<Rightarrow> (Err (FrostCoordinatorError e), s\<lparr>sc_frost := c\<rparr>)
      | (Panic, c) \<Rightarrow> (Panic, s\<lparr>sc_frost := c\<rparr>))"

section \<open>The files of key generation\<close>

text \<open>\<^verbatim>\<open>Path::join\<close> with a relative name.\<close>

definition join_path :: "string \<Rightarrow> string \<Rightarrow> string" where
  "join_path dir name = (if dir = [] then name else if last dir = CHR ''/'' then dir @ name else dir @ ''/'' @ name)"

definition dkg_shares_path :: "string \<Rightarrow> string" where
  "dkg_shares_path dir = join_path dir ''dkg_public_shares.json''"

type_synonym files = "string \<Rightarrow> bytes option"

definition read_dkg_public_shares ::
  "('tx, 'bh, 'pr, 'ad, 'stx, 'sk, 'pub, 'xk, 'bt, 'addr, 'th, 'id, 'pt, 'sc, 'pk, 'ag, 'ae, 'te, 'sig, 'proof, 'se) services
    \<Rightarrow> string \<Rightarrow> files \<Rightarrow> ((('ae, 'te) coord_error, 'se) peg_error, (u32 \<times> ('id, 'pt) DkgPublicShare) list) outcome" where
  "read_dkg_public_shares E dir fs =
     obind (ok_or (CoordinatorConfigError (SharesNotOpened (dkg_shares_path dir))) (fs (dkg_shares_path dir))) (\<lambda>json.
       ok_or (CoordinatorConfigError SharesNotParsed) (se_shares_parse E json))"

text \<open>The file is opened for writing, and created when it is not there, but not truncated: what is
  written replaces the beginning of the old content and the rest of it stays.\<close>

definition overwrite :: "bytes \<Rightarrow> bytes option \<Rightarrow> bytes" where
  "overwrite new old = new @ (case old of Some bs \<Rightarrow> drop (length new) bs | None \<Rightarrow> [])"

definition write_dkg_public_shares ::
  "('tx, 'bh, 'pr, 'ad, 'stx, 'sk, 'pub, 'xk, 'bt, 'addr, 'th, 'id, 'pt, 'sc, 'pk, 'ag, 'ae, 'te, 'sig, 'proof, 'se) services
    \<Rightarrow> string \<Rightarrow> (u32 \<times> ('id, 'pt) DkgPublicShare) list \<Rightarrow> files
    \<Rightarrow> ((('ae, 'te) coord_error, 'se) peg_error, unit) outcome \<times> files" where
  "write_dkg_public_shares E dir shares fs =
     (let path = dkg_shares_path dir in
      if \<not> se_may_open E path then (Err (CoordinatorConfigError (SharesNotOpened path)), fs)
      else (case se_shares_json E shares of
              None \<Rightarrow> (Err (CoordinatorConfigError (SharesNotWritten path)), fs(path \<mapsto> overwrite [] (fs path)))
            | Some json \<Rightarrow> (Ok (), fs(path \<mapsto> overwrite json (fs path)))))"

section \<open>Creating the frost coordinator\<close>

definition create_coordinator_from_path ::
  "('tx, 'bh, 'pr, 'ad, 'stx, 'sk, 'pub, 'xk, 'bt, 'addr, 'th, 'id, 'pt, 'sc, 'pk, 'ag, 'ae, 'te, 'sig, 'proof, 'se) services
    \<Rightarrow> string \<Rightarrow> (config_error, ('id, 'pt, 'sc, 'pk) Coordinator) outcome" where
  "create_coordinator_from_path E path =
     obind (Config_from_path (se_key_parsers E) (se_read_config E) (se_toml E) path) (\<lambda>c.
       Ok (create_coordinator (se_frost E) c (se_wire E)))"

text \<open>Calls 0, 1 and 2 of the stacks node.\<close>

definition create_frost_coordinator_from_path ::
  "('tx, 'bh, 'pr, 'ad, 'stx, 'sk, 'pub, 'xk, 'bt, 'addr, 'th, 'id, 'pt, 'sc, 'pk, 'ag, 'ae, 'te, 'sig, 'proof, 'se) services
    \<Rightarrow> string \<Rightarrow> string \<Rightarrow> NodeClient \<Rightarrow> ('sk, 'pub) StacksWallet
    \<Rightarrow> ((('ae, 'te) coord_error, 'se) peg_error, ('id, 'pt, 'sc, 'pk) Coordinator) outcome \<times> NodeClient" where
  "create_frost_coordinator_from_path E path address nc wallet =
     (case create_coordinator_from_path E path of
        Ok coordinator \<Rightarrow>
          and_then (with_err StacksError (coordinator_public_key_call (se_node E 0) nc address, nc)) (\<lambda>key nc0.
            if (case key of
                  Some pk \<Rightarrow> se_pk_bytes E pk = se_pk_bytes E (co_public_key coordinator)
                | None \<Rightarrow> False)
            then (Ok coordinator, nc0)
            else
              and_then (with_err StacksError (next_nonce (se_node E 1) address nc0)) (\<lambda>nonce nc1.
                case se_secp_key E (se_pk_bytes E (co_public_key coordinator)) of
                  Inl e \<Rightarrow> (Err (InvalidWalletKey e), nc1)
                | Inr key \<Rightarrow>
                    and_then (with_err PegWalletError
                      (build_set_coordinator_data_transaction (se_stacks E) wallet address key nonce, nc1)) (\<lambda>tx nc2.
                    and_then (with_err StacksError (broadcast_transaction (se_node E 2) nc2 tx, nc2)) (\<lambda>u nc3.
                      (Ok coordinator, nc3)))))
      | Err e \<Rightarrow> (Err (CoordinatorConfigError (BadSignerConfigPath path e)), nc)
      | Panic \<Rightarrow> (Panic, nc))"

text \<open>Calls 0 to 3. An absent private key or URL counts as an empty string.\<close>

definition or_empty :: "string option \<Rightarrow> string" where
  "or_empty x = (case x of Some t \<Rightarrow> t | None \<Rightarrow> [])"

definition create_frost_coordinator_from_contract ::
  "('tx, 'bh, 'pr, 'ad, 'stx, 'sk, 'pub, 'xk, 'bt, 'addr, 'th, 'id, 'pt, 'sc, 'pk, 'ag, 'ae, 'te, 'sig, 'proof, 'se) services
    \<Rightarrow> 'sk CoordConfig \<Rightarrow> NodeClient \<Rightarrow> ((('ae, 'te) coord_error, 'se) peg_error, ('id, 'pt, 'sc, 'pk) Coordinator) outcome" where
  "create_frost_coordinator_from_contract E config nc =
     (let address = cc_stacks_address config in
      obind (map_err StacksError (keys_threshold_call (se_node E 0) nc address)) (\<lambda>threshold.
      obind (map_err StacksError (coordinator_public_key_call (se_node E 1) nc address)) (\<lambda>key.
      obind (ok_or NoCoordinator key) (\<lambda>coordinator_pk.
      obind (map_err StacksError (public_keys_call (se_node E 2) nc address)) (\<lambda>pks.
      obind (map_err StacksError (signer_key_ids_call (se_node E 3) nc address)) (\<lambda>skids.
      obind (ok_or (CoordinatorConfigError BadNetworkPrivateKey)
               (se_scalar E (as_bytes (or_empty (cc_network_private_key config))))) (\<lambda>private_key.
      obind (u32_of_u128 threshold) (\<lambda>threshold32.
      obind (map_err (\<lambda>e. CoordinatorConfigError (BadSignerConfig e))
               (Config_new threshold32 coordinator_pk pks skids private_key (or_empty (cc_http_relay_url config)))) (\<lambda>c.
        Ok (create_coordinator (se_frost E) c (se_wire E)))))))))))"

definition create_frost_coordinator ::
  "('tx, 'bh, 'pr, 'ad, 'stx, 'sk, 'pub, 'xk, 'bt, 'addr, 'th, 'id, 'pt, 'sc, 'pk, 'ag, 'ae, 'te, 'sig, 'proof, 'se) services
    \<Rightarrow> 'sk CoordConfig \<Rightarrow> NodeClient \<Rightarrow> ('sk, 'pub) StacksWallet
    \<Rightarrow> ((('ae, 'te) coord_error, 'se) peg_error, ('id, 'pt, 'sc, 'pk) Coordinator) outcome \<times> NodeClient" where
  "create_frost_coordinator E config nc wallet =
     (case cc_signer_config_path config of
        Some path \<Rightarrow> create_frost_coordinator_from_path E path (cc_stacks_address config) nc wallet
      | None \<Rightarrow> (create_frost_coordinator_from_contract E config nc, nc))"

section \<open>The wallet's key\<close>

text \<open>Call 4 of the node, then 5 and 6. The state is the frost coordinator, the client of the node and the files.\<close>

definition load_dkg_data ::
  "('tx, 'bh, 'pr, 'ad, 'stx, 'sk, 'pub, 'xk, 'bt, 'addr, 'th, 'id, 'pt, 'sc, 'pk, 'ag, 'ae, 'te, 'sig, 'proof, 'se) services
    \<Rightarrow> string option \<Rightarrow> ('sk, 'pub) StacksWallet \<Rightarrow> string \<Rightarrow> ('id, 'pt, 'sc, 'pk) Coordinator \<times> NodeClient \<times> files
    \<Rightarrow> ((('ae, 'te) coord_error, 'se) peg_error, 'xk) outcome \<times> ('id, 'pt, 'sc, 'pk) Coordinator \<times> NodeClient \<times> files" where
  "load_dkg_data E dir wallet address st =
     (case st of (fc, nc, fs) \<Rightarrow>
        (case bitcoin_wallet_public_key_call (se_node E 4) nc address of
           Ok (Some xonly) \<Rightarrow>
             and_then (case dir of
                         Some d \<Rightarrow> (obind (read_dkg_public_shares E d fs) (\<lambda>sh. Ok (fc\<lparr>dkg_public_shares := sh\<rparr>)), st)
                       | None \<Rightarrow> (Ok fc, st)) (\<lambda>fc1 st1.
               case se_lift_x E xonly of
                 None \<Rightarrow> (Err PointError, fc1, nc, fs)
               | Some p \<Rightarrow> (Ok xonly, fc1\<lparr>aggregate_public_key := p\<rparr>, nc, fs))
         | Ok None \<Rightarrow>
             (case run_distributed_key_generation (se_frost E) fc of
                (Ok point, fc1) \<Rightarrow>
                  (case (case dir of
                           Some d \<Rightarrow> write_dkg_public_shares E d (dkg_public_shares fc1) fs
                         | None \<Rightarrow> (Ok (), fs)) of
                     (Ok u, fs1) \<Rightarrow>
                       (case se_xonly E (se_x_bytes E point) of
                          Inl e \<Rightarrow> (Err (InvalidWalletKey e), fc1, nc, fs1)
                        | Inr xonly \<Rightarrow>
                            (case next_nonce (se_node E 5) address nc of
                               (Ok nonce, nc1) \<Rightarrow>
                                 (case build_set_bitcoin_wallet_public_key_transaction (se_stacks E) wallet xonly nonce of
                                    Ok tx \<Rightarrow>
                                      (case broadcast_transaction (se_node E 6) nc1 tx of
                                         Ok v \<Rightarrow> (Ok xonly, fc1, nc1, fs1)
                                       | Err e \<Rightarrow> (Err (StacksError e), fc1, nc1, fs1)
                                       | Panic \<Rightarrow> (Panic, fc1, nc1, fs1))
                                  | Err e \<Rightarrow> (Err (PegWalletError e), fc1, nc1, fs1)
                                  | Panic \<Rightarrow> (Panic, fc1, nc1, fs1))
                             | (Err e, nc1) \<Rightarrow> (Err (StacksError e), fc1, nc1, fs1)
                             | (Panic, nc1) \<Rightarrow> (Panic, fc1, nc1, fs1)))
                   | (Err e, fs1) \<Rightarrow> (Err e, fc1, nc, fs1)
                   | (Panic, fs1) \<Rightarrow> (Panic, fc1, nc, fs1))
              | (Err e, fc1) \<Rightarrow> (Err (FrostCoordinatorError e), fc1, nc, fs)
              | (Panic, fc1) \<Rightarrow> (Panic, fc1, nc, fs))
         | Err e \<Rightarrow> (Err (StacksError e), st)
         | Panic \<Rightarrow> (Panic, st)))"

section \<open>Creating the coordinator\<close>

definition config_wallet ::
  "('tx, 'bh, 'pr, 'ad, 'stx, 'sk, 'pub, 'xk, 'bt, 'addr, 'th, 'id, 'pt, 'sc, 'pk, 'ag, 'ae, 'te, 'sig, 'proof, 'se) services
    \<Rightarrow> 'sk CoordConfig \<Rightarrow> ('sk, 'pub) StacksWallet" where
  "config_wallet E config =
     StacksWallet_new (se_stacks E) (cc_contract_name config) (cc_contract_address config) (cc_stacks_private_key config)
       (cc_stacks_address config) (cc_stacks_version config) (cc_transaction_fee config)"

text \<open>Call 0 of the bitcoin node, call 7 of the stacks node.\<close>

definition StacksCoordinator_try_from ::
  "('tx, 'bh, 'pr, 'ad, 'stx, 'sk, 'pub, 'xk, 'bt, 'addr, 'th, 'id, 'pt, 'sc, 'pk, 'ag, 'ae, 'te, 'sig, 'proof, 'se) services
    \<Rightarrow> 'sk CoordConfig \<Rightarrow> files \<Rightarrow> ((('ae, 'te) coord_error, 'se) peg_error, ('stx, 'sk, 'pub, 'xk, 'bt, 'addr, 'id, 'pt, 'sc, 'pk) StacksCoordinator) outcome \<times> files" where
  "StacksCoordinator_try_from E config fs =
     (let wallet = config_wallet E config;
          nc = NodeClient_new (cc_stacks_node_rpc_url config) (cc_contract_name config) (cc_contract_address config) in
      case create_frost_coordinator E config nc wallet of
        (Ok fc, nc1) \<Rightarrow>
          (case load_dkg_data E (cc_data_directory config) wallet (cc_stacks_address config) (fc, nc1, fs) of
             (Ok xonly, fc1, nc2, fs1) \<Rightarrow>
               (let bw = BitcoinWallet_new (se_btc E) xonly (cc_bitcoin_network config);
                    bn = LocalhostBitcoinNode_new (cc_bitcoin_node_rpc_url config) in
                (obind (map_err BitcoinNodeError (load_wallet (se_bitcoind E 0) bn (se_address E (bw_address bw)))) (\<lambda>u.
                 obind (map_err StacksError (burn_block_height (se_node E 7) nc2)) (\<lambda>current.
                   Ok \<lparr>sc_frost = fc1,
                       sc_queue = (case cc_data_directory config of
                         Some dir \<Rightarrow> from_connection (se_database E (join_path dir ''peg_queue.sqlite''))
                                      (cc_start_block_height config) current
                       | None \<Rightarrow> in_memory (cc_start_block_height config) current),
                       sc_node = nc2, sc_bitcoin = bn,
                       sc_wallet = \<lparr>wp_bitcoin_wallet = bw, wp_stacks_wallet = wallet\<rparr>,
                       sc_clock = 8, sc_sent = []\<rparr>)), fs1))
           | (Err e, fc1, nc2, fs1) \<Rightarrow> (Err e, fs1)
           | (Panic, fc1, nc2, fs1) \<Rightarrow> (Panic, fs1))
      | (Err e, nc1) \<Rightarrow> (Err e, fs)
      | (Panic, nc1) \<Rightarrow> (Panic, fs))"

text \<open>What \<^verbatim>\<open>main\<close> makes of the configuration file and the command line: \<open>None\<close> is the early return.\<close>

definition cli_config :: "string \<Rightarrow> u64 option \<Rightarrow> 'sk CoordConfig \<Rightarrow> 'sk CoordConfig option" where
  "cli_config signer_config start_block_height config =
     (if start_block_height = Some 0 then None
      else Some (config\<lparr>cc_signer_config_path := Some signer_config, cc_start_block_height := start_block_height\<rparr>))"

section \<open>The implementation keeps the contract\<close>

lemma StacksCoordinator_impl_simps [simp]:
  "cd_poll (StacksCoordinator_impl E) = sc_poll E" "cd_sbtc_op (StacksCoordinator_impl E) = sc_sbtc_op E"
  "cd_next_nonce (StacksCoordinator_impl E) = sc_next_nonce E" "cd_broadcast (StacksCoordinator_impl E) = sc_broadcast E"
  "cd_build_transaction (StacksCoordinator_impl E) = sc_build_transaction E"
  "cd_set_fee (StacksCoordinator_impl E) = sc_set_fee" "cd_list_unspent (StacksCoordinator_impl E) = sc_list_unspent E"
  "cd_broadcast_btc (StacksCoordinator_impl E) = sc_broadcast_btc E"
  "cd_fulfill_peg_out (StacksCoordinator_impl E) = sc_fulfill_peg_out E"
  "cd_sign (StacksCoordinator_impl E) = sc_sign_proof E" "cd_sighash (StacksCoordinator_impl E) = se_sighash E"
  "cd_proof_bytes (StacksCoordinator_impl E) = se_proof_bytes E"
  by (simp_all add: StacksCoordinator_impl_def)

lemma sc_frames:
  "sc_sbtc_op E s = (r1, s') \<Longrightarrow> \<exists>q. s' = s\<lparr>sc_queue := q\<rparr>"
  "sc_next_nonce E s = (r2, s') \<Longrightarrow> \<exists>nc. s' = tick (s\<lparr>sc_node := nc\<rparr>)"
  "sc_list_unspent E s = (r3, s') \<Longrightarrow> s' = tick s"
  "sc_sign_proof E h s = (r4, s') \<Longrightarrow> \<exists>c. s' = s\<lparr>sc_frost := c\<rparr>"
  "sc_broadcast E tx s = (r5, s') \<Longrightarrow> s' = tick (s\<lparr>sc_sent := sc_sent s @ [SbtcTx tx (is_ok r5)]\<rparr>)"
  "sc_broadcast_btc E t s = (r6, s') \<Longrightarrow> s' = tick (s\<lparr>sc_sent := sc_sent s @ [BtcTx t (is_ok r6)]\<rparr>)"
  by (auto simp: sc_sbtc_op_def sc_next_nonce_def sc_list_unspent_def sc_sign_proof_def sc_sign_message_def
      sc_broadcast_def sc_broadcast_btc_def Let_def split: prod.splits)

interpretation stacks: coordinator_queue "StacksCoordinator_impl E" sc_sent sc_queue
  "\<lambda>s. fresh_ops (se_rows E) (sc_queue s)" "\<lambda>s. codec_ok (se_rows E) \<and> queue_inv (se_rows E) (sc_queue s)"
  for E :: "('tx, 'bh, 'pr, 'ad, 'stx, 'sk, 'pub, 'xk, 'bt, 'addr, 'th, 'id, 'pt, 'sc, 'pk, 'ag, 'ae, 'te, 'sig, 'proof, 'se)
    services"
proof (unfold_locales, goal_cases)
  case (12 s)
  with sqlite.take_total [of "se_rows E" "sc_queue s"] show ?case by (force simp: sc_sbtc_op_def)
next
  case (13 s s')
  with sqlite.take_None [of "se_rows E" "sc_queue s"] show ?case by (fastforce simp: sc_sbtc_op_def split: prod.splits)
next
  case (14 s op s')
  with sqlite.take_Some [of "se_rows E" "sc_queue s" op] show ?case by (auto simp: sc_sbtc_op_def split: prod.splits)
qed (auto simp: sc_set_fee_def dest!: sc_frames)

interpretation stacks_signer: coordinator_signer "StacksCoordinator_impl E"
  "\<lambda>s. (aggregate_public_key (sc_frost s), bw_public_key (wp_bitcoin_wallet (sc_wallet s)))"
  "\<lambda>(key, xk) h p. proof_verify (cagg (se_frost E)) p key h"
  for E :: "('tx, 'bh, 'pr, 'ad, 'stx, 'sk, 'pub, 'xk, 'bt, 'addr, 'th, 'id, 'pt, 'sc, 'pk, 'ag, 'ae, 'te, 'sig, 'proof, 'se)
    services"
proof (unfold_locales, goal_cases)
  case (4 h s r s')
  then show ?case
    using sign_message_fixed [of "se_frost E" h "sc_frost s"]
    by (auto simp: sc_sign_proof_def sc_sign_message_def co_fixed_def split: prod.splits)
next
  case (5 h s p s')
  then show ?case
    using sign_message_verified [of "se_frost E" h "sc_frost s"]
    by (auto simp: sc_sign_proof_def sc_sign_message_def obind_Ok_iff split: prod.splits)
qed (auto simp: sc_set_fee_def dest!: sc_frames)

section \<open>Properties\<close>

text \<open>
  C24. Retrying is bounded. \<^verbatim>\<open>try_broadcast_transaction\<close> comes back after sending at most thirteen
  transactions to the stacks node, all built from the operation. All but the last are rejected; the
  last is accepted exactly when the call succeeds. It gives up on the nonce only after eleven
  attempts and on the fee only after three.
\<close>

theorem broadcast_retries_bounded:
  assumes "try_broadcast_transaction (StacksCoordinator_impl E) op s = (r, s')"
  shows "\<exists>rejected ok. sc_sent s' = sc_sent s @ map (\<lambda>tx. SbtcTx tx False) rejected @ map (\<lambda>tx. SbtcTx tx True) ok
    \<and> (\<forall>tx \<in> set (rejected @ ok). built_for (StacksCoordinator_impl E) op tx)
    \<and> length ok = (if is_ok r then 1 else 0) \<and> length rejected + length ok \<le> 13
    \<and> (r = Err MaxNonceRetriesExceeded \<longrightarrow> 11 \<le> length rejected)
    \<and> (r = Err MaxFeeRetriesExceeded \<longrightarrow> 3 \<le> length rejected)"
proof -
  from stacks.try_broadcast_sent [OF assms] obtain new where new: "sc_sent s' = sc_sent s @ new"
    "attempts (StacksCoordinator_impl E) op r new" "length new \<le> 13"
    "r = Err MaxNonceRetriesExceeded \<longrightarrow> 11 \<le> length new" "r = Err MaxFeeRetriesExceeded \<longrightarrow> 3 \<le> length new" by blast
  from new(2) obtain rejected ok where
    "new = map (\<lambda>tx. SbtcTx tx False) rejected @ map (\<lambda>tx. SbtcTx tx True) ok"
    "\<forall>tx \<in> set (rejected @ ok). built_for (StacksCoordinator_impl E) op tx" "length ok = (if is_ok r then 1 else 0)"
    unfolding attempts_def by blast
  with new show ?thesis by (intro exI [of _ rejected] exI [of _ ok]) auto
qed

text \<open>
  C7. Bitcoin is paid out only after the sBTC is burned. When \<^verbatim>\<open>peg_out\<close> sends a transaction to the
  bitcoin node, it sends exactly one, as the last thing it sends, and the stacks node has accepted
  the burning transaction right before; no other stacks transaction was accepted. The call succeeds
  exactly when the bitcoin node takes the transaction, which is a signed transaction that fulfills
  the request.
\<close>

theorem bitcoin_paid_after_burn:
  assumes "peg_out (StacksCoordinator_impl E) op s = (r, s')"
  shows "\<exists>rejected. (\<not> is_ok r \<and> sc_sent s' = sc_sent s @ map (\<lambda>tx. SbtcTx tx False) rejected)
    \<or> (\<exists>burn tx. sc_sent s' = sc_sent s @ map (\<lambda>tx. SbtcTx tx False) rejected @ [SbtcTx burn True, BtcTx tx (is_ok r)]
         \<and> built_for (StacksCoordinator_impl E) (PegOutRequest op) burn \<and> fulfills (StacksCoordinator_impl E) op tx)"
proof -
  let ?C = "StacksCoordinator_impl E"
  from stacks.peg_out_sent [OF assms] obtain new where new: "sc_sent s' = sc_sent s @ new" and
    "\<not> is_ok r \<and> (\<exists>ra. \<not> is_ok ra \<and> attempts ?C (PegOutRequest op) ra new)
     \<or> (\<exists>before tx. new = before @ [BtcTx tx (is_ok r)] \<and> attempts ?C (PegOutRequest op) (Ok ()) before \<and> fulfills ?C op tx)"
    by blast
  then consider (failed) ra where "\<not> is_ok r" "\<not> is_ok ra" "attempts ?C (PegOutRequest op) ra new"
    | (sent) before tx where "new = before @ [BtcTx tx (is_ok r)]" "attempts ?C (PegOutRequest op) (Ok ()) before" "fulfills ?C op tx"
    by blast
  then show ?thesis
  proof cases
    case failed
    with new show ?thesis by (auto simp: attempts_def)
  next
    case sent
    from sent(2) obtain rejected burn where b: "before = map (\<lambda>tx. SbtcTx tx False) rejected @ [SbtcTx burn True]"
      "built_for ?C (PegOutRequest op) burn"
      by (auto simp: attempts_def length_Suc_conv)
    with sent new show ?thesis
      by (intro exI [of _ rejected] disjI2 exI [of _ burn] exI [of _ tx]) simp
  qed
qed

text \<open>
  C8. What the coordinator signs. When the coordinator returns a fulfilled transaction, it is the one
  the bitcoin wallet built from the outputs the bitcoin node listed, unchanged but for one witness
  more on every input. That witness is a Schnorr proof which verifies, under the coordinator's
  aggregate key, for the hash of the unsigned transaction at this input. Signing leaves the
  aggregate key and the wallet's key as they were.
\<close>

theorem fulfilled_transaction_signed:
  assumes "coordinator_fulfill_peg_out (StacksCoordinator_impl E) op s = (Ok tx, s')"
  shows "\<exists>utxos tx0 prevouts. list_unspent (se_bitcoind E (sc_clock s)) (sc_bitcoin s)
      (se_address E (bw_address (wp_bitcoin_wallet (sc_wallet s)))) = Ok utxos
    \<and> fulfill_peg_out (se_btc E) (wp_bitcoin_wallet (sc_wallet s)) op utxos = Ok (tx0, prevouts)
    \<and> tx\<lparr>tx_input := tx_input tx0\<rparr> = tx0 \<and> length (tx_input tx) = length (tx_input tx0)
    \<and> (\<forall>i < length (tx_input tx0). \<exists>h p. se_sighash E tx0 i prevouts = Inr h
         \<and> proof_verify (cagg (se_frost E)) p (aggregate_public_key (sc_frost s)) h
         \<and> tx_input tx ! i = (tx_input tx0 ! i)\<lparr>ti_witness := ti_witness (tx_input tx0 ! i) @ [se_proof_bytes E p]\<rparr>)
    \<and> aggregate_public_key (sc_frost s') = aggregate_public_key (sc_frost s)
    \<and> bw_public_key (wp_bitcoin_wallet (sc_wallet s')) = bw_public_key (wp_bitcoin_wallet (sc_wallet s))"
proof -
  from stacks_signer.fulfill_signed [OF assms] obtain utxos s1 tx0 prevouts where
    u: "sc_list_unspent E s = (Ok utxos, s1)" and f: "sc_fulfill_peg_out E op utxos s1 = Ok (tx0, prevouts)"
    and sg: "signed_tx (StacksCoordinator_impl E)
      (\<lambda>h p. proof_verify (cagg (se_frost E)) p (aggregate_public_key (sc_frost s)) h) tx0 prevouts tx" by auto
  from u have s1: "s1 = tick s" by (rule sc_frames)
  have "fulfill_peg_out (se_btc E) (wp_bitcoin_wallet (sc_wallet s)) op utxos = Ok (tx0, prevouts)"
    using f by (simp add: s1 sc_fulfill_peg_out_def)
  moreover have "list_unspent (se_bitcoind E (sc_clock s)) (sc_bitcoin s)
      (se_address E (bw_address (wp_bitcoin_wallet (sc_wallet s)))) = Ok utxos"
    using u by (simp add: sc_list_unspent_def)
  moreover note stacks_signer.fulfill_part [OF assms]
  ultimately show ?thesis using sg by (simp add: signed_tx_def)
qed

text \<open>
  C6. Every operation in the queue is carried out exactly once. Let the text codecs round-trip and let
  the table have been written by the queue. \<^verbatim>\<open>process_queue\<close> ends. If it succeeds, no new operation is
  left; the accepted stacks transactions are, in order, one for each operation that was new, and
  the accepted bitcoin transactions one for each peg-out request among them. If it fails, this holds
  for all operations it took but the last, for which at most one of each was accepted; that one
  is no longer new either, and is not taken again.
\<close>

theorem process_queue_exactly_once:
  assumes "codec_ok (se_rows E)" and "queue_inv (se_rows E) (sc_queue s)"
  shows "\<exists>r s' taken new. process_queue (StacksCoordinator_impl E) s = Some (r, s')
    \<and> queue_inv (se_rows E) (sc_queue s')
    \<and> fresh_ops (se_rows E) (sc_queue s) = mset taken + fresh_ops (se_rows E) (sc_queue s')
    \<and> sc_sent s' = sc_sent s @ new
    \<and> (if is_ok r then fresh_ops (se_rows E) (sc_queue s') = {#}
         \<and> list_all2 (built_for (StacksCoordinator_impl E)) taken (accepted_txs new)
         \<and> list_all2 (fulfills (StacksCoordinator_impl E)) (peg_outs taken) (paid new)
       else taken \<noteq> [] \<and> (\<exists>new1 new2. new = new1 @ new2
         \<and> list_all2 (built_for (StacksCoordinator_impl E)) (butlast taken) (accepted_txs new1)
         \<and> list_all2 (fulfills (StacksCoordinator_impl E)) (peg_outs (butlast taken)) (paid new1)
         \<and> length (accepted_txs new2) \<le> 1 \<and> length (paid new2) \<le> 1))"
proof -
  have le: "length (peg_outs [op]) \<le> 1" for op :: "('a, 'b, 'c, 'd) SbtcOp" by (cases op) simp_all
  from stacks.process_queue_serves [of E s] assms obtain r s' taken new where
    p: "process_queue (StacksCoordinator_impl E) s = Some (r, s')" "queue_inv (se_rows E) (sc_queue s')"
      "fresh_ops (se_rows E) (sc_queue s) = mset taken + fresh_ops (se_rows E) (sc_queue s')"
      "sc_sent s' = sc_sent s @ new" and sv: "served (StacksCoordinator_impl E) taken r new"
      and fin: "is_ok r \<longrightarrow> fresh_ops (se_rows E) (sc_queue s') = {#}" by blast
  show ?thesis
  proof (cases "is_ok r")
    case True
    with p sv fin show ?thesis
      by (intro exI [of _ r] exI [of _ s'] exI [of _ taken] exI [of _ new]) (simp add: served_def)
  next
    case False
    with sv obtain new1 new2 where "taken \<noteq> []" "new = new1 @ new2"
      "list_all2 (built_for (StacksCoordinator_impl E)) (butlast taken) (accepted_txs new1)"
      "list_all2 (fulfills (StacksCoordinator_impl E)) (peg_outs (butlast taken)) (paid new1)"
      "length (accepted_txs new2) \<le> 1" "length (paid new2) \<le> 1"
      unfolding served_def using le order_trans by (auto; blast)
    with p False show ?thesis
      by (intro exI [of _ r] exI [of _ s'] exI [of _ taken] exI [of _ new]) auto
  qed
qed

text \<open>
  What the code relies on of the JSON form of some shares: it parses back; it ends with a closing
  brace; with more than white space behind it, it does not parse.
\<close>

definition json_space :: "u8 \<Rightarrow> bool" where
  "json_space b \<longleftrightarrow> b \<in> {0x20, 0x09, 0x0A, 0x0D}"

definition shares_text where
  "shares_text E sh json \<longleftrightarrow>
     se_shares_json E sh = Some json \<and> json \<noteq> [] \<and> last json = 0x7D \<and> se_shares_parse E json = Some sh
     \<and> (\<forall>rest. (\<exists>b \<in> set rest. \<not> json_space b) \<longrightarrow> se_shares_parse E (json @ rest) = None)"

text \<open>
  The file of public shares. Let the directory be writable and let its file be absent or written
  by an earlier key generation. Writing the shares succeeds. Reading them back gives the same shares
  when there was no file or its text was no longer than the new one; otherwise the file ends in the
  rest of the old text, and reading it fails.
\<close>

theorem dkg_shares_file_roundtrip:
  assumes "shares_text E shares json" and "se_may_open E (dkg_shares_path dir)"
    and "fs (dkg_shares_path dir) = None \<or> (\<exists>old told. shares_text E old told \<and> fs (dkg_shares_path dir) = Some told)"
  shows "\<exists>fs'. write_dkg_public_shares E dir shares fs = (Ok (), fs')
    \<and> read_dkg_public_shares E dir fs'
        = (case fs (dkg_shares_path dir) of
             None \<Rightarrow> Ok shares
           | Some t \<Rightarrow> if length t \<le> length json then Ok shares else Err (CoordinatorConfigError SharesNotParsed))"
proof -
  let ?p = "dkg_shares_path dir"
  let ?fs = "fs(?p \<mapsto> overwrite json (fs ?p))"
  have t: "se_shares_json E shares = Some json" "se_shares_parse E json = Some shares"
    and rest: "\<exists>b \<in> set rest. \<not> json_space b \<Longrightarrow> se_shares_parse E (json @ rest) = None" for rest
    using assms(1) unfolding shares_text_def by blast+
  have w: "write_dkg_public_shares E dir shares fs = (Ok (), ?fs)"
    using assms(2) t(1) by (simp add: write_dkg_public_shares_def Let_def)
  have r: "read_dkg_public_shares E dir ?fs
      = ok_or (CoordinatorConfigError SharesNotParsed) (se_shares_parse E (overwrite json (fs ?p)))"
    by (simp add: read_dkg_public_shares_def)
  have "se_shares_parse E (overwrite json (Some told)) = None"
    if told: "fs ?p = Some told" and longer: "length json < length told" for told
  proof -
    from assms(3) told have "told \<noteq> []" "last told = 0x7D" unfolding shares_text_def by auto
    then have "0x7D \<in> set (drop (length json) told)" using longer by (metis drop_eq_Nil last_drop last_in_set not_le)
    moreover have "\<not> json_space 0x7D" by (simp add: json_space_def)
    ultimately show ?thesis unfolding overwrite_def by (simp add: rest bexI [of _ "0x7D"])
  qed
  with w r t show ?thesis
    by (intro exI [of _ ?fs]) (auto simp: overwrite_def split: option.splits)
qed

lemma load_dkg_data_key:
  assumes "\<And>xk p. se_lift_x E xk = Some p \<Longrightarrow> se_xonly E (se_x_bytes E p) = Inr xk"
    and "load_dkg_data E dir wallet address (fc, nc, fs) = (Ok xonly, fc', nc', fs')"
  shows "se_xonly E (se_x_bytes E (aggregate_public_key fc')) = Inr xonly"
proof (cases "\<exists>xk. bitcoin_wallet_public_key_call (se_node E 4) nc address = Ok (Some xk)")
  case True
  then obtain xk where "bitcoin_wallet_public_key_call (se_node E 4) nc address = Ok (Some xk)" by blast
  with assms(2) have "se_lift_x E xk = Some (aggregate_public_key fc') \<and> xonly = xk"
    by (auto simp: load_dkg_data_def and_then_Ok split: option.splits)
  with assms(1) show ?thesis by blast
next
  case False
  obtain res fc1 where k: "run_distributed_key_generation (se_frost E) fc = (res, fc1)" by fastforce
  from False assms(2) k obtain point where p: "res = Ok point" "fc' = fc1" "se_xonly E (se_x_bytes E point) = Inr xonly"
    by (auto simp: load_dkg_data_def split: outcome.splits option.splits prod.splits sum.splits)
  with k dkg_result_key [of "se_frost E" fc point fc1] show ?thesis by simp
qed

lemma StacksCoordinator_try_from_Ok:
  assumes "StacksCoordinator_try_from E config fs = (Ok s, fs')"
  obtains fc nc1 xonly fc1 nc2 current db where
    "load_dkg_data E (cc_data_directory config) (config_wallet E config) (cc_stacks_address config) (fc, nc1, fs)
      = (Ok xonly, fc1, nc2, fs')"
    and "sc_frost s = fc1" "wp_bitcoin_wallet (sc_wallet s) = BitcoinWallet_new (se_btc E) xonly (cc_bitcoin_network config)"
    and "sc_queue s = from_connection db (cc_start_block_height config) current"
proof -
  let ?nc = "NodeClient_new (cc_stacks_node_rpc_url config) (cc_contract_name config) (cc_contract_address config)"
  obtain x nc1 where c: "create_frost_coordinator E config ?nc (config_wallet E config) = (x, nc1)" by fastforce
  with assms obtain fc where x: "x = Ok fc"
    by (cases x) (simp_all add: StacksCoordinator_try_from_def Let_def)
  obtain y fc1 nc2 fs1 where l: "load_dkg_data E (cc_data_directory config) (config_wallet E config)
      (cc_stacks_address config) (fc, nc1, fs) = (y, fc1, nc2, fs1)" by (metis prod_cases4)
  with assms c x obtain xonly where y: "y = Ok xonly"
    by (cases y) (simp_all add: StacksCoordinator_try_from_def Let_def)
  from assms c x l y obtain current where "burn_block_height (se_node E 7) nc2 = Ok current"
    by (auto simp: StacksCoordinator_try_from_def Let_def obind_Ok_iff)
  with assms c x l y show ?thesis
    by (intro that [of fc nc1 xonly fc1 nc2 "if cc_data_directory config = None then \<lparr>sbtc_ops = [], last_processed = None\<rparr>
        else se_database E (join_path (the (cc_data_directory config)) ''peg_queue.sqlite'')" current])
      (auto simp: StacksCoordinator_try_from_def Let_def obind_Ok_iff in_memory_def split: option.splits)
qed

text \<open>
  C25. The wallet's key belongs to the aggregate key. Let lifting an x-only key give a point with that
  x coordinate. When a coordinator is created, its bitcoin wallet's key is the x coordinate of the
  frost coordinator's aggregate key, and the wallet's address is that of the key, on the configured
  network; the queue starts at the configured height, when there is one.
\<close>

theorem created_wallet_key_matches:
  assumes "\<And>xk p. se_lift_x E xk = Some p \<Longrightarrow> se_xonly E (se_x_bytes E p) = Inr xk"
    and "StacksCoordinator_try_from E config fs = (Ok s, fs')"
  shows "se_xonly E (se_x_bytes E (aggregate_public_key (sc_frost s))) = Inr (bw_public_key (wp_bitcoin_wallet (sc_wallet s)))
    \<and> bw_address (wp_bitcoin_wallet (sc_wallet s))
        = p2tr_address (se_btc E) (bw_public_key (wp_bitcoin_wallet (sc_wallet s))) (cc_bitcoin_network config)
    \<and> (\<forall>h. cc_start_block_height config = Some h \<longrightarrow> last_processed (sc_queue s) = Some (saturating_pred h))"
proof -
  from assms(2) obtain fc nc1 xonly fc1 nc2 current db where
    l: "load_dkg_data E (cc_data_directory config) (config_wallet E config) (cc_stacks_address config) (fc, nc1, fs)
      = (Ok xonly, fc1, nc2, fs')"
    and s: "sc_frost s = fc1" "wp_bitcoin_wallet (sc_wallet s) = BitcoinWallet_new (se_btc E) xonly (cc_bitcoin_network config)"
      "sc_queue s = from_connection db (cc_start_block_height config) current"
    by (rule StacksCoordinator_try_from_Ok)
  from load_dkg_data_key [OF assms(1) l] s show ?thesis
    by (auto simp: BitcoinWallet_new_def from_connection_def insert_last_processed_block_height_def)
qed

text \<open>
  Without a signer configuration there are no signers. A frost coordinator that is created from
  the contract has no signers and no keys, whatever the contract holds.
\<close>

theorem contract_coordinator_has_no_signers:
  assumes "create_frost_coordinator_from_contract E config nc = Ok c"
  shows "co_total_signers c = 0 \<and> co_total_keys c = 0"
proof -
  from assms obtain pks skids t pk sk url conf where
    p: "public_keys_call (se_node E 2) nc (cc_stacks_address config) = Ok pks"
    and n: "Config_new t pk pks skids sk url = Ok conf" and c: "c = create_coordinator (se_frost E) conf (se_wire E)"
    by (auto simp: create_frost_coordinator_from_contract_def Let_def obind_Ok_iff)
  from p have "pks = PublicKeys_default"
    by (auto simp: public_keys_call_def signer_tables_def obind_Ok_iff all_signer_data_Ok)
  with n have "total_signers conf = 0" "total_keys conf = 0"
    by (auto simp: Config_new_def obind_Ok_iff u32_try_from_def PublicKeys_default_def)
  with c show ?thesis by (simp add: create_coordinator_def Coordinator_new_def)
qed

section \<open>Witnesses\<close>

text \<open>
  Services for witnesses. The stacks node rejects the first broadcast for its nonce; a stacks
  transaction is its nonce. The bitcoin node lists two outputs and accepts every transaction.
\<close>

definition demo_answer :: "nat \<Rightarrow> nat \<times> json option" where
  "demo_answer k = (if k = 1 then (400, Some (JObj [(''reason'', JStr ''ConflictingNonceInMempool'')]))
     else (200, Some (JObj [(''okay'', JBool True), (''result'', JStr ''0x''), (''nonce'', JInt 41), (''burn_block_height'', JInt 9)])))"

definition demo_stacks_node :: "(nat \<Rightarrow> clarity) \<Rightarrow> nat \<Rightarrow> (u64, u64, unit, unit, u64, nat, bytes) node_http" where
  "demo_stacks_node v k = \<lparr>nh_join = (\<lambda>b r. Some (b @ r)), nh_get = (\<lambda>u. Some (demo_answer 0)),
     nh_post = (\<lambda>u t b. Some (demo_answer (if t = ''application/json'' then 0 else k))), nh_show_json = (\<lambda>j. []),
     nh_peg_in_ops = (\<lambda>j. Some []), nh_peg_out_ops = (\<lambda>j. Some []), nh_clarity = (\<lambda>h. Some (v k)),
     nh_show_clarity = (\<lambda>v. []), nh_serialize_tx = (\<lambda>t. Some []), nh_public_key = (\<lambda>b. Some (length b)),
     nh_xonly_key = (\<lambda>b. Some b)\<rparr>"

definition demo_raw_utxo :: "string \<Rightarrow> int \<Rightarrow> int \<Rightarrow> json" where
  "demo_raw_utxo t v a = JObj [(''txid'', JStr t), (''vout'', JInt v), (''address'', JStr []), (''label'', JStr []),
     (''scriptPubKey'', JStr []), (''amount'', JInt a), (''confirmations'', JInt 1), (''spendable'', JBool True),
     (''solvable'', JBool True), (''safe'', JBool True)]"

definition demo_bitcoind :: "(string Transaction, unit) bitcoind" where
  "demo_bitcoind = \<lparr>rpc_post = (\<lambda>u j.
       Ok (Some (JObj [(''result'',
         if json_index j ''method'' = JStr ''listunspent'' then JArr [demo_raw_utxo ''t'' 2 7, demo_raw_utxo ''a'' 0 100]
         else if json_index j ''method'' = JStr ''sendrawtransaction'' then JStr ''h''
         else JObj [(''name'', JStr ''w''), (''warning'', JStr [])])]))),
     url_join = (\<lambda>b p. Some (b @ p)), calc_checksum = (\<lambda>d. Some []),
     from_btc = (\<lambda>j. case j of JInt n \<Rightarrow> Some (of_int n) | _ \<Rightarrow> None), show_f64 = (\<lambda>j. []),
     encode_tx = (\<lambda>t. Some []), parse_txhash = (\<lambda>h. Some ())\<rparr>"

definition demo_blockstack :: "(u64, u64, unit, unit, u64, unit, nat, bytes) blockstack" where
  "demo_blockstack = \<lparr>C32_MAINNET_SINGLESIG = 22, C32_TESTNET_SINGLESIG = 26, CHAIN_ID_MAINNET = 1,
     CHAIN_ID_TESTNET = 0x80000000, bs_from_private = (\<lambda>k. 6), bs_clarity_name = (\<lambda>n. Some n), bs_p2pkh_ok = (\<lambda>k. True),
     bs_sign_origin = (\<lambda>k u. Inr (Some (us_nonce u))), bs_txid_string = (\<lambda>t. []), bs_principal = (\<lambda>p. []),
     bs_stx_address = (\<lambda>op v. Some []), bs_key_bytes = (\<lambda>k. []), bs_xonly_bytes = (\<lambda>x. x), bs_tuple_ok = (\<lambda>t. True),
     bs_key_from_hex = (\<lambda>h. Inr ()), bs_address_of_key = (\<lambda>v k. Some []), bs_address_ok = (\<lambda>a. True),
     bs_contract_name = (\<lambda>n. Inr n)\<rparr>"

definition demo_bitcoin :: "(u64, string, bytes, bitcoin_network, unit) btc" where
  "demo_bitcoin = \<lparr>stx_txid_str = (\<lambda>t. ''t''), btc_txid = (\<lambda>h. Some h), hex_decode = (\<lambda>h. Some []), p2tr = (\<lambda>k. k),
     p2tr_address = (\<lambda>k n. ()), op_return = (\<lambda>d. d), dust_value = (\<lambda>b. 10)\<rparr>"

definition demo_shares :: "(u32 \<times> (u32, u8) DkgPublicShare) list" where
  "demo_shares = [(1, demo_public_share 1 9)]"

definition demo_raw_config :: RawConfig where
  "demo_raw_config = \<lparr>rc_http_relay_url = [], rc_keys_threshold = 1, rc_network_private_key = [], rc_signers = [],
     rc_coordinator_public_key = []\<rparr>"

definition demo_services ::
  "(nat \<Rightarrow> clarity) \<Rightarrow> (u64, u64, unit, unit, u64, unit, nat, bytes, string, unit, unit, u32, u8, nat, nat, unit, unit, unit,
      bytes, bytes, unit) services" where
  "demo_services v = \<lparr>se_node = demo_stacks_node v, se_bitcoind = (\<lambda>k. demo_bitcoind), se_rows = demo_rows,
     se_stacks = demo_blockstack, se_btc = demo_bitcoin, se_frost = demo_cenv (demo_sign_script @ demo_sign_script),
     se_wire = nl_wire (network (demo_coordinator 4 0)), se_address = (\<lambda>a. ''addr''),
     se_sighash = (\<lambda>tx i ps. Inr [of_nat i]), se_proof_bytes = (\<lambda>p. p), se_x_bytes = (\<lambda>p. [p]), se_xonly = Inr,
     se_lift_x = (\<lambda>k. case k of [b] \<Rightarrow> Some b | _ \<Rightarrow> None), se_pk_bytes = (\<lambda>k. [of_nat k]), se_secp_key = (\<lambda>b. Inr 6),
     se_scalar = (\<lambda>b. Some 3), se_key_parsers = \<lparr>parse_pk = (\<lambda>t. Some 1), parse_sk = (\<lambda>t. Some 3)\<rparr>,
     se_read_config = (\<lambda>p. Some []), se_toml = (\<lambda>t. Some demo_raw_config),
     se_shares_json = (\<lambda>sh. Some (if sh = [] then [0x7B, 0x7D] else [0x7B, 0x20, 0x7D])),
     se_shares_parse = (\<lambda>t. if t = [0x7B, 0x7D] then Some [] else if t = [0x7B, 0x20, 0x7D] then Some demo_shares else None),
     se_may_open = (\<lambda>p. True), se_database = (\<lambda>p. \<lparr>sbtc_ops = [], last_processed = None\<rparr>)\<rparr>"

definition demo_state :: "(u64, unit, nat, bytes, string, unit, u32, u8, nat, nat) StacksCoordinator" where
  "demo_state = \<lparr>sc_frost = demo_coordinator 4 4, sc_queue = demo_queue, sc_node = demo_client,
     sc_bitcoin = LocalhostBitcoinNode_new [],
     sc_wallet = \<lparr>wp_bitcoin_wallet = BitcoinWallet_new demo_bitcoin [4] Bitcoin,
       wp_stacks_wallet = StacksWallet_new demo_blockstack [] [] () ''ST1'' Mainnet 10\<rparr>,
     sc_clock = 0, sc_sent = []\<rparr>"

lemma demo_services_simps [simp]:
  "se_node (demo_services v) = demo_stacks_node v" "se_bitcoind (demo_services v) = (\<lambda>k. demo_bitcoind)"
  "se_rows (demo_services v) = demo_rows" "se_stacks (demo_services v) = demo_blockstack"
  "se_btc (demo_services v) = demo_bitcoin" "se_address (demo_services v) = (\<lambda>a. ''addr'')"
  "se_frost (demo_services v) = demo_cenv (demo_sign_script @ demo_sign_script)"
  "se_sighash (demo_services v) = (\<lambda>tx i ps. Inr [of_nat i])" "se_proof_bytes (demo_services v) = (\<lambda>p. p)"
  "se_wire (demo_services v) = nl_wire (network (demo_coordinator 4 0))" "se_x_bytes (demo_services v) = (\<lambda>p. [p])"
  "se_xonly (demo_services v) = Inr" "se_lift_x (demo_services v) = (\<lambda>k. case k of [b] \<Rightarrow> Some b | _ \<Rightarrow> None)"
  "se_pk_bytes (demo_services v) = (\<lambda>k. [of_nat k])" "se_secp_key (demo_services v) = (\<lambda>b. Inr 6)"
  "se_scalar (demo_services v) = (\<lambda>b. Some 3)"
  "se_key_parsers (demo_services v) = \<lparr>parse_pk = (\<lambda>t. Some 1), parse_sk = (\<lambda>t. Some 3)\<rparr>"
  "se_read_config (demo_services v) = (\<lambda>p. Some [])" "se_toml (demo_services v) = (\<lambda>t. Some demo_raw_config)"
  by (simp_all add: demo_services_def)

lemmas demo_node_simps =
  demo_stacks_node_def demo_answer_def demo_state_def demo_client_def NodeClient_new_def
  sc_next_nonce_def next_nonce_def get_response_def build_url_def sc_broadcast_def broadcast_transaction_def
  BroadcastError_from_def sc_build_transaction_def build_transaction_def build_transaction_signed_def
  build_transaction_unsigned_def StacksWallet_new_def demo_blockstack_def MAX_NONCE_RETRIES_def Let_def

lemmas demo_bitcoin_simps =
  sc_list_unspent_def list_unspent_def call_wallet_def node_call_def call_path_def LocalhostBitcoinNode_new_def
  demo_bitcoind_def demo_raw_utxo_def raw_to_utxo_def json_index_def sc_fulfill_peg_out_def fulfill_peg_out_def
  is_fulfillment_def spend_utxo_def utxo_to_input_def utxo_to_output_def demo_bitcoin_def BitcoinWallet_new_def
  sc_broadcast_btc_def broadcast_bitcoin_def

abbreviation demo_impl where
  "demo_impl \<equiv> StacksCoordinator_impl (demo_services (\<lambda>k. CUInt 0))"

abbreviation demo_try where
  "demo_try \<equiv> try_broadcast_transaction demo_impl (PegIn (demo_in 7 2)) demo_state"

theorem broadcast_retries_bounded_witness:
  "fst demo_try = Ok () \<and> (\<exists>rejected ok. sc_sent (snd demo_try) = map (\<lambda>tx. SbtcTx tx False) rejected @ [SbtcTx ok True]
     \<and> length rejected \<le> 12)"
proof
  show ok: "fst demo_try = Ok ()"
    by (simp add: try_broadcast_transaction_def broadcast_loop.simps [of demo_impl] demo_node_simps)
  have nil: "sc_sent demo_state = []" by (simp add: demo_state_def)
  have "demo_try = (fst demo_try, snd demo_try)" by simp
  from broadcast_retries_bounded [OF this] ok nil
  show "\<exists>rejected ok. sc_sent (snd demo_try) = map (\<lambda>tx. SbtcTx tx False) rejected @ [SbtcTx ok True]
      \<and> length rejected \<le> 12"
    by (auto simp: length_Suc_conv)
qed

definition demo_out :: "(u64, u64, unit) PegOutRequestOp" where
  "demo_out = \<lparr>po_amount = 90, po_recipient = (), po_fulfillment_fee = 7, po_txid = 1, po_block_height = 1,
     po_burn_header_hash = 1\<rparr>"

lemmas demo_sign_simps =
  coordinator_fulfill_peg_out_def demo_bitcoin_simps demo_out_def demo_state_def upt_rec
  sc_sign_proof_def sc_sign_message_def demo_run_simps demo_sign_script_def push_witness_def

abbreviation demo_peg_out_run where
  "demo_peg_out_run \<equiv> peg_out demo_impl demo_out demo_state"

theorem bitcoin_paid_after_burn_witness:
  "fst demo_peg_out_run = Ok () \<and> (\<exists>rejected burn tx.
     sc_sent (snd demo_peg_out_run) = map (\<lambda>tx. SbtcTx tx False) rejected @ [SbtcTx burn True, BtcTx tx True])"
proof
  show ok: "fst demo_peg_out_run = Ok ()"
    by (simp add: peg_out_def try_broadcast_transaction_def broadcast_loop.simps [of demo_impl] demo_sign_simps
        demo_node_simps)
  have nil: "sc_sent demo_state = []" by (simp add: demo_state_def)
  have "demo_peg_out_run = (fst demo_peg_out_run, snd demo_peg_out_run)" by simp
  from bitcoin_paid_after_burn [OF this] ok nil
  show "\<exists>rejected burn tx. sc_sent (snd demo_peg_out_run)
      = map (\<lambda>tx. SbtcTx tx False) rejected @ [SbtcTx burn True, BtcTx tx True]"
    by auto
qed

theorem fulfilled_transaction_signed_witness:
  "\<exists>tx s' tx0. coordinator_fulfill_peg_out demo_impl demo_out demo_state = (Ok tx, s')
     \<and> tx\<lparr>tx_input := tx_input tx0\<rparr> = tx0 \<and> length (tx_input tx) = length (tx_input tx0)
     \<and> aggregate_public_key (sc_frost s') = 4"
proof -
  have "is_ok (fst (coordinator_fulfill_peg_out demo_impl demo_out demo_state))" by (simp add: demo_sign_simps)
  then obtain tx where "fst (coordinator_fulfill_peg_out demo_impl demo_out demo_state) = Ok tx"
    unfolding is_ok_iff by blast
  then obtain s' where run: "coordinator_fulfill_peg_out demo_impl demo_out demo_state = (Ok tx, s')"
    by (metis prod.collapse)
  have "aggregate_public_key (sc_frost demo_state) = 4" by (simp add: demo_state_def demo_coordinator_def)
  with fulfilled_transaction_signed [OF run] run show ?thesis by auto
qed

theorem process_queue_exactly_once_witness:
  "\<exists>r s' taken. process_queue demo_impl demo_state = Some (r, s')
     \<and> {#PegIn (demo_in 7 2), PegIn (demo_in 6 3)#} = mset taken + fresh_ops demo_rows (sc_queue s')"
proof -
  have q: "sc_queue demo_state = demo_queue" by (simp add: demo_state_def)
  have f: "fresh_ops demo_rows demo_queue = {#PegIn (demo_in 7 2), PegIn (demo_in 6 3)#}"
    by (simp add: fresh_ops_def demo_queue_entries demo_entries_def Entry_from_peg_in_def)
  have "codec_ok (se_rows (demo_services (\<lambda>k. CUInt 0)))" "queue_inv (se_rows (demo_services (\<lambda>k. CUInt 0))) (sc_queue demo_state)"
    by (simp_all add: demo_codec_ok demo_queue_inv q)
  from process_queue_exactly_once [OF this] obtain r s' taken where
    "process_queue demo_impl demo_state = Some (r, s')"
    "fresh_ops demo_rows demo_queue = mset taken + fresh_ops demo_rows (sc_queue s')"
    unfolding q demo_services_simps by blast
  with f show ?thesis by metis
qed

theorem dkg_shares_file_roundtrip_witness:
  "\<exists>fs'. write_dkg_public_shares (demo_services (\<lambda>k. CUInt 0)) ''d'' []
       ((\<lambda>p. None)(dkg_shares_path ''d'' \<mapsto> [0x7B, 0x20, 0x7D])) = (Ok (), fs')
     \<and> read_dkg_public_shares (demo_services (\<lambda>k. CUInt 0)) ''d'' fs' = Err (CoordinatorConfigError SharesNotParsed)"
proof -
  let ?E = "demo_services (\<lambda>k. CUInt 0)"
  have "shares_text ?E [] [0x7B, 0x7D]" "shares_text ?E demo_shares [0x7B, 0x20, 0x7D]"
    by (auto simp: shares_text_def demo_services_def demo_shares_def json_space_def)
  moreover have "se_may_open ?E (dkg_shares_path ''d'')" by (simp add: demo_services_def)
  ultimately show ?thesis
    using dkg_shares_file_roundtrip [of ?E "[]" "[0x7B, 0x7D]" "''d''"
        "(\<lambda>p. None)(dkg_shares_path ''d'' \<mapsto> [0x7B, 0x20, 0x7D])"] by auto
qed

text \<open>A contract that names the coordinator and the wallet's key.\<close>

definition demo_contract :: "nat \<Rightarrow> clarity" where
  "demo_contract k = COptional (Some (if k = 4 then CBuffer [4] else CTuple [(''key'', CBuffer [1])]))"

definition demo_config :: "unit CoordConfig" where
  "demo_config = \<lparr>cc_contract_name = ''sbtc'', cc_contract_address = ''ST1'', cc_stacks_private_key = (),
     cc_stacks_address = ''ST1'', cc_stacks_node_rpc_url = [], cc_bitcoin_node_rpc_url = [], cc_frost_dkg_round_id = 0,
     cc_signer_config_path = Some ''signer.toml'', cc_start_block_height = Some 5, cc_data_directory = None,
     cc_bitcoin_network = Bitcoin, cc_stacks_version = Mainnet, cc_transaction_fee = 10, cc_http_relay_url = None,
     cc_network_private_key = None, cc_polling_interval = 5\<rparr>"

lemmas demo_create_simps =
  StacksCoordinator_try_from_def create_frost_coordinator_def create_frost_coordinator_from_path_def
  create_coordinator_from_path_def Config_from_path_def Config_try_from_def RawConfig_coordinator_public_key_def
  parse_public_key_def RawConfig_public_keys_def RawConfig_signer_key_ids_def RawConfig_network_private_key_def
  Config_new_def u32_try_from_def PublicKeys_default_def demo_raw_config_def create_coordinator_def Coordinator_new_def
  coordinator_public_key_call_def call_clarity_def call_read_def load_dkg_data_def bitcoin_wallet_public_key_call_def
  load_wallet_def create_empty_wallet_def import_address_def burn_block_height_def demo_config_def demo_contract_def

theorem created_wallet_key_matches_witness:
  "\<exists>s fs'. StacksCoordinator_try_from (demo_services demo_contract) demo_config (\<lambda>p. None) = (Ok s, fs')
     \<and> bw_public_key (wp_bitcoin_wallet (sc_wallet s)) = [aggregate_public_key (sc_frost s)]
     \<and> last_processed (sc_queue s) = Some 4"
proof -
  have lift: "se_xonly (demo_services v) (se_x_bytes (demo_services v) p) = Inr xk"
    if "se_lift_x (demo_services v) xk = Some p" for v xk p
    using that by (auto split: list.splits)
  have "is_ok (fst (StacksCoordinator_try_from (demo_services demo_contract) demo_config (\<lambda>p. None)))"
    by (simp add: demo_create_simps demo_node_simps demo_bitcoin_simps)
  then obtain s fs' where run: "StacksCoordinator_try_from (demo_services demo_contract) demo_config (\<lambda>p. None) = (Ok s, fs')"
    unfolding is_ok_iff by (metis prod.collapse)
  from created_wallet_key_matches [OF lift run] run show ?thesis
    by (auto simp: demo_config_def saturating_pred_def)
qed

theorem contract_coordinator_has_no_signers_witness:
  "\<exists>c. create_frost_coordinator_from_contract (demo_services (\<lambda>k. if k = 1 then demo_contract 0 else CUInt 0))
         demo_config demo_client = Ok c \<and> co_total_signers c = 0"
proof -
  let ?E = "demo_services (\<lambda>k. if k = 1 then demo_contract 0 else CUInt 0)"
  have "is_ok (create_frost_coordinator_from_contract ?E demo_config demo_client)"
    by (simp add: create_frost_coordinator_from_contract_def keys_threshold_call_def call_uint_def public_keys_call_def
        signer_key_ids_call_def signer_tables_def num_signers_def u32_of_u128_def demo_create_simps demo_node_simps)
  then obtain c where "create_frost_coordinator_from_contract ?E demo_config demo_client = Ok c"
    unfolding is_ok_iff by blast
  with contract_coordinator_has_no_signers [OF this] show ?thesis by blast
qed

end
