(* ===== verification/CoordinatorRun.thy ===== *)
theory CoordinatorRun
  imports StacksCoordinator Programs
begin

text \<open>
  The coordinator's main loop from start to end, and the programs around the two coordinators
  (\<^verbatim>\<open>stacks-coordinator/src/main.rs\<close>, \<^verbatim>\<open>frost-coordinator/src/main.rs\<close>).

  Theory \<open>StacksCoordinator\<close> shows what one call of \<^verbatim>\<open>process_queue\<close> does with the queue it finds. Here the polls between the
  calls are added: the queue is fed from a chain, and over any number of rounds the operations of the
  chain's blocks are carried out once each.
\<close>

section \<open>The programs\<close>

datatype stacks_command = RunCmd | DkgCmd | DkgSignCmd

record stacks_cli =
  cli_config_path :: string
  cli_start_block_height :: "u64 option"
  cli_signer_config :: string
  cli_command :: stacks_command

definition hello :: bytes where
  "hello = as_bytes ''Hello, world!''"

text \<open>
  The three commands of a coordinator that has been created. Its loop is followed for \<open>n\<close> rounds. The signing
  that follows key generation is tried even when that failed, and panics when it fails itself.
\<close>

definition stacks_command_run ::
  "('tx, 'bh, 'pr, 'ad, 'stx, 'sk, 'pub, 'xk, 'bt, 'addr, 'th, 'id, 'pt, 'sc, 'pk, 'ag, 'ae, 'te, 'sig, 'proof, 'se) services
    \<Rightarrow> nat \<Rightarrow> stacks_command \<Rightarrow> ('stx, 'sk, 'pub, 'xk, 'bt, 'addr, 'id, 'pt, 'sc, 'pk) StacksCoordinator
    \<Rightarrow> program_end \<times> ('stx, 'sk, 'pub, 'xk, 'bt, 'addr, 'id, 'pt, 'sc, 'pk) StacksCoordinator option" where
  "stacks_command_run E n cmd s =
     (case cmd of
        RunCmd \<Rightarrow>
          (case coordinator_run (StacksCoordinator_impl E) n s of
             None \<Rightarrow> (Running, None)
           | Some (Ok u, s1) \<Rightarrow> (Running, Some s1)
           | Some (r, s1) \<Rightarrow> (end_of r, Some s1))
      | DkgCmd \<Rightarrow> (case run_dkg_round E s of (r, s1) \<Rightarrow> (end_of r, Some s1))
      | DkgSignCmd \<Rightarrow>
          (case run_dkg_round E s of
             (Panic, s1) \<Rightarrow> (Crashed, Some s1)
           | (r, s1) \<Rightarrow>
               (case sc_sign_message E hello s1 of
                  (Ok p, s2) \<Rightarrow> (Finished, Some s2)
                | (r2, s2) \<Rightarrow> (Crashed, Some s2))))"

definition stacks_coordinator_main ::
  "('tx, 'bh, 'pr, 'ad, 'stx, 'sk, 'pub, 'xk, 'bt, 'addr, 'th, 'id, 'pt, 'sc, 'pk, 'ag, 'ae, 'te, 'sig, 'proof, 'se) services
    \<Rightarrow> (string \<Rightarrow> string + string) \<Rightarrow> (string \<Rightarrow> string option) \<Rightarrow> (string \<Rightarrow> CoordRawConfig option) \<Rightarrow> nat \<Rightarrow> stacks_cli \<Rightarrow> files
    \<Rightarrow> program_end \<times> ('stx, 'sk, 'pub, 'xk, 'bt, 'addr, 'id, 'pt, 'sc, 'pk) StacksCoordinator option" where
  "stacks_coordinator_main E parse_url read_file toml n cli fs =
     (case CoordConfig_from_path (se_stacks E) parse_url read_file toml (cli_config_path cli) of
        Ok config \<Rightarrow>
          (case cli_config (cli_signer_config cli) (cli_start_block_height cli) config of
             None \<Rightarrow> (Reported, None)
           | Some config1 \<Rightarrow>
               (case StacksCoordinator_try_from E config1 fs of
                  (Ok s, fs1) \<Rightarrow> stacks_command_run E n (cli_command cli) s
                | (Err e, fs1) \<Rightarrow> (Reported, None)
                | (Panic, fs1) \<Rightarrow> (Crashed, None)))
      | Err e \<Rightarrow> (Reported, None)
      | Panic \<Rightarrow> (Crashed, None))"

definition frost_coordinator_main ::
  "('id, 'pt, 'sc, 'pk, 'ag, 'ae, 'te, 'sig, 'proof) cenv \<Rightarrow> ('pk, 'sc) key_parsers \<Rightarrow> (string \<Rightarrow> string option)
    \<Rightarrow> (string \<Rightarrow> RawConfig option) \<Rightarrow> wire \<Rightarrow> string \<Rightarrow> coord_command \<Rightarrow> program_end" where
  "frost_coordinator_main E kp read_to_string toml w path cmd =
     (case Config_from_path kp read_to_string toml path of
        Ok config \<Rightarrow> end_of (fst (Coordinator_run E cmd (create_coordinator E config w)))
      | Err e \<Rightarrow> Reported
      | Panic \<Rightarrow> Crashed)"

section \<open>Polling a chain\<close>

text \<open>
  The entries of a block, of which the chain has peg-ins \<open>ins\<close> and peg-out requests \<open>outs\<close>, and of the blocks from one
  height to another.
\<close>

definition chain_entries ::
  "(u64 \<Rightarrow> ('tx, 'bh, 'pr) PegInOp list) \<Rightarrow> (u64 \<Rightarrow> ('tx, 'bh, 'ad) PegOutRequestOp list) \<Rightarrow> u64 \<Rightarrow> u64
    \<Rightarrow> ('tx, 'bh, 'pr, 'ad) Entry list" where
  "chain_entries ins outs a b =
     concat (map (\<lambda>h. map Entry_from_peg_in (ins h) @ map Entry_from_peg_out (outs h)) (heights a b))"

definition chain_ops ::
  "(u64 \<Rightarrow> ('tx, 'bh, 'pr) PegInOp list) \<Rightarrow> (u64 \<Rightarrow> ('tx, 'bh, 'ad) PegOutRequestOp list) \<Rightarrow> u64 \<Rightarrow> u64
    \<Rightarrow> ('tx, 'bh, 'pr, 'ad) SbtcOp multiset" where
  "chain_ops ins outs a b = mset (map en_op (chain_entries ins outs a b))"

text \<open>
  A node that follows the chain: what it answers about a block that it has reached is what the chain has there,
  unless the call fails, and it knows such blocks.
\<close>

definition follows_chain ::
  "(u64 \<Rightarrow> ('tx, 'bh, 'pr) PegInOp list) \<Rightarrow> (u64 \<Rightarrow> ('tx, 'bh, 'ad) PegOutRequestOp list) \<Rightarrow> ('tx, 'bh, 'pr, 'ad) peg_node \<Rightarrow> bool" where
  "follows_chain ins outs nd \<longleftrightarrow>
     (\<forall>t. nd_burn_block_height nd = Ok t \<longrightarrow> t < - 1 \<and>
       (\<forall>h \<le> t.
          (\<forall>ops. nd_get_peg_in_ops nd h = Ok ops \<longrightarrow> ops = ins h) \<and> (\<forall>k. nd_get_peg_in_ops nd h \<noteq> Err (UnknownBlockHeight k)) \<and>
          (\<forall>ops. nd_get_peg_out_request_ops nd h = Ok ops \<longrightarrow> ops = outs h) \<and>
          (\<forall>k. nd_get_peg_out_request_ops nd h \<noteq> Err (UnknownBlockHeight k))))"

lemma unat_next: "h < - 1 \<Longrightarrow> unat (h + 1) = Suc (unat h)" for h :: u64
  by (simp add: word_less_nat_alt unat_word_ariths unsigned_minus_1_eq_mask mask_eq_exp_minus_1)

lemma heights_split:
  assumes "unat a \<le> Suc (unat h)" and "h \<le> b" and "h < - 1"
  shows "heights a b = heights a h @ heights (h + 1) b"
proof -
  have "unat (h + 1) = Suc (unat h)" by (rule unat_next [OF assms(3)])
  moreover have "[unat a..<Suc (unat b)] = [unat a..<Suc (unat h)] @ [Suc (unat h)..<Suc (unat b)]"
    using assms(1,2) upt_add_eq_append [of "unat a" "Suc (unat h)" "unat b - unat h"] by (simp add: word_le_nat_alt)
  ultimately show ?thesis by (simp add: heights_def)
qed

lemma chain_entries_split:
  assumes "unat a \<le> Suc (unat h)" and "h \<le> b" and "h < - 1"
  shows "chain_entries ins outs a b = chain_entries ins outs a h @ chain_entries ins outs (h + 1) b"
  by (simp add: chain_entries_def heights_split [OF assms])

lemma chain_entries_New: "e \<in> set (chain_entries ins outs a b) \<Longrightarrow> en_status e = New"
  by (auto simp: chain_entries_def Entry_from_peg_in_def Entry_from_peg_out_def)

text \<open>Entries with keys of their own are added behind the others.\<close>

lemma insert_all_entries:
  assumes "codec_ok rc" and "queue_inv rc q" and "distinct (map entry_key (entries rc q @ es))"
  shows "\<exists>q'. insert_all rc es q = (Ok (), q') \<and> queue_inv rc q' \<and> last_processed q' = last_processed q
    \<and> entries rc q' = entries rc q @ es"
  using assms(2,3)
proof (induction es arbitrary: q)
  case (Cons e es)
  from queue_insert_entries [OF assms(1) Cons.prems(1), of e] obtain q1 where
    q1: "queue_insert rc e q = (Ok (), q1)" "queue_inv rc q1" "last_processed q1 = last_processed q"
      "entries rc q1 = filter (\<lambda>x. entry_key x \<noteq> entry_key e) (entries rc q) @ [e]" by blast
  have "filter (\<lambda>x. entry_key x \<noteq> entry_key e) (entries rc q) = entries rc q"
    using Cons.prems(2) by (intro filter_True) (auto simp: image_iff)
  with q1(4) have e: "entries rc q1 = entries rc q @ [e]" by simp
  with Cons.prems(2) have "distinct (map entry_key (entries rc q1 @ es))" by simp
  from Cons.IH [OF q1(2) this] q1 e show ?case by auto
qed simp

text \<open>A poll that succeeds has added the blocks it went through.\<close>

lemma poll_blocks_entries:
  assumes "codec_ok rc" and "follows_chain ins outs nd" and "nd_burn_block_height nd = Ok t"
    and "queue_inv rc q" and "\<forall>h \<in> set hs. h \<le> t" and "poll_blocks rc nd hs q = (Ok (), q')"
    and "distinct (map entry_key (entries rc q @
      concat (map (\<lambda>h. map Entry_from_peg_in (ins h) @ map Entry_from_peg_out (outs h)) hs)))"
  shows "queue_inv rc q' \<and> last_processed q' = (if hs = [] then last_processed q else Some (last hs))
    \<and> entries rc q' = entries rc q @ concat (map (\<lambda>h. map Entry_from_peg_in (ins h) @ map Entry_from_peg_out (outs h)) hs)"
  using assms(4-)
proof (induction hs arbitrary: q)
  case (Cons h hs)
  let ?rest = "concat (map (\<lambda>h. map Entry_from_peg_in (ins h) @ map Entry_from_peg_out (outs h)) hs)"
  from Cons.prems(3) obtain q1 q2 where p: "poll_peg_in_ops rc nd h q = (Ok (), q1)"
    "poll_peg_out_request_ops rc nd h q1 = (Ok (), q2)"
    "poll_blocks rc nd hs (insert_last_processed_block_height h q2) = (Ok (), q')"
    by (auto split: prod.splits outcome.splits)
  have ht: "h \<le> t" using Cons.prems(2) by simp
  then have i: "nd_get_peg_in_ops nd h = Ok (ins h)"
    using p(1) assms(2,3) unfolding follows_chain_def poll_peg_in_ops_def
    by (cases "nd_get_peg_in_ops nd h") (auto split: stacks_node_error.splits)
  have o: "nd_get_peg_out_request_ops nd h = Ok (outs h)"
    using ht p(2) assms(2,3) unfolding follows_chain_def poll_peg_out_request_ops_def
    by (cases "nd_get_peg_out_request_ops nd h") (auto split: stacks_node_error.splits)
  have pre: "distinct (map f xs)" if "distinct (map f (xs @ ys))" for f :: "_ \<Rightarrow> 'z" and xs ys :: "_ list" using that by simp
  have all: "distinct (map entry_key (((entries rc q @ map Entry_from_peg_in (ins h)) @ map Entry_from_peg_out (outs h)) @ ?rest))"
    using Cons.prems(4) by (simp only: append_assoc list.map concat.simps)
  note d1 = pre [OF pre [OF all]]
  from insert_all_entries [OF assms(1) Cons.prems(1) d1] p(1) i
  have q1: "queue_inv rc q1" "last_processed q1 = last_processed q" "entries rc q1 = entries rc q @ map Entry_from_peg_in (ins h)"
    by (auto simp: poll_peg_in_ops_def)
  have d2: "distinct (map entry_key (entries rc q1 @ map Entry_from_peg_out (outs h)))"
    using pre [OF all] by (simp only: q1(3))
  from insert_all_entries [OF assms(1) q1(1) d2] p(2) o
  have q2: "queue_inv rc q2" "entries rc q2 = entries rc q1 @ map Entry_from_peg_out (outs h)"
    by (auto simp: poll_peg_out_request_ops_def)
  let ?q3 = "insert_last_processed_block_height h q2"
  have q3: "queue_inv rc ?q3" "entries rc ?q3 = entries rc q2" "last_processed ?q3 = Some h"
    using q2 by (simp_all add: insert_last_processed_block_height_def queue_inv_def entries_def)
  have "distinct (map entry_key (entries rc ?q3 @ ?rest))"
    using all by (simp only: q1(3) q2(2) q3(2))
  from Cons.IH [OF q3(1) _ p(3) this] Cons.prems(2) q1(3) q2(2) q3 show ?case by simp
qed simp

lemma queue_poll_entries:
  assumes "codec_ok rc" and "follows_chain ins outs nd" and "queue_inv rc q" and "last_processed q = Some h"
    and "h < - 1" and poll: "queue_poll rc nd q = (Ok (), q')"
    and d: "\<And>t. distinct (map entry_key (entries rc q @ chain_entries ins outs (h + 1) t))"
  shows "\<exists>t. h \<le> t \<and> t < - 1 \<and> queue_inv rc q' \<and> last_processed q' = Some t
    \<and> entries rc q' = entries rc q @ chain_entries ins outs (h + 1) t"
proof -
  from poll assms(4) obtain t where t: "nd_burn_block_height nd = Ok t"
    by (auto simp: queue_poll_def split: outcome.splits)
  with assms(2) have max: "t < - 1" by (simp add: follows_chain_def)
  have nx: "unat (h + 1) = Suc (unat h)" by (rule unat_next [OF assms(5)])
  show ?thesis
  proof (cases "t < h + 1")
    case True
    with poll t assms(4) have "q' = q" by (simp add: queue_poll_def last_processed_block_height_def)
    moreover have "chain_entries ins outs (h + 1) h = []" by (simp add: chain_entries_def heights_def nx)
    ultimately show ?thesis using assms(3-5) by (intro exI [of _ h]) simp
  next
    case False
    with poll t assms(4) have run: "poll_blocks rc nd (heights (h + 1) t) q = (Ok (), q')"
      by (simp add: queue_poll_def last_processed_block_height_def)
    have le: "Suc (unat h) \<le> unat t" using False nx by (simp add: word_less_nat_alt)
    have "k \<le> t" if "k \<in> set (heights (h + 1) t)" for k
      using that unsigned_less [of t, where ?'a = nat]
      by (auto simp: heights_def word_le_nat_alt unat_of_nat less_Suc_eq_le intro: le_trans [OF mod_less_eq_dividend])
    then have "\<forall>k \<in> set (heights (h + 1) t). k \<le> t" by blast
    moreover have "heights (h + 1) t \<noteq> []" "last (heights (h + 1) t) = t"
      using le by (simp_all add: heights_def nx)
    ultimately show ?thesis
      using poll_blocks_entries [OF assms(1,2) t assms(3) _ run d [of t, unfolded chain_entries_def]] le max
      by (intro exI [of _ t]) (simp add: chain_entries_def word_le_nat_alt)
  qed
qed

section \<open>Rounds\<close>

text \<open>
  While operations are carried out the queue keeps the keys of its entries and the height it has reached, and
  the client keeps the address of the node.
\<close>

definition known ::
  "('tx, 'bh, 'pr, 'ad) row_codec \<Rightarrow> ('tx \<times> 'bh) set \<Rightarrow> u64 \<Rightarrow> string
    \<Rightarrow> ('stx, 'sk, 'pub, 'xk, 'bt, 'addr, 'id, 'pt, 'sc, 'pk) StacksCoordinator \<Rightarrow> bool" where
  "known rc K h url s \<longleftrightarrow> codec_ok rc \<and> queue_inv rc (sc_queue s) \<and> entry_key ` set (entries rc (sc_queue s)) = K
     \<and> last_processed (sc_queue s) = Some h \<and> nc_node_url (sc_node s) = url"

lemma known_sbtc_op:
  assumes "known (se_rows E) K h url s" and "sc_sbtc_op E s = (r, s')"
  shows "is_ok r \<and> known (se_rows E) K h url s'"
proof -
  from assms(1) have c: "codec_ok (se_rows E)" and i: "queue_inv (se_rows E) (sc_queue s)" by (simp_all add: known_def)
  show ?thesis
  proof (rule queue_sbtc_op_cases [OF c i], goal_cases)
    case 1
    with assms show ?case by (auto simp: sc_sbtc_op_def)
  next
    case (2 e q')
    then have "entry_key ` set (entries (se_rows E) q') = entry_key ` set (entries (se_rows E) (sc_queue s))"
      by (auto simp: image_iff)
    with 2 assms show ?case by (auto simp: sc_sbtc_op_def known_def)
  qed
qed

lemma next_nonce_url: "next_nonce H a nc = (r, nc') \<Longrightarrow> nc_node_url nc' = nc_node_url nc"
  by (auto simp: next_nonce_def split: option.splits outcome.splits)

lemma sc_next_nonce_url: "sc_next_nonce E s = (r, s') \<Longrightarrow> nc_node_url (sc_node s') = nc_node_url (sc_node s)"
  by (auto simp: sc_next_nonce_def split: prod.splits dest: next_nonce_url)

interpretation known: coordinator_queue "StacksCoordinator_impl E" sc_sent "\<lambda>s. (sc_queue s, nc_node_url (sc_node s))"
  "\<lambda>s. fresh_ops (se_rows E) (sc_queue s)" "known (se_rows E) K h url"
  for E :: "('tx, 'bh, 'pr, 'ad, 'stx, 'sk, 'pub, 'xk, 'bt, 'addr, 'th, 'id, 'pt, 'sc, 'pk, 'ag, 'ae, 'te, 'sig, 'proof, 'se)
    services" and K h url
proof (unfold_locales, goal_cases)
  case (1 s r s')
  then have "sc_next_nonce E s = (r, s')" by simp
  with sc_next_nonce_url [OF this] sc_frames(2) [OF this] show ?case by auto
next
  case (5 s)
  obtain r s' where t: "sc_sbtc_op E s = (r, s')" by fastforce
  with known_sbtc_op [OF 5 t] show ?case by (cases r) auto
next
  case (6 s s')
  with stacks.take_None [of E s s'] show ?case by (auto simp: known_def)
next
  case (7 s op s')
  with stacks.take_Some [of E s op s'] show ?case by (auto simp: known_def)
next
  case (10 s' s)
  then show ?case by (simp add: known_def)
qed (auto simp: sc_set_fee_def dest!: sc_frames)

text \<open>The calls that a poll makes; they depend on the address of the node only.\<close>

definition node_calls ::
  "('tx, 'bh, 'pr, 'ad, 'stx, 'pk, 'xk) node_http \<Rightarrow> NodeClient \<Rightarrow> ('tx, 'bh, 'pr, 'ad) peg_node" where
  "node_calls H nc =
     \<lparr>nd_get_peg_in_ops = get_peg_in_ops H nc, nd_get_peg_out_request_ops = get_peg_out_request_ops H nc,
      nd_burn_block_height = burn_block_height H nc\<rparr>"

lemma node_calls_url:
  assumes "nc_node_url nc = nc_node_url nc'"
  shows "node_calls H nc = node_calls H nc'"
proof -
  have "get_response H nc = get_response H nc'" using assms by (simp add: fun_eq_iff get_response_def build_url_def)
  then show ?thesis
    by (simp add: node_calls_def fun_eq_iff get_peg_in_ops_def get_peg_out_request_ops_def get_burn_ops_def burn_block_height_def)
qed

text \<open>Between two rounds: everything up to the block that was reached is known, and nothing is left to do.\<close>

definition round_done where
  "round_done E ins outs b url h s \<longleftrightarrow>
     known (se_rows E) (entry_key ` set (chain_entries ins outs b h)) h url s
     \<and> fresh_ops (se_rows E) (sc_queue s) = {#} \<and> unat b \<le> Suc (unat h) \<and> h < - 1"

text \<open>The chain that the node shows at every call: operations have keys of their own.\<close>

definition chain_ok where
  "chain_ok E ins outs b nc \<longleftrightarrow>
     (\<forall>k. follows_chain ins outs (node_calls (se_node E k) nc)) \<and> (\<forall>t. distinct (map entry_key (chain_entries ins outs b t)))"

lemma poll_round:
  fixes E :: "('tx, 'bh, 'pr, 'ad, 'stx, 'sk, 'pub, 'xk, 'bt, 'addr, 'th, 'id, 'pt, 'sc, 'pk, 'ag, 'ae, 'te, 'sig, 'proof, 'se) services"
  assumes ok: "chain_ok E ins outs b nc" and start: "round_done E ins outs b (nc_node_url nc) h s" and poll: "sc_poll E s = (Ok u, s1)"
  shows "\<exists>t. h \<le> t \<and> t < - 1 \<and> unat b \<le> Suc (unat t)
    \<and> known (se_rows E) (entry_key ` set (chain_entries ins outs b t)) t (nc_node_url nc) s1
    \<and> fresh_ops (se_rows E) (sc_queue s1) = chain_ops ins outs (h + 1) t \<and> sc_sent s1 = sc_sent s"
proof -
  let ?rc = "se_rows E" and ?nd = "node_calls (se_node E (sc_clock s)) (sc_node s)"
  from start have known: "codec_ok ?rc" "queue_inv ?rc (sc_queue s)" "last_processed (sc_queue s) = Some h"
      "entry_key ` set (entries ?rc (sc_queue s)) = entry_key ` set (chain_entries ins outs b h)"
      "nc_node_url (sc_node s) = nc_node_url nc"
    and h: "fresh_ops ?rc (sc_queue s) = {#}" "unat b \<le> Suc (unat h)" "h < - 1"
    by (simp_all add: round_done_def known_def)
  from ok known(5) have chain: "follows_chain ins outs ?nd"
    by (simp add: chain_ok_def node_calls_url [of "sc_node s" nc])
  obtain q where q: "queue_poll ?rc ?nd (sc_queue s) = (Ok (), q)" and s1: "s1 = tick (s\<lparr>sc_queue := q\<rparr>)"
    using poll by (auto simp: sc_poll_def node_calls_def Let_def split: prod.splits)
  have d: "distinct (map entry_key (entries ?rc (sc_queue s) @ chain_entries ins outs (h + 1) t))" for t
  proof (cases "h \<le> t")
    case True
    from ok have "distinct (map entry_key (chain_entries ins outs b h @ chain_entries ins outs (h + 1) t))"
      by (simp only: chain_ok_def chain_entries_split [OF h(2) True h(3), symmetric])
    with known(4) queue_invD(2) [OF known(1,2)] show ?thesis
      by (simp only: map_append distinct_append set_map simp_thms)
  next
    case False
    then have "chain_entries ins outs (h + 1) t = []"
      by (simp add: chain_entries_def heights_def unat_next [OF h(3)] word_le_nat_alt)
    with queue_invD(2) [OF known(1,2)] show ?thesis by simp
  qed
  from queue_poll_entries [OF known(1) chain known(2,3) h(3) q d] obtain t where t: "h \<le> t" "t < - 1" "queue_inv ?rc q"
    "last_processed q = Some t" "entries ?rc q = entries ?rc (sc_queue s) @ chain_entries ins outs (h + 1) t" by blast
  have keys: "entry_key ` set (entries ?rc q) = entry_key ` set (chain_entries ins outs b t)"
    using known(4) t(5) chain_entries_split [OF h(2) t(1) h(3), of ins outs] by (simp add: image_Un)
  have "filter (\<lambda>e. en_status e = New) (chain_entries ins outs (h + 1) t) = chain_entries ins outs (h + 1) t"
    by (rule filter_True) (simp add: chain_entries_New)
  with h(1) t(5) have "fresh_ops ?rc q = chain_ops ins outs (h + 1) t" by (simp add: fresh_ops_def chain_ops_def)
  moreover have "unat b \<le> Suc (unat t)" using h(2) t(1) by (simp add: word_le_nat_alt)
  ultimately show ?thesis
    using t keys known(1,5) s1 by (intro exI [of _ t]) (simp add: known_def)
qed

text \<open>
  What was sent for some operations, each of which was carried out, and for at most one operation more, on
  which the coordinator failed.
\<close>

definition carried_out ::
  "('st, 'tx, 'bh, 'pr, 'ad, 'stx, 'bt, 'proof, 'fe, 'se) coordinator \<Rightarrow> ('tx, 'bh, 'pr, 'ad) SbtcOp list
    \<Rightarrow> ('tx, 'bh, 'pr, 'ad) SbtcOp option \<Rightarrow> ('stx, 'bt) sent list \<Rightarrow> bool" where
  "carried_out C ops failed new \<longleftrightarrow>
     (\<exists>new1 new2. new = new1 @ new2
        \<and> list_all2 (built_for C) ops (accepted_txs new1) \<and> list_all2 (fulfills C) (peg_outs ops) (paid new1)
        \<and> length (accepted_txs new2) \<le> length (case failed of None \<Rightarrow> [] | Some op \<Rightarrow> [op])
        \<and> length (paid new2) \<le> length (peg_outs (case failed of None \<Rightarrow> [] | Some op \<Rightarrow> [op])))"

lemma served_carried_out:
  assumes "served C taken r new"
  shows "\<exists>ops failed. taken = ops @ (case failed of None \<Rightarrow> [] | Some op \<Rightarrow> [op]) \<and> carried_out C ops failed new
    \<and> (is_ok r \<longrightarrow> failed = None)"
proof (cases "is_ok r")
  case True
  with assms have "carried_out C taken None new"
    unfolding served_def carried_out_def by (intro exI [of _ new] exI [of _ "[]"]) simp
  then show ?thesis by (intro exI [of _ taken] exI [of _ None]) simp
next
  case False
  with assms have ne: "taken \<noteq> []" and "\<exists>new1 new2. new = new1 @ new2
    \<and> list_all2 (built_for C) (butlast taken) (accepted_txs new1) \<and> list_all2 (fulfills C) (peg_outs (butlast taken)) (paid new1)
    \<and> length (accepted_txs new2) \<le> 1 \<and> length (paid new2) \<le> length (peg_outs [last taken])"
    unfolding served_def by (simp_all del: log_simps) blast
  then have "carried_out C (butlast taken) (Some (last taken)) new"
    unfolding carried_out_def by (simp del: log_simps)
  with ne False show ?thesis by (intro exI [of _ "butlast taken"] exI [of _ "Some (last taken)"]) simp
qed

lemma peg_outs_append: "peg_outs (xs @ ys) = peg_outs xs @ peg_outs ys"
  by (simp add: peg_outs_def List.map_filter_def)

lemma carried_out_append:
  assumes "carried_out C ops1 None new1" and "carried_out C ops2 failed new2"
  shows "carried_out C (ops1 @ ops2) failed (new1 @ new2)"
proof -
  from assms(1) obtain a b where a: "new1 = a @ b" "list_all2 (built_for C) ops1 (accepted_txs a)"
      "list_all2 (fulfills C) (peg_outs ops1) (paid a)" "accepted_txs b = []" "paid b = []"
    by (auto simp: carried_out_def)
  from assms(2) obtain c d where c: "new2 = c @ d" "list_all2 (built_for C) ops2 (accepted_txs c)"
      "list_all2 (fulfills C) (peg_outs ops2) (paid c)"
      "length (accepted_txs d) \<le> length (case failed of None \<Rightarrow> [] | Some op \<Rightarrow> [op])"
      "length (paid d) \<le> length (peg_outs (case failed of None \<Rightarrow> [] | Some op \<Rightarrow> [op]))"
    unfolding carried_out_def by blast
  show ?thesis
    unfolding carried_out_def
    using a c by (intro exI [of _ "a @ b @ c"] exI [of _ d]) (auto simp: list_all2_appendI peg_outs_append)
qed

lemma chain_ops_split:
  assumes "h \<le> t" and "t \<le> t'" and "h < - 1" and "t < - 1"
  shows "chain_ops ins outs (h + 1) t' = chain_ops ins outs (h + 1) t + chain_ops ins outs (t + 1) t'"
proof -
  have "unat (h + 1) \<le> Suc (unat t)" using assms(1) by (simp add: unat_next [OF assms(3)] word_le_nat_alt)
  then show ?thesis unfolding chain_ops_def using chain_entries_split [OF _ assms(2,4)] by (metis map_append mset_append)
qed

text \<open>
  The result of some rounds: of the blocks behind \<open>h\<close> up to some height, every operation was carried out
  when they succeeded, and otherwise some were, each once.
\<close>

definition rounds_result where
  "rounds_result E ins outs b url h s r s' \<longleftrightarrow>
     (\<exists>t ops failed new. sc_sent s' = sc_sent s @ new \<and> h \<le> t \<and> carried_out (StacksCoordinator_impl E) ops failed new
        \<and> mset (ops @ (case failed of None \<Rightarrow> [] | Some op \<Rightarrow> [op])) \<subseteq># chain_ops ins outs (h + 1) t
        \<and> (is_ok r \<longrightarrow> failed = None \<and> mset ops = chain_ops ins outs (h + 1) t \<and> round_done E ins outs b url t s'))"

lemma chain_ops_empty: "h < - 1 \<Longrightarrow> chain_ops ins outs (h + 1) h = {#}"
  by (simp add: chain_ops_def chain_entries_def heights_def unat_next)

lemma rounds_result_none:
  assumes "sc_sent s' = sc_sent s" and "is_ok r \<Longrightarrow> round_done E ins outs b url h s'"
  shows "rounds_result E ins outs b url h s r s'"
  unfolding rounds_result_def
proof (intro exI [of _ h] exI [of _ "[]"] exI [of _ None] exI [of _ "[]"] conjI impI)
  assume "is_ok r"
  from assms(2) [OF this] show "round_done E ins outs b url h s'" "mset [] = chain_ops ins outs (h + 1) h"
    by (simp_all add: chain_ops_empty round_done_def)
qed (use assms(1) in \<open>simp_all add: carried_out_def\<close>)

lemma round_served:
  assumes ok: "chain_ok E ins outs b nc" and start: "round_done E ins outs b (nc_node_url nc) h s" and poll: "sc_poll E s = (Ok u, s1)"
  shows "\<exists>r s2. process_queue (StacksCoordinator_impl E) s1 = Some (r, s2)
    \<and> rounds_result E ins outs b (nc_node_url nc) h s r s2"
proof -
  from poll_round [OF assms] obtain t where t: "h \<le> t" "t < - 1" "unat b \<le> Suc (unat t)"
    "known (se_rows E) (entry_key ` set (chain_entries ins outs b t)) t (nc_node_url nc) s1"
    "fresh_ops (se_rows E) (sc_queue s1) = chain_ops ins outs (h + 1) t" "sc_sent s1 = sc_sent s" by blast
  from known.process_queue_serves [OF t(4)] obtain r s2 taken new where
    pq: "process_queue (StacksCoordinator_impl E) s1 = Some (r, s2)" and
    s2: "known (se_rows E) (entry_key ` set (chain_entries ins outs b t)) t (nc_node_url nc) s2" "sc_sent s2 = sc_sent s1 @ new"
      "fresh_ops (se_rows E) (sc_queue s1) = mset taken + fresh_ops (se_rows E) (sc_queue s2)"
      and sv: "served (StacksCoordinator_impl E) taken r new"
      and fin: "is_ok r \<longrightarrow> fresh_ops (se_rows E) (sc_queue s2) = {#}" by blast
  from served_carried_out [OF sv] obtain ops failed where
    ops: "taken = ops @ (case failed of None \<Rightarrow> [] | Some op \<Rightarrow> [op])" "carried_out (StacksCoordinator_impl E) ops failed new"
      "is_ok r \<longrightarrow> failed = None" by blast
  have "mset taken \<subseteq># chain_ops ins outs (h + 1) t" using s2(3) t(5) by simp
  moreover have "mset ops = chain_ops ins outs (h + 1) t \<and> round_done E ins outs b (nc_node_url nc) t s2" if "is_ok r"
    using that ops fin s2 t by (simp add: round_done_def)
  ultimately have "rounds_result E ins outs b (nc_node_url nc) h s r s2"
    unfolding rounds_result_def using ops t(1,6) s2(2)
    by (intro exI [of _ t] exI [of _ ops] exI [of _ failed] exI [of _ new]) simp
  with pq show ?thesis by blast
qed

lemma rounds_result_append:
  assumes "rounds_result E ins outs b url h s r s2" and "is_ok r" and "h < - 1"
    and rest: "\<And>t. round_done E ins outs b url t s2 \<Longrightarrow> rounds_result E ins outs b url t s2 r' s'"
  shows "rounds_result E ins outs b url h s r' s'"
proof -
  let ?C = "StacksCoordinator_impl E"
  from assms(1,2) obtain t ops new where a: "sc_sent s2 = sc_sent s @ new" "h \<le> t" "carried_out ?C ops None new"
      "mset ops = chain_ops ins outs (h + 1) t" and d: "round_done E ins outs b url t s2"
    unfolding rounds_result_def by auto
  from rest [OF d] obtain t' ops' failed new' where c: "sc_sent s' = sc_sent s2 @ new'" "t \<le> t'"
      "carried_out ?C ops' failed new'"
      "mset (ops' @ (case failed of None \<Rightarrow> [] | Some op \<Rightarrow> [op])) \<subseteq># chain_ops ins outs (t + 1) t'"
      "is_ok r' \<longrightarrow> failed = None \<and> mset ops' = chain_ops ins outs (t + 1) t' \<and> round_done E ins outs b url t' s'"
    unfolding rounds_result_def by blast
  have "t < - 1" using d by (simp add: round_done_def)
  from chain_ops_split [OF a(2) c(2) assms(3) this]
  have split: "chain_ops ins outs (h + 1) t' = mset ops + chain_ops ins outs (t + 1) t'" using a(4) by simp
  then have "mset ((ops @ ops') @ (case failed of None \<Rightarrow> [] | Some op \<Rightarrow> [op])) \<subseteq># chain_ops ins outs (h + 1) t'"
    using c(4) by simp
  moreover have "mset (ops @ ops') = chain_ops ins outs (h + 1) t'" if "is_ok r'" using c(5) that split by simp
  ultimately show ?thesis
    unfolding rounds_result_def using a(1,2) c(1,2,5) carried_out_append [OF a(3) c(3)]
    by (intro exI [of _ t'] exI [of _ "ops @ ops'"] exI [of _ failed] exI [of _ "new @ new'"]) auto
qed

lemma run_rounds:
  assumes ok: "chain_ok E ins outs b nc" and start: "round_done E ins outs b (nc_node_url nc) h s"
  shows "\<exists>r s'. coordinator_run (StacksCoordinator_impl E) n s = Some (r, s')
    \<and> rounds_result E ins outs b (nc_node_url nc) h s r s'"
  using start
proof (induction n arbitrary: h s)
  case 0
  then show ?case by (auto intro: rounds_result_none)
next
  case (Suc n)
  let ?C = "StacksCoordinator_impl E"
  have h: "h < - 1" using Suc.prems by (simp add: round_done_def)
  obtain rp s1 where poll: "sc_poll E s = (rp, s1)" by fastforce
  show ?case
  proof (cases "is_ok rp")
    case True
    then obtain u where u: "rp = Ok u" by (cases rp) simp_all
    from round_served [OF ok Suc.prems poll [unfolded u]] obtain r s2 where
      pq: "process_queue ?C s1 = Some (r, s2)" and res: "rounds_result E ins outs b (nc_node_url nc) h s r s2" by blast
    show ?thesis
    proof (cases "is_ok r")
      case True
      then have step: "coordinator_run ?C (Suc n) s = coordinator_run ?C n s2" using poll u pq by (cases r) simp_all
      from res True obtain t where "round_done E ins outs b (nc_node_url nc) t s2" unfolding rounds_result_def by auto
      from Suc.IH [OF this] obtain r' s' where run: "coordinator_run ?C n s2 = Some (r', s')" by blast
      then have "rounds_result E ins outs b (nc_node_url nc) t s2 r' s'" if "round_done E ins outs b (nc_node_url nc) t s2" for t
        using Suc.IH [OF that] by auto
      with rounds_result_append [OF res True h] step run show ?thesis by auto
    next
      case False
      with poll u pq res show ?thesis by (cases r) simp_all
    qed
  next
    case False
    then obtain r where "coordinator_run ?C (Suc n) s = Some (r, s1)" "\<not> is_ok r" using poll by (cases rp) simp_all
    moreover have "sc_sent s1 = sc_sent s" using poll by (auto simp: sc_poll_def Let_def split: prod.splits)
    ultimately show ?thesis by (auto intro: rounds_result_none)
  qed
qed

section \<open>Properties\<close>

lemma created_queue:
  assumes "StacksCoordinator_try_from E config fs = (Ok s, fs')"
  shows "sc_sent s = []"
    and "\<exists>current. sc_queue s = (case cc_data_directory config of
        Some dir \<Rightarrow> from_connection (se_database E (join_path dir ''peg_queue.sqlite'')) (cc_start_block_height config) current
      | None \<Rightarrow> in_memory (cc_start_block_height config) current)"
proof -
  let ?nc = "NodeClient_new (cc_stacks_node_rpc_url config) (cc_contract_name config) (cc_contract_address config)"
  obtain x nc1 where c: "create_frost_coordinator E config ?nc (config_wallet E config) = (x, nc1)" by fastforce
  with assms obtain fc where x: "x = Ok fc"
    by (cases x) (simp_all add: StacksCoordinator_try_from_def Let_def)
  obtain y fc1 nc2 fs1 where l: "load_dkg_data E (cc_data_directory config) (config_wallet E config)
      (cc_stacks_address config) (fc, nc1, fs) = (y, fc1, nc2, fs1)" by (metis prod_cases4)
  with assms c x obtain xonly where y: "y = Ok xonly"
    by (cases y) (simp_all add: StacksCoordinator_try_from_def Let_def)
  show "sc_sent s = []" "\<exists>current. sc_queue s = (case cc_data_directory config of
        Some dir \<Rightarrow> from_connection (se_database E (join_path dir ''peg_queue.sqlite'')) (cc_start_block_height config) current
      | None \<Rightarrow> in_memory (cc_start_block_height config) current)"
    using assms c x l y by (auto simp: StacksCoordinator_try_from_def Let_def obind_Ok_iff)
qed

text \<open>A new coordinator with an empty queue is between two rounds, at the block before its first.\<close>

lemma created_round_done:
  assumes "codec_ok (se_rows E)" and "sbtc_ops (sc_queue s) = []" and "last_processed (sc_queue s) = Some (b - 1)" and "0 < b"
  shows "round_done E ins outs b (nc_node_url (sc_node s)) (b - 1) s"
proof -
  have "b - 1 \<noteq> - 1" using assms(4) by simp
  then have max: "b - 1 < - 1" by (rule iffD1 [OF word_order.not_eq_extremum])
  from unat_next [OF this] have len: "unat b = Suc (unat (b - 1))" by simp
  then have "chain_entries ins outs b (b - 1) = []" by (simp add: chain_entries_def heights_def)
  with max len show ?thesis
    using assms
    by (simp add: round_done_def known_def fresh_ops_def entries_def queue_inv_def List.map_filter_def)
qed


text \<open>
  C39. A coordinator that is started from a configuration cannot sign. \<^verbatim>\<open>frost-coordinator\<close> makes a new coordinator for every
  command and keeps nothing, so that the commands \<^verbatim>\<open>sign\<close> and \<^verbatim>\<open>get-aggregate-public-key\<close>, for which
  a key must have been generated before, are refused whatever was done before and whatever the network does.
\<close>

theorem fresh_coordinator_has_no_key:
  "frost_coordinator_main E kp read_to_string toml w path (Sign m)
     = (if Config_from_path kp read_to_string toml path = Panic then Crashed else Reported)
   \<and> frost_coordinator_main E kp read_to_string toml w path GetAggregatePublicKey
     = (if Config_from_path kp read_to_string toml path = Panic then Crashed else Reported)"
  by (simp add: frost_coordinator_main_def Coordinator_run_def sign_message_def get_aggregate_public_key_def
      create_coordinator_def Coordinator_new_def split: outcome.split)

section \<open>Witness\<close>

text \<open>A chain with one peg-in, in block 6, and a node that shows it and has reached block 9.\<close>

definition demo_ins :: "u64 \<Rightarrow> (u64, u64, unit) PegInOp list" where
  "demo_ins h = (if h = 6 then [demo_in 6 1] else [])"

definition demo_outs :: "u64 \<Rightarrow> (u64, u64, unit) PegOutRequestOp list" where
  "demo_outs h = []"

definition demo_chain_answer :: "string \<Rightarrow> nat \<times> json option" where
  "demo_chain_answer u = (200, Some (JObj [(''okay'', JBool True), (''result'', JStr ''0x''), (''nonce'', JInt 41),
     (''burn_block_height'', JInt 9), (''peg_in'', JStr u), (''peg_out_request'', JNull)]))"

definition demo_chain_node :: "nat \<Rightarrow> (u64, u64, unit, unit, u64, nat, bytes) node_http" where
  "demo_chain_node k = (demo_stacks_node demo_contract k)\<lparr>nh_get := \<lambda>u. Some (demo_chain_answer u),
     nh_peg_in_ops := \<lambda>j. Some (if j = JStr ''/v2/burn_ops/6/peg_in'' then [demo_in 6 1] else [])\<rparr>"

definition demo_chain_services ::
  "(u64, u64, unit, unit, u64, unit, nat, bytes, string, unit, unit, u32, u8, nat, nat, unit, unit, unit,
      bytes, bytes, unit) services" where
  "demo_chain_services = (demo_services demo_contract)\<lparr>se_node := demo_chain_node\<rparr>"

lemma demo_chain_services_simps [simp]:
  "se_node demo_chain_services = demo_chain_node" "se_rows demo_chain_services = demo_rows"
  "se_stacks demo_chain_services = demo_blockstack"
  by (simp_all add: demo_chain_services_def)

lemma show_nat_inject: "show_nat m = show_nat n \<longleftrightarrow> m = n"
  by (metis option.inject parse_digits_show_nat)

lemma demo_url: "''/v2/burn_ops/'' @ show_nat (unat h) @ ''/peg_in'' = ''/v2/burn_ops/6/peg_in'' \<longleftrightarrow> h = 6" for h :: u64
proof -
  have "show_nat 6 = ''6''" by code_simp
  then have "(''/v2/burn_ops/'' @ show_nat (unat h) @ ''/peg_in'' = ''/v2/burn_ops/6/peg_in'') = (show_nat (unat h) = show_nat 6)"
    using append_same_eq [of "show_nat (unat h)" "''/peg_in''" "show_nat 6"] by simp
  then show ?thesis by (simp only: show_nat_inject) (simp add: word_unat_eq_iff)
qed

lemma demo_chain_node_follows:
  assumes "nc_node_url nc = []"
  shows "follows_chain demo_ins demo_outs (node_calls (demo_chain_node k) nc)"
  using demo_url assms
  by (simp add: follows_chain_def node_calls_def get_peg_in_ops_def get_peg_out_request_ops_def get_burn_ops_def burn_block_height_def
      get_response_def build_url_def demo_chain_node_def demo_stacks_node_def demo_chain_answer_def json_index_def demo_ins_def demo_outs_def)

lemma distinct_heights: "distinct (heights a b)"
proof -
  have "inj_on (of_nat :: nat \<Rightarrow> u64) {unat a..<Suc (unat b)}"
  proof (rule inj_onI)
    fix x y assume "x \<in> {unat a..<Suc (unat b)}" "y \<in> {unat a..<Suc (unat b)}" "(of_nat x :: u64) = of_nat y"
    moreover have "unat b < 2 ^ 64" using unsigned_less [of b, where ?'a = nat] by simp
    ultimately show "x = y" by (simp add: word_of_nat_eq_iff take_bit_nat_eq_self)
  qed
  then show ?thesis unfolding heights_def distinct_map set_upt by simp
qed

lemma demo_chain_entries:
  "chain_entries demo_ins demo_outs a b = (if 6 \<in> set (heights a b) then [Entry_from_peg_in (demo_in 6 1)] else [])"
proof -
  have "concat (map (\<lambda>h. map Entry_from_peg_in (demo_ins h) @ map Entry_from_peg_out (demo_outs h)) hs)
      = (if 6 \<in> set hs then [Entry_from_peg_in (demo_in 6 1)] else [])" if "distinct hs" for hs
    using that by (induction hs) (auto simp: demo_ins_def demo_outs_def)
  from this [OF distinct_heights] show ?thesis by (simp add: chain_entries_def)
qed

definition demo_coord_raw :: CoordRawConfig where
  "demo_coord_raw = \<lparr>crc_sbtc_contract = ''ST1.sbtc'', crc_stacks_private_key = [], crc_stacks_node_rpc_url = [],
     crc_bitcoin_node_rpc_url = [], crc_frost_dkg_round_id = 0, crc_signer_config_path = Some ''signer.toml'',
     crc_start_block_height = None, crc_data_directory = None, crc_network = None, crc_transaction_fee = 10,
     crc_http_relay_url = None, crc_frost_state_file = None, crc_network_private_key = None, crc_polling_interval = Some 5\<rparr>"

definition demo_cli :: stacks_cli where
  "demo_cli = \<lparr>cli_config_path = ''coordinator.toml'', cli_start_block_height = Some 5, cli_signer_config = ''signer.toml'',
     cli_command = RunCmd\<rparr>"

abbreviation demo_main where
  "demo_main n \<equiv> stacks_coordinator_main demo_chain_services Inr (\<lambda>p. Some []) (\<lambda>t. Some demo_coord_raw) n demo_cli (\<lambda>p. None)"


end
