(* ===== verification/Restarts.thy ===== *)
theory Restarts
  imports CoordinatorRun
begin

text \<open>
  The program \<^verbatim>\<open>stacks-coordinator run\<close> started again and again on one database, as an operator does who keeps its data
  directory and does not give a start height. A run can end with an error in the middle of a poll or of an
  operation, or it can be stopped between two rounds; what stays is the table of the queue. The ledger of a
  table says which entries may be in it and which of them have been handed out. It survives every end of a
  run, and with it no operation is carried out twice over all runs.
\<close>

section \<open>The ledger\<close>

abbreviation as_new where
  "as_new e \<equiv> e\<lparr>en_status := New\<rparr>"

text \<open>Entries are those of \<open>C\<close>, up to their status; the ones handed out are in \<open>D\<close>.\<close>

definition ledger ::
  "('tx, 'bh, 'pr, 'ad) row_codec \<Rightarrow> ('tx, 'bh, 'pr, 'ad) Entry set \<Rightarrow> ('tx, 'bh, 'pr, 'ad) Entry set \<Rightarrow> queue_db \<Rightarrow> bool" where
  "ledger rc C D q \<longleftrightarrow>
     queue_inv rc q \<and> (\<forall>e \<in> set (entries rc q). as_new e \<in> C \<and> (en_status e \<noteq> New \<longrightarrow> as_new e \<in> D))"

definition covers :: "('tx, 'bh, 'pr, 'ad) row_codec \<Rightarrow> ('tx, 'bh, 'pr, 'ad) Entry set \<Rightarrow> queue_db \<Rightarrow> bool" where
  "covers rc D q \<longleftrightarrow> entry_key ` D \<subseteq> entry_key ` set (entries rc q)"

definition handed_out :: "('tx, 'bh, 'pr, 'ad) row_codec \<Rightarrow> queue_db \<Rightarrow> ('tx, 'bh, 'pr, 'ad) SbtcOp multiset" where
  "handed_out rc q = mset (map en_op (filter (\<lambda>e. en_status e \<noteq> New) (entries rc q)))"

lemma ledger_mono: "ledger rc C D q \<Longrightarrow> C \<subseteq> C' \<Longrightarrow> D \<subseteq> D' \<Longrightarrow> ledger rc C' D' q"
  unfolding ledger_def by blast

lemma ledger_inv: "ledger rc C D q \<Longrightarrow> queue_inv rc q"
  by (simp add: ledger_def)

lemma mset_filter_split: "mset (map f (filter P xs)) + mset (map f (filter (\<lambda>x. \<not> P x) xs)) = mset (map f xs)"
  by (induction xs) auto

lemma fresh_handed_out: "fresh_ops rc q + handed_out rc q = mset (map en_op (entries rc q))"
  unfolding fresh_ops_def handed_out_def by (rule mset_filter_split)

lemma as_new_id [simp]: "en_status e = New \<Longrightarrow> as_new e = e"
  by (metis Entry.surjective Entry.update_convs(5) old.unit.exhaust Entry.select_convs(5))

text \<open>An entry that is not yet in \<open>D\<close> can be written again: what it replaces is new.\<close>

lemma ledger_insert:
  assumes codec: "codec_ok rc" and led: "ledger rc C D q" and inj: "inj_on entry_key C"
    and e: "e \<in> C" "e \<notin> D" "en_status e = New" and sub: "D \<subseteq> C"
  shows "\<exists>q'. queue_insert rc e q = (Ok (), q') \<and> ledger rc C D q' \<and> last_processed q' = last_processed q
    \<and> handed_out rc q' = handed_out rc q \<and> entry_key ` set (entries rc q') = insert (entry_key e) (entry_key ` set (entries rc q))"
proof -
  from queue_insert_entries [OF codec ledger_inv [OF led], of e] obtain q' where
    q': "queue_insert rc e q = (Ok (), q')" "queue_inv rc q'" "last_processed q' = last_processed q"
      "entries rc q' = filter (\<lambda>x. entry_key x \<noteq> entry_key e) (entries rc q) @ [e]" by blast
  have new: "en_status x = New" if "x \<in> set (entries rc q)" "entry_key x = entry_key e" for x
  proof (rule ccontr)
    assume "en_status x \<noteq> New"
    with led that(1) have "as_new x \<in> D" by (simp add: ledger_def)
    moreover have "as_new x = e" using inj_onD [OF inj, of "as_new x" e] that e led by (simp add: ledger_def)
    ultimately show False using e(2) by simp
  qed
  have "filter (\<lambda>x. en_status x \<noteq> New) (filter (\<lambda>x. entry_key x \<noteq> entry_key e) (entries rc q))
      = filter (\<lambda>x. en_status x \<noteq> New) (entries rc q)"
    unfolding filter_filter by (rule filter_cong [OF refl]) (use new in blast)
  then have "handed_out rc q' = handed_out rc q" using e(3) by (simp add: handed_out_def q'(4))
  moreover have "ledger rc C D q'" using led q'(2,4) e by (auto simp: ledger_def)
  moreover have "entry_key ` set (entries rc q') = insert (entry_key e) (entry_key ` set (entries rc q))"
    unfolding q'(4) by auto
  ultimately show ?thesis using q' by blast
qed

lemma ledger_insert_all:
  assumes codec: "codec_ok rc" and inj: "inj_on entry_key C" and sub: "D \<subseteq> C"
    and "ledger rc C D q" and "set es \<subseteq> C - D" and "\<forall>e \<in> set es. en_status e = New"
  shows "\<exists>q'. insert_all rc es q = (Ok (), q') \<and> ledger rc C D q' \<and> last_processed q' = last_processed q
    \<and> handed_out rc q' = handed_out rc q \<and> entry_key ` set (entries rc q') = entry_key ` (set es \<union> set (entries rc q))"
  using assms(4-)
proof (induction es arbitrary: q)
  case (Cons e es)
  then have e: "e \<in> C" "e \<notin> D" "en_status e = New" by auto
  from ledger_insert [OF codec Cons.prems(1) inj e sub] obtain q1 where
    q1: "queue_insert rc e q = (Ok (), q1)" "ledger rc C D q1" "last_processed q1 = last_processed q"
      "handed_out rc q1 = handed_out rc q" "entry_key ` set (entries rc q1) = insert (entry_key e) (entry_key ` set (entries rc q))"
    by blast
  from Cons.prems have "set es \<subseteq> C - D" "\<forall>e \<in> set es. en_status e = New" by auto
  from Cons.IH [OF q1(2) this] q1 show ?case by (auto simp: image_Un)
qed simp

section \<open>Polling\<close>

abbreviation block where
  "block ins outs h \<equiv> map Entry_from_peg_in (ins h) @ map Entry_from_peg_out (outs h)"

lemma block_New: "e \<in> set (block ins outs h) \<Longrightarrow> en_status e = New"
  by (auto simp: Entry_from_peg_in_def Entry_from_peg_out_def)

lemma chain_entries_block: "chain_entries ins outs a b = concat (map (block ins outs) (heights a b))"
  by (simp add: chain_entries_def)

text \<open>
  Polling blocks that are not in \<open>D\<close>: whatever the node answers, the ledger is kept, for the blocks of which everything
  was read; nothing is handed out.
\<close>

definition polled where
  "polled rc ins outs C D q hs q' \<longleftrightarrow>
     ledger rc C (D \<union> set (concat (map (block ins outs) hs))) q' \<and> covers rc (D \<union> set (concat (map (block ins outs) hs))) q'
     \<and> handed_out rc q' = handed_out rc q \<and> last_processed q' = (if hs = [] then last_processed q else Some (last hs))"

lemma poll_block_ledger:
  assumes codec: "codec_ok rc" and inj: "inj_on entry_key C" and sub: "D \<subseteq> C" and led: "ledger rc C D q" and cov: "covers rc D q"
    and chain: "follows_chain ins outs nd" "nd_burn_block_height nd = Ok t" "h \<le> t" and b: "set (block ins outs h) \<subseteq> C - D"
  shows "(\<exists>q1 q2. poll_peg_in_ops rc nd h q = (Ok (), q1) \<and> poll_peg_out_request_ops rc nd h q1 = (Ok (), q2)
       \<and> polled rc ins outs C D q [h] (insert_last_processed_block_height h q2))
    \<or> (\<exists>r q1. poll_peg_in_ops rc nd h q = (r, q1) \<and> \<not> is_ok r \<and> polled rc ins outs C D q [] q1)
    \<or> (\<exists>q1 r q2. poll_peg_in_ops rc nd h q = (Ok (), q1) \<and> poll_peg_out_request_ops rc nd h q1 = (r, q2) \<and> \<not> is_ok r
       \<and> polled rc ins outs C D q [] q2)"
proof (cases "nd_get_peg_in_ops nd h")
  case (Ok ops)
  with chain have i: "nd_get_peg_in_ops nd h = Ok (ins h)" by (auto simp: follows_chain_def)
  from b have ib: "set (map Entry_from_peg_in (ins h)) \<subseteq> C - D" by simp
  have inew: "\<forall>e \<in> set (map Entry_from_peg_in (ins h)). en_status e = New" by (simp add: Entry_from_peg_in_def)
  from ledger_insert_all [OF codec inj sub led ib inew] obtain q1 where q1: "poll_peg_in_ops rc nd h q = (Ok (), q1)" "ledger rc C D q1"
    "last_processed q1 = last_processed q" "handed_out rc q1 = handed_out rc q"
    "entry_key ` set (entries rc q1) = entry_key ` (set (map Entry_from_peg_in (ins h)) \<union> set (entries rc q))"
    by (auto simp: poll_peg_in_ops_def i)
  show ?thesis
  proof (cases "nd_get_peg_out_request_ops nd h")
    case (Ok ops')
    with chain have o: "nd_get_peg_out_request_ops nd h = Ok (outs h)" by (auto simp: follows_chain_def)
    from b have ob: "set (map Entry_from_peg_out (outs h)) \<subseteq> C - D" by simp
    have onew: "\<forall>e \<in> set (map Entry_from_peg_out (outs h)). en_status e = New" by (simp add: Entry_from_peg_out_def)
    from ledger_insert_all [OF codec inj sub q1(2) ob onew] obtain q2 where q2: "poll_peg_out_request_ops rc nd h q1 = (Ok (), q2)"
      "ledger rc C D q2" "handed_out rc q2 = handed_out rc q1"
      "entry_key ` set (entries rc q2) = entry_key ` (set (map Entry_from_peg_out (outs h)) \<union> set (entries rc q1))"
      by (auto simp: poll_peg_out_request_ops_def o)
    let ?q3 = "insert_last_processed_block_height h q2"
    have e3: "entries rc ?q3 = entries rc q2" by (simp add: insert_last_processed_block_height_def entries_def)
    have "ledger rc C (D \<union> set (block ins outs h)) ?q3"
      using q2(2) by (auto simp: ledger_def e3) (simp add: queue_inv_def insert_last_processed_block_height_def)
    moreover have "covers rc (D \<union> set (block ins outs h)) ?q3"
      using cov q1(5) q2(4) unfolding covers_def e3 by (simp add: image_Un) blast
    moreover have "handed_out rc ?q3 = handed_out rc q" using q1(4) q2(3) by (simp add: handed_out_def e3)
    ultimately have "polled rc ins outs C D q [h] ?q3"
      by (simp add: polled_def insert_last_processed_block_height_def)
    with q1(1) q2(1) show ?thesis by blast
  qed (use chain q1 cov in \<open>auto simp: poll_peg_out_request_ops_def polled_def follows_chain_def covers_def image_Un split: stacks_node_error.splits\<close>)
qed (use chain led cov in \<open>auto simp: poll_peg_in_ops_def polled_def follows_chain_def split: stacks_node_error.splits\<close>)


lemma distinct_map_disjoint: "distinct (map f (xs @ ys)) \<Longrightarrow> set xs \<inter> set ys = {}"
  by auto

text \<open>A poll of several blocks gets through some of them, and through all of them when it succeeds.\<close>

lemma poll_blocks_ledger:
  assumes codec: "codec_ok rc" and inj: "inj_on entry_key C" and chain: "follows_chain ins outs nd" "nd_burn_block_height nd = Ok t"
    and "D \<subseteq> C" and "ledger rc C D q" and "covers rc D q" and "\<forall>h \<in> set hs. h \<le> t"
    and "set (concat (map (block ins outs) hs)) \<subseteq> C - D" and "distinct (map entry_key (concat (map (block ins outs) hs)))"
    and "poll_blocks rc nd hs q = (r, q')"
  shows "\<exists>hs1 hs2. hs = hs1 @ hs2 \<and> (is_ok r \<longrightarrow> hs2 = []) \<and> polled rc ins outs C D q hs1 q'"
  using assms(5-)
proof (induction hs arbitrary: D q)
  case Nil
  then show ?case by (simp add: polled_def)
next
  case (Cons h hs)
  have ht: "h \<le> t" and hb: "set (block ins outs h) \<subseteq> C - D" using Cons.prems(4,5) by auto
  note step = poll_block_ledger [OF codec inj Cons.prems(1-3) chain ht hb]
  from step consider (failed) "\<not> is_ok r" "polled rc ins outs C D q [] q'"
    | (ok) q2 where "polled rc ins outs C D q [h] (insert_last_processed_block_height h q2)"
      "poll_blocks rc nd hs (insert_last_processed_block_height h q2) = (r, q')"
    using Cons.prems(7) by (elim disjE exE conjE) (auto split: outcome.splits)
  then show ?case
  proof cases
    case failed
    then show ?thesis by (intro exI [of _ "[]"] exI [of _ "h # hs"]) simp
  next
    case ok
    let ?D = "D \<union> set (block ins outs h)" and ?q = "insert_last_processed_block_height h q2"
    from ok(1) have q2: "ledger rc C ?D ?q" "covers rc ?D ?q" "handed_out rc ?q = handed_out rc q" "last_processed ?q = Some h"
      by (simp_all add: polled_def)
    have "set (block ins outs h) \<inter> set (concat (map (block ins outs) hs)) = {}"
      by (rule distinct_map_disjoint [where f = entry_key]) (use Cons.prems(6) in simp)
    then have "set (concat (map (block ins outs) hs)) \<subseteq> C - ?D" using Cons.prems(5) by (simp only: list.map concat.simps set_append) blast
    moreover have "?D \<subseteq> C" using hb Cons.prems(1) by blast
    moreover have "distinct (map entry_key (concat (map (block ins outs) hs)))" "\<forall>h \<in> set hs. h \<le> t" using Cons.prems(4,6) by simp_all
    ultimately obtain hs1 hs2 where hs: "hs = hs1 @ hs2" "is_ok r \<longrightarrow> hs2 = []" "polled rc ins outs C ?D ?q hs1 q'"
      using Cons.IH [of ?D ?q] q2 ok(2) by blast
    have "polled rc ins outs C D q (h # hs1) q'" using hs(3) q2(3,4) by (simp add: polled_def Un_assoc)
    with hs(1,2) show ?thesis by (intro exI [of _ "h # hs1"] exI [of _ hs2]) simp
  qed
qed

lemma heights_prefix:
  assumes "heights a b = xs @ ys" and "xs \<noteq> []"
  shows "xs = heights a (last xs)" and "last xs \<le> b" and "a \<le> last xs"
proof -
  let ?k = "length xs"
  have "?k + length ys = Suc (unat b) - unat a"
    using arg_cong [OF assms(1), of length] by (simp add: heights_def del: upt_Suc)
  moreover have "0 < ?k" using assms(2) by simp
  ultimately have k: "0 < ?k" "unat a + ?k \<le> Suc (unat b)" by arith+
  have "xs = take ?k (heights a b)" by (simp add: assms(1))
  also have "\<dots> = map of_nat [unat a..<unat a + ?k]" using k(2) by (simp add: heights_def take_map take_upt del: upt_Suc)
  finally have xs: "xs = map of_nat [unat a..<unat a + ?k]" .
  have "last (map of_nat [unat a..<unat a + ?k]) = (of_nat (unat a + ?k - 1) :: u64)"
    using k(1) by (simp add: last_map)
  with xs have l: "last xs = of_nat (unat a + ?k - 1)" by simp
  have "unat b < 2 ^ 64" using unsigned_less [of b, where ?'a = nat] by simp
  with k l have u: "unat (last xs) = unat a + ?k - 1" by (simp add: unat_of_nat)
  show "xs = heights a (last xs)" using xs k(1) by (simp add: heights_def u)
  show "last xs \<le> b" "a \<le> last xs" using k u unfolding word_le_nat_alt by arith+
qed

text \<open>
  The table of a queue that has reached height \<open>h\<close>: it has every operation up to there, maybe others up to \<open>u\<close>, which a
  failed poll has left, and only operations up to \<open>h\<close> have been handed out.
\<close>

definition ledger_at where
  "ledger_at rc ins outs b h u q \<longleftrightarrow> last_processed q = Some h \<and> h \<le> u \<and> u < - 1 \<and> unat b \<le> Suc (unat h)
     \<and> ledger rc (set (chain_entries ins outs b u)) (set (chain_entries ins outs b h)) q
     \<and> covers rc (set (chain_entries ins outs b h)) q"

lemma ledger_atD:
  assumes "ledger_at rc ins outs b h u q"
  shows "last_processed q = Some h" "h \<le> u" "u < - 1" "h < - 1" "unat b \<le> Suc (unat h)"
    "ledger rc (set (chain_entries ins outs b u)) (set (chain_entries ins outs b h)) q"
    "covers rc (set (chain_entries ins outs b h)) q"
  using assms by (auto simp: ledger_at_def)

lemma chain_entries_mono:
  assumes "unat b \<le> Suc (unat h)" and "h \<le> t" and "h < - 1"
  shows "set (chain_entries ins outs b h) \<subseteq> set (chain_entries ins outs b t)"
  by (simp only: chain_entries_split [OF assms] set_append) blast

lemma queue_poll_ledger:
  assumes codec: "codec_ok rc" and chain: "follows_chain ins outs nd" and d: "\<And>t. distinct (map entry_key (chain_entries ins outs b t))"
    and led: "ledger_at rc ins outs b h u q" and poll: "queue_poll rc nd q = (r, q')"
    and up: "\<And>t. nd_burn_block_height nd = Ok t \<Longrightarrow> (u \<le> h \<or> u \<le> t) \<and> t \<le> v" and uv: "u \<le> v"
  shows "\<exists>h' u'. ledger_at rc ins outs b h' u' q' \<and> u' \<le> v \<and> handed_out rc q' = handed_out rc q \<and> (is_ok r \<longrightarrow> u' = h')"
proof (cases "nd_burn_block_height nd")
  case (Ok t)
  note at = ledger_atD [OF led] and up = up [OF Ok]
  have t: "t < - 1" using chain Ok by (simp add: follows_chain_def)
  have nx: "unat (h + 1) = Suc (unat h)" by (rule unat_next [OF at(4)])
  show ?thesis
  proof (cases "t < h + 1")
    case True
    with poll Ok at(1) have q': "q' = q" by (simp add: queue_poll_def last_processed_block_height_def)
    have "t \<le> h" using True nx by (simp add: word_less_nat_alt word_le_nat_alt)
    with up at(2) have "u = h" by auto
    with q' led uv show ?thesis by blast
  next
    case False
    with poll Ok at(1) have run: "poll_blocks rc nd (heights (h + 1) t) q = (r, q')"
      by (simp add: queue_poll_def last_processed_block_height_def)
    have ht: "h \<le> t" using False nx by (simp add: word_less_nat_alt word_le_nat_alt)
    with up at(2) have ut: "u \<le> t" by auto
    let ?C = "set (chain_entries ins outs b t)" and ?D = "set (chain_entries ins outs b h)"
    have split: "chain_entries ins outs b t = chain_entries ins outs b h @ concat (map (block ins outs) (heights (h + 1) t))"
      using chain_entries_split [OF at(5) ht at(4)] by (simp only: chain_entries_block)
    note d = d [of t, unfolded split]
    have bu: "unat b \<le> Suc (unat u)" using at(2,5) by (simp add: word_le_nat_alt)
    have led1: "ledger rc ?C ?D q" by (rule ledger_mono [OF at(6) chain_entries_mono [OF bu ut at(3)] order_refl])
    have in_C: "set (concat (map (block ins outs) (heights (h + 1) t))) \<subseteq> ?C - ?D"
      using distinct_map_disjoint [OF d] unfolding split set_append by blast
    have inj: "inj_on entry_key ?C" using d [folded split] by (simp only: distinct_map)
    have d2: "distinct (map entry_key (concat (map (block ins outs) (heights (h + 1) t))))"
      using d by (simp only: map_append distinct_append simp_thms)
    have le: "\<forall>k \<in> set (heights (h + 1) t). k \<le> t"
      using unsigned_less [of t, where ?'a = nat]
      by (auto simp: heights_def word_le_nat_alt unat_of_nat less_Suc_eq_le intro: le_trans [OF mod_less_eq_dividend])
    from poll_blocks_ledger [OF codec inj chain Ok chain_entries_mono [OF at(5) ht at(4)] led1 at(7) le in_C d2 run]
    obtain hs1 hs2 where hs: "heights (h + 1) t = hs1 @ hs2" "is_ok r \<longrightarrow> hs2 = []" and p: "polled rc ins outs ?C ?D q hs1 q'" by blast
    show ?thesis
    proof (cases "hs1 = []")
      case True
      have "\<not> is_ok r" using hs True False by (auto simp: heights_def nx word_less_nat_alt)
      with p True at t ht up show ?thesis by (intro exI [of _ h] exI [of _ t]) (simp add: ledger_at_def polled_def)
    next
      case ne: False
      let ?l = "last hs1"
      note pre = heights_prefix [OF hs(1) ne]
      have hl: "h \<le> ?l" using pre(3) nx by (simp add: word_le_nat_alt)
      have "chain_entries ins outs b ?l = chain_entries ins outs b h @ concat (map (block ins outs) hs1)"
        using chain_entries_split [OF at(5) hl at(4)] pre(1) by (simp only: chain_entries_block)
      then have "ledger rc ?C (set (chain_entries ins outs b ?l)) q'" "covers rc (set (chain_entries ins outs b ?l)) q'"
        "handed_out rc q' = handed_out rc q" "last_processed q' = Some ?l"
        using p ne by (simp_all add: polled_def)
      moreover have "unat b \<le> Suc (unat ?l)" using at(5) hl by (simp add: word_le_nat_alt)
      moreover have "?l = t" if "is_ok r"
        using that hs False by (auto simp: heights_def nx word_less_nat_alt)
      ultimately show ?thesis using pre(2) t up by (intro exI [of _ ?l] exI [of _ t]) (simp add: ledger_at_def)
    qed
  qed
next
  case (Err e)
  with poll have "q' = q" "\<not> is_ok r" by (auto simp: queue_poll_def)
  with led uv show ?thesis by blast
next
  case Panic
  with poll have "q' = q" "\<not> is_ok r" by (auto simp: queue_poll_def)
  with led uv show ?thesis by blast
qed

section \<open>Handing out\<close>

text \<open>
  Once a poll has succeeded, every entry may be handed out. The queue keeps the ledger while it hands them out,
  and the operations of its entries stay the same, so that what is handed out is what is taken.
\<close>

definition settled where
  "settled rc D M h url s \<longleftrightarrow> codec_ok rc \<and> ledger rc D D (sc_queue s) \<and> covers rc D (sc_queue s)
     \<and> mset (map en_op (entries rc (sc_queue s))) = M \<and> last_processed (sc_queue s) = Some h \<and> nc_node_url (sc_node s) = url"

lemma settled_sbtc_op:
  assumes "settled (se_rows E) D M h url s" and "sc_sbtc_op E s = (r, s')"
  shows "is_ok r \<and> settled (se_rows E) D M h url s'"
proof -
  let ?rc = "se_rows E"
  from assms(1) have s: "codec_ok ?rc" "ledger ?rc D D (sc_queue s)" "covers ?rc D (sc_queue s)"
    "mset (map en_op (entries ?rc (sc_queue s))) = M" "last_processed (sc_queue s) = Some h" "nc_node_url (sc_node s) = url"
    by (simp_all add: settled_def)
  show ?thesis
  proof (rule queue_sbtc_op_cases [OF s(1) ledger_inv [OF s(2)]], goal_cases)
    case 1
    with assms show ?case by (auto simp: sc_sbtc_op_def)
  next
    case (2 e q')
    then have "entry_key ` set (entries ?rc q') = entry_key ` set (entries ?rc (sc_queue s))"
      by (auto simp: image_iff)
    with s(3) have "covers ?rc D q'" by (simp add: covers_def)
    moreover have "ledger ?rc D D q'" using s(2) 2(2,3,6) by (auto simp: ledger_def)
    moreover have "mset (map en_op (entries ?rc q')) = M"
      using arg_cong [OF mset_remove_entry [OF queue_invD(2) [OF s(1) ledger_inv [OF s(2)]] 2(3)], of "image_mset en_op"] 2(6) s(4)
      by simp
    ultimately show ?case using 2(1,7) s assms(2) by (auto simp: sc_sbtc_op_def settled_def)
  qed
qed

interpretation settled: coordinator_queue "StacksCoordinator_impl E" sc_sent "\<lambda>s. (sc_queue s, nc_node_url (sc_node s))"
  "\<lambda>s. fresh_ops (se_rows E) (sc_queue s)" "settled (se_rows E) D M h url"
  for E :: "('tx, 'bh, 'pr, 'ad, 'stx, 'sk, 'pub, 'xk, 'bt, 'addr, 'th, 'id, 'pt, 'sc, 'pk, 'ag, 'ae, 'te, 'sig, 'proof, 'se)
    services" and D M h url
proof (unfold_locales, goal_cases)
  case (1 s)
  obtain r s' where t: "sc_sbtc_op E s = (r, s')" by fastforce
  with settled_sbtc_op [OF 1 t] show ?case by (cases r) auto
next
  case (2 s s')
  with stacks.take_None [of E s s'] show ?case by (auto simp: settled_def ledger_def)
next
  case (3 s op s')
  with stacks.take_Some [of E s op s'] show ?case by (auto simp: settled_def ledger_def)
next
  case (6 s' s)
  then show ?case by (simp add: settled_def)
qed (auto simp: sc_set_fee_def dest!: sc_frames)

section \<open>A run\<close>

text \<open>The node of a run shows blocks up to a height between \<open>u\<close> and \<open>v\<close>.\<close>

definition shows_blocks where
  "shows_blocks E nc u v \<longleftrightarrow>
     (\<forall>k t. nd_burn_block_height (node_calls (se_node E k) nc) = Ok t \<longrightarrow> u \<le> t \<and> t \<le> v)"

text \<open>A state from which rounds can be run, and the one that a round leaves.\<close>

definition ready where
  "ready E ins outs b url u v s \<longleftrightarrow> nc_node_url (sc_node s) = url
     \<and> (\<exists>h w. ledger_at (se_rows E) ins outs b h w (sc_queue s) \<and> (w \<le> h \<or> w \<le> u) \<and> w \<le> v)"

definition idle where
  "idle E ins outs b url v s \<longleftrightarrow> nc_node_url (sc_node s) = url
     \<and> (\<exists>h. ledger_at (se_rows E) ins outs b h h (sc_queue s) \<and> h \<le> v) \<and> fresh_ops (se_rows E) (sc_queue s) = {#}"

lemma idle_ready: "idle E ins outs b url v s \<Longrightarrow> ready E ins outs b url u v s"
  unfolding idle_def ready_def by blast

text \<open>What rounds have done: what they have handed out was carried out, except maybe for the last one.\<close>

definition ledger_run where
  "ledger_run E ins outs b v s r s' \<longleftrightarrow>
     (\<exists>h w ops failed new. sc_sent s' = sc_sent s @ new \<and> carried_out (StacksCoordinator_impl E) ops failed new
        \<and> ledger_at (se_rows E) ins outs b h w (sc_queue s') \<and> w \<le> v
        \<and> handed_out (se_rows E) (sc_queue s') = handed_out (se_rows E) (sc_queue s) + mset (ops @ (case failed of None \<Rightarrow> [] | Some op \<Rightarrow> [op]))
        \<and> (is_ok r \<longrightarrow> failed = None))"

lemma carried_out_nothing: "carried_out C [] None []"
  by (simp add: carried_out_def)

lemma ledger_run_none:
  assumes "ledger_at (se_rows E) ins outs b h w (sc_queue s')" and "w \<le> v" and "sc_sent s' = sc_sent s"
    and "handed_out (se_rows E) (sc_queue s') = handed_out (se_rows E) (sc_queue s)"
  shows "ledger_run E ins outs b v s r s'"
  unfolding ledger_run_def
  using assms carried_out_nothing by (intro exI [of _ h] exI [of _ w] exI [of _ "[]"] exI [of _ None] exI [of _ "[]"]) simp

lemma ledger_run_append:
  assumes "ledger_run E ins outs b v s r s2" and "is_ok r" and "ledger_run E ins outs b v s2 r' s'"
  shows "ledger_run E ins outs b v s r' s'"
proof -
  from assms(1,2) obtain ops new where a: "sc_sent s2 = sc_sent s @ new" "carried_out (StacksCoordinator_impl E) ops None new"
    "handed_out (se_rows E) (sc_queue s2) = handed_out (se_rows E) (sc_queue s) + mset ops"
    unfolding ledger_run_def by auto
  from assms(3) obtain h w ops' failed new' where c: "sc_sent s' = sc_sent s2 @ new'"
    "carried_out (StacksCoordinator_impl E) ops' failed new'" "ledger_at (se_rows E) ins outs b h w (sc_queue s')" "w \<le> v"
    "handed_out (se_rows E) (sc_queue s') = handed_out (se_rows E) (sc_queue s2) + mset (ops' @ (case failed of None \<Rightarrow> [] | Some op \<Rightarrow> [op]))"
    "is_ok r' \<longrightarrow> failed = None"
    unfolding ledger_run_def by blast
  show ?thesis
    unfolding ledger_run_def
    using a(1,3) c carried_out_append [OF a(2) c(2)]
    by (intro exI [of _ h] exI [of _ w] exI [of _ "ops @ ops'"] exI [of _ failed] exI [of _ "new @ new'"]) simp
qed

lemma poll_ledger:
  assumes codec: "codec_ok (se_rows E)" and ok: "chain_ok E ins outs b nc" and up: "shows_blocks E nc u v"
    and start: "ready E ins outs b (nc_node_url nc) u v s" and poll: "sc_poll E s = (r, s1)"
  shows "sc_sent s1 = sc_sent s \<and> nc_node_url (sc_node s1) = nc_node_url nc
    \<and> (\<exists>h w. ledger_at (se_rows E) ins outs b h w (sc_queue s1) \<and> w \<le> v
        \<and> handed_out (se_rows E) (sc_queue s1) = handed_out (se_rows E) (sc_queue s) \<and> (is_ok r \<longrightarrow> w = h))"
proof -
  let ?rc = "se_rows E" and ?nd = "node_calls (se_node E (sc_clock s)) (sc_node s)"
  from start obtain h w where s: "nc_node_url (sc_node s) = nc_node_url nc" "ledger_at ?rc ins outs b h w (sc_queue s)"
    "w \<le> h \<or> w \<le> u" "w \<le> v" unfolding ready_def by blast
  note nd = node_calls_url [OF s(1), of "se_node E (sc_clock s)"]
  from ok have chain: "follows_chain ins outs ?nd" "distinct (map entry_key (chain_entries ins outs b t))" for t
    by (simp_all add: chain_ok_def nd)
  have up: "(w \<le> h \<or> w \<le> t) \<and> t \<le> v" if "nd_burn_block_height ?nd = Ok t" for t
    using up that s(3) unfolding nd shows_blocks_def by (meson order_trans)
  obtain q where q: "queue_poll ?rc ?nd (sc_queue s) = (r, q)" and s1: "s1 = tick (s\<lparr>sc_queue := q\<rparr>)"
    using poll by (auto simp: sc_poll_def node_calls_def Let_def split: prod.splits)
  from queue_poll_ledger [OF codec chain s(2) q up s(4)] s(1) show ?thesis by (simp add: s1)
qed

lemma serve_ledger:
  assumes codec: "codec_ok (se_rows E)" and at: "ledger_at (se_rows E) ins outs b h h (sc_queue s)" and hv: "h \<le> v"
    and url: "nc_node_url (sc_node s) = url"
  shows "\<exists>r s'. process_queue (StacksCoordinator_impl E) s = Some (r, s') \<and> ledger_run E ins outs b v s r s'
    \<and> (is_ok r \<longrightarrow> idle E ins outs b url v s')"
proof -
  let ?rc = "se_rows E" and ?D = "set (chain_entries ins outs b h)"
  let ?M = "mset (map en_op (entries ?rc (sc_queue s)))"
  have "settled ?rc ?D ?M h url s" using ledger_atD [OF at] codec url by (simp add: settled_def)
  from settled.process_queue_serves [OF this] obtain r s2 taken new where
    pq: "process_queue (StacksCoordinator_impl E) s = Some (r, s2)" and s2: "settled ?rc ?D ?M h url s2" "sc_sent s2 = sc_sent s @ new"
      "fresh_ops ?rc (sc_queue s) = mset taken + fresh_ops ?rc (sc_queue s2)"
      and sv: "served (StacksCoordinator_impl E) taken r new" and fin: "is_ok r \<longrightarrow> fresh_ops ?rc (sc_queue s2) = {#}" by blast
  from served_carried_out [OF sv] obtain ops failed where
    ops: "taken = ops @ (case failed of None \<Rightarrow> [] | Some op \<Rightarrow> [op])" "carried_out (StacksCoordinator_impl E) ops failed new"
      "is_ok r \<longrightarrow> failed = None" by blast
  have at2: "ledger_at ?rc ins outs b h h (sc_queue s2)" and url2: "nc_node_url (sc_node s2) = url"
    using s2(1) ledger_atD [OF at] by (simp_all add: settled_def ledger_at_def)
  have "fresh_ops ?rc (sc_queue s2) + handed_out ?rc (sc_queue s2) = fresh_ops ?rc (sc_queue s) + handed_out ?rc (sc_queue s)"
    using s2(1) by (simp only: fresh_handed_out settled_def)
  then have "handed_out ?rc (sc_queue s2) = handed_out ?rc (sc_queue s) + mset taken" unfolding s2(3) by simp
  with at2 hv s2(2) ops have "ledger_run E ins outs b v s r s2"
    unfolding ledger_run_def by (intro exI [of _ h] exI [of _ h] exI [of _ ops] exI [of _ failed] exI [of _ new]) simp
  with pq at2 url2 fin hv show ?thesis by (auto simp: idle_def)
qed

lemma run_ledger:
  assumes codec: "codec_ok (se_rows E)" and ok: "chain_ok E ins outs b nc" and up: "shows_blocks E nc u v"
    and start: "ready E ins outs b (nc_node_url nc) u v s"
  shows "\<exists>r s'. coordinator_run (StacksCoordinator_impl E) n s = Some (r, s') \<and> ledger_run E ins outs b v s r s'
    \<and> (is_ok r \<and> 0 < n \<longrightarrow> idle E ins outs b (nc_node_url nc) v s')"
  using start
proof (induction n arbitrary: s)
  case 0
  then show ?case by (auto simp: ready_def intro: ledger_run_none)
next
  case (Suc n)
  let ?C = "StacksCoordinator_impl E"
  obtain rp s1 where poll: "sc_poll E s = (rp, s1)" by fastforce
  from poll_ledger [OF codec ok up Suc.prems poll] obtain h w where
    s1: "sc_sent s1 = sc_sent s" "nc_node_url (sc_node s1) = nc_node_url nc" "ledger_at (se_rows E) ins outs b h w (sc_queue s1)"
      "w \<le> v" "handed_out (se_rows E) (sc_queue s1) = handed_out (se_rows E) (sc_queue s)" "is_ok rp \<longrightarrow> w = h" by blast
  from ledger_run_none [OF s1(3,4,1,5)] have polled: "ledger_run E ins outs b v s rp s1" for rp :: "('z, unit) outcome" .
  show ?case
  proof (cases "is_ok rp")
    case True
    then obtain x where x: "rp = Ok x" by (cases rp) simp_all
    from s1 True have at: "ledger_at (se_rows E) ins outs b h h (sc_queue s1)" "h \<le> v" by simp_all
    from serve_ledger [OF codec at s1(2)] obtain r s2 where pq: "process_queue ?C s1 = Some (r, s2)"
      and res: "ledger_run E ins outs b v s1 r s2" "is_ok r \<longrightarrow> idle E ins outs b (nc_node_url nc) v s2" by blast
    have res1: "ledger_run E ins outs b v s r s2" by (rule ledger_run_append [OF polled [of rp] True res(1)])
    show ?thesis
    proof (cases "is_ok r")
      case True
      then have step: "coordinator_run ?C (Suc n) s = coordinator_run ?C n s2" using poll x pq by (cases r) simp_all
      from Suc.IH [OF idle_ready] res(2) True obtain r' s' where run: "coordinator_run ?C n s2 = Some (r', s')"
        "ledger_run E ins outs b v s2 r' s'" "is_ok r' \<and> 0 < n \<longrightarrow> idle E ins outs b (nc_node_url nc) v s'" by blast
      have "idle E ins outs b (nc_node_url nc) v s'" if "is_ok r'"
        using run(1,3) res(2) True that by (cases n) auto
      with step run(1) ledger_run_append [OF res1 True run(2)] show ?thesis by auto
    next
      case False
      with poll x pq res1 show ?thesis by (cases r) simp_all
    qed
  next
    case False
    then obtain r where "coordinator_run ?C (Suc n) s = Some (r, s1)" "\<not> is_ok r" using poll by (cases rp) simp_all
    with polled show ?thesis by auto
  qed
qed

section \<open>What the ledger says of operations\<close>

primrec op_key :: "('tx, 'bh, 'pr, 'ad) SbtcOp \<Rightarrow> 'tx \<times> 'bh" where
  "op_key (PegIn p) = (pi_txid p, pi_burn_header_hash p)"
| "op_key (PegOutRequest p) = (po_txid p, po_burn_header_hash p)"

lemma chain_entries_key: "e \<in> set (chain_entries ins outs a b) \<Longrightarrow> entry_key e = op_key (en_op e)"
  by (auto simp: chain_entries_def Entry_from_peg_in_def Entry_from_peg_out_def)

lemma distinct_of_map: "distinct (map f xs) \<Longrightarrow> distinct xs"
  by (simp add: distinct_map)

lemma ledger_distinct:
  assumes "codec_ok rc" and "ledger rc (set (chain_entries ins outs b u)) D q"
  shows "distinct (map en_op (entries rc q))"
proof -
  have "entry_key e = op_key (en_op e)" if "e \<in> set (entries rc q)" for e
    using chain_entries_key [of "as_new e" ins outs b u] assms(2) that by (simp add: ledger_def)
  then have "map entry_key (entries rc q) = map op_key (map en_op (entries rc q))" by simp
  with queue_invD(2) [OF assms(1) ledger_inv [OF assms(2)]] have "distinct (map op_key (map en_op (entries rc q)))" by simp
  then show ?thesis by (rule distinct_of_map)
qed

lemma ledger_complete:
  assumes codec: "codec_ok rc" and d: "distinct (map entry_key (chain_entries ins outs b h))"
    and at: "ledger_at rc ins outs b h h q" and fresh: "fresh_ops rc q = {#}"
  shows "handed_out rc q = chain_ops ins outs b h"
proof -
  let ?es = "entries rc q" and ?ch = "chain_entries ins outs b h"
  note at = ledger_atD [OF at]
  have sub: "as_new e \<in> set ?ch" if "e \<in> set ?es" for e using at(6) that by (simp add: ledger_def)
  have "e \<in> as_new ` set ?es" if e: "e \<in> set ?ch" for e
  proof -
    have "entry_key e \<in> entry_key ` set ?es" using at(7) e unfolding covers_def by blast
    then obtain x where x: "x \<in> set ?es" "entry_key (as_new x) = entry_key e" by auto
    have "as_new x = e" by (rule inj_onD [OF _ x(2) sub [OF x(1)] e]) (use d in \<open>simp only: distinct_map\<close>)
    with x(1) show ?thesis by blast
  qed
  with sub have "set (map as_new ?es) = set ?ch" unfolding set_map by blast
  moreover have "distinct (map entry_key (map as_new ?es))"
    using queue_invD(2) [OF codec ledger_inv [OF at(6)]] by (simp add: comp_def)
  ultimately have "mset (map as_new ?es) = mset ?ch"
    using set_eq_iff_mset_eq_distinct [OF distinct_of_map distinct_of_map [OF d]] by blast
  from arg_cong [OF this, of "image_mset en_op"] have "mset (map en_op ?es) = chain_ops ins outs b h"
    by (simp add: chain_ops_def image_mset.compositionality comp_def)
  with fresh fresh_handed_out [of rc q] show ?thesis by simp
qed

lemma handed_out_below:
  assumes "ledger_at rc ins outs b h u q"
  shows "set_mset (handed_out rc q) \<subseteq> set_mset (chain_ops ins outs b h)"
proof -
  have "en_op e \<in> en_op ` set (chain_entries ins outs b h)" if "e \<in> set (entries rc q)" "en_status e \<noteq> New" for e
    using ledger_atD(6) [OF assms] that image_eqI [of "en_op e" en_op "as_new e"] by (simp add: ledger_def)
  then show ?thesis unfolding handed_out_def chain_ops_def by auto
qed

section \<open>Many runs\<close>

text \<open>The table that a run leaves; when no coordinator was created it has not been touched.\<close>

definition db_after where
  "db_after db out = (case snd out of None \<Rightarrow> db | Some s \<Rightarrow> sc_queue s)"

text \<open>The operations that a run has taken: each was carried out, except maybe for the last one.\<close>

definition taken_by where
  "taken_by E out ops \<longleftrightarrow>
     (case snd out of
        None \<Rightarrow> ops = []
      | Some s \<Rightarrow> \<exists>carried failed. ops = carried @ (case failed of None \<Rightarrow> [] | Some op \<Rightarrow> [op])
          \<and> carried_out (StacksCoordinator_impl E) carried failed (sc_sent s))"

text \<open>A coordinator talks to the node of its configuration.\<close>

abbreviation config_client where
  "config_client config \<equiv> NodeClient_new (cc_stacks_node_rpc_url config) (cc_contract_name config) (cc_contract_address config)"

lemma next_nonce_url_snd: "nc_node_url (snd (next_nonce H a nc)) = nc_node_url nc"
  by (rule next_nonce_url [OF prod.collapse [symmetric]])

lemma create_frost_coordinator_url:
  assumes "create_frost_coordinator E config nc wallet = (r, nc')"
  shows "nc_node_url nc' = nc_node_url nc"
  using assms
  by (auto simp: create_frost_coordinator_def create_frost_coordinator_from_path_def with_err_def and_then_def
      next_nonce_url_snd split: option.splits outcome.splits if_splits sum.splits prod.splits)

lemma load_dkg_data_url:
  assumes "load_dkg_data E dir wallet address (fc, nc, fs) = (r, fc', nc', fs')"
  shows "nc_node_url nc' = nc_node_url nc"
  using assms
  by (auto simp: load_dkg_data_def and_then_def split: option.splits outcome.splits sum.splits prod.splits dest!: next_nonce_url)

lemma created_url:
  assumes "StacksCoordinator_try_from E config fs = (Ok s, fs')"
  shows "nc_node_url (sc_node s) = nc_node_url (config_client config)"
proof -
  obtain x nc1 where c: "create_frost_coordinator E config (config_client config) (config_wallet E config) = (x, nc1)" by fastforce
  with assms obtain fc where x: "x = Ok fc"
    by (cases x) (simp_all add: StacksCoordinator_try_from_def Let_def)
  obtain y fc1 nc2 fs1 where l: "load_dkg_data E (cc_data_directory config) (config_wallet E config)
      (cc_stacks_address config) (fc, nc1, fs) = (y, fc1, nc2, fs1)" by (metis prod_cases4)
  with assms c x obtain xonly where y: "y = Ok xonly"
    by (cases y) (simp_all add: StacksCoordinator_try_from_def Let_def)
  have "sc_node s = nc2" using assms c x l y by (auto simp: StacksCoordinator_try_from_def Let_def obind_Ok_iff)
  with create_frost_coordinator_url [OF c] load_dkg_data_url [OF l] show ?thesis by simp
qed

lemma seen_url:
  assumes "nc_node_url nc = nc_node_url nc'"
  shows "chain_ok E ins outs b nc = chain_ok E ins outs b nc'" and "shows_blocks E nc u v = shows_blocks E nc' u v"
  by (simp_all add: chain_ok_def shows_blocks_def node_calls_url [OF assms])

lemma one_run:
  assumes config: "CoordConfig_from_path (se_stacks E) parse_url read_file toml (cli_config_path cli) = Ok config"
    and cli: "cli_command cli = RunCmd" "cli_start_block_height cli = None" and dir: "cc_data_directory config = Some dir"
    and codec: "codec_ok (se_rows E)"
    and seen: "chain_ok E ins outs b (config_client config)" "shows_blocks E (config_client config) u v"
    and at: "ledger_at (se_rows E) ins outs b h w (se_database E (join_path dir ''peg_queue.sqlite''))" "w \<le> u" "u \<le> v"
    and out: "out = stacks_coordinator_main E parse_url read_file toml n cli fs"
    and db: "db = se_database E (join_path dir ''peg_queue.sqlite'')"
  shows "\<exists>ops. taken_by E out ops \<and> handed_out (se_rows E) (db_after db out) = handed_out (se_rows E) db + mset ops
    \<and> (\<exists>h' w'. ledger_at (se_rows E) ins outs b h' w' (db_after db out) \<and> w' \<le> v)
    \<and> (fst out = Running \<and> 0 < n \<longrightarrow> (\<exists>h'. ledger_at (se_rows E) ins outs b h' h' (db_after db out)) \<and> fresh_ops (se_rows E) (db_after db out) = {#})"
proof -
  let ?C = "StacksCoordinator_impl E"
  let ?config = "config\<lparr>cc_signer_config_path := Some (cli_signer_config cli), cc_start_block_height := None\<rparr>"
  obtain r fs1 where c: "StacksCoordinator_try_from E ?config fs = (r, fs1)" by fastforce
  show ?thesis
  proof (cases "is_ok r")
    case True
    then obtain s where s: "StacksCoordinator_try_from E ?config fs = (Ok s, fs1)" using c by (cases r) simp_all
    from created_queue(2) [OF s] ledger_atD(1) [OF at(1)] dir have q: "sc_queue s = db"
      by (auto simp: from_connection_def last_processed_block_height_def db)
    have "w \<le> v" using at(2,3) by (rule order_trans)
    with at q have "ready E ins outs b (nc_node_url (sc_node s)) u v s" unfolding ready_def db by auto
    moreover have "chain_ok E ins outs b (sc_node s)" "shows_blocks E (sc_node s) u v"
      using seen seen_url(1) [OF created_url [OF s], of E ins outs b] seen_url(2) [OF created_url [OF s], of E u v] by simp_all
    ultimately obtain r' s' where
      run: "coordinator_run ?C n s = Some (r', s')" "ledger_run E ins outs b v s r' s'"
        "is_ok r' \<and> 0 < n \<longrightarrow> idle E ins outs b (nc_node_url (sc_node s)) v s'"
      using run_ledger [OF codec, of ins outs b "sc_node s" u v s n] by blast
    let ?pe = "if is_ok r' then Running else end_of r'"
    have o: "out = (?pe, Some s')" "?pe = Running \<Longrightarrow> is_ok r'"
      using config cli s run(1) unfolding out
      by (cases r'; simp add: stacks_coordinator_main_def cli_config_def stacks_command_run_def)+
    with run(2,3) q created_queue(1) [OF s] show ?thesis
      unfolding ledger_run_def by (fastforce simp: taken_by_def db_after_def idle_def)
  next
    case False
    then have "snd out = None" "fst out \<noteq> Running"
      using config cli c unfolding out
      by (cases r; simp add: stacks_coordinator_main_def cli_config_def)+
    with at show ?thesis unfolding db by (auto simp: taken_by_def db_after_def intro: order_trans)
  qed
qed

text \<open>
  Runs one after the other, each with its number of rounds and the lowest and the highest block its node shows: a run
  finds the table that the one before it has left, and its node is not behind the nodes before.
\<close>

fun restarted where
  "restarted main path seen w db [] \<longleftrightarrow> True"
| "restarted main path seen w db ((E, n, fs, u, v) # rs) \<longleftrightarrow>
     se_database E path = db \<and> w \<le> u \<and> u \<le> v \<and> seen E u v \<and> restarted main path seen v (db_after db (main E n fs)) rs"

definition final_db where
  "final_db main db rs = foldl (\<lambda>db (E, n, fs, u, v). db_after db (main E n fs)) db rs"

definition still_running where
  "still_running main rs \<longleftrightarrow> rs \<noteq> [] \<and> (case last rs of (E, n, fs, u, v) \<Rightarrow> fst (main E n fs) = Running \<and> 0 < n)"

text \<open>What is assumed of a run: the configuration it loads, and the chain its node shows.\<close>

definition coordinator_sees where
  "coordinator_sees parse_url read_file toml cli config rc ins outs b E u v \<longleftrightarrow>
     CoordConfig_from_path (se_stacks E) parse_url read_file toml (cli_config_path cli) = Ok config \<and> se_rows E = rc
     \<and> chain_ok E ins outs b (config_client config) \<and> shows_blocks E (config_client config) u v"

abbreviation coordinator_main where
  "coordinator_main parse_url read_file toml cli \<equiv> \<lambda>E n fs. stacks_coordinator_main E parse_url read_file toml n cli fs"

lemma runs_ledger:
  fixes parse_url read_file toml cli config
  assumes cli: "cli_command cli = RunCmd" "cli_start_block_height cli = None" and dir: "cc_data_directory config = Some dir"
    and codec: "codec_ok rc"
    and "restarted (coordinator_main parse_url read_file toml cli) (join_path dir ''peg_queue.sqlite'')
      (coordinator_sees parse_url read_file toml cli config rc ins outs b) w db rs"
    and "ledger_at rc ins outs b h w' db" and "w' \<le> w"
  shows "\<exists>opss. list_all2 (\<lambda>(E, n, fs, u, v). taken_by E (coordinator_main parse_url read_file toml cli E n fs)) rs opss
    \<and> handed_out rc (final_db (coordinator_main parse_url read_file toml cli) db rs) = handed_out rc db + mset (concat opss)
    \<and> (\<exists>h w. ledger_at rc ins outs b h w (final_db (coordinator_main parse_url read_file toml cli) db rs))
    \<and> (still_running (coordinator_main parse_url read_file toml cli) rs \<longrightarrow>
        (\<exists>h. ledger_at rc ins outs b h h (final_db (coordinator_main parse_url read_file toml cli) db rs)) \<and> fresh_ops rc (final_db (coordinator_main parse_url read_file toml cli) db rs) = {#})"
  using assms(5-)
proof (induction rs arbitrary: w db h w')
  case Nil
  then show ?case by (auto simp: final_db_def still_running_def)
next
  case (Cons x rs)
  let ?main = "coordinator_main parse_url read_file toml cli"
  obtain E n fs u v where x: "x = (E, n, fs, u, v)" by (cases x)
  let ?out = "?main E n fs"
  from Cons.prems(1) x have db: "se_database E (join_path dir ''peg_queue.sqlite'') = db" and wu: "w \<le> u" "u \<le> v"
    and sees: "coordinator_sees parse_url read_file toml cli config rc ins outs b E u v"
    and rest: "restarted ?main (join_path dir ''peg_queue.sqlite'')
      (coordinator_sees parse_url read_file toml cli config rc ins outs b) v (db_after db ?out) rs"
    by simp_all
  from sees have config: "CoordConfig_from_path (se_stacks E) parse_url read_file toml (cli_config_path cli) = Ok config"
    and rows: "se_rows E = rc" and seen: "chain_ok E ins outs b (config_client config)" "shows_blocks E (config_client config) u v"
    by (simp_all add: coordinator_sees_def)
  have wu': "w' \<le> u" using Cons.prems(3) wu(1) by (rule order_trans)
  have at: "ledger_at (se_rows E) ins outs b h w' (se_database E (join_path dir ''peg_queue.sqlite''))"
    using Cons.prems(2) by (simp only: db rows)
  from one_run [OF config cli dir codec [folded rows] seen at wu' wu(2) refl [of ?out] db [symmetric], unfolded rows]
  obtain ops h2 w2 where ops: "taken_by E ?out ops" "handed_out rc (db_after db ?out) = handed_out rc db + mset ops"
    "ledger_at rc ins outs b h2 w2 (db_after db ?out)" "w2 \<le> v"
    "fst ?out = Running \<and> 0 < n \<longrightarrow> (\<exists>h'. ledger_at rc ins outs b h' h' (db_after db ?out)) \<and> fresh_ops rc (db_after db ?out) = {#}"
    by blast
  have fin: "final_db ?main db (x # rs) = final_db ?main (db_after db ?out) rs" by (simp add: final_db_def x)
  from Cons.IH [OF rest ops(3,4)] obtain opss where
    opss: "list_all2 (\<lambda>(E, n, fs, u, v). taken_by E (?main E n fs)) rs opss"
      "handed_out rc (final_db ?main db (x # rs)) = handed_out rc (db_after db ?out) + mset (concat opss)"
      "\<exists>h w. ledger_at rc ins outs b h w (final_db ?main db (x # rs))"
      "still_running ?main rs \<longrightarrow>
        (\<exists>h. ledger_at rc ins outs b h h (final_db ?main db (x # rs))) \<and> fresh_ops rc (final_db ?main db (x # rs)) = {#}"
    unfolding fin by blast
  from opss(2) have "handed_out rc (final_db ?main db (x # rs)) = handed_out rc db + mset (concat (ops # opss))"
    by (simp add: ops(2))
  moreover have "still_running ?main (x # rs) \<longrightarrow>
      (\<exists>h. ledger_at rc ins outs b h h (final_db ?main db (x # rs))) \<and> fresh_ops rc (final_db ?main db (x # rs)) = {#}"
    using opss(4) ops(5) by (cases "rs = []") (simp_all add: still_running_def final_db_def x)
  moreover have "list_all2 (\<lambda>(E, n, fs, u, v). taken_by E (?main E n fs)) (x # rs) (ops # opss)"
    using opss(1) ops(1) by (simp add: x)
  ultimately show ?case using opss(3) by blast
qed

lemma ledger_at_empty:
  assumes "sbtc_ops q = []" and "last_processed q = Some (b - 1)" and "0 < b"
  shows "ledger_at rc ins outs b (b - 1) (b - 1) q"
proof -
  have max: "b - 1 < - 1" using assms(3) by (intro iffD1 [OF word_order.not_eq_extremum]) simp
  from unat_next [OF this] have "unat b = Suc (unat (b - 1))" by simp
  then have "chain_entries ins outs b (b - 1) = []" by (simp add: chain_entries_def heights_def)
  with assms max show ?thesis
    by (simp add: ledger_at_def ledger_def covers_def queue_inv_def entries_def List.map_filter_def \<open>unat b = _\<close>)
qed

section \<open>Property\<close>

text \<open>
  C2. Restarting the coordinator never pays twice. Let \<^verbatim>\<open>stacks-coordinator run\<close> be started any number of times with one configuration
  that has a data directory, and without a start height, so that every run finds the table that the run before has
  left; at first it is empty, and the block before \<open>b\<close> counts as processed. A run may fail to start, end with an error or a panic in
  a poll or in an operation, or be stopped between two rounds. The nodes show one chain, in which no two operations have the same
  key, and no run's node is behind a block that an earlier one has shown. Then the operations that the runs have taken are
  different ones and belong to blocks up to the one that the table says is reached; within a run each was carried out with
  one accepted transaction of each kind, except maybe for its last one. And when the last run is still running
  after a round, they are all operations up to that block.
\<close>

theorem restarts_pay_once:
  fixes parse_url read_file toml cli config
  assumes cli: "cli_command cli = RunCmd" "cli_start_block_height cli = None" and dir: "cc_data_directory config = Some dir"
    and codec: "codec_ok rc" and db: "sbtc_ops db = []" "last_processed db = Some (b - 1)" "0 < b"
    and d: "\<And>t. distinct (map entry_key (chain_entries ins outs b t))"
    and runs: "restarted (coordinator_main parse_url read_file toml cli) (join_path dir ''peg_queue.sqlite'')
      (coordinator_sees parse_url read_file toml cli config rc ins outs b) (b - 1) db rs"
  shows "\<exists>opss t. list_all2 (\<lambda>(E, n, fs, u, v). taken_by E (coordinator_main parse_url read_file toml cli E n fs)) rs opss \<and> distinct (concat opss)
    \<and> last_processed (final_db (coordinator_main parse_url read_file toml cli) db rs) = Some t \<and> set (concat opss) \<subseteq> set_mset (chain_ops ins outs b t)
    \<and> (still_running (coordinator_main parse_url read_file toml cli) rs \<longrightarrow>
        mset (concat opss) = chain_ops ins outs b t)"
proof -
  let ?main = "coordinator_main parse_url read_file toml cli"
  let ?q = "final_db ?main db rs"
  have at: "ledger_at rc ins outs b (b - 1) (b - 1) db" and none: "handed_out rc db = {#}"
    using db by (auto intro: ledger_at_empty simp: handed_out_def entries_def List.map_filter_def)
  from runs_ledger [OF cli dir codec runs at order_refl] none obtain opss h w where
    opss: "list_all2 (\<lambda>(E, n, fs, u, v). taken_by E (?main E n fs)) rs opss" and taken: "handed_out rc ?q = mset (concat opss)"
    and led: "ledger_at rc ins outs b h w ?q"
    and fin: "still_running ?main rs \<longrightarrow>
        (\<exists>h. ledger_at rc ins outs b h h ?q) \<and> fresh_ops rc ?q = {#}" by (simp only: add_0) blast
  have "distinct (map en_op (filter (\<lambda>e. en_status e \<noteq> New) (entries rc ?q)))"
    by (rule distinct_map_filter [OF ledger_distinct [OF codec ledger_atD(6) [OF led]]])
  then have "distinct (concat opss)" using mset_eq_imp_distinct_iff [OF taken [unfolded handed_out_def]] by blast
  moreover have "set (concat opss) \<subseteq> set_mset (chain_ops ins outs b h)"
    using handed_out_below [OF led] by (simp only: taken set_mset_mset)
  moreover have "mset (concat opss) = chain_ops ins outs b h"
    if "still_running ?main rs"
  proof -
    from fin that obtain h' where h': "ledger_at rc ins outs b h' h' ?q" "fresh_ops rc ?q = {#}" by blast
    have "h' = h" using ledger_atD(1) [OF h'(1)] ledger_atD(1) [OF led] by simp
    with ledger_complete [OF codec d h'] taken show ?thesis by simp
  qed
  ultimately show ?thesis
    using opss ledger_atD(1) [OF led] by (intro exI [of _ opss] exI [of _ h] conjI impI) simp_all
qed

text \<open>
  Without the last hypothesis an operation can be taken twice. A poll enters the peg-in of a block and then fails on the block's
  peg-out requests. The next run has a node that has not reached this block: its poll succeeds, and the operation is taken. When
  the node has caught up, the block is polled again, which makes the operation new, and it is taken once more.
\<close>

lemma single_entry_taken:
  assumes "codec_ok rc" and "queue_inv rc q" and "entries rc q = [e]" and "en_status e = New"
  shows "\<exists>q'. queue_sbtc_op rc q = (Ok (Some (en_op e)), q') \<and> queue_inv rc q' \<and> last_processed q' = last_processed q
    \<and> entries rc q' = [e\<lparr>en_status := Pending\<rparr>]"
  by (rule queue_sbtc_op_cases [OF assms(1,2)]) (use assms(3,4) in auto)

lemma failed_poll_taken_twice:
  fixes p :: "('tx, 'bh, 'pr) PegInOp" and behind reached failing :: "('tx, 'bh, 'pr, 'ad) peg_node"
  assumes codec: "codec_ok rc" and db: "sbtc_ops db = []" "last_processed db = Some h" and h: "h < - 1"
    and failing: "nd_burn_block_height failing = Ok (h + 1)" "nd_get_peg_in_ops failing (h + 1) = Ok [p]"
      "nd_get_peg_out_request_ops failing (h + 1) = Err er" "\<And>k. er \<noteq> UnknownBlockHeight k"
    and behind: "nd_burn_block_height behind = Ok h"
    and reached: "nd_burn_block_height reached = Ok (h + 1)" "nd_get_peg_in_ops reached (h + 1) = Ok [p]"
      "nd_get_peg_out_request_ops reached (h + 1) = Ok []"
  shows "\<exists>q1 q2 q3 q4. queue_poll rc failing db = (Err (StacksNodeError er), q1) \<and> queue_poll rc behind q1 = (Ok (), q1)
    \<and> queue_sbtc_op rc q1 = (Ok (Some (PegIn p)), q2)
    \<and> queue_poll rc reached q2 = (Ok (), q3) \<and> queue_sbtc_op rc q3 = (Ok (Some (PegIn p)), q4)"
proof -
  let ?e = "Entry_from_peg_in p :: ('tx, 'bh, 'pr, 'ad) Entry"
  have e: "en_status ?e = New" "en_op ?e = PegIn p" by (simp_all add: Entry_from_peg_in_def)
  have nx: "unat (h + 1) = Suc (unat h)" by (rule unat_next [OF h])
  have lt: "h < h + 1" "\<not> h + 1 < h + 1" by (simp_all add: word_less_nat_alt nx)
  have hs: "heights (h + 1) (h + 1) = [h + 1]" by (simp add: heights_def)
  have "queue_inv rc db" "entries rc db = []" using db(1) by (simp_all add: queue_inv_def entries_def List.map_filter_simps)
  from queue_insert_entries [OF codec this(1), of ?e] this(2) obtain q1 where
    q1: "queue_insert rc ?e db = (Ok (), q1)" "queue_inv rc q1" "last_processed q1 = Some h" "entries rc q1 = [?e]"
    using db(2) by auto
  have p1: "queue_poll rc failing db = (Err (StacksNodeError er), q1)"
    using failing db(2) q1(1) lt
    by (cases er) (auto simp: queue_poll_def last_processed_block_height_def hs poll_peg_in_ops_def poll_peg_out_request_ops_def)
  have p2: "queue_poll rc behind q1 = (Ok (), q1)"
    using behind q1(3) lt by (simp add: queue_poll_def last_processed_block_height_def)
  from single_entry_taken [OF codec q1(2,4) e(1)] obtain q2 where
    q2: "queue_sbtc_op rc q1 = (Ok (Some (PegIn p)), q2)" "queue_inv rc q2" "last_processed q2 = Some h"
      "entries rc q2 = [?e\<lparr>en_status := Pending\<rparr>]" using q1(3) e(2) by auto
  from queue_insert_entries [OF codec q2(2), of ?e] q2(4) obtain q where
    q: "queue_insert rc ?e q2 = (Ok (), q)" "queue_inv rc q" "entries rc q = [?e]" by auto
  let ?q3 = "insert_last_processed_block_height (h + 1) q"
  have p3: "queue_poll rc reached q2 = (Ok (), ?q3)"
    using reached q2(3) q(1) lt by (simp add: queue_poll_def last_processed_block_height_def hs poll_peg_in_ops_def poll_peg_out_request_ops_def)
  have "queue_inv rc ?q3" "entries rc ?q3 = [?e]" using q by (simp_all add: insert_last_processed_block_height_def queue_inv_def entries_def)
  from single_entry_taken [OF codec this e(1)] e(2) p1 p2 q2(1) p3 show ?thesis by auto
qed

section \<open>Witness\<close>

text \<open>Two runs of two rounds each on the chain with one peg-in, the second one on the table that the first one has left.\<close>

definition demo_dir_raw :: CoordRawConfig where
  "demo_dir_raw = demo_coord_raw\<lparr>crc_data_directory := Some ''data''\<rparr>"

definition demo_restart_cli :: stacks_cli where
  "demo_restart_cli = demo_cli\<lparr>cli_start_block_height := None\<rparr>"

definition demo_files :: files where
  "demo_files p = Some [0x7B, 0x7D]"

abbreviation demo_restart where
  "demo_restart \<equiv> coordinator_main Inr (\<lambda>p. Some []) (\<lambda>t. Some demo_dir_raw) demo_restart_cli"

abbreviation demo_on where
  "demo_on db \<equiv> demo_chain_services\<lparr>se_database := \<lambda>p. db\<rparr>"

definition demo_db :: queue_db where
  "demo_db = \<lparr>sbtc_ops = [], last_processed = Some 4\<rparr>"

abbreviation demo_runs where
  "demo_runs \<equiv> [(demo_on demo_db, 2, demo_files, 9 :: u64, 9 :: u64),
     (demo_on (db_after demo_db (demo_restart (demo_on demo_db) 2 demo_files)), 2, demo_files, 9 :: u64, 9 :: u64)]"

abbreviation demo_dir_config where
  "demo_dir_config \<equiv> demo_config\<lparr>cc_stacks_address := [], cc_start_block_height := None, cc_data_directory := Some ''data''\<rparr>"

lemma demo_sees:
  "coordinator_sees Inr (\<lambda>p. Some []) (\<lambda>t. Some demo_dir_raw) demo_restart_cli demo_dir_config demo_rows demo_ins demo_outs 5 (demo_on db) 9 9"
proof -
  have "CoordConfig_from_path demo_blockstack Inr (\<lambda>p. Some []) (\<lambda>t. Some demo_dir_raw)
      (cli_config_path demo_restart_cli) = Ok demo_dir_config"
    by (simp add: CoordConfig_from_path_def CoordConfig_try_from_def parse_contract_def parse_stacks_private_key_def
        parse_version_def demo_dir_raw_def demo_coord_raw_def demo_blockstack_def checked_config_def demo_config_def)
  moreover have "chain_ok (demo_on db) demo_ins demo_outs 5 (config_client demo_dir_config)"
    by (simp add: chain_ok_def demo_chain_node_follows demo_chain_entries NodeClient_new_def demo_config_def)
  moreover have "shows_blocks (demo_on db) (config_client demo_dir_config) 9 9"
    by (simp add: shows_blocks_def node_calls_def burn_block_height_def get_response_def build_url_def demo_chain_node_def
        demo_stacks_node_def demo_chain_answer_def json_index_def)
  ultimately show ?thesis by (simp add: coordinator_sees_def)
qed

text \<open>Both runs get as far as to the loop.\<close>

lemma demo_shares_parse: "se_shares_parse (demo_services v) [0x7B, 0x7D] = Some []"
  by (simp add: demo_services_def)

lemma demo_created:
  "\<exists>s fs'. StacksCoordinator_try_from (demo_on db) (demo_dir_config\<lparr>cc_signer_config_path := Some ''signer.toml''\<rparr>) demo_files = (Ok s, fs')"
  by (simp add: demo_files_def demo_shares_parse read_dkg_public_shares_def demo_chain_services_def demo_chain_node_def demo_chain_answer_def
      demo_create_simps demo_node_simps demo_bitcoin_simps)

theorem restarts_pay_once_witness:
  "(\<forall>db. \<exists>s fs'. StacksCoordinator_try_from (demo_on db) (demo_dir_config\<lparr>cc_signer_config_path := Some ''signer.toml''\<rparr>)
      demo_files = (Ok s, fs'))
   \<and> (\<exists>opss. list_all2 (\<lambda>(E, n, fs, u, v). taken_by E (demo_restart E n fs)) demo_runs opss
    \<and> distinct (concat opss) \<and> set (concat opss) \<subseteq> {PegIn (demo_in 6 1)})"
proof -
  have chain: "set_mset (chain_ops demo_ins demo_outs 5 t) \<subseteq> {PegIn (demo_in 6 1)}" for t
    by (cases "6 \<in> set (heights 5 t)") (simp_all add: chain_ops_def demo_chain_entries Entry_from_peg_in_def)
  have "\<exists>opss t. list_all2 (\<lambda>(E, n, fs, u, v). taken_by E (demo_restart E n fs)) demo_runs opss \<and> distinct (concat opss)
    \<and> last_processed (final_db demo_restart demo_db demo_runs) = Some t
    \<and> set (concat opss) \<subseteq> set_mset (chain_ops demo_ins demo_outs 5 t)
    \<and> (still_running demo_restart demo_runs \<longrightarrow> mset (concat opss) = chain_ops demo_ins demo_outs 5 t)"
  proof (rule restarts_pay_once [where parse_url = Inr and read_file = "\<lambda>p. Some []"
        and toml = "\<lambda>t. Some demo_dir_raw" and cli = demo_restart_cli and rc = demo_rows and config = demo_dir_config
        and dir = "''data''" and db = demo_db and rs = demo_runs])
    show "restarted demo_restart (join_path ''data'' ''peg_queue.sqlite'')
      (coordinator_sees Inr (\<lambda>p. Some []) (\<lambda>t. Some demo_dir_raw) demo_restart_cli demo_dir_config demo_rows demo_ins demo_outs 5)
      (5 - 1) demo_db demo_runs"
      by (simp add: demo_sees)
  qed (simp_all add: demo_restart_cli_def demo_cli_def demo_config_def demo_codec_ok demo_db_def demo_chain_entries)
  then obtain opss t where opss: "list_all2 (\<lambda>(E, n, fs, u, v). taken_by E (demo_restart E n fs)) demo_runs opss"
    "distinct (concat opss)" "set (concat opss) \<subseteq> set_mset (chain_ops demo_ins demo_outs 5 t)" by blast
  show ?thesis
    by (intro conjI allI exI [of _ opss] demo_created opss(1,2) order_trans [OF opss(3) chain])
qed

end
