(* ===== verification/SignerDb.thy ===== *)
theory SignerDb
  imports Prelude
begin

text \<open>
  The data and the database of the signer's API (\<^verbatim>\<open>stacks-signer-api/src\<close>: \<^verbatim>\<open>vote.rs\<close>, \<^verbatim>\<open>transaction.rs\<close>,
  \<^verbatim>\<open>config.rs\<close>, \<^verbatim>\<open>db/\<close>, with the tables and the trigger of its migration).

  A table is the list of its rows in the order of their row numbers. \<^verbatim>\<open>REPLACE\<close> removes the row with the
  same primary key and adds the new one at the end. The pool carries a script of faults: every
  statement takes one entry and fails when it says so; after the script all statements succeed.
  \<open>foreign_keys\<close> says whether the connections enforce foreign keys, as those of sqlx do unless
  told otherwise.

  Keys are type variables; their text forms are the record \<open>key_codec\<close>.
\<close>

section \<open>Votes and transactions\<close>

datatype VoteChoice = Approve | Reject
datatype VoteMechanism = Auto | Manual
datatype VoteStatus = PendingVotes | Approved | Rejected | NoConsensus

record VoteRequest =
  vq_txid :: string
  vq_signing_delegator :: string
  vq_vote_choice :: VoteChoice

record VoteTally =
  target_consensus :: u64
  current_consensus :: u64
  vote_status :: VoteStatus

record VoteResponse =
  vp_vote_choice :: VoteChoice
  vp_vote_tally :: VoteTally

record Vote =
  vote_txid :: string
  vote_tally :: VoteTally
  vote_choice :: "VoteChoice option"
  vote_mechanism :: VoteMechanism

datatype TransactionAddress = Bitcoin string | Stacks string

datatype TransactionKind = DepositReveal | WithdrawalReveal | WithdrawalFulfill | WalletHandoff

record Transaction =
  tx_txid :: string
  transaction_kind :: TransactionKind
  transaction_block_height :: "u64 option"
  transaction_deadline_block_height :: u64
  transaction_amount :: u64
  transaction_fees :: u64
  tx_memo :: bytes
  transaction_originator_address :: TransactionAddress
  transaction_debit_address :: TransactionAddress
  transaction_credit_address :: TransactionAddress

definition Transaction_default :: Transaction where
  "Transaction_default =
     \<lparr>tx_txid = replicate 64 (CHR ''0''), transaction_kind = DepositReveal, transaction_block_height = None,
      transaction_deadline_block_height = 0, transaction_amount = 0, transaction_fees = 0, tx_memo = [],
      transaction_originator_address = Bitcoin ''originator'',
      transaction_debit_address = Bitcoin ''escrow bitcoin wallet'',
      transaction_credit_address = Stacks ''sBTC protocol address''\<rparr>"

record TransactionResponse =
  tr_transaction :: Transaction
  tr_vote_tally :: VoteTally
  tr_vote_choice :: "VoteChoice option"
  tr_vote_mechanism :: VoteMechanism

text \<open>The derived \<^verbatim>\<open>Display\<close> and \<^verbatim>\<open>FromStr\<close> with the style \<^verbatim>\<open>lowercase\<close>.\<close>

fun VoteChoice_to_string :: "VoteChoice \<Rightarrow> string" where
  "VoteChoice_to_string Approve = ''approve''"
| "VoteChoice_to_string Reject = ''reject''"

definition VoteChoice_parse :: "string \<Rightarrow> VoteChoice option" where
  "VoteChoice_parse s = (if s = ''approve'' then Some Approve else if s = ''reject'' then Some Reject else None)"

fun VoteMechanism_to_string :: "VoteMechanism \<Rightarrow> string" where
  "VoteMechanism_to_string Auto = ''auto''"
| "VoteMechanism_to_string Manual = ''manual''"

definition VoteMechanism_parse :: "string \<Rightarrow> VoteMechanism option" where
  "VoteMechanism_parse s = (if s = ''auto'' then Some Auto else if s = ''manual'' then Some Manual else None)"

fun VoteStatus_to_string :: "VoteStatus \<Rightarrow> string" where
  "VoteStatus_to_string PendingVotes = ''pending''"
| "VoteStatus_to_string Approved = ''approved''"
| "VoteStatus_to_string Rejected = ''rejected''"
| "VoteStatus_to_string NoConsensus = ''noconsensus''"

definition VoteStatus_parse :: "string \<Rightarrow> VoteStatus option" where
  "VoteStatus_parse s =
     (if s = ''pending'' then Some PendingVotes else if s = ''approved'' then Some Approved
      else if s = ''rejected'' then Some Rejected else if s = ''noconsensus'' then Some NoConsensus else None)"

fun TransactionKind_to_string :: "TransactionKind \<Rightarrow> string" where
  "TransactionKind_to_string DepositReveal = ''depositreveal''"
| "TransactionKind_to_string WithdrawalReveal = ''withdrawalreveal''"
| "TransactionKind_to_string WithdrawalFulfill = ''withdrawalfulfill''"
| "TransactionKind_to_string WalletHandoff = ''wallethandoff''"

definition TransactionKind_parse :: "string \<Rightarrow> TransactionKind option" where
  "TransactionKind_parse s =
     (if s = ''depositreveal'' then Some DepositReveal else if s = ''withdrawalreveal'' then Some WithdrawalReveal
      else if s = ''withdrawalfulfill'' then Some WithdrawalFulfill
      else if s = ''wallethandoff'' then Some WalletHandoff else None)"

lemma VoteChoice_parse_to_string [simp]: "VoteChoice_parse (VoteChoice_to_string c) = Some c"
  by (cases c) (simp_all add: VoteChoice_parse_def)

lemma VoteMechanism_parse_to_string [simp]: "VoteMechanism_parse (VoteMechanism_to_string m) = Some m"
  by (cases m) (simp_all add: VoteMechanism_parse_def)

lemma VoteStatus_parse_to_string [simp]: "VoteStatus_parse (VoteStatus_to_string s) = Some s"
  by (cases s) (simp_all add: VoteStatus_parse_def)

lemma TransactionKind_parse_to_string [simp]: "TransactionKind_parse (TransactionKind_to_string k) = Some k"
  by (cases k) (simp_all add: TransactionKind_parse_def)

section \<open>Configuration\<close>

text \<open>
  \<open>secret_to_hex\<close> is \<^verbatim>\<open>hex::encode\<close> of \<^verbatim>\<open>secret_bytes\<close>, \<open>hex_to_bytes\<close> is \<^verbatim>\<open>hex::decode\<close>, \<open>secret_from_slice\<close> is
  \<^verbatim>\<open>SecretKey::from_slice\<close>, \<open>public_to_string\<close> and \<open>public_from_str\<close> are the text form of a public key.
\<close>

record ('sk, 'pk) key_codec =
  secret_to_hex :: "'sk \<Rightarrow> string"
  hex_to_bytes :: "string \<Rightarrow> bytes option"
  secret_from_slice :: "bytes \<Rightarrow> 'sk option"
  from_secret :: "'sk \<Rightarrow> 'pk"
  public_to_string :: "'pk \<Rightarrow> string"
  public_from_str :: "string \<Rightarrow> 'pk option"

record ('sk, 'pk) RawConfig =
  raw_secret_key :: 'sk
  raw_delegate_public_key :: "'pk option"
  raw_delegator_public_keys :: "'pk list option"
  raw_auto_deny_addresses :: "string list option"
  raw_auto_approve_max_amount :: "u64 option"

record ('sk, 'pk) SignerConfig =
  secret_key :: 'sk
  auto_approve_max_amount :: u64
  delegate_public_key :: 'pk
  delegator_public_keys :: "'pk list"
  auto_deny_addresses :: "string list"

definition DEFAULT_MAX_AMOUNT :: u64 where
  "DEFAULT_MAX_AMOUNT = 100000"

datatype config_error = ConfigHexError | ConfigSecp256k1Error | ConfigIOError | ConfigTomlError

definition SignerConfig_new :: "('sk, 'pk) key_codec \<Rightarrow> 'sk \<Rightarrow> ('sk, 'pk) SignerConfig" where
  "SignerConfig_new K sk =
     \<lparr>secret_key = sk, auto_approve_max_amount = DEFAULT_MAX_AMOUNT, delegate_public_key = from_secret K sk,
      delegator_public_keys = [], auto_deny_addresses = []\<rparr>"

definition SignerConfig_from_secret_key ::
  "('sk, 'pk) key_codec \<Rightarrow> string \<Rightarrow> (config_error, ('sk, 'pk) SignerConfig) outcome" where
  "SignerConfig_from_secret_key K s =
     obind (ok_or ConfigHexError (hex_to_bytes K s)) (\<lambda>bs.
     obind (ok_or ConfigSecp256k1Error (secret_from_slice K bs)) (\<lambda>sk.
       Ok (SignerConfig_new K sk)))"

definition unwrap_or :: "'a \<Rightarrow> 'a option \<Rightarrow> 'a" where
  "unwrap_or d x = (case x of None \<Rightarrow> d | Some a \<Rightarrow> a)"

definition SignerConfig_try_from ::
  "('sk, 'pk) key_codec \<Rightarrow> ('sk, 'pk) RawConfig \<Rightarrow> (config_error, ('sk, 'pk) SignerConfig) outcome" where
  "SignerConfig_try_from K raw =
     Ok \<lparr>secret_key = raw_secret_key raw,
         auto_approve_max_amount = unwrap_or DEFAULT_MAX_AMOUNT (raw_auto_approve_max_amount raw),
         delegate_public_key = unwrap_or (from_secret K (raw_secret_key raw)) (raw_delegate_public_key raw),
         delegator_public_keys = unwrap_or [] (raw_delegator_public_keys raw),
         auto_deny_addresses = unwrap_or [] (raw_auto_deny_addresses raw)\<rparr>"

text \<open>\<^verbatim>\<open>from_path\<close>: the content of the file, when it can be read, and the TOML parser.\<close>

definition RawConfig_from_path ::
  "(string \<Rightarrow> string option) \<Rightarrow> (string \<Rightarrow> ('sk, 'pk) RawConfig option) \<Rightarrow> string
    \<Rightarrow> (config_error, ('sk, 'pk) RawConfig) outcome" where
  "RawConfig_from_path files toml path =
     obind (ok_or ConfigIOError (files path)) (\<lambda>s. ok_or ConfigTomlError (toml s))"

definition SignerConfig_from_path ::
  "('sk, 'pk) key_codec \<Rightarrow> (string \<Rightarrow> string option) \<Rightarrow> (string \<Rightarrow> ('sk, 'pk) RawConfig option) \<Rightarrow> string
    \<Rightarrow> (config_error, ('sk, 'pk) SignerConfig) outcome" where
  "SignerConfig_from_path K files toml path =
     obind (RawConfig_from_path files toml path) (SignerConfig_try_from K)"

section \<open>The database\<close>

text \<open>Integer columns hold 64-bit signed integers: \<^verbatim>\<open>as i64\<close> and \<^verbatim>\<open>as u64\<close> keep the bits.\<close>

definition as_i64 :: "u64 \<Rightarrow> int" where
  "as_i64 w = sint w"

definition as_u64 :: "int \<Rightarrow> u64" where
  "as_u64 i = word_of_int i"

lemma as_u64_as_i64 [simp]: "as_u64 (as_i64 w) = w"
  by (simp add: as_u64_def as_i64_def)

record config_row =
  cr_id :: int
  cr_secret_key :: string
  cr_auto_approve_max_amount :: int
  cr_delegate_public_key :: string

record tx_row =
  tr_txid :: string
  tr_kind :: string
  tr_block_height :: "int option"
  tr_deadline_block_height :: int
  tr_amount :: int
  tr_fees :: int
  tr_memo :: bytes
  tr_originator_address :: string
  tr_debit_address :: string
  tr_credit_address :: string

record vote_row =
  vr_txid :: string
  vr_status :: string
  vr_choice :: "string option"
  vr_mechanism :: string
  vr_target_consensus :: int
  vr_current_consensus :: int

record pool =
  config_table :: "config_row list"
  delegator_table :: "string list"
  deny_table :: "string list"
  transactions :: "tx_row list"
  votes :: "vote_row list"
  foreign_keys :: bool
  faults :: "bool list"

datatype sqlx_error = RowNotFound | ForeignKeyViolation | StatementFailed

datatype db_error =
    SqlxError sqlx_error
  | MalformedData
  | DbSecp256k1Error
  | SqlxMigrationError
  | InvalidSecretKey

type_synonym 'a db = "pool \<Rightarrow> (db_error, 'a) outcome \<times> pool"

text \<open>Sequencing with the question-mark operator; a value that does not depend on the database; a
  query; a statement that changes the tables or is refused.\<close>

definition db_bind :: "'a db \<Rightarrow> ('a \<Rightarrow> 'b db) \<Rightarrow> 'b db" where
  "db_bind m f p =
     (case m p of
        (Ok a, q) \<Rightarrow> f a q
      | (Err e, q) \<Rightarrow> (Err e, q)
      | (Panic, q) \<Rightarrow> (Panic, q))"

definition db_lift :: "(db_error, 'a) outcome \<Rightarrow> 'a db" where
  "db_lift r p = (r, p)"

definition db_statement :: "unit db" where
  "db_statement p =
     (case faults p of
        [] \<Rightarrow> (Ok (), p)
      | f # fs \<Rightarrow> (if f then Err (SqlxError StatementFailed) else Ok (), p\<lparr>faults := fs\<rparr>))"

definition db_query :: "(pool \<Rightarrow> 'a) \<Rightarrow> 'a db" where
  "db_query sel = db_bind db_statement (\<lambda>_ p. (Ok (sel p), p))"

definition db_exec :: "(pool \<Rightarrow> sqlx_error + pool) \<Rightarrow> unit db" where
  "db_exec upd = db_bind db_statement (\<lambda>_ p.
     (case upd p of Inl e \<Rightarrow> (Err (SqlxError e), p) | Inr q \<Rightarrow> (Ok (), q)))"

text \<open>\<^verbatim>\<open>fetch_one\<close>: the first row of the result.\<close>

definition fetch_one :: "(pool \<Rightarrow> 'r list) \<Rightarrow> 'r db" where
  "fetch_one sel = db_bind (db_query sel) (\<lambda>rows.
     db_lift (case rows of [] \<Rightarrow> Err (SqlxError RowNotFound) | r # rs \<Rightarrow> Ok r))"

definition replace_into :: "('r \<Rightarrow> 'k) \<Rightarrow> 'r \<Rightarrow> 'r list \<Rightarrow> 'r list" where
  "replace_into key r rows = filter (\<lambda>r'. key r' \<noteq> key r) rows @ [r]"

text \<open>The migration on a new database makes the five empty tables and the trigger.\<close>

definition empty_pool :: pool where
  "empty_pool =
     \<lparr>config_table = [], delegator_table = [], deny_table = [], transactions = [], votes = [],
      foreign_keys = True, faults = []\<rparr>"

text \<open>The databases that can be opened, by their address (without an address a new one in memory), and
  which of them the migrator accepts; it leaves one alone that it has migrated before.\<close>

definition init_pool ::
  "(string \<Rightarrow> pool option) \<Rightarrow> (pool \<Rightarrow> bool) \<Rightarrow> string option \<Rightarrow> (db_error, pool) outcome" where
  "init_pool connect migrates path =
     obind (case path of
              Some s \<Rightarrow> ok_or (SqlxError StatementFailed) (connect s)
            | None \<Rightarrow> Ok empty_pool) (\<lambda>p.
     if migrates p then Ok p else Err SqlxMigrationError)"

subsection \<open>Configuration\<close>

text \<open>\<^verbatim>\<open>collect\<close> into a \<^verbatim>\<open>Result\<close>: all values, or the first error.\<close>

fun collect :: "('e, 'a) outcome list \<Rightarrow> ('e, 'a list) outcome" where
  "collect [] = Ok []"
| "collect (r # rs) = obind r (\<lambda>a. obind (collect rs) (\<lambda>as. Ok (a # as)))"

definition get_auto_deny_addresses :: "string list db" where
  "get_auto_deny_addresses = db_query deny_table"

definition get_delegator_public_keys :: "('sk, 'pk) key_codec \<Rightarrow> 'pk list db" where
  "get_delegator_public_keys K = db_bind (db_query delegator_table) (\<lambda>rows.
     db_lift (collect (map (\<lambda>s. ok_or DbSecp256k1Error (public_from_str K s)) rows)))"

definition get_config :: "('sk, 'pk) key_codec \<Rightarrow> ('sk, 'pk) SignerConfig db" where
  "get_config K =
     db_bind (fetch_one config_table) (\<lambda>row.
     db_bind (db_lift (ok_or InvalidSecretKey (hex_to_bytes K (cr_secret_key row)))) (\<lambda>bs.
     db_bind (db_lift (ok_or DbSecp256k1Error (secret_from_slice K bs))) (\<lambda>sk.
     db_bind (db_lift (ok_or DbSecp256k1Error (public_from_str K (cr_delegate_public_key row)))) (\<lambda>pk.
     db_bind (get_delegator_public_keys K) (\<lambda>keys.
     db_bind get_auto_deny_addresses (\<lambda>addresses.
       db_lift (Ok
         \<lparr>secret_key = sk, auto_approve_max_amount = as_u64 (cr_auto_approve_max_amount row),
          delegate_public_key = pk, delegator_public_keys = keys, auto_deny_addresses = addresses\<rparr>)))))))"

fun db_for :: "('a \<Rightarrow> unit db) \<Rightarrow> 'a list \<Rightarrow> unit db" where
  "db_for f [] = db_lift (Ok ())"
| "db_for f (x # xs) = db_bind (f x) (\<lambda>_. db_for f xs)"

definition insert_config_row :: "('sk, 'pk) key_codec \<Rightarrow> ('sk, 'pk) SignerConfig \<Rightarrow> unit db" where
  "insert_config_row K c = db_exec (\<lambda>p. Inr (p\<lparr>config_table := replace_into cr_id
     \<lparr>cr_id = 1, cr_secret_key = secret_to_hex K (secret_key c),
      cr_auto_approve_max_amount = as_i64 (auto_approve_max_amount c),
      cr_delegate_public_key = public_to_string K (delegate_public_key c)\<rparr> (config_table p)\<rparr>))"

definition insert_delegator :: "('sk, 'pk) key_codec \<Rightarrow> 'pk \<Rightarrow> unit db" where
  "insert_delegator K k =
     db_exec (\<lambda>p. Inr (p\<lparr>delegator_table := replace_into id (public_to_string K k) (delegator_table p)\<rparr>))"

definition insert_deny :: "string \<Rightarrow> unit db" where
  "insert_deny a = db_exec (\<lambda>p. Inr (p\<lparr>deny_table := replace_into id a (deny_table p)\<rparr>))"

definition update_config :: "('sk, 'pk) key_codec \<Rightarrow> ('sk, 'pk) SignerConfig \<Rightarrow> unit db" where
  "update_config K c =
     db_bind (insert_config_row K c) (\<lambda>_.
     db_bind (db_for (insert_delegator K) (delegator_public_keys c)) (\<lambda>_.
       db_for insert_deny (auto_deny_addresses c)))"

subsection \<open>Transactions\<close>

text \<open>
  What \<^verbatim>\<open>REPLACE INTO transactions\<close> does to the tables. The row it removes takes its vote with it
  (\<^verbatim>\<open>ON DELETE CASCADE\<close>, where foreign keys are enforced); then the trigger \<^verbatim>\<open>add_empty_vote\<close> adds a pending vote
  when there is none for the new row.
\<close>

definition empty_vote_row :: "string \<Rightarrow> vote_row" where
  "empty_vote_row t =
     \<lparr>vr_txid = t, vr_status = ''pending'', vr_choice = None, vr_mechanism = ''manual'',
      vr_target_consensus = 70, vr_current_consensus = 0\<rparr>"

definition cascade_delete :: "string \<Rightarrow> pool \<Rightarrow> vote_row list" where
  "cascade_delete t p =
     (if foreign_keys p \<and> t \<in> tr_txid ` set (transactions p)
      then filter (\<lambda>v. vr_txid v \<noteq> t) (votes p) else votes p)"

definition add_empty_vote :: "string \<Rightarrow> vote_row list \<Rightarrow> vote_row list" where
  "add_empty_vote t vs = (if t \<in> vr_txid ` set vs then vs else vs @ [empty_vote_row t])"

definition replace_transaction_row :: "tx_row \<Rightarrow> pool \<Rightarrow> pool" where
  "replace_transaction_row r p =
     p\<lparr>transactions := replace_into tr_txid r (transactions p),
       votes := add_empty_vote (tr_txid r) (cascade_delete (tr_txid r) p)\<rparr>"

definition tx_to_row :: "Transaction \<Rightarrow> tx_row" where
  "tx_to_row t =
     \<lparr>tr_txid = tx_txid t, tr_kind = TransactionKind_to_string (transaction_kind t),
      tr_block_height = map_option as_i64 (transaction_block_height t),
      tr_deadline_block_height = as_i64 (transaction_deadline_block_height t),
      tr_amount = as_i64 (transaction_amount t), tr_fees = as_i64 (transaction_fees t), tr_memo = tx_memo t,
      tr_originator_address = [], tr_debit_address = [], tr_credit_address = []\<rparr>"

definition add_transaction :: "Transaction \<Rightarrow> unit db" where
  "add_transaction t = db_exec (\<lambda>p. Inr (replace_transaction_row (tx_to_row t) p))"

definition tx_from_row :: "tx_row \<Rightarrow> (db_error, Transaction) outcome" where
  "tx_from_row r =
     obind (ok_or MalformedData (TransactionKind_parse (tr_kind r))) (\<lambda>kind.
       Ok \<lparr>tx_txid = tr_txid r, transaction_kind = kind,
           transaction_block_height = map_option as_u64 (tr_block_height r),
           transaction_deadline_block_height = as_u64 (tr_deadline_block_height r),
           transaction_amount = as_u64 (tr_amount r), transaction_fees = as_u64 (tr_fees r), tx_memo = tr_memo r,
           transaction_originator_address = Bitcoin (tr_originator_address r),
           transaction_debit_address = Bitcoin (tr_debit_address r),
           transaction_credit_address = Bitcoin (tr_credit_address r)\<rparr>)"

definition get_transactions :: "Transaction list db" where
  "get_transactions = db_bind (db_query transactions) (\<lambda>rows. db_lift (collect (map tx_from_row rows)))"

definition get_transaction_by_id :: "string \<Rightarrow> Transaction db" where
  "get_transaction_by_id t =
     db_bind (fetch_one (\<lambda>p. filter (\<lambda>r. tr_txid r = t) (transactions p))) (\<lambda>r. db_lift (tx_from_row r))"

subsection \<open>Votes\<close>

definition vote_to_row :: "Vote \<Rightarrow> vote_row" where
  "vote_to_row v =
     \<lparr>vr_txid = vote_txid v, vr_status = VoteStatus_to_string (vote_status (vote_tally v)),
      vr_choice = map_option VoteChoice_to_string (vote_choice v),
      vr_mechanism = VoteMechanism_to_string (vote_mechanism v),
      vr_target_consensus = as_i64 (target_consensus (vote_tally v)),
      vr_current_consensus = as_i64 (current_consensus (vote_tally v))\<rparr>"

definition add_vote :: "Vote \<Rightarrow> unit db" where
  "add_vote v = db_exec (\<lambda>p.
     if foreign_keys p \<and> vote_txid v \<notin> tr_txid ` set (transactions p) then Inl ForeignKeyViolation
     else Inr (p\<lparr>votes := replace_into vr_txid (vote_to_row v) (votes p)\<rparr>))"

text \<open>\<^verbatim>\<open>transpose\<close>: a value that fails to parse is an error, an absent one is not.\<close>

definition parse_choice :: "string option \<Rightarrow> (db_error, VoteChoice option) outcome" where
  "parse_choice s =
     (case s of
        None \<Rightarrow> Ok None
      | Some c \<Rightarrow> obind (ok_or MalformedData (VoteChoice_parse c)) (\<lambda>c. Ok (Some c)))"

definition vote_from_row :: "vote_row \<Rightarrow> (db_error, Vote) outcome" where
  "vote_from_row r =
     obind (ok_or MalformedData (VoteStatus_parse (vr_status r))) (\<lambda>status.
     obind (parse_choice (vr_choice r)) (\<lambda>choice.
     obind (ok_or MalformedData (VoteMechanism_parse (vr_mechanism r))) (\<lambda>mechanism.
       Ok \<lparr>vote_txid = vr_txid r,
           vote_tally = \<lparr>target_consensus = as_u64 (vr_target_consensus r),
             current_consensus = as_u64 (vr_current_consensus r), vote_status = status\<rparr>,
           vote_choice = choice, vote_mechanism = mechanism\<rparr>)))"

definition get_vote_by_id :: "string \<Rightarrow> Vote db" where
  "get_vote_by_id t =
     db_bind (fetch_one (\<lambda>p. filter (\<lambda>r. vr_txid r = t) (votes p))) (\<lambda>r. db_lift (vote_from_row r))"

section \<open>Reasoning about database operations\<close>

text \<open>What an operation does when no statement fails.\<close>

lemma db_statement_no_fault [simp]: "faults p = [] \<Longrightarrow> db_statement p = (Ok (), p)"
  by (simp add: db_statement_def)

lemma db_bind_Ok: "m p = (Ok a, q) \<Longrightarrow> db_bind m f p = f a q"
  by (simp add: db_bind_def)

lemma db_bind_lift [simp]:
  "db_bind (db_lift (Ok a)) f = f a"
  "db_bind (db_lift (Err e)) f = db_lift (Err e)"
  "db_bind (db_lift Panic) f = db_lift Panic"
  by (auto simp: db_bind_def db_lift_def fun_eq_iff)

lemma db_lift_eval [simp]: "db_lift r p = (r, p)"
  by (simp add: db_lift_def)

lemma db_query_no_fault [simp]: "faults p = [] \<Longrightarrow> db_query sel p = (Ok (sel p), p)"
  by (simp add: db_query_def db_bind_def)

lemma db_exec_no_fault [simp]:
  "faults p = [] \<Longrightarrow> db_exec upd p
    = (case upd p of Inl e \<Rightarrow> (Err (SqlxError e), p) | Inr q \<Rightarrow> (Ok (), q))"
  by (simp add: db_exec_def db_bind_def)

lemma fetch_one_no_fault [simp]:
  "faults p = [] \<Longrightarrow> fetch_one sel p
    = (case sel p of [] \<Rightarrow> Err (SqlxError RowNotFound) | r # rs \<Rightarrow> Ok r, p)"
  by (simp add: fetch_one_def db_bind_def)

lemma get_vote_no_fault:
  "faults p = [] \<Longrightarrow> get_vote_by_id t p
    = (case filter (\<lambda>r. vr_txid r = t) (votes p) of
         [] \<Rightarrow> Err (SqlxError RowNotFound) | r # rs \<Rightarrow> vote_from_row r, p)"
  by (simp add: get_vote_by_id_def db_bind_def split: list.split)

text \<open>A query that answers has read the tables as they are, whatever the faults before it.\<close>

lemma db_statement_cases:
  obtains (ok) q fs where "db_statement p = (Ok (), q)" "q = p\<lparr>faults := fs\<rparr>"
  | (fault) q fs where "db_statement p = (Err (SqlxError StatementFailed), q)" "q = p\<lparr>faults := fs\<rparr>"
proof (cases "faults p")
  case Nil
  then have "db_statement p = (Ok (), p\<lparr>faults := []\<rparr>)" by (simp add: db_statement_def)
  then show ?thesis by (rule ok) simp
next
  case (Cons f fs)
  then show ?thesis
    using ok [of "p\<lparr>faults := fs\<rparr>" fs] fault [of "p\<lparr>faults := fs\<rparr>" fs]
    by (cases f) (simp_all add: db_statement_def)
qed

lemma collect_Ok [simp]: "collect (map (\<lambda>x. Ok (f x)) xs) = Ok (map f xs)"
  by (induction xs) auto

lemma collect_cong_Ok: "(\<And>x. x \<in> set xs \<Longrightarrow> g x = Ok (f x)) \<Longrightarrow> collect (map g xs) = Ok (map f xs)"
  by (induction xs) auto

lemma collect_Ok_iff:
  "collect rs = Ok as \<longleftrightarrow> list_all2 (\<lambda>r a. r = Ok a) rs as"
  by (induction rs arbitrary: as) (auto simp: obind_Ok_iff list_all2_Cons1)

subsection \<open>Invariants of the tables\<close>

definition db_keeps :: "(pool \<Rightarrow> bool) \<Rightarrow> 'a db \<Rightarrow> bool" where
  "db_keeps I m \<longleftrightarrow> (\<forall>p. I p \<longrightarrow> I (snd (m p)))"

lemma db_keepsD: "db_keeps I m \<Longrightarrow> I p \<Longrightarrow> I (snd (m p))"
  by (simp add: db_keeps_def)

text \<open>
  An invariant of the tables says nothing about the faults to come. It holds after an operation when each of
  its statements keeps it, wherever the operation stops.
\<close>

locale db_invariant =
  fixes I :: "pool \<Rightarrow> bool"
  assumes faults_irrelevant: "I (p\<lparr>faults := fs\<rparr>) \<longleftrightarrow> I p"
begin

lemma keeps_lift: "db_keeps I (db_lift r)"
  by (simp add: db_keeps_def)

lemma keeps_statement: "db_keeps I db_statement"
  by (auto simp: db_keeps_def db_statement_def faults_irrelevant split: list.split)

lemma keeps_bind:
  assumes "db_keeps I m" and "\<And>a. db_keeps I (f a)"
  shows "db_keeps I (db_bind m f)"
proof -
  have "I (snd (db_bind m f p))" if "I p" for p
    using db_keepsD [OF assms(1) that] db_keepsD [OF assms(2)]
    by (cases "m p") (auto simp: db_bind_def split: outcome.split)
  then show ?thesis by (simp add: db_keeps_def)
qed

lemma keeps_query: "db_keeps I (db_query sel)"
  unfolding db_query_def by (rule keeps_bind [OF keeps_statement]) (simp add: db_keeps_def)

lemma keeps_fetch_one: "db_keeps I (fetch_one sel)"
  unfolding fetch_one_def by (intro keeps_bind keeps_query keeps_lift)

lemma keeps_exec:
  assumes "\<And>p q. I p \<Longrightarrow> upd p = Inr q \<Longrightarrow> I q"
  shows "db_keeps I (db_exec upd)"
  unfolding db_exec_def
  by (rule keeps_bind [OF keeps_statement]) (auto simp: db_keeps_def assms split: sum.split)

lemma keeps_for: "(\<And>x. x \<in> set xs \<Longrightarrow> db_keeps I (f x)) \<Longrightarrow> db_keeps I (db_for f xs)"
  by (induction xs) (auto intro: keeps_lift keeps_bind)

lemmas keeps_intros = keeps_lift keeps_bind keeps_query keeps_fetch_one

lemma keeps_reads:
  "db_keeps I (get_config K)" "db_keeps I get_transactions" "db_keeps I (get_transaction_by_id t)"
  "db_keeps I (get_vote_by_id t)"
  unfolding get_config_def get_delegator_public_keys_def get_auto_deny_addresses_def get_transactions_def
    get_transaction_by_id_def get_vote_by_id_def
  by (intro keeps_intros)+

end

text \<open>The text forms of keys can be read back.\<close>

definition codec_ok :: "('sk, 'pk) key_codec \<Rightarrow> bool" where
  "codec_ok K \<longleftrightarrow>
     (\<forall>sk. \<exists>bs. hex_to_bytes K (secret_to_hex K sk) = Some bs \<and> secret_from_slice K bs = Some sk)
     \<and> (\<forall>pk. public_from_str K (public_to_string K pk) = Some pk)"

text \<open>
  The tables are sound: every row can be read, primary keys are unique, and the votes are exactly those
  of the transactions.
\<close>

definition config_row_ok :: "('sk, 'pk) key_codec \<Rightarrow> config_row \<Rightarrow> bool" where
  "config_row_ok K r \<longleftrightarrow>
     cr_id r = 1 \<and> Option.bind (hex_to_bytes K (cr_secret_key r)) (secret_from_slice K) \<noteq> None
     \<and> public_from_str K (cr_delegate_public_key r) \<noteq> None"

definition config_inv :: "('sk, 'pk) key_codec \<Rightarrow> pool \<Rightarrow> bool" where
  "config_inv K p \<longleftrightarrow>
     distinct (map cr_id (config_table p)) \<and> list_all (config_row_ok K) (config_table p)
     \<and> distinct (delegator_table p) \<and> list_all (\<lambda>s. public_from_str K s \<noteq> None) (delegator_table p)
     \<and> distinct (deny_table p)"

definition ballot_inv :: "pool \<Rightarrow> bool" where
  "ballot_inv p \<longleftrightarrow>
     foreign_keys p \<and> distinct (map tr_txid (transactions p)) \<and> distinct (map vr_txid (votes p))
     \<and> set (map vr_txid (votes p)) = set (map tr_txid (transactions p))
     \<and> list_all (\<lambda>r. is_ok (tx_from_row r)) (transactions p) \<and> list_all (\<lambda>r. is_ok (vote_from_row r)) (votes p)"

definition db_inv :: "('sk, 'pk) key_codec \<Rightarrow> pool \<Rightarrow> bool" where
  "db_inv K p \<longleftrightarrow> config_inv K p \<and> ballot_inv p"

interpretation cfg: db_invariant "config_inv K" for K :: "('sk, 'pk) key_codec"
  by unfold_locales (simp add: config_inv_def)

interpretation ballot: db_invariant ballot_inv
  by unfold_locales (simp add: ballot_inv_def)

interpretation dbi: db_invariant "db_inv K" for K :: "('sk, 'pk) key_codec"
  by unfold_locales (simp add: db_inv_def cfg.faults_irrelevant ballot.faults_irrelevant)

lemma set_replace_into: "set (replace_into key r rows) = insert r {r' \<in> set rows. key r' \<noteq> key r}"
  by (auto simp: replace_into_def)

lemma keys_replace_into: "key ` set (replace_into key r rows) = insert (key r) (key ` set rows)"
  by (auto simp: set_replace_into)

lemma distinct_replace_into: "distinct (map key rows) \<Longrightarrow> distinct (map key (replace_into key r rows))"
  by (auto simp: replace_into_def distinct_map inj_on_def)

lemma list_all_replace_into: "P r \<Longrightarrow> list_all P rows \<Longrightarrow> list_all P (replace_into key r rows)"
  by (auto simp: list_all_iff set_replace_into)

lemma filter_replace_into [simp]: "filter (\<lambda>r'. key r' = key r) (replace_into key r rows) = [r]"
  by (auto simp: replace_into_def filter_empty_conv)

lemma filter_replace_into_other [simp]:
  "k \<noteq> key r \<Longrightarrow> filter (\<lambda>r'. key r' = k) (replace_into key r rows) = filter (\<lambda>r'. key r' = k) rows"
  by (auto simp: replace_into_def intro!: filter_cong)

lemma vr_txid_vote_to_row [simp]: "vr_txid (vote_to_row v) = vote_txid v"
  by (simp add: vote_to_row_def)

lemma tr_txid_tx_to_row [simp]: "tr_txid (tx_to_row t) = tx_txid t"
  by (simp add: tx_to_row_def)

lemma vr_txid_empty_vote_row [simp]: "vr_txid (empty_vote_row t) = t"
  by (simp add: empty_vote_row_def)

lemma vote_from_to_row [simp]: "vote_from_row (vote_to_row v) = Ok v"
proof -
  have "parse_choice (map_option VoteChoice_to_string (vote_choice v)) = Ok (vote_choice v)"
    by (cases "vote_choice v") (simp_all add: parse_choice_def)
  then show ?thesis by (simp add: vote_from_row_def vote_to_row_def)
qed

text \<open>What is left of a transaction once it has been stored: its addresses are gone.\<close>

definition without_addresses :: "Transaction \<Rightarrow> Transaction" where
  "without_addresses t = t\<lparr>transaction_originator_address := Bitcoin [],
     transaction_debit_address := Bitcoin [], transaction_credit_address := Bitcoin []\<rparr>"

lemma tx_from_to_row [simp]: "tx_from_row (tx_to_row t) = Ok (without_addresses t)"
proof -
  have "map_option as_u64 (map_option as_i64 (transaction_block_height t)) = transaction_block_height t"
    by (cases "transaction_block_height t") simp_all
  then show ?thesis by (simp add: tx_from_row_def tx_to_row_def without_addresses_def)
qed

lemma vote_from_empty_row [simp]:
  "vote_from_row (empty_vote_row t) = Ok
     \<lparr>vote_txid = t, vote_tally = \<lparr>target_consensus = 70, current_consensus = 0, vote_status = PendingVotes\<rparr>,
      vote_choice = None, vote_mechanism = Manual\<rparr>"
  by (simp add: vote_from_row_def empty_vote_row_def parse_choice_def VoteStatus_parse_def
      VoteMechanism_parse_def as_u64_def)

lemma config_keeps_ballot:
  "db_keeps ballot_inv (update_config K c)"
  unfolding update_config_def insert_config_row_def insert_delegator_def insert_deny_def
  by (intro ballot.keeps_bind ballot.keeps_for ballot.keeps_exec) (clarsimp simp: ballot_inv_def)+

lemma config_inv_update:
  assumes "codec_ok K"
  shows "db_keeps (config_inv K) (update_config K c)"
proof -
  have pk: "list_all (\<lambda>s. public_from_str K s \<noteq> None) (replace_into id (public_to_string K pk) xs)"
    if "list_all (\<lambda>s. public_from_str K s \<noteq> None) xs" for pk xs
    using assms that by (auto simp: codec_ok_def list_all_iff set_replace_into)
  have row: "config_row_ok K \<lparr>cr_id = 1, cr_secret_key = secret_to_hex K (secret_key c),
      cr_auto_approve_max_amount = n, cr_delegate_public_key = public_to_string K (delegate_public_key c)\<rparr>" for n
    using assms unfolding codec_ok_def config_row_ok_def by (metis bind.bind_lunit config_row.select_convs option.simps(3))
  have d: "distinct xs \<Longrightarrow> distinct (replace_into id x xs)" for x :: string and xs
    using distinct_replace_into [of id xs x] by simp
  show ?thesis
    unfolding update_config_def insert_config_row_def insert_delegator_def insert_deny_def
    by (intro cfg.keeps_bind cfg.keeps_for cfg.keeps_exec)
      (clarsimp simp: config_inv_def pk row d distinct_replace_into list_all_replace_into simp del: not_None_eq)+
qed

lemma votes_replace_transaction:
  assumes "ballot_inv p"
  shows "votes (replace_transaction_row r p)
    = filter (\<lambda>v. vr_txid v \<noteq> tr_txid r) (votes p) @ [empty_vote_row (tr_txid r)]"
proof -
  let ?t = "tr_txid r" and ?vs = "cascade_delete (tr_txid r) p"
  have vs: "?vs = filter (\<lambda>v. vr_txid v \<noteq> ?t) (votes p)"
  proof (cases "?t \<in> tr_txid ` set (transactions p)")
    case True
    then show ?thesis using assms by (simp add: cascade_delete_def ballot_inv_def)
  next
    case False
    then have "\<forall>v \<in> set (votes p). vr_txid v \<noteq> ?t"
      using assms unfolding ballot_inv_def by (metis image_eqI set_map)
    then show ?thesis using False by (simp add: cascade_delete_def filter_id_conv)
  qed
  have "?t \<notin> vr_txid ` set ?vs"
    unfolding vs by auto
  then show ?thesis
    by (simp add: replace_transaction_row_def add_empty_vote_def vs)
qed

lemma ballot_inv_replace_transaction:
  assumes "ballot_inv p" and "is_ok (tx_from_row r)"
  shows "ballot_inv (replace_transaction_row r p)"
proof -
  let ?vs = "filter (\<lambda>v. vr_txid v \<noteq> tr_txid r) (votes p) @ [empty_vote_row (tr_txid r)]"
  have inv: "distinct (map vr_txid (votes p))" "vr_txid ` set (votes p) = tr_txid ` set (transactions p)"
    "list_all (\<lambda>v. is_ok (vote_from_row v)) (votes p)"
    using assms(1) by (simp_all add: ballot_inv_def)
  have "distinct (map vr_txid ?vs)"
    using inv(1) by (auto simp: distinct_map inj_on_def)
  moreover have "vr_txid ` set ?vs = insert (tr_txid r) (tr_txid ` set (transactions p))"
    unfolding inv(2) [symmetric] by auto
  moreover have "list_all (\<lambda>v. is_ok (vote_from_row v)) ?vs"
    using inv(3) by (auto simp: list_all_iff)
  ultimately show ?thesis
    using assms unfolding ballot_inv_def votes_replace_transaction [OF assms(1)]
    by (simp add: replace_transaction_row_def keys_replace_into distinct_replace_into list_all_replace_into)
qed

lemma ballot_keeps_add_transaction: "db_keeps ballot_inv (add_transaction t)"
  unfolding add_transaction_def
  by (rule ballot.keeps_exec) (clarsimp simp: ballot_inv_replace_transaction)

lemma ballot_keeps_add_vote: "db_keeps ballot_inv (add_vote v)"
  unfolding add_vote_def
proof (rule ballot.keeps_exec)
  fix p q
  assume "ballot_inv p" and
    "(if foreign_keys p \<and> vote_txid v \<notin> tr_txid ` set (transactions p) then Inl ForeignKeyViolation
      else Inr (p\<lparr>votes := replace_into vr_txid (vote_to_row v) (votes p)\<rparr>)) = Inr q"
  then have "vote_txid v \<in> tr_txid ` set (transactions p)"
    and q: "q = p\<lparr>votes := replace_into vr_txid (vote_to_row v) (votes p)\<rparr>" and "ballot_inv p"
    by (auto simp: ballot_inv_def split: if_splits)
  then show "ballot_inv q"
    unfolding ballot_inv_def
    by (simp add: keys_replace_into distinct_replace_into list_all_replace_into insert_absorb)
qed

lemma config_keeps_ballot_ops:
  "db_keeps (config_inv K) (add_transaction t)" "db_keeps (config_inv K) (add_vote v)"
  unfolding add_transaction_def add_vote_def
  by (rule cfg.keeps_exec; auto simp: config_inv_def replace_transaction_row_def split: if_splits)+

lemma db_inv_keepsI:
  assumes "db_keeps (config_inv K) m" and "db_keeps ballot_inv m"
  shows "db_keeps (db_inv K) m"
  using assms by (simp add: db_keeps_def db_inv_def)

lemma db_inv_keeps:
  "db_keeps (db_inv K) (add_transaction t)" "db_keeps (db_inv K) (add_vote v)"
  by (intro db_inv_keepsI config_keeps_ballot_ops ballot_keeps_add_transaction ballot_keeps_add_vote)+

lemma db_inv_keeps_update_config: "codec_ok K \<Longrightarrow> db_keeps (db_inv K) (update_config K c)"
  by (intro db_inv_keepsI config_inv_update config_keeps_ballot)

lemma db_inv_empty: "db_inv K empty_pool"
  by (simp add: db_inv_def config_inv_def ballot_inv_def empty_pool_def)

section \<open>Round trips\<close>

lemma update_config_no_fault:
  assumes "faults p = []"
  shows "update_config K c p = (Ok (), p
     \<lparr>config_table := replace_into cr_id
        \<lparr>cr_id = 1, cr_secret_key = secret_to_hex K (secret_key c),
         cr_auto_approve_max_amount = as_i64 (auto_approve_max_amount c),
         cr_delegate_public_key = public_to_string K (delegate_public_key c)\<rparr> (config_table p),
      delegator_table := fold (\<lambda>k. replace_into id (public_to_string K k)) (delegator_public_keys c) (delegator_table p),
      deny_table := fold (replace_into id) (auto_deny_addresses c) (deny_table p)\<rparr>)"
proof -
  have keys: "db_for (insert_delegator K) ks q =
      (Ok (), q\<lparr>delegator_table := fold (\<lambda>k. replace_into id (public_to_string K k)) ks (delegator_table q)\<rparr>)"
    if "faults q = []" for ks q
    using that by (induction ks arbitrary: q) (simp_all add: insert_delegator_def db_bind_def)
  have deny: "db_for insert_deny as q = (Ok (), q\<lparr>deny_table := fold (replace_into id) as (deny_table q)\<rparr>)"
    if "faults q = []" for as q
    using that by (induction as arbitrary: q) (simp_all add: insert_deny_def db_bind_def)
  show ?thesis
    using assms by (simp add: update_config_def insert_config_row_def db_bind_def keys deny)
qed

lemma set_fold_replace_into: "set (fold (\<lambda>k. replace_into id (f k)) ks xs) = f ` set ks \<union> set xs"
  by (induction ks arbitrary: xs) (auto simp: set_replace_into)

lemma fold_replace_into_fresh:
  "distinct (map f ks) \<Longrightarrow> f ` set ks \<inter> set xs = {} \<Longrightarrow> fold (\<lambda>k. replace_into id (f k)) ks xs = xs @ map f ks"
proof (induction ks arbitrary: xs)
  case (Cons k ks)
  then have "filter (\<lambda>r'. r' \<noteq> f k) xs = xs" by (auto intro: filter_True)
  then show ?case using Cons by (simp add: replace_into_def image_iff)
qed simp

lemma get_config_no_fault:
  assumes "faults p = []" and "config_table p = r # rs" and "hex_to_bytes K (cr_secret_key r) = Some bs"
    and "secret_from_slice K bs = Some sk" and "public_from_str K (cr_delegate_public_key r) = Some pk"
    and "collect (map (\<lambda>s. ok_or DbSecp256k1Error (public_from_str K s)) (delegator_table p)) = Ok ks"
  shows "get_config K p = (Ok \<lparr>secret_key = sk, auto_approve_max_amount = as_u64 (cr_auto_approve_max_amount r),
      delegate_public_key = pk, delegator_public_keys = ks, auto_deny_addresses = deny_table p\<rparr>, p)"
  using assms
  by (simp add: get_config_def get_delegator_public_keys_def get_auto_deny_addresses_def db_bind_def)

lemma config_table_replace:
  assumes "config_inv K p" and "cr_id r = 1"
  shows "replace_into cr_id r (config_table p) = [r]"
  using assms by (auto simp: config_inv_def config_row_ok_def list_all_iff replace_into_def filter_empty_conv)

text \<open>The keys of a list of texts.\<close>

abbreviation parse_keys :: "('sk, 'pk) key_codec \<Rightarrow> string list \<Rightarrow> (db_error, 'pk list) outcome" where
  "parse_keys K xs \<equiv> collect (map (\<lambda>s. ok_or DbSecp256k1Error (public_from_str K s)) xs)"

lemma parse_keys_set:
  "parse_keys K xs = Ok ks \<Longrightarrow> set ks = {pk. \<exists>s \<in> set xs. public_from_str K s = Some pk}"
  by (induction xs arbitrary: ks) (auto simp: obind_Ok_iff)

lemma parse_keys_total: "\<forall>s \<in> set xs. public_from_str K s \<noteq> None \<Longrightarrow> \<exists>ks. parse_keys K xs = Ok ks"
  by (induction xs) auto

lemma get_config_updated:
  assumes "codec_ok K" and "config_inv K p" and "faults p = []"
    and "parse_keys K (fold (\<lambda>k. replace_into id (public_to_string K k)) (delegator_public_keys c) (delegator_table p))
      = Ok ks"
  shows "fst (get_config K (snd (update_config K c p))) = Ok
     \<lparr>secret_key = secret_key c, auto_approve_max_amount = auto_approve_max_amount c,
      delegate_public_key = delegate_public_key c, delegator_public_keys = ks,
      auto_deny_addresses = fold (replace_into id) (auto_deny_addresses c) (deny_table p)\<rparr>"
proof -
  obtain bs where bs: "hex_to_bytes K (secret_to_hex K (secret_key c)) = Some bs"
      "secret_from_slice K bs = Some (secret_key c)"
    and pk: "public_from_str K (public_to_string K (delegate_public_key c)) = Some (delegate_public_key c)"
    using assms(1) by (auto simp: codec_ok_def)
  show ?thesis
    using assms(3,4) bs pk config_table_replace [OF assms(2)]
    by (simp add: update_config_no_fault get_config_no_fault)
qed

lemma get_config_Ok_lists:
  assumes "faults p = []" and "fst (get_config K p) = Ok c"
  shows "parse_keys K (delegator_table p) = Ok (delegator_public_keys c)" and "auto_deny_addresses c = deny_table p"
proof -
  obtain r rs where r: "config_table p = r # rs"
    using assms by (cases "config_table p") (auto simp: get_config_def db_bind_def)
  obtain bs sk pk ks where "hex_to_bytes K (cr_secret_key r) = Some bs" "secret_from_slice K bs = Some sk"
    "public_from_str K (cr_delegate_public_key r) = Some pk" and ks: "parse_keys K (delegator_table p) = Ok ks"
    using assms r
    by (auto simp: get_config_def get_delegator_public_keys_def db_bind_def split: option.splits outcome.splits
        elim!: ok_or.elims)
  from get_config_no_fault [OF assms(1) r this] assms(2) ks
  show "parse_keys K (delegator_table p) = Ok (delegator_public_keys c)" "auto_deny_addresses c = deny_table p"
    by auto
qed

section \<open>A concrete database\<close>

definition demo_keys :: "(bool, bool) key_codec" where
  "demo_keys =
     \<lparr>secret_to_hex = (\<lambda>b. if b then ''01'' else ''00''),
      hex_to_bytes = (\<lambda>s. if s = ''01'' then Some [1] else if s = ''00'' then Some [0] else None),
      secret_from_slice = (\<lambda>bs. if bs = [1] then Some True else if bs = [0] then Some False else None),
      from_secret = (\<lambda>b. b),
      public_to_string = (\<lambda>b. if b then ''03'' else ''02''),
      public_from_str = (\<lambda>s. if s = ''03'' then Some True else if s = ''02'' then Some False else None)\<rparr>"

lemma demo_keys_ok: "codec_ok demo_keys"
  by (simp add: codec_ok_def demo_keys_def)

definition demo_pool :: pool where
  "demo_pool =
     \<lparr>config_table = [\<lparr>cr_id = 1, cr_secret_key = ''01'', cr_auto_approve_max_amount = 7, cr_delegate_public_key = ''03''\<rparr>],
      delegator_table = [''02''], deny_table = [''eve''],
      transactions = [tx_to_row Transaction_default], votes = [empty_vote_row (tx_txid Transaction_default)],
      foreign_keys = True, faults = []\<rparr>"

lemma demo_pool_inv: "db_inv demo_keys demo_pool"
  by (simp add: db_inv_def config_inv_def config_row_ok_def ballot_inv_def demo_pool_def demo_keys_def)
    (rule exI [of _ False], simp)

lemma demo_pool_no_faults: "faults demo_pool = []"
  by (simp add: demo_pool_def)

lemma demo_pool_vote:
  "get_vote_by_id (tx_txid Transaction_default) demo_pool = (vote_from_row (empty_vote_row (tx_txid Transaction_default)), demo_pool)"
  using demo_pool_no_faults by (simp add: get_vote_no_fault demo_pool_def)

definition demo_config :: "(bool, bool) SignerConfig" where
  "demo_config = \<lparr>secret_key = False, auto_approve_max_amount = 10, delegate_public_key = True,
     delegator_public_keys = [True], auto_deny_addresses = [''bob'']\<rparr>"

lemma demo_pool_config:
  "fst (get_config demo_keys demo_pool) = Ok \<lparr>secret_key = True, auto_approve_max_amount = 7,
     delegate_public_key = True, delegator_public_keys = [False], auto_deny_addresses = [''eve'']\<rparr>"
  by (simp add: get_config_def get_delegator_public_keys_def get_auto_deny_addresses_def db_bind_def
      demo_pool_def demo_keys_def as_u64_def)

lemma demo_pool_transactions: "map tr_txid (transactions demo_pool) = [tx_txid Transaction_default]"
  by (simp add: demo_pool_def)

text \<open>
  Updating the configuration never removes anything from the lists: afterwards the stored configuration
  has the secret key, the limit and the delegate of the new one, but its delegators and its denied
  addresses are those of the new one together with all earlier ones. A delegator or an address that
  has been entered once cannot be taken back.
\<close>

theorem update_config_accumulates:
  assumes "codec_ok K" and "config_inv K p" and "faults p = []" and "fst (get_config K p) = Ok old"
  shows "\<exists>new. fst (get_config K (snd (update_config K c p))) = Ok new
    \<and> secret_key new = secret_key c \<and> auto_approve_max_amount new = auto_approve_max_amount c
    \<and> delegate_public_key new = delegate_public_key c
    \<and> set (delegator_public_keys new) = set (delegator_public_keys c) \<union> set (delegator_public_keys old)
    \<and> set (auto_deny_addresses new) = set (auto_deny_addresses c) \<union> set (auto_deny_addresses old)"
proof -
  let ?table = "fold (\<lambda>k. replace_into id (public_to_string K k)) (delegator_public_keys c) (delegator_table p)"
  have str: "public_from_str K (public_to_string K pk) = Some pk" for pk
    using assms(1) by (simp add: codec_ok_def)
  have table: "set ?table = public_to_string K ` set (delegator_public_keys c) \<union> set (delegator_table p)"
    by (rule set_fold_replace_into)
  have "\<forall>s \<in> set (delegator_table p). public_from_str K s \<noteq> None"
    using assms(2) by (simp add: config_inv_def list_all_iff)
  then have "\<forall>s \<in> set ?table. public_from_str K s \<noteq> None"
    unfolding table using str by auto
  then obtain ks where ks: "parse_keys K ?table = Ok ks"
    using parse_keys_total by blast
  note old = get_config_Ok_lists [OF assms(3,4)]
  have "set ks = set (delegator_public_keys c) \<union> set (delegator_public_keys old)"
    unfolding parse_keys_set [OF ks] parse_keys_set [OF old(1)] table using str by auto
  moreover have "set (fold (replace_into id) (auto_deny_addresses c) (deny_table p))
      = set (auto_deny_addresses c) \<union> set (auto_deny_addresses old)"
    using set_fold_replace_into [of "\<lambda>x. x" "auto_deny_addresses c" "deny_table p"] old(2) by simp
  ultimately show ?thesis
    using get_config_updated [OF assms(1-3) ks] by simp
qed

theorem update_config_accumulates_witness:
  "\<exists>new. fst (get_config demo_keys (snd (update_config demo_keys demo_config demo_pool))) = Ok new
    \<and> \<not> secret_key new \<and> set (delegator_public_keys new) = {True, False}
    \<and> set (auto_deny_addresses new) = {''bob'', ''eve''}"
  using update_config_accumulates [OF demo_keys_ok _ demo_pool_no_faults demo_pool_config, of demo_config] demo_pool_inv
  by (auto simp: db_inv_def demo_config_def)

text \<open>
  On a new database a configuration whose delegators and denied addresses are without repetitions is read
  back as it was stored.
\<close>

theorem config_roundtrip:
  assumes "codec_ok K" and "distinct (delegator_public_keys c)" and "distinct (auto_deny_addresses c)"
  shows "fst (get_config K (snd (update_config K c empty_pool))) = Ok c"
proof -
  have inj: "inj (public_to_string K)"
    using assms(1) by (intro injI) (metis codec_ok_def option.inject)
  have keys: "fold (\<lambda>k. replace_into id (public_to_string K k)) (delegator_public_keys c) []
      = map (public_to_string K) (delegator_public_keys c)"
    using assms(2) inj by (subst fold_replace_into_fresh) (auto simp: distinct_map intro: inj_on_subset)
  have deny: "fold (replace_into id) (auto_deny_addresses c) [] = auto_deny_addresses c"
    using fold_replace_into_fresh [of "\<lambda>x. x" "auto_deny_addresses c" "[]"] assms(3) by simp
  have "parse_keys K (map (public_to_string K) (delegator_public_keys c)) = Ok (delegator_public_keys c)"
    using assms(1) by (simp add: codec_ok_def o_def)
  then show ?thesis
    using get_config_updated [OF assms(1), of empty_pool c] db_inv_empty [of K]
    by (simp add: db_inv_def empty_pool_def keys deny)
qed

theorem config_roundtrip_witness:
  "fst (get_config demo_keys (snd (update_config demo_keys demo_config empty_pool))) = Ok demo_config"
  using config_roundtrip [OF demo_keys_ok, of demo_config] by (simp add: demo_config_def)

text \<open>
  A stored transaction is read back without its addresses: all three come back as empty bitcoin
  addresses. Its vote is the initial pending one, even when a vote had been cast for the transaction
  before it was stored again; votes of other transactions stay.
\<close>

theorem add_transaction_effect:
  assumes "ballot_inv p" and "faults p = []"
  shows "fst (get_transaction_by_id (tx_txid t) (snd (add_transaction t p))) = Ok (without_addresses t)
    \<and> fst (get_vote_by_id (tx_txid t) (snd (add_transaction t p))) = Ok
        \<lparr>vote_txid = tx_txid t,
         vote_tally = \<lparr>target_consensus = 70, current_consensus = 0, vote_status = PendingVotes\<rparr>,
         vote_choice = None, vote_mechanism = Manual\<rparr>
    \<and> (\<forall>u. u \<noteq> tx_txid t \<longrightarrow> fst (get_vote_by_id u (snd (add_transaction t p))) = fst (get_vote_by_id u p))"
proof -
  let ?q = "replace_transaction_row (tx_to_row t) p"
  have q: "add_transaction t p = (Ok (), ?q)" and f: "faults ?q = []"
    using assms(2) by (simp_all add: add_transaction_def replace_transaction_row_def)
  have "filter (\<lambda>r. tr_txid r = tx_txid t) (transactions ?q) = [tx_to_row t]"
    using filter_replace_into [of tr_txid "tx_to_row t"] by (simp add: replace_transaction_row_def)
  then have tx: "fst (get_transaction_by_id (tx_txid t) ?q) = Ok (without_addresses t)"
    using f by (simp add: get_transaction_by_id_def db_bind_def)
  have votes: "votes ?q = filter (\<lambda>v. vr_txid v \<noteq> tx_txid t) (votes p) @ [empty_vote_row (tx_txid t)]"
    using votes_replace_transaction [OF assms(1), of "tx_to_row t"] by simp
  then have "filter (\<lambda>v. vr_txid v = tx_txid t) (votes ?q) = [empty_vote_row (tx_txid t)]"
    by (auto simp: filter_empty_conv)
  then have own: "fst (get_vote_by_id (tx_txid t) ?q) = vote_from_row (empty_vote_row (tx_txid t))"
    using f by (simp add: get_vote_no_fault)
  have "fst (get_vote_by_id u ?q) = fst (get_vote_by_id u p)" if "u \<noteq> tx_txid t" for u
  proof -
    have "filter (\<lambda>v. vr_txid v = u) (votes ?q) = filter (\<lambda>v. vr_txid v = u) (votes p)"
      unfolding votes using that by (auto intro!: filter_cong)
    then show ?thesis using f assms(2) by (simp add: get_vote_no_fault)
  qed
  with tx own q show ?thesis by simp
qed

theorem add_transaction_effect_witness:
  "fst (get_transaction_by_id (tx_txid Transaction_default) (snd (add_transaction Transaction_default demo_pool)))
    = Ok (without_addresses Transaction_default)
   \<and> transaction_credit_address Transaction_default \<noteq> transaction_credit_address (without_addresses Transaction_default)"
  using add_transaction_effect [of demo_pool Transaction_default] demo_pool_inv demo_pool_no_faults
  by (simp add: db_inv_def) (simp add: Transaction_default_def without_addresses_def)

end
