(* ===== verification/SignerApi.thy ===== *)
theory SignerApi
  imports SignerDb
begin

text \<open>
  The routes of the signer's API (\<^verbatim>\<open>stacks-signer-api/src/routes\<close>) and the setup of its server
  (\<^verbatim>\<open>main.rs\<close>). A handler takes the database to a reply and the database afterwards. What a route
  accepts of a request is decided by its method, its path and the decoders of bodies and queries, which
  are parameters; a request that no route accepts is rejected.

  \<open>vote\<close> is written in two halves, before and after the point where it waits for the database between reading
  and writing; \<open>vote_step\<close> interleaves the halves of concurrent requests.
\<close>

section \<open>Replies and pages\<close>

datatype StatusCode = OK | BAD_REQUEST | FORBIDDEN | NOT_FOUND | CONFLICT | INTERNAL_SERVER_ERROR

datatype ('sk, 'pk) body =
    NoBody
  | ConfigJson "('sk, 'pk) SignerConfig"
  | TransactionJson TransactionResponse
  | TransactionsJson "TransactionResponse list"
  | VoteJson VoteResponse

datatype ('sk, 'pk) reply = Reply (reply_status: StatusCode) (reply_body: "('sk, 'pk) body")

record TransactionQuery =
  q_page :: "u64 option"
  q_limit :: "u64 option"
  q_status :: "VoteStatus option"

definition paginate_items :: "'a list \<Rightarrow> u64 option \<Rightarrow> u64 option \<Rightarrow> 'a list" where
  "paginate_items items page limit =
     (let page = unwrap_or 1 page;
          limit = unwrap_or (- 1) limit;
          len = of_nat (length items);
          start_index = min len ((page - 1) * limit);
          end_index = min len (start_index + limit)
      in drop (unat (min start_index end_index)) (take (unat end_index) items))"

section \<open>Handlers\<close>

definition update_config_handler ::
  "('sk, 'pk) key_codec \<Rightarrow> ('sk, 'pk) SignerConfig \<Rightarrow> pool \<Rightarrow> ('sk, 'pk) reply \<times> pool" where
  "update_config_handler K c p =
     (let (r, q) = update_config K c p in (Reply (if is_ok r then OK else NOT_FOUND) NoBody, q))"

definition get_config_handler :: "('sk, 'pk) key_codec \<Rightarrow> pool \<Rightarrow> ('sk, 'pk) reply \<times> pool" where
  "get_config_handler K p =
     (case get_config K p of
        (Ok c, q) \<Rightarrow> (Reply OK (ConfigJson c), q)
      | (_, q) \<Rightarrow> (Reply NOT_FOUND NoBody, q))"

definition tx_response :: "Transaction \<Rightarrow> Vote \<Rightarrow> TransactionResponse" where
  "tx_response tx v =
     \<lparr>tr_transaction = tx, tr_vote_tally = vote_tally v, tr_vote_choice = vote_choice v,
      tr_vote_mechanism = vote_mechanism v\<rparr>"

definition get_transaction_by_id_handler :: "string \<Rightarrow> pool \<Rightarrow> ('sk, 'pk) reply \<times> pool" where
  "get_transaction_by_id_handler t p =
     (case get_transaction_by_id t p of
        (Ok tx, q) \<Rightarrow>
          (case get_vote_by_id t q of
             (Ok v, q') \<Rightarrow> (Reply OK (TransactionJson (tx_response tx v)), q')
           | (_, q') \<Rightarrow> (Reply INTERNAL_SERVER_ERROR NoBody, q'))
      | (_, q) \<Rightarrow> (Reply NOT_FOUND NoBody, q))"

text \<open>The loop over the transactions; nothing when a vote is missing.\<close>

fun filter_transactions ::
  "VoteStatus option \<Rightarrow> Transaction list \<Rightarrow> TransactionResponse list \<Rightarrow> pool
    \<Rightarrow> TransactionResponse list option \<times> pool" where
  "filter_transactions st [] acc p = (Some acc, p)"
| "filter_transactions st (tx # txs) acc p =
     (case get_vote_by_id (tx_txid tx) p of
        (Ok v, q) \<Rightarrow>
          filter_transactions st txs
            (case st of
               Some s \<Rightarrow> if vote_status (vote_tally v) = s then acc @ [tx_response tx v] else acc
             | None \<Rightarrow> acc @ [tx_response tx v]) q
      | (_, q) \<Rightarrow> (None, q))"

definition get_transactions_handler :: "TransactionQuery \<Rightarrow> pool \<Rightarrow> ('sk, 'pk) reply \<times> pool" where
  "get_transactions_handler query p =
     (if q_page query = Some 0 then (Reply BAD_REQUEST NoBody, p)
      else
        (case get_transactions p of
           (Ok txs, q) \<Rightarrow>
             (case filter_transactions (q_status query) txs [] q of
                (Some rs, q') \<Rightarrow> (Reply OK (TransactionsJson (paginate_items rs (q_page query) (q_limit query))), q')
              | (None, q') \<Rightarrow> (Reply INTERNAL_SERVER_ERROR NoBody, q'))
         | (_, q) \<Rightarrow> (Reply INTERNAL_SERVER_ERROR NoBody, q)))"

definition vote_load :: "VoteRequest \<Rightarrow> pool \<Rightarrow> (('sk, 'pk) reply + Vote) \<times> pool" where
  "vote_load req p =
     (case get_vote_by_id (vq_txid req) p of
        (Ok v, q) \<Rightarrow>
          (if vote_choice v \<noteq> None then Inl (Reply CONFLICT NoBody)
           else if vote_status (vote_tally v) \<noteq> PendingVotes then Inl (Reply FORBIDDEN NoBody)
           else Inr v, q)
      | (_, q) \<Rightarrow> (Inl (Reply NOT_FOUND NoBody), q))"

definition vote_cast :: "VoteRequest \<Rightarrow> Vote \<Rightarrow> Vote" where
  "vote_cast req v =
     v\<lparr>vote_choice := Some (vq_vote_choice req),
       vote_tally := vote_tally v\<lparr>current_consensus := current_consensus (vote_tally v) + 1\<rparr>\<rparr>"

definition vote_store :: "VoteRequest \<Rightarrow> Vote \<Rightarrow> pool \<Rightarrow> ('sk, 'pk) reply \<times> pool" where
  "vote_store req v p =
     (let v' = vote_cast req v; (r, q) = add_vote v' p
      in (if is_ok r
          then Reply OK (VoteJson \<lparr>vp_vote_choice = vq_vote_choice req, vp_vote_tally = vote_tally v'\<rparr>)
          else Reply INTERNAL_SERVER_ERROR NoBody, q))"

definition vote_handler :: "VoteRequest \<Rightarrow> pool \<Rightarrow> ('sk, 'pk) reply \<times> pool" where
  "vote_handler req p =
     (case vote_load req p of
        (Inl rep, q) \<Rightarrow> (rep, q)
      | (Inr v, q) \<Rightarrow> vote_store req v q)"

section \<open>Routes\<close>

datatype http_method = GET | POST | OtherMethod

record http_request =
  hq_method :: http_method
  hq_path :: "string list"
  hq_query :: string
  hq_content_length :: "u64 option"
  hq_body :: string

record ('sk, 'pk) decoders =
  config_from_json :: "string \<Rightarrow> ('sk, 'pk) SignerConfig option"
  vote_from_json :: "string \<Rightarrow> VoteRequest option"
  query_from_str :: "string \<Rightarrow> TransactionQuery option"

definition json_body :: "(string \<Rightarrow> 'a option) \<Rightarrow> http_request \<Rightarrow> 'a option" where
  "json_body decode rq =
     (case hq_content_length rq of
        None \<Rightarrow> None
      | Some n \<Rightarrow> if n \<le> 1024 * 16 then decode (hq_body rq) else None)"

definition update_config_route ::
  "('sk, 'pk) key_codec \<Rightarrow> ('sk, 'pk) decoders \<Rightarrow> http_request \<Rightarrow> (pool \<Rightarrow> ('sk, 'pk) reply \<times> pool) option" where
  "update_config_route K D rq =
     (if hq_method rq = POST \<and> hq_path rq = [''v1'', ''config'']
      then map_option (update_config_handler K) (json_body (config_from_json D) rq) else None)"

definition get_config_route ::
  "('sk, 'pk) key_codec \<Rightarrow> http_request \<Rightarrow> (pool \<Rightarrow> ('sk, 'pk) reply \<times> pool) option" where
  "get_config_route K rq =
     (if hq_method rq = GET \<and> hq_path rq = [''v1'', ''config''] then Some (get_config_handler K) else None)"

definition get_transactions_route ::
  "('sk, 'pk) decoders \<Rightarrow> http_request \<Rightarrow> (pool \<Rightarrow> ('sk, 'pk) reply \<times> pool) option" where
  "get_transactions_route D rq =
     (if hq_method rq = GET \<and> hq_path rq = [''v1'', ''transactions'']
      then map_option get_transactions_handler (query_from_str D (hq_query rq)) else None)"

definition get_transaction_by_id_route :: "http_request \<Rightarrow> (pool \<Rightarrow> ('sk, 'pk) reply \<times> pool) option" where
  "get_transaction_by_id_route rq =
     (case hq_path rq of
        [v, ts, t] \<Rightarrow>
          if hq_method rq = GET \<and> v = ''v1'' \<and> ts = ''transactions'' then Some (get_transaction_by_id_handler t)
          else None
      | _ \<Rightarrow> None)"

text \<open>The vote that a request asks for, if it is one for \<^verbatim>\<open>/v1/vote\<close>.\<close>

definition vote_request_of :: "('sk, 'pk) decoders \<Rightarrow> http_request \<Rightarrow> VoteRequest option" where
  "vote_request_of D rq =
     (if hq_method rq = POST \<and> hq_path rq = [''v1'', ''vote''] then json_body (vote_from_json D) rq else None)"

definition vote_route ::
  "('sk, 'pk) decoders \<Rightarrow> http_request \<Rightarrow> (pool \<Rightarrow> ('sk, 'pk) reply \<times> pool) option" where
  "vote_route D rq = map_option vote_handler (vote_request_of D rq)"

text \<open>The first route that accepts the request.\<close>

fun first_some :: "'a option list \<Rightarrow> 'a option" where
  "first_some [] = None"
| "first_some (None # xs) = first_some xs"
| "first_some (Some x # xs) = Some x"

definition all_routes ::
  "('sk, 'pk) key_codec \<Rightarrow> ('sk, 'pk) decoders \<Rightarrow> http_request \<Rightarrow> (pool \<Rightarrow> ('sk, 'pk) reply \<times> pool) option" where
  "all_routes K D rq =
     first_some [update_config_route K D rq, get_config_route K rq, get_transactions_route D rq,
       get_transaction_by_id_route rq, vote_route D rq]"

definition serve ::
  "('sk, 'pk) key_codec \<Rightarrow> ('sk, 'pk) decoders \<Rightarrow> http_request \<Rightarrow> pool \<Rightarrow> ('sk, 'pk) reply option \<times> pool" where
  "serve K D rq p =
     (case all_routes K D rq of
        None \<Rightarrow> (None, p)
      | Some h \<Rightarrow> (let (rep, q) = h p in (Some rep, q)))"

text \<open>The server on requests that come one after the other.\<close>

fun serve_all ::
  "('sk, 'pk) key_codec \<Rightarrow> ('sk, 'pk) decoders \<Rightarrow> http_request list \<Rightarrow> pool \<Rightarrow> ('sk, 'pk) reply option list \<times> pool" where
  "serve_all K D [] p = ([], p)"
| "serve_all K D (rq # rqs) p =
     (let (rep, q) = serve K D rq p; (reps, q') = serve_all K D rqs q in (rep # reps, q'))"

section \<open>Setup of the server\<close>

datatype run_error =
    NoDatabaseAndNoConfig
  | ConfigLoadFailed config_error
  | NoConfigInDatabase
  | PoolFailed db_error
  | StartDatabaseError db_error

fun lift_err :: "('e \<Rightarrow> 'f) \<Rightarrow> ('e, 'a) outcome \<times> 's \<Rightarrow> ('f, 'a) outcome \<times> 's" where
  "lift_err f (r, s) = (map_err f r, s)"

definition verify_config ::
  "('sk, 'pk) key_codec \<Rightarrow> (string \<Rightarrow> (config_error, ('sk, 'pk) SignerConfig) outcome) \<Rightarrow> string option
    \<Rightarrow> string option \<Rightarrow> pool \<Rightarrow> (run_error, unit) outcome \<times> pool" where
  "verify_config K from_path database_url config_path p =
     (if database_url = None \<and> config_path = None then (Err NoDatabaseAndNoConfig, p)
      else
        (case config_path of
           Some path \<Rightarrow>
             (case from_path path of
                Ok c \<Rightarrow> lift_err StartDatabaseError (update_config K c p)
              | Err e \<Rightarrow> (Err (ConfigLoadFailed e), p)
              | Panic \<Rightarrow> (Panic, p))
         | None \<Rightarrow>
             (case get_config K p of
                (Ok c, q) \<Rightarrow> (Ok (), q)
              | (_, q) \<Rightarrow> (Err NoConfigInDatabase, q))))"

text \<open>The command \<^verbatim>\<open>run\<close>: the pool, the check of the configuration, then the requests.\<close>

definition run_command ::
  "('sk, 'pk) key_codec \<Rightarrow> ('sk, 'pk) decoders \<Rightarrow> (string \<Rightarrow> (config_error, ('sk, 'pk) SignerConfig) outcome)
    \<Rightarrow> (string \<Rightarrow> pool option) \<Rightarrow> (pool \<Rightarrow> bool) \<Rightarrow> string option \<Rightarrow> string option \<Rightarrow> http_request list
    \<Rightarrow> (run_error, ('sk, 'pk) reply option list \<times> pool) outcome" where
  "run_command K D from_path connect migrates database_url config_path rqs =
     obind (map_err PoolFailed (init_pool connect migrates database_url)) (\<lambda>p.
       case verify_config K from_path database_url config_path p of
         (Ok _, q) \<Rightarrow> Ok (serve_all K D rqs q)
       | (Err e, q) \<Rightarrow> Err e
       | (Panic, q) \<Rightarrow> Panic)"

subsection \<open>Simulated data\<close>

text \<open>The numbers drawn for one transaction and its vote.\<close>

record draws =
  d_mechanism :: nat
  d_status :: nat
  d_consensus :: "u64 \<Rightarrow> u64 \<Rightarrow> u64"
  d_choice :: nat
  d_kind :: nat
  d_block_height :: "u64 option"
  d_deadline :: u64
  d_amount :: u64
  d_fees :: u64

definition generate_vote :: "draws \<Rightarrow> string \<Rightarrow> Vote" where
  "generate_vote d txid =
     (let mechanism = if d_mechanism d = 0 then Auto else Manual;
          (status, consensus) =
            (if d_status d = 0 then (PendingVotes, d_consensus d 1 55)
             else if d_status d = 1 then (Approved, d_consensus d 70 100)
             else if d_status d = 2 then (Rejected, d_consensus d 70 100)
             else (NoConsensus, d_consensus d 1 69));
          choice =
            (if mechanism = Auto then (if d_choice d = 0 then Some Approve else Some Reject)
             else if d_choice d = 0 then Some Approve
             else if d_choice d = 1 then Some Reject
             else None)
      in \<lparr>vote_txid = txid,
          vote_tally = \<lparr>target_consensus = 70, current_consensus = consensus, vote_status = status\<rparr>,
          vote_choice = choice, vote_mechanism = mechanism\<rparr>)"

definition generate_transaction :: "(bytes \<Rightarrow> string) \<Rightarrow> draws \<Rightarrow> nat \<Rightarrow> Transaction" where
  "generate_transaction hex_encode d i =
     \<lparr>tx_txid = hex_encode (replicate 32 (of_nat i)),
      transaction_kind = (if d_kind d = 0 then DepositReveal else if d_kind d = 1 then WithdrawalReveal
        else if d_kind d = 2 then WithdrawalFulfill else WalletHandoff),
      transaction_block_height = d_block_height d,
      transaction_deadline_block_height = unwrap_or 0 (d_block_height d) + d_deadline d,
      transaction_amount = d_amount d, transaction_fees = d_fees d, tx_memo = [],
      transaction_originator_address = Bitcoin ''originator'',
      transaction_debit_address = Bitcoin ''escrow bitcoin wallet'',
      transaction_credit_address = Stacks ''sBTC protocol address''\<rparr>"

definition generate_txs_votes :: "(bytes \<Rightarrow> string) \<Rightarrow> (nat \<Rightarrow> draws) \<Rightarrow> Transaction list \<times> Vote list" where
  "generate_txs_votes hex_encode rng =
     (let txs = map (\<lambda>i. generate_transaction hex_encode (rng i) i) [0..<10]
      in (txs, map (\<lambda>i. generate_vote (rng i) (tx_txid (generate_transaction hex_encode (rng i) i))) [0..<10]))"

text \<open>The database on which the simulator serves.\<close>

definition simulator_pool ::
  "('sk, 'pk) key_codec \<Rightarrow> ('sk, 'pk) SignerConfig \<Rightarrow> (bytes \<Rightarrow> string) \<Rightarrow> (nat \<Rightarrow> draws) \<Rightarrow> unit db" where
  "simulator_pool K c hex_encode rng =
     (let (txs, vs) = generate_txs_votes hex_encode rng
      in db_bind (update_config K c) (\<lambda>_. db_bind (db_for add_transaction txs) (\<lambda>_. db_for add_vote vs)))"

definition TEST_SECRET_KEY :: string where
  "TEST_SECRET_KEY = ''26F85CE8B2C635AD92F6148E4443FE415F512F3F29F44AB0E2CBDA819295BBD5''"

text \<open>The command \<^verbatim>\<open>simulator\<close>: a new configuration from the test key, the simulated data, then the requests.\<close>

definition run_simulator ::
  "('sk, 'pk) key_codec \<Rightarrow> ('sk, 'pk) decoders \<Rightarrow> (bytes \<Rightarrow> string) \<Rightarrow> (nat \<Rightarrow> draws) \<Rightarrow> (string \<Rightarrow> pool option)
    \<Rightarrow> (pool \<Rightarrow> bool) \<Rightarrow> string option \<Rightarrow> http_request list \<Rightarrow> (run_error, ('sk, 'pk) reply option list \<times> pool) outcome" where
  "run_simulator K D hex_encode rng connect migrates database_url rqs =
     obind (map_err PoolFailed (init_pool connect migrates database_url)) (\<lambda>p.
     obind (map_err ConfigLoadFailed (SignerConfig_from_secret_key K TEST_SECRET_KEY)) (\<lambda>c.
       case simulator_pool K c hex_encode rng p of
         (Ok _, q) \<Rightarrow> Ok (serve_all K D rqs q)
       | (Err e, q) \<Rightarrow> Err (StartDatabaseError e)
       | (Panic, q) \<Rightarrow> Panic))"

section \<open>Concurrent votes\<close>

text \<open>The tasks that handle vote requests: not started, between the two halves, replied.\<close>

datatype ('sk, 'pk) vote_task =
    Waiting VoteRequest
  | Loaded VoteRequest Vote
  | Replied VoteRequest "('sk, 'pk) reply"

inductive vote_step ::
  "('sk, 'pk) vote_task list \<times> pool \<Rightarrow> ('sk, 'pk) vote_task list \<times> pool \<Rightarrow> bool" where
  refuse: "i < length ts \<Longrightarrow> ts ! i = Waiting req \<Longrightarrow> vote_load req p = (Inl rep, q)
    \<Longrightarrow> vote_step (ts, p) (ts[i := Replied req rep], q)"
| load: "i < length ts \<Longrightarrow> ts ! i = Waiting req \<Longrightarrow> vote_load req p = (Inr v :: ('sk, 'pk) reply + Vote, q)
    \<Longrightarrow> vote_step (ts, p) (ts[i := Loaded req v], q)"
| store: "i < length ts \<Longrightarrow> ts ! i = Loaded req v \<Longrightarrow> vote_store req v p = (rep, q)
    \<Longrightarrow> vote_step (ts, p) (ts[i := Replied req rep], q)"

inductive_cases vote_stepE: "vote_step (ts, p) s"

section \<open>Pages\<close>

lemma unat_of_length: "length xs < 2 ^ 63 \<Longrightarrow> unat (of_nat (length xs) :: u64) = length xs"
  by (simp add: unat_of_nat)

text \<open>The reference: page \<open>p\<close>, counted from 1, of pages with \<open>l\<close> items.\<close>

definition page_of :: "'a list \<Rightarrow> nat \<Rightarrow> nat \<Rightarrow> 'a list" where
  "page_of items p l = take l (drop ((p - 1) * l) items)"

lemma unat_min_word: "unat (min a b) = min (unat a) (unat b)" for a b :: "'a::len word"
  by (simp add: min_def word_le_nat_alt)

lemma take_min_length: "take (min (length xs) k) xs = take k xs"
  by (cases "length xs \<le> k") simp_all

lemma paginate_items_page_of:
  fixes p l :: u64
  assumes len: "length items < 2 ^ 63" and p: "0 < p" and fits: "(unat p - 1) * unat l < 2 ^ 64"
  shows "paginate_items items (Some p) (Some l) = page_of items (unat p) (unat l)"
proof -
  let ?n = "length items" and ?s = "(unat p - 1) * unat l"
  have "unat (p - 1) = unat p - 1"
    using p by (simp add: unat_minus_one word_gt_0)
  then have s: "unat ((p - 1) * l) = ?s"
    using fits by (simp add: unat_word_ariths)
  define start where "start = min (of_nat ?n) ((p - 1) * l)"
  have start: "unat start = min ?n ?s"
    unfolding start_def unat_min_word s unat_of_length [OF len] ..
  define stop where "stop = min (of_nat ?n) (start + l)"
  have stop: "unat stop = min ?n (unat (start + l))"
    unfolding stop_def unat_min_word unat_of_length [OF len] ..
  have pag: "paginate_items items (Some p) (Some l) = drop (min (unat start) (unat stop)) (take (unat stop) items)"
    unfolding paginate_items_def Let_def unwrap_or_def option.case start_def [symmetric] stop_def [symmetric]
    by (simp only: unat_min_word)
  show ?thesis
  proof (cases "unat start + unat l < 2 ^ 64")
    case True
    then have "unat (start + l) = min ?n ?s + unat l"
      by (simp add: start unat_word_ariths)
    then have "paginate_items items (Some p) (Some l) = drop (min ?n ?s) (take (min ?n ?s + unat l) items)"
      unfolding pag stop start by (simp add: min_absorb1 take_min_length)
    also have "\<dots> = take (unat l) (drop (min ?n ?s) items)"
      by (simp add: drop_take)
    also have "drop (min ?n ?s) items = drop ?s items"
      by (cases "?n \<le> ?s") simp_all
    finally show ?thesis by (simp add: page_of_def)
  next
    case False
    have "unat p - 1 = 0 \<or> ?n \<le> ?s"
    proof (rule disjCI)
      assume "\<not> ?n \<le> ?s"
      then have "?s < 2 ^ 63" using len by simp
      moreover have "unat start \<le> ?s" using start by simp
      moreover have "x \<le> y \<Longrightarrow> z \<le> y \<Longrightarrow> y < 2 ^ 63 \<Longrightarrow> x + z < 2 ^ 64" for x y z :: nat by simp
      ultimately have "\<not> unat l \<le> ?s" using False by blast
      then show "unat p - 1 = 0" by (metis le_add1 mult_Suc not0_implies_Suc)
    qed
    then have "?n \<le> ?s"
      using False start unsigned_less [of l, where ?'a = nat] by auto
    then show ?thesis
      unfolding pag stop start page_of_def using \<open>?n \<le> ?s\<close> by simp
  qed
qed

lemma pages_partition: "concat (map (\<lambda>p. page_of items p l) [1..<Suc n]) = take (n * l) items"
proof (induction n)
  case (Suc n)
  have "take (Suc n * l) items = take (n * l) items @ page_of items (Suc n) l"
    by (simp add: page_of_def add.commute [of l] take_add)
  then show ?case using Suc.IH by simp
qed simp



text \<open>
  The start of the page is computed with wrapping multiplication: a page far behind the last one whose
  start is a multiple of \<^term>\<open>2 ^ 64 :: nat\<close> comes back as the first page instead of empty.
\<close>

theorem paginate_items_overflow:
  assumes "k * unat (l :: u64) mod 2 ^ 64 = 0" and "k < 2 ^ 64"
  shows "paginate_items items (Some (of_nat k + 1)) (Some l) = paginate_items items (Some 1) (Some l)"
proof -
  have "(of_nat k :: u64) * l = of_nat (k * unat l)" by simp
  also have "\<dots> = 0"
    using assms(1) by (simp only: word_of_nat_eq_0_iff) (simp add: mod_eq_0_iff_dvd)
  finally show ?thesis by (simp add: paginate_items_def unwrap_or_def)
qed

theorem paginate_items_overflow_witness:
  "paginate_items [1, 2, 3 :: nat] (Some (of_nat (2 ^ 63) + 1)) (Some 2) = [1, 2]"
  using paginate_items_overflow [of "2 ^ 63" 2 "[1, 2, 3 :: nat]"]
  by (simp add: paginate_items_def unwrap_or_def min_def)

section \<open>What handlers keep\<close>

lemma first_some_in: "first_some xs = Some x \<Longrightarrow> Some x \<in> set xs"
  by (induction xs rule: first_some.induct) auto

text \<open>A request that is accepted ends in one of the five handlers.\<close>

lemma all_routes_cases:
  assumes "all_routes K D rq = Some h"
  obtains (update) c where "h = update_config_handler K c"
  | (config) "h = get_config_handler K"
  | (listing) qu where "h = get_transactions_handler qu"
  | (single) t where "h = get_transaction_by_id_handler t"
  | (vote) req where "h = vote_handler req"
proof -
  from first_some_in [OF assms [unfolded all_routes_def]]
  consider "update_config_route K D rq = Some h" | "get_config_route K rq = Some h"
    | "get_transactions_route D rq = Some h" | "get_transaction_by_id_route rq = Some h" | "vote_route D rq = Some h"
    by auto
  then show ?thesis
  proof cases
    case 1
    then show ?thesis by (auto simp: update_config_route_def split: if_splits intro: update)
  next
    case 2
    then show ?thesis by (auto simp: get_config_route_def split: if_splits intro: config)
  next
    case 3
    then show ?thesis by (auto simp: get_transactions_route_def split: if_splits intro: listing)
  next
    case 4
    then show ?thesis by (auto simp: get_transaction_by_id_route_def split: if_splits list.splits intro: single)
  next
    case 5
    then show ?thesis by (auto simp: vote_route_def intro: vote)
  qed
qed

text \<open>The database part of a handler.\<close>

definition handler_keeps :: "(pool \<Rightarrow> bool) \<Rightarrow> (pool \<Rightarrow> 'r \<times> pool) \<Rightarrow> bool" where
  "handler_keeps I h \<longleftrightarrow> (\<forall>p. I p \<longrightarrow> I (snd (h p)))"

lemma handler_keepsD: "handler_keeps I h \<Longrightarrow> I p \<Longrightarrow> h p = (r, q) \<Longrightarrow> I q"
  by (metis handler_keeps_def snd_conv)

text \<open>
  An invariant of the tables that the configuration update and the writing of a vote keep is kept by the
  whole server.
\<close>

locale api_invariant = db_invariant I for I :: "pool \<Rightarrow> bool" +
  fixes K :: "('sk, 'pk) key_codec"
  assumes keeps_update_config: "db_keeps I (update_config K c)"
    and keeps_vote: "handler_keeps I (vote_handler req :: pool \<Rightarrow> ('sk, 'pk) reply \<times> pool)"
begin

lemma keeps_read:
  "I p \<Longrightarrow> get_config K p = (r1, q) \<Longrightarrow> I q"
  "I p \<Longrightarrow> get_transactions p = (r2, q) \<Longrightarrow> I q"
  "I p \<Longrightarrow> get_transaction_by_id t p = (r3, q) \<Longrightarrow> I q"
  "I p \<Longrightarrow> get_vote_by_id t p = (r4, q) \<Longrightarrow> I q"
  using keeps_reads by (metis db_keepsD snd_conv)+

lemma keeps_filter_transactions: "I p \<Longrightarrow> I (snd (filter_transactions st txs acc p))"
  by (induction st txs acc p rule: filter_transactions.induct)
    (auto split: prod.splits outcome.splits dest: keeps_read(4))

lemma keeps_get_transactions:
  assumes "I p"
  shows "I (snd (get_transactions_handler qu p))"
proof -
  obtain r q where q: "get_transactions p = (r, q)" by (cases "get_transactions p")
  then have "I q" using assms keeps_read(2) by blast
  then have "I (snd (filter_transactions (q_status qu) txs [] q))" for txs by (rule keeps_filter_transactions)
  with q assms \<open>I q\<close> show ?thesis
    by (simp add: get_transactions_handler_def split: outcome.split prod.split option.split) (metis snd_conv)
qed

lemma keeps_get_transaction_by_id: "I p \<Longrightarrow> I (snd (get_transaction_by_id_handler t p))"
  by (auto simp: get_transaction_by_id_handler_def split: prod.splits outcome.splits dest: keeps_read(3,4))

lemma keeps_get_config: "I p \<Longrightarrow> I (snd (get_config_handler K p))"
  by (auto simp: get_config_handler_def split: prod.splits outcome.splits dest: keeps_read(1))

lemma keeps_update: "I p \<Longrightarrow> I (snd (update_config_handler K c p))"
  using db_keepsD [OF keeps_update_config] by (simp add: update_config_handler_def split: prod.split) (metis snd_conv)

lemma keeps_route: "all_routes K D rq = Some h \<Longrightarrow> I p \<Longrightarrow> I (snd (h p))"
  by (cases rule: all_routes_cases, assumption)
    (use keeps_update keeps_get_config keeps_get_transactions keeps_get_transaction_by_id keeps_vote in
      \<open>auto simp: handler_keeps_def\<close>)

lemma keeps_serve: "I p \<Longrightarrow> I (snd (serve K D rq p))"
  using keeps_route by (auto simp: serve_def split: option.splits prod.splits) (metis snd_conv)

lemma keeps_serve_all: "I p \<Longrightarrow> I (snd (serve_all K D rqs p))"
proof (induction rqs arbitrary: p)
  case (Cons rq rqs)
  then show ?case using keeps_serve [of p D rq] by (auto split: prod.splits) (metis snd_conv)
qed simp

end

section \<open>Votes\<close>

text \<open>Reading leaves the tables as they are.\<close>

definition same_tables :: "pool \<Rightarrow> pool \<Rightarrow> bool" where
  "same_tables p q \<longleftrightarrow> (\<exists>fs. q = p\<lparr>faults := fs\<rparr>)"

lemma same_tables_refl [simp]: "same_tables p p"
  unfolding same_tables_def by (rule exI [of _ "faults p"]) simp

lemma same_tables_faults: "same_tables p (q\<lparr>faults := fs\<rparr>) \<longleftrightarrow> same_tables p q"
proof
  assume "same_tables p (q\<lparr>faults := fs\<rparr>)"
  then obtain gs where "q\<lparr>faults := fs\<rparr> = p\<lparr>faults := gs\<rparr>" by (auto simp: same_tables_def)
  then have "q\<lparr>faults := fs\<rparr>\<lparr>faults := faults q\<rparr> = p\<lparr>faults := gs\<rparr>\<lparr>faults := faults q\<rparr>" by (rule arg_cong)
  then have "q = p\<lparr>faults := faults q\<rparr>" by simp
  then show "same_tables p q" by (auto simp: same_tables_def)
qed (auto simp: same_tables_def)

interpretation same: db_invariant "same_tables p" for p
  by unfold_locales (rule same_tables_faults)

lemma same_tables_sel:
  assumes "same_tables p q"
  shows "votes q = votes p" "transactions q = transactions p" "foreign_keys q = foreign_keys p"
    "delegator_table q = delegator_table p" "deny_table q = deny_table p" "config_table q = config_table p"
  using assms by (auto simp: same_tables_def)

lemma get_vote_same: "get_vote_by_id t p = (r, q) \<Longrightarrow> same_tables p q"
  using db_keepsD [OF same.keeps_reads(4) same_tables_refl, of p t] by simp

lemma get_vote_Ok:
  assumes "get_vote_by_id t p = (Ok v, q)"
  obtains r where "r \<in> set (votes p)" "vr_txid r = t" "vote_from_row r = Ok v" "vote_txid v = t"
proof (cases rule: db_statement_cases [of p])
  case (ok p' fs)
  then obtain r rs where "filter (\<lambda>r. vr_txid r = t) (votes p) = r # rs" and v: "vote_from_row r = Ok v"
    using assms by (auto simp: get_vote_by_id_def fetch_one_def db_query_def db_bind_def split: list.splits)
  then have "r \<in> set (filter (\<lambda>r. vr_txid r = t) (votes p))" by simp
  then have "r \<in> set (votes p)" "vr_txid r = t" by simp_all
  moreover have "vote_txid v = vr_txid r"
    using v by (auto simp: vote_from_row_def obind_Ok_iff)
  ultimately show ?thesis using v that by simp
next
  case (fault p' fs)
  then show ?thesis using assms by (simp add: get_vote_by_id_def fetch_one_def db_query_def db_bind_def)
qed

lemma add_vote_cases:
  assumes "add_vote v p = (r, q)"
  obtains (stored) p' where "r = Ok ()" "same_tables p p'"
      "q = p'\<lparr>votes := replace_into vr_txid (vote_to_row v) (votes p)\<rparr>"
  | (failed) e where "r = Err e" "same_tables p q"
proof (cases rule: db_statement_cases [of p])
  case (ok p' fs)
  then have "same_tables p p'" by (auto simp: same_tables_def)
  with ok assms that show ?thesis
    by (auto simp: add_vote_def db_exec_def db_bind_def same_tables_sel(1) split: if_splits)
next
  case (fault p' fs)
  then have "same_tables p p'" by (auto simp: same_tables_def)
  moreover have "r = Err (SqlxError StatementFailed)" "q = p'"
    using fault(1) assms by (simp_all add: add_vote_def db_exec_def db_bind_def)
  ultimately show ?thesis using failed by simp
qed

text \<open>Either nothing changes, or the vote of the request is written over the row it was read from.\<close>

lemma vote_handler_cases:
  assumes "vote_handler req p = (rep, q)"
  obtains (cast) r v p' where "r \<in> set (votes p)" "vr_txid r = vq_txid req" "vote_from_row r = Ok v"
      "vote_txid v = vq_txid req" "vote_choice v = None" "vote_status (vote_tally v) = PendingVotes" "same_tables p p'"
      "q = p'\<lparr>votes := replace_into vr_txid (vote_to_row (vote_cast req v)) (votes p)\<rparr>"
      "rep = Reply OK (VoteJson \<lparr>vp_vote_choice = vq_vote_choice req, vp_vote_tally = vote_tally (vote_cast req v)\<rparr>)"
  | (refused) "reply_status rep \<noteq> OK" "same_tables p q"
proof -
  obtain r1 p1 where get: "get_vote_by_id (vq_txid req) p = (r1, p1)" by (cases "get_vote_by_id (vq_txid req) p")
  have same: "same_tables p p1" using get by (rule get_vote_same)
  show ?thesis
  proof (cases "\<exists>v. r1 = Ok v \<and> vote_choice v = None \<and> vote_status (vote_tally v) = PendingVotes")
    case False
    then have "reply_status rep \<noteq> OK \<and> q = p1"
      using assms get by (auto simp: vote_handler_def vote_load_def split: outcome.splits if_splits)
    then show ?thesis using same refused by simp
  next
    case True
    then obtain v where v: "r1 = Ok v" "vote_choice v = None" "vote_status (vote_tally v) = PendingVotes" by blast
    obtain r where r: "r \<in> set (votes p)" "vr_txid r = vq_txid req" "vote_from_row r = Ok v" "vote_txid v = vq_txid req"
      using get_vote_Ok get v(1) by metis
    obtain r2 p2 where add: "add_vote (vote_cast req v) p1 = (r2, p2)" by (cases "add_vote (vote_cast req v) p1")
    have rep: "rep = (if is_ok r2
        then Reply OK (VoteJson \<lparr>vp_vote_choice = vq_vote_choice req, vp_vote_tally = vote_tally (vote_cast req v)\<rparr>)
        else Reply INTERNAL_SERVER_ERROR NoBody)" and q: "q = p2"
      using assms get v add by (auto simp: vote_handler_def vote_load_def vote_store_def)
    from add show ?thesis
    proof (cases rule: add_vote_cases)
      case (stored p')
      then have "same_tables p p'" using same by (auto simp: same_tables_def)
      with stored q have "q = p'\<lparr>votes := replace_into vr_txid (vote_to_row (vote_cast req v)) (votes p)\<rparr>"
        using same_tables_sel(1) [OF same] by simp
      with r v rep stored \<open>same_tables p p'\<close> show ?thesis by (intro cast) simp_all
    next
      case (failed e)
      then have "same_tables p q" using same q by (auto simp: same_tables_def)
      with rep failed show ?thesis by (intro refused) simp_all
    qed
  qed
qed

section \<open>A vote is cast once\<close>

text \<open>The choice \<open>c\<close> is recorded for the transaction \<open>t\<close>.\<close>

definition recorded :: "string \<Rightarrow> VoteChoice \<Rightarrow> pool \<Rightarrow> bool" where
  "recorded t c p \<longleftrightarrow>
     (\<exists>r \<in> set (votes p). vr_txid r = t)
     \<and> (\<forall>r \<in> set (votes p). vr_txid r = t \<longrightarrow> vr_choice r = Some (VoteChoice_to_string c))"

lemma vote_from_row_choice:
  "vote_from_row r = Ok v \<Longrightarrow> vr_choice r = Some (VoteChoice_to_string c) \<Longrightarrow> vote_choice v = Some c"
  by (auto simp: vote_from_row_def obind_Ok_iff parse_choice_def)

lemma vr_choice_vote_cast:
  "vr_choice (vote_to_row (vote_cast req v)) = Some (VoteChoice_to_string (vq_vote_choice req))"
  by (simp add: vote_to_row_def vote_cast_def)

lemma vote_txid_vote_cast [simp]: "vote_txid (vote_cast req v) = vote_txid v"
  by (simp add: vote_cast_def)

lemma recorded_refuses:
  assumes "recorded (vq_txid req) c p" and "vote_handler req p = (rep, q)"
  shows "reply_status rep \<noteq> OK"
  using assms(2)
proof (cases rule: vote_handler_cases)
  case (cast r v p')
  then have "vote_choice v = Some c"
    using assms(1) vote_from_row_choice unfolding recorded_def by blast
  with cast(5) show ?thesis by simp
qed

lemma vote_records:
  assumes "vote_handler req p = (rep, q)" and "reply_status rep = OK"
  shows "recorded (vq_txid req) (vq_vote_choice req) q"
  using assms(1)
proof (cases rule: vote_handler_cases)
  case (cast r v p')
  then show ?thesis by (auto simp: recorded_def set_replace_into vr_choice_vote_cast)
qed (use assms(2) in simp)

lemma recorded_same: "same_tables p q \<Longrightarrow> recorded t c q \<longleftrightarrow> recorded t c p"
  by (simp add: recorded_def same_tables_sel)

lemma recorded_keeps_vote: "handler_keeps (recorded t c) (vote_handler req)"
proof -
  have "recorded t c q" if rec: "recorded t c p" and "vote_handler req p = (rep, q)"
    for p q and rep :: "('a, 'b) reply"
    using that(2)
  proof (cases rule: vote_handler_cases)
    case (cast r v p')
    then have "reply_status rep = OK" by simp
    then have "vq_txid req \<noteq> t" using recorded_refuses rec that(2) by metis
    then show ?thesis using rec cast by (auto simp: recorded_def set_replace_into)
  next
    case refused
    then show ?thesis using rec recorded_same by blast
  qed
  then show ?thesis unfolding handler_keeps_def by (metis prod.collapse)
qed

interpretation rec: db_invariant "recorded t c" for t c
  by unfold_locales (simp add: recorded_def)

lemma recorded_config_tables [simp]:
  "recorded t c (p\<lparr>config_table := x\<rparr>) = recorded t c p"
  "recorded t c (p\<lparr>delegator_table := y\<rparr>) = recorded t c p"
  "recorded t c (p\<lparr>deny_table := z\<rparr>) = recorded t c p"
  by (simp_all add: recorded_def)

lemma recorded_keeps_update_config: "db_keeps (recorded t c) (update_config K d)"
  unfolding update_config_def insert_config_row_def insert_delegator_def insert_deny_def
  by (intro rec.keeps_bind rec.keeps_for rec.keeps_exec) clarsimp+

interpretation cast: api_invariant "recorded t c" K for t c and K :: "('sk, 'pk) key_codec"
  by unfold_locales (rule recorded_keeps_update_config recorded_keeps_vote)+

lemma vote_refused_while_recorded:
  assumes "recorded t c p" and "vote_request_of D rq = Some req" and "vq_txid req = t"
  shows "map_option reply_status (fst (serve K D rq p)) \<noteq> Some OK"
proof -
  have "all_routes K D rq = Some (vote_handler req)"
    using assms(2) by (auto simp: all_routes_def update_config_route_def get_config_route_def get_transactions_route_def
        get_transaction_by_id_route_def vote_route_def vote_request_of_def split: if_splits)
  then show ?thesis
    using recorded_refuses [of req c p] assms by (auto simp: serve_def split: prod.splits)
qed

lemma serve_all_refuses:
  assumes "recorded t c p" and "i < length rqs" and "vote_request_of D (rqs ! i) = Some req" and "vq_txid req = t"
  shows "map_option reply_status (fst (serve_all K D rqs p) ! i) \<noteq> Some OK"
  using assms
proof (induction rqs arbitrary: p i)
  case (Cons rq rqs)
  show ?case
  proof (cases i)
    case 0
    then show ?thesis
      using vote_refused_while_recorded [OF Cons.prems(1), of D rq req K] Cons.prems by (simp split: prod.split)
  next
    case (Suc j)
    then show ?thesis
      using Cons.IH [OF cast.keeps_serve [OF Cons.prems(1), of K D rq], of j] Cons.prems
      by (simp split: prod.split)
  qed
qed simp

text \<open>
  C21. A vote is cast at most once while requests are handled one after the other. Once a vote for a
  transaction has been accepted, every later vote for it is refused, whatever other requests come in
  between and whichever statements on the database fail, and the recorded choice stays.
\<close>

theorem vote_cast_once:
  assumes "fst (vote_handler req p :: ('sk, 'pk) reply \<times> pool) = Reply OK b"
  shows "recorded (vq_txid req) (vq_vote_choice req)
      (snd (serve_all K D rqs (snd (vote_handler req p :: ('sk, 'pk) reply \<times> pool))))
    \<and> (\<forall>i < length rqs. \<forall>req'. vote_request_of D (rqs ! i) = Some req' \<and> vq_txid req' = vq_txid req
        \<longrightarrow> map_option reply_status
              (fst (serve_all K D rqs (snd (vote_handler req p :: ('sk, 'pk) reply \<times> pool))) ! i) \<noteq> Some OK)"
proof -
  obtain rep q where v: "(vote_handler req p :: ('sk, 'pk) reply \<times> pool) = (rep, q)"
    by (cases "vote_handler req p :: ('sk, 'pk) reply \<times> pool")
  have "rep = Reply OK b" using assms v by simp
  then have "reply_status rep = OK" by simp
  with v have "recorded (vq_txid req) (vq_vote_choice req) q" by (rule vote_records)
  then show ?thesis
    using cast.keeps_serve_all serve_all_refuses unfolding v snd_conv by blast
qed

section \<open>The tables stay sound\<close>

context db_invariant
begin

lemma keeps_vote_load: "I p \<Longrightarrow> vote_load req p = (x, q) \<Longrightarrow> I q"
  using db_keepsD [OF keeps_reads(4), of p "vq_txid req"]
  by (auto simp: vote_load_def split: prod.splits outcome.splits if_splits)

lemma keeps_vote_store: "(\<And>v. db_keeps I (add_vote v)) \<Longrightarrow> I p \<Longrightarrow> vote_store req v p = (rep, q) \<Longrightarrow> I q"
  using db_keepsD [of I "add_vote (vote_cast req v)" p]
  by (auto simp: vote_store_def Let_def split: prod.splits)

lemma keeps_vote_handler:
  assumes "\<And>v. db_keeps I (add_vote v)"
  shows "handler_keeps I (vote_handler req :: pool \<Rightarrow> ('sk, 'pk) reply \<times> pool)"
  unfolding handler_keeps_def
proof (intro allI impI)
  fix p
  assume "I p"
  obtain x q where load: "(vote_load req p :: (('sk, 'pk) reply + Vote) \<times> pool) = (x, q)"
    by (cases "vote_load req p :: (('sk, 'pk) reply + Vote) \<times> pool")
  with \<open>I p\<close> have "I q" by (rule keeps_vote_load)
  then have "I (snd (vote_store req v q :: ('sk, 'pk) reply \<times> pool))" for v
    using keeps_vote_store [OF assms] by (metis prod.collapse)
  with load \<open>I q\<close> show "I (snd (vote_handler req p :: ('sk, 'pk) reply \<times> pool))"
    by (simp add: vote_handler_def split: sum.split)
qed

end

text \<open>The tables are sound, for keys whose text forms can be read back.\<close>

definition sound_db :: "('sk, 'pk) key_codec \<Rightarrow> pool \<Rightarrow> bool" where
  "sound_db K p \<longleftrightarrow> codec_ok K \<and> db_inv K p"

interpretation sdb: db_invariant "sound_db K" for K :: "('sk, 'pk) key_codec"
  by unfold_locales (simp add: sound_db_def dbi.faults_irrelevant)

lemma sound_keeps:
  "db_keeps (sound_db K) (add_vote v)" "db_keeps (sound_db K) (add_transaction t)"
  "db_keeps (sound_db K) (update_config K c)"
  unfolding sound_db_def db_keeps_def
  using db_keepsD [OF db_inv_keeps(1)] db_keepsD [OF db_inv_keeps(2)] db_keepsD [OF db_inv_keeps_update_config] by blast+

interpretation sound: api_invariant "sound_db K" K for K :: "('sk, 'pk) key_codec"
  by unfold_locales (rule sound_keeps sdb.keeps_vote_handler)+

text \<open>Every database the server can work on: a new one, changed by its own operations and by requests.\<close>

inductive reachable_pool :: "('sk, 'pk) key_codec \<Rightarrow> ('sk, 'pk) decoders \<Rightarrow> pool \<Rightarrow> bool"
  for K :: "('sk, 'pk) key_codec" and D :: "('sk, 'pk) decoders" where
  new: "reachable_pool K D (empty_pool\<lparr>faults := fs\<rparr>)"
| config: "reachable_pool K D p \<Longrightarrow> reachable_pool K D (snd (update_config K c p))"
| transaction: "reachable_pool K D p \<Longrightarrow> reachable_pool K D (snd (add_transaction t p))"
| vote: "reachable_pool K D p \<Longrightarrow> reachable_pool K D (snd (add_vote v p))"
| request: "reachable_pool K D p \<Longrightarrow> reachable_pool K D (snd (serve K D rq p))"
| concurrent: "reachable_pool K D p \<Longrightarrow> vote_step (ts :: ('sk, 'pk) vote_task list, p) (ts', q) \<Longrightarrow> reachable_pool K D q"

lemma sound_keeps_vote_step: "vote_step (ts, p) (ts', q) \<Longrightarrow> sound_db K p \<Longrightarrow> sound_db K q"
  by (erule vote_stepE) (auto dest: sdb.keeps_vote_load sdb.keeps_vote_store [OF sound_keeps(1)])

text \<open>
  C22. However the server and its requests have changed the database, also with failing statements and
  with votes that are handled concurrently, its tables are sound: every row can be read, primary keys are
  unique, and there is exactly one vote for every transaction and none for others.
\<close>

theorem reachable_pool_sound:
  assumes "codec_ok K" and "reachable_pool K D p"
  shows "db_inv K p"
proof -
  have "sound_db K p"
    using assms(2)
  proof (induction rule: reachable_pool.induct)
    case (new fs)
    then show ?case using assms(1) by (simp add: sound_db_def db_inv_empty dbi.faults_irrelevant)
  next
    case (concurrent p ts ts' q)
    then show ?case using sound_keeps_vote_step by blast
  qed (auto intro: db_keepsD [OF sound_keeps(1)] db_keepsD [OF sound_keeps(2)] db_keepsD [OF sound_keeps(3)]
      sound.keeps_serve)
  then show ?thesis by (simp add: sound_db_def)
qed

text \<open>The simulator's database is one of them, whatever is drawn.\<close>

lemma simulator_pool_sound: "db_keeps (sound_db K) (simulator_pool K c hex_encode rng)"
  unfolding simulator_pool_def
  by (simp add: case_prod_beta Let_def) (intro sdb.keeps_bind sdb.keeps_for sound_keeps)

section \<open>Listing transactions\<close>

definition response_of :: "pool \<Rightarrow> tx_row \<Rightarrow> TransactionResponse list" where
  "response_of p r =
     (case (tx_from_row r, fst (get_vote_by_id (tr_txid r) p)) of
        (Ok tx, Ok v) \<Rightarrow> [tx_response tx v]
      | _ \<Rightarrow> [])"

definition responses :: "pool \<Rightarrow> TransactionResponse list" where
  "responses p = concat (map (response_of p) (transactions p))"

fun status_matches :: "VoteStatus option \<Rightarrow> TransactionResponse \<Rightarrow> bool" where
  "status_matches None r = True"
| "status_matches (Some s) r = (vote_status (tr_vote_tally r) = s)"

lemma vote_found:
  assumes "ballot_inv p" and "faults p = []" and "t \<in> tr_txid ` set (transactions p)"
  obtains v where "get_vote_by_id t p = (Ok v, p)"
proof -
  have "t \<in> vr_txid ` set (votes p)" using assms(1,3) by (simp add: ballot_inv_def)
  then have "filter (\<lambda>r. vr_txid r = t) (votes p) \<noteq> []" by (auto simp: filter_empty_conv)
  then obtain r rs where r: "filter (\<lambda>r. vr_txid r = t) (votes p) = r # rs" by (cases "filter (\<lambda>r. vr_txid r = t) (votes p)") auto
  then have "r \<in> set (filter (\<lambda>r. vr_txid r = t) (votes p))" by simp
  then have "is_ok (vote_from_row r)" using assms(1) by (simp add: ballot_inv_def list_all_iff)
  then show ?thesis using that r assms(2) by (auto simp: get_vote_no_fault is_ok_iff)
qed

lemma tx_from_row_txid: "tx_from_row r = Ok tx \<Longrightarrow> tx_txid tx = tr_txid r"
  by (auto simp: tx_from_row_def obind_Ok_iff)

lemma filter_transactions_rows:
  assumes inv: "ballot_inv p" "faults p = []" and sub: "set rows \<subseteq> set (transactions p)"
    and "collect (map tx_from_row rows) = Ok txs"
  shows "filter_transactions st txs acc p
    = (Some (acc @ filter (status_matches st) (concat (map (response_of p) rows))), p)"
  using sub assms(4)
proof (induction rows arbitrary: txs acc)
  case (Cons r rows)
  then obtain tx txs' where tx: "tx_from_row r = Ok tx" "collect (map tx_from_row rows) = Ok txs'" "txs = tx # txs'"
    by (auto simp: obind_Ok_iff)
  obtain v where v: "get_vote_by_id (tr_txid r) p = (Ok v, p)"
    using vote_found [OF inv, of "tr_txid r"] Cons.prems(1) by auto
  have "response_of p r = [tx_response tx v]" using tx v by (simp add: response_of_def)
  then show ?case
    using Cons.IH [OF _ tx(2)] Cons.prems(1) tx v tx_from_row_txid [OF tx(1)]
    by (cases st) (simp_all add: tx_response_def)
qed simp

lemma responses_ids:
  assumes "ballot_inv p" and "faults p = []"
  shows "map (\<lambda>r. tx_txid (tr_transaction r)) (responses p) = map tr_txid (transactions p)"
proof -
  have "map (\<lambda>r. tx_txid (tr_transaction r)) (response_of p r) = [tr_txid r]" if r: "r \<in> set (transactions p)" for r
  proof -
    obtain tx where tx: "tx_from_row r = Ok tx" using assms(1) r by (auto simp: ballot_inv_def list_all_iff is_ok_iff)
    obtain v where "get_vote_by_id (tr_txid r) p = (Ok v, p)" using vote_found [OF assms] r by blast
    then show ?thesis using tx tx_from_row_txid [OF tx] by (simp add: response_of_def tx_response_def)
  qed
  then have "map (\<lambda>r. map (\<lambda>x. tx_txid (tr_transaction x)) (response_of p r)) (transactions p)
      = map (\<lambda>r. [tr_txid r]) (transactions p)"
    by (intro map_cong) simp_all
  then have "concat (map (\<lambda>r. map (\<lambda>x. tx_txid (tr_transaction x)) (response_of p r)) (transactions p))
      = map tr_txid (transactions p)"
    by (simp only: concat_map_singleton)
  then show ?thesis by (simp only: responses_def map_concat map_map o_def)
qed

lemma get_transactions_sound:
  assumes "ballot_inv p" and "faults p = []"
  obtains txs where "get_transactions p = (Ok txs, p)" "collect (map tx_from_row (transactions p)) = Ok txs"
proof -
  obtain f where "\<And>r. r \<in> set (transactions p) \<Longrightarrow> tx_from_row r = Ok (f r)"
    using assms(1) unfolding ballot_inv_def list_all_iff is_ok_iff by metis
  then have "collect (map tx_from_row (transactions p)) = Ok (map f (transactions p))" by (rule collect_cong_Ok)
  then show ?thesis using assms(2) that by (simp add: get_transactions_def db_bind_def)
qed

lemma get_transactions_reply:
  assumes "ballot_inv p" and "faults p = []"
  shows "get_transactions_handler query p =
      (if q_page query = Some 0 then Reply BAD_REQUEST NoBody
       else Reply OK (TransactionsJson
         (paginate_items (filter (status_matches (q_status query)) (responses p)) (q_page query) (q_limit query))), p)"
proof -
  obtain txs where "get_transactions p = (Ok txs, p)" "collect (map tx_from_row (transactions p)) = Ok txs"
    using get_transactions_sound [OF assms] by blast
  then show ?thesis
    using filter_transactions_rows [OF assms order.refl]
    by (simp add: get_transactions_handler_def responses_def)
qed

text \<open>
  On sound tables a listing answers with all transactions, each with its own vote, in the order of the
  table, reduced to those whose vote has the requested status and to the requested page. Page zero is refused.
\<close>

theorem get_transactions_lists:
  assumes "ballot_inv p" and "faults p = []"
  shows "get_transactions_handler query p =
      (if q_page query = Some 0 then Reply BAD_REQUEST NoBody
       else Reply OK (TransactionsJson
         (paginate_items (filter (status_matches (q_status query)) (responses p)) (q_page query) (q_limit query))), p)
    \<and> map (\<lambda>r. tx_txid (tr_transaction r)) (responses p) = map tr_txid (transactions p)"
  using get_transactions_reply [OF assms] responses_ids [OF assms] by blast

section \<open>No internal errors\<close>

lemma get_config_keeps_pool: "faults p = [] \<Longrightarrow> snd (get_config K p) = p"
  by (simp add: get_config_def get_delegator_public_keys_def get_auto_deny_addresses_def db_bind_def
      split: list.split outcome.split)

lemma vote_store_no_fault:
  assumes "faults p = []" and "vote_txid v \<in> tr_txid ` set (transactions p)"
  shows "vote_store req v p =
    (Reply OK (VoteJson \<lparr>vp_vote_choice = vq_vote_choice req, vp_vote_tally = vote_tally (vote_cast req v)\<rparr>),
     p\<lparr>votes := replace_into vr_txid (vote_to_row (vote_cast req v)) (votes p)\<rparr>)"
  using assms by (simp add: vote_store_def add_vote_def Let_def)

lemma vote_txid_known:
  assumes "ballot_inv p" and "get_vote_by_id t p = (Ok v, q)"
  shows "vote_txid v \<in> tr_txid ` set (transactions p)"
proof -
  obtain r where "r \<in> set (votes p)" "vr_txid r = t" "vote_txid v = t"
    using get_vote_Ok [OF assms(2)] by metis
  then have "vote_txid v \<in> vr_txid ` set (votes p)" by blast
  then show ?thesis using assms(1) by (simp add: ballot_inv_def)
qed

lemma vote_handler_no_fault:
  assumes "ballot_inv p" and "faults p = []" and h: "vote_handler req p = (rep, q)"
  shows "reply_status rep \<noteq> INTERNAL_SERVER_ERROR \<and> faults q = []"
proof -
  obtain r1 where get: "get_vote_by_id (vq_txid req) p = (r1, p)"
    using get_vote_no_fault [OF assms(2)] by simp
  show ?thesis
  proof (cases r1)
    case (Ok v)
    then have "vote_txid v \<in> tr_txid ` set (transactions p)" using vote_txid_known assms(1) get by blast
    then show ?thesis
      using h get Ok assms(2) by (auto simp: vote_handler_def vote_load_def vote_store_no_fault split: if_splits)
  qed (use h get assms(2) in \<open>auto simp: vote_handler_def vote_load_def\<close>)
qed

lemma get_transaction_by_id_no_fault:
  assumes "ballot_inv p" and "faults p = []" and h: "get_transaction_by_id_handler t p = (rep, q)"
  shows "reply_status rep \<noteq> INTERNAL_SERVER_ERROR \<and> faults q = []"
proof (cases "filter (\<lambda>r. tr_txid r = t) (transactions p)")
  case Nil
  then show ?thesis
    using h assms(2) by (auto simp: get_transaction_by_id_handler_def get_transaction_by_id_def db_bind_def)
next
  case (Cons r rs)
  then have "r \<in> set (filter (\<lambda>r. tr_txid r = t) (transactions p))" by simp
  then have "t \<in> tr_txid ` set (transactions p)" by auto
  then obtain v where "get_vote_by_id t p = (Ok v, p)" using vote_found [OF assms(1,2)] by blast
  then show ?thesis
    using h Cons assms(2)
    by (auto simp: get_transaction_by_id_handler_def get_transaction_by_id_def db_bind_def split: outcome.splits)
qed

lemma serve_no_fault:
  assumes "db_inv K p" and "faults p = []" and "all_routes K D rq = Some h" and hp: "h p = (rep, q)"
  shows "reply_status rep \<noteq> INTERNAL_SERVER_ERROR \<and> faults q = []"
proof -
  have inv: "ballot_inv p" using assms(1) by (simp add: db_inv_def)
  from assms(3) show ?thesis
  proof (cases rule: all_routes_cases)
    case (update c)
    with hp assms(2) show ?thesis by (auto simp: update_config_handler_def update_config_no_fault)
  next
    case config
    with hp get_config_keeps_pool [OF assms(2), of K] assms(2) show ?thesis
      by (auto simp: get_config_handler_def split: prod.splits outcome.splits)
  next
    case (listing qu)
    then show ?thesis
      using hp assms(2) unfolding listing get_transactions_reply [OF inv assms(2)] by (auto split: if_splits)
  next
    case (single t)
    with hp get_transaction_by_id_no_fault [OF inv assms(2)] show ?thesis by blast
  next
    case (vote req)
    with hp vote_handler_no_fault [OF inv assms(2)] show ?thesis by blast
  qed
qed

text \<open>
  C23. On sound tables, as long as the statements on the database succeed, no request is answered with an
  internal server error: the corrupt states that the handlers watch for do not occur.
\<close>

theorem no_internal_server_error:
  assumes "codec_ok K" and "db_inv K p" and "faults p = []"
  shows "Some INTERNAL_SERVER_ERROR \<notin> map_option reply_status ` set (fst (serve_all K D rqs p))"
  using assms(2,3)
proof (induction rqs arbitrary: p)
  case (Cons rq rqs)
  obtain rep q where s: "serve K D rq p = (rep, q)" by (cases "serve K D rq p")
  have "db_inv K q"
    using sound.keeps_serve [of K p D rq] Cons.prems assms(1) s by (simp add: sound_db_def)
  moreover have "map_option reply_status rep \<noteq> Some INTERNAL_SERVER_ERROR \<and> faults q = []"
    using s serve_no_fault [OF Cons.prems] Cons.prems(2)
    by (auto simp: serve_def split: option.splits prod.splits)
  moreover obtain reps q' where "serve_all K D rqs q = (reps, q')" by (cases "serve_all K D rqs q")
  ultimately show ?case using Cons.IH [of q] s by (auto simp: eq_commute [of "Some INTERNAL_SERVER_ERROR"])
qed simp

section \<open>The race between two votes\<close>

text \<open>
  Votes that are handled at the same time are not protected: both requests can read the vote before either
  writes it. Then both are answered with OK, also when they choose differently; the second choice is the
  one that is recorded, and the consensus has grown by one only.
\<close>

theorem concurrent_votes_both_accepted:
  assumes "ballot_inv p" and "faults p = []" and "vq_txid b = vq_txid a"
    and get: "fst (get_vote_by_id (vq_txid a) p) = Ok v" and "vote_choice v = None"
    and "vote_status (vote_tally v) = PendingVotes"
  shows "\<exists>ra rb q. vote_step\<^sup>*\<^sup>* ([Waiting a, Waiting b], p) ([Replied a ra, Replied b rb :: ('sk, 'pk) vote_task], q)
    \<and> reply_status ra = OK \<and> reply_status rb = OK
    \<and> recorded (vq_txid a) (vq_vote_choice b) q
    \<and> fst (get_vote_by_id (vq_txid a) q) = Ok (vote_cast b v)"
proof -
  have get: "get_vote_by_id (vq_txid a) p = (Ok v, p)"
    using get get_vote_no_fault [OF assms(2), of "vq_txid a"] by simp
  have known: "vote_txid v \<in> tr_txid ` set (transactions p)" using vote_txid_known [OF assms(1) get] .
  have txid: "vote_txid v = vq_txid a" using get_vote_Ok [OF get] by metis
  have la: "vote_load a p = (Inr v :: ('sk, 'pk) reply + Vote, p)"
    and lb: "vote_load b p = (Inr v :: ('sk, 'pk) reply + Vote, p)"
    using get assms(3,5,6) by (simp_all add: vote_load_def)
  define p1 where "p1 = p\<lparr>votes := replace_into vr_txid (vote_to_row (vote_cast a v)) (votes p)\<rparr>"
  define q where "q = p1\<lparr>votes := replace_into vr_txid (vote_to_row (vote_cast b v)) (votes p1)\<rparr>"
  obtain ra :: "('sk, 'pk) reply" where sa: "vote_store a v p = (ra, p1)" "reply_status ra = OK"
    using vote_store_no_fault [OF assms(2) known, of a] unfolding p1_def by force
  have "faults p1 = []" "vote_txid v \<in> tr_txid ` set (transactions p1)"
    using assms(2) known by (simp_all add: p1_def)
  then obtain rb :: "('sk, 'pk) reply" where sb: "vote_store b v p1 = (rb, q)" "reply_status rb = OK"
    using vote_store_no_fault [of p1 v b] unfolding q_def by force
  let ?s = "vote_step :: ('sk, 'pk) vote_task list \<times> pool \<Rightarrow> _"
  have "?s ([Waiting a, Waiting b], p) ([Loaded a v, Waiting b], p)"
    using vote_step.load [of 0 "[Waiting a, Waiting b]", OF _ _ la] by simp
  moreover have "?s ([Loaded a v, Waiting b], p) ([Loaded a v, Loaded b v], p)"
    using vote_step.load [of 1 "[Loaded a v, Waiting b]", OF _ _ lb] by simp
  moreover have "?s ([Loaded a v, Loaded b v], p) ([Replied a ra, Loaded b v], p1)"
    using vote_step.store [of 0 "[Loaded a v, Loaded b v]", OF _ _ sa(1)] by simp
  moreover have "?s ([Replied a ra, Loaded b v], p1) ([Replied a ra, Replied b rb], q)"
    using vote_step.store [of 1 "[Replied a ra, Loaded b v]", OF _ _ sb(1)] by simp
  ultimately have "?s\<^sup>*\<^sup>* ([Waiting a, Waiting b], p) ([Replied a ra, Replied b rb], q)"
    by (meson converse_rtranclp_into_rtranclp rtranclp.rtrancl_refl)
  moreover have "recorded (vq_txid a) (vq_vote_choice b) q"
    using txid by (auto simp: q_def recorded_def set_replace_into vr_choice_vote_cast)
  moreover have "fst (get_vote_by_id (vq_txid a) q) = Ok (vote_cast b v)"
  proof -
    have "faults q = []" using assms(2) by (simp add: q_def p1_def)
    moreover have "filter (\<lambda>r. vr_txid r = vq_txid a) (votes q) = [vote_to_row (vote_cast b v)]"
      using filter_replace_into [of vr_txid "vote_to_row (vote_cast b v)" "votes p1"] txid by (simp add: q_def)
    ultimately show ?thesis by (simp add: get_vote_no_fault)
  qed
  ultimately show ?thesis using sa(2) sb(2) by blast
qed

section \<open>Witnesses\<close>

definition demo_vote :: "VoteChoice \<Rightarrow> VoteRequest" where
  "demo_vote c = \<lparr>vq_txid = tx_txid Transaction_default, vq_signing_delegator = ''02'', vq_vote_choice = c\<rparr>"

definition demo_decoders :: "(bool, bool) decoders" where
  "demo_decoders =
     \<lparr>config_from_json = (\<lambda>s. None), vote_from_json = (\<lambda>s. Some (demo_vote (if s = ''y'' then Approve else Reject))),
      query_from_str = (\<lambda>s. Some \<lparr>q_page = None, q_limit = None, q_status = None\<rparr>)\<rparr>"

definition demo_vote_http :: http_request where
  "demo_vote_http = \<lparr>hq_method = POST, hq_path = [''v1'', ''vote''], hq_query = '''', hq_content_length = Some 1, hq_body = ''n''\<rparr>"

lemma demo_vote_request_of: "vote_request_of demo_decoders demo_vote_http = Some (demo_vote Reject)"
  by (simp add: vote_request_of_def json_body_def demo_vote_http_def demo_decoders_def)

lemma demo_vote_txid [simp]: "vq_txid (demo_vote c) = tx_txid Transaction_default"
  by (simp add: demo_vote_def)

lemma demo_vote_accepted:
  "\<exists>b. fst (vote_handler (demo_vote c) demo_pool :: (bool, bool) reply \<times> pool) = Reply OK b"
proof -
  have "\<exists>b. fst (vote_store (demo_vote c) v demo_pool :: (bool, bool) reply \<times> pool) = Reply OK b"
    if "vote_txid v \<in> tr_txid ` set (transactions demo_pool)" for v
    unfolding vote_store_no_fault [OF demo_pool_no_faults that] by simp
  then show ?thesis
    by (simp add: vote_handler_def vote_load_def demo_pool_vote demo_pool_transactions [THEN arg_cong [of _ _ set], simplified])
qed

theorem vote_cast_once_witness:
  "map_option reply_status (fst (serve_all demo_keys demo_decoders [demo_vote_http]
      (snd (vote_handler (demo_vote Approve) demo_pool :: (bool, bool) reply \<times> pool))) ! 0) \<noteq> Some OK
   \<and> recorded (tx_txid Transaction_default) (vq_vote_choice (demo_vote Approve))
      (snd (serve_all demo_keys demo_decoders [demo_vote_http]
        (snd (vote_handler (demo_vote Approve) demo_pool :: (bool, bool) reply \<times> pool))))"
proof -
  obtain b where b: "fst (vote_handler (demo_vote Approve) demo_pool :: (bool, bool) reply \<times> pool) = Reply OK b"
    using demo_vote_accepted by blast
  show ?thesis
    using vote_cast_once [OF b, of demo_keys demo_decoders "[demo_vote_http]"] demo_vote_request_of by simp
qed

theorem reachable_pool_sound_witness:
  "db_inv demo_keys (snd (add_transaction Transaction_default (empty_pool\<lparr>faults := [True]\<rparr>)))"
  by (rule reachable_pool_sound [OF demo_keys_ok, of demo_decoders]) (intro reachable_pool.intros)

theorem get_transactions_lists_witness:
  "map (\<lambda>r. tx_txid (tr_transaction r)) (responses demo_pool) = [tx_txid Transaction_default]"
  using get_transactions_lists [of demo_pool, THEN conjunct2] demo_pool_inv demo_pool_no_faults demo_pool_transactions
  by (simp add: db_inv_def)

theorem no_internal_server_error_witness:
  "Some INTERNAL_SERVER_ERROR \<notin> map_option reply_status
     ` set (fst (serve_all demo_keys demo_decoders [demo_vote_http, demo_vote_http] demo_pool))"
  by (rule no_internal_server_error [OF demo_keys_ok demo_pool_inv demo_pool_no_faults])

theorem concurrent_votes_both_accepted_witness:
  "\<exists>ra rb q. vote_step\<^sup>*\<^sup>* ([Waiting (demo_vote Approve), Waiting (demo_vote Reject)], demo_pool)
     ([Replied (demo_vote Approve) ra, Replied (demo_vote Reject) rb :: (bool, bool) vote_task], q)
    \<and> reply_status ra = OK \<and> reply_status rb = OK"
  using concurrent_votes_both_accepted [of demo_pool "demo_vote Reject" "demo_vote Approve"]
    demo_pool_inv demo_pool_no_faults
  by (simp add: db_inv_def demo_pool_vote) blast

end
