(* ===== verification/ApiServer.thy ===== *)
theory ApiServer
  imports SignerApi Http Programs
begin

text \<open>
  The rest of the signer's service (\<^verbatim>\<open>stacks-signer-api/src/main.rs\<close>, \<^verbatim>\<open>error.rs\<close>): the commands that write the
  documentation and serve the swagger pages beside the API, the choice of the command, and the reply type of errors.
  The text of the documentation and the files of the pages come from other crates and are parameters.
\<close>

section \<open>error.rs\<close>

datatype ErrorCode = DatabaseErrorCode | SignerNotFound | KeyNotFound | AddressNotFound

record ErrorResponse =
  er_error :: ErrorCode
  er_message :: "string option"

definition ErrorResponse_from :: "(db_error \<Rightarrow> string) \<Rightarrow> db_error \<Rightarrow> ErrorResponse" where
  "ErrorResponse_from to_string e = \<lparr>er_error = DatabaseErrorCode, er_message = Some (to_string e)\<rparr>"

definition warp_reply :: "(ErrorResponse \<Rightarrow> string) \<Rightarrow> ErrorResponse \<Rightarrow> StatusCode \<Rightarrow> StatusCode \<times> string" where
  "warp_reply json r status = (status, json r)"

section \<open>The documentation\<close>

datatype docs_error = DocsJsonError | DocsFileError file_error

text \<open>The value is what is printed; \<open>openapi\<close> is the document, if it can be made.\<close>

definition generate_docs ::
  "string option \<Rightarrow> file_faults \<Rightarrow> string option \<Rightarrow> text_files \<Rightarrow> (docs_error, string list) outcome \<times> text_files" where
  "generate_docs openapi F output fs =
     (case openapi of
        None \<Rightarrow> (Err DocsJsonError, fs)
      | Some json \<Rightarrow>
          (case output of
             Some p \<Rightarrow> (case write_file F p json fs of (r, fs1) \<Rightarrow> (obind (map_err DocsFileError r) (\<lambda>_. Ok []), fs1))
           | None \<Rightarrow> (Ok [json], fs)))"

section \<open>The swagger pages\<close>

text \<open>\<^verbatim>\<open>Path::file_name\<close>: the last component; empty components and \<^verbatim>\<open>.\<close> are skipped, and \<^verbatim>\<open>..\<close> is no name.\<close>

definition file_name :: "string \<Rightarrow> string option" where
  "file_name path =
     (let cs = filter (\<lambda>c. c \<noteq> [] \<and> c \<noteq> ''.'') (split_char CHR ''/'' path)
      in if cs = [] \<or> last cs = ''..'' then None else Some (last cs))"

datatype ('sk, 'pk) page =
    DocPage
  | Redirect string
  | FilePage string bytes
  | MissingPage
  | ErrorPage string
  | ApiPage "('sk, 'pk) reply"

text \<open>\<open>swagger\<close> gives the error, or the file with its type, for what follows \<^verbatim>\<open>/swagger-ui/\<close> in the path.\<close>

definition serve_swagger :: "(string \<Rightarrow> string + (string \<times> bytes) option) \<Rightarrow> string \<Rightarrow> string \<Rightarrow> ('sk, 'pk) page" where
  "serve_swagger swagger full_path tail =
     (if full_path = ''/swagger-ui'' then Redirect ''/swagger-ui/''
      else
        (case swagger tail of
           Inr (Some (content_type, content)) \<Rightarrow> FilePage content_type content
         | Inr None \<Rightarrow> MissingPage
         | Inl e \<Rightarrow> ErrorPage e))"

text \<open>
  A request with its full path. The filters look at the first segment only, so that everything under it is taken, and
  the documentation comes before the pages and both before the API.
\<close>

definition swagger_serve ::
  "('sk, 'pk) key_codec \<Rightarrow> ('sk, 'pk) decoders \<Rightarrow> (string \<Rightarrow> string + (string \<times> bytes) option) \<Rightarrow> string
    \<Rightarrow> string \<times> http_request \<Rightarrow> pool \<Rightarrow> ('sk, 'pk) page option \<times> pool" where
  "swagger_serve K D swagger doc_name frq p =
     (let (full_path, rq) = frq; first = (case hq_path rq of [] \<Rightarrow> [] | c # cs \<Rightarrow> c) in
      if hq_method rq = http_method.GET \<and> hq_path rq \<noteq> [] \<and> first = doc_name then (Some DocPage, p)
      else if hq_method rq = http_method.GET \<and> hq_path rq \<noteq> [] \<and> first = ''swagger-ui''
      then (Some (serve_swagger swagger full_path (drop (length ''/swagger-ui/'') full_path)), p)
      else (case serve K D rq p of (rep, q) \<Rightarrow> (map_option ApiPage rep, q)))"

fun swagger_serve_all ::
  "('sk, 'pk) key_codec \<Rightarrow> ('sk, 'pk) decoders \<Rightarrow> (string \<Rightarrow> string + (string \<times> bytes) option) \<Rightarrow> string
    \<Rightarrow> (string \<times> http_request) list \<Rightarrow> pool \<Rightarrow> ('sk, 'pk) page option list \<times> pool" where
  "swagger_serve_all K D swagger doc_name [] p = ([], p)"
| "swagger_serve_all K D swagger doc_name (rq # rqs) p =
     (let (rep, q) = swagger_serve K D swagger doc_name rq p; (reps, q') = swagger_serve_all K D swagger doc_name rqs q
      in (rep # reps, q'))"

datatype swagger_error = SwaggerPool db_error | InvalidFilePath

definition run_swagger ::
  "('sk, 'pk) key_codec \<Rightarrow> ('sk, 'pk) decoders \<Rightarrow> (string \<Rightarrow> string + (string \<times> bytes) option) \<Rightarrow> (string \<Rightarrow> pool option) \<Rightarrow> (pool \<Rightarrow> bool)
    \<Rightarrow> string option \<Rightarrow> string \<Rightarrow> (string \<times> http_request) list
    \<Rightarrow> (swagger_error, ('sk, 'pk) page option list \<times> pool) outcome" where
  "run_swagger K D swagger connect migrates database_url path rqs =
     obind (map_err SwaggerPool (init_pool connect migrates database_url)) (\<lambda>p.
     obind (ok_or InvalidFilePath (file_name path)) (\<lambda>doc_name.
       Ok (swagger_serve_all K D swagger doc_name rqs p)))"

section \<open>The commands\<close>

datatype api_command = DocsCmd "string option" | SwaggerCmd string | SimulatorCmd | RunApiCmd "string option"

text \<open>
  The program as a whole, on requests that come one after the other; its end when it stops serving. Errors
  are printed, and the program then returns normally.
\<close>

record ('sk, 'pk) api_env =
  ae_keys :: "('sk, 'pk) key_codec"
  ae_decoders :: "('sk, 'pk) decoders"
  ae_swagger :: "string \<Rightarrow> string + (string \<times> bytes) option"
  ae_openapi :: "string option"
  ae_faults :: file_faults
  ae_from_path :: "string \<Rightarrow> (config_error, ('sk, 'pk) SignerConfig) outcome"
  ae_connect :: "string \<Rightarrow> pool option"
  ae_migrates :: "pool \<Rightarrow> bool"
  ae_database_url :: "string option"
  ae_hex :: "bytes \<Rightarrow> string"
  ae_draws :: "nat \<Rightarrow> draws"

definition api_main ::
  "('sk, 'pk) api_env \<Rightarrow> api_command \<Rightarrow> (string \<times> http_request) list \<Rightarrow> text_files
    \<Rightarrow> program_end \<times> ('sk, 'pk) page option list \<times> text_files" where
  "api_main A cmd rqs fs =
     (case cmd of
        DocsCmd output \<Rightarrow> (case generate_docs (ae_openapi A) (ae_faults A) output fs of (r, fs1) \<Rightarrow> (end_of r, [], fs1))
      | SwaggerCmd path \<Rightarrow>
          (case run_swagger (ae_keys A) (ae_decoders A) (ae_swagger A) (ae_connect A) (ae_migrates A) (ae_database_url A) path rqs of
             Ok (reps, p) \<Rightarrow> (Running, reps, fs)
           | r \<Rightarrow> (end_of r, [], fs))
      | SimulatorCmd \<Rightarrow>
          (case run_simulator (ae_keys A) (ae_decoders A) (ae_hex A) (ae_draws A) (ae_connect A) (ae_migrates A) (ae_database_url A)
                  (map snd rqs) of
             Ok (reps, p) \<Rightarrow> (Running, map (map_option ApiPage) reps, fs)
           | r \<Rightarrow> (end_of r, [], fs))
      | RunApiCmd config_path \<Rightarrow>
          (case run_command (ae_keys A) (ae_decoders A) (ae_from_path A) (ae_connect A) (ae_migrates A) (ae_database_url A) config_path
                  (map snd rqs) of
             Ok (reps, p) \<Rightarrow> (Running, map (map_option ApiPage) reps, fs)
           | r \<Rightarrow> (end_of r, [], fs)))"

section \<open>Properties\<close>

text \<open>What the API accepts is under \<^verbatim>\<open>/v1\<close>.\<close>

lemma all_routes_v1: "all_routes K D rq \<noteq> None \<Longrightarrow> \<exists>cs. hq_path rq = ''v1'' # cs"
  by (auto simp: all_routes_def update_config_route_def get_config_route_def get_transactions_route_def
      get_transaction_by_id_route_def vote_route_def vote_request_of_def split: if_splits list.splits)

lemma swagger_serve_api:
  assumes "doc_name \<noteq> ''v1''" and "all_routes K D (snd frq) \<noteq> None"
  shows "swagger_serve K D swagger doc_name frq p = (case serve K D (snd frq) p of (rep, q) \<Rightarrow> (map_option ApiPage rep, q))"
proof -
  from all_routes_v1 [OF assms(2)] obtain cs where "hq_path (snd frq) = ''v1'' # cs" by blast
  with assms(1) show ?thesis by (cases frq) (auto simp: swagger_serve_def)
qed

text \<open>
  The swagger server serves the API. Unless the documentation is hosted under the name \<^verbatim>\<open>v1\<close>, requests that the API
  accepts are answered by \<^verbatim>\<open>swagger\<close> as by the plain server, with the same effect on the database. Hosted under that name, it
  takes the place of every GET request to the API.
\<close>

theorem swagger_serves_api:
  "(doc_name \<noteq> ''v1'' \<longrightarrow> (\<forall>frq \<in> set rqs. all_routes K D (snd frq) \<noteq> None) \<longrightarrow>
      swagger_serve_all K D swagger doc_name rqs p
        = (case serve_all K D (map snd rqs) p of (reps, q) \<Rightarrow> (map (map_option ApiPage) reps, q)))
   \<and> (\<forall>frq. hq_method (snd frq) = http_method.GET \<longrightarrow> all_routes K D (snd frq) \<noteq> None \<longrightarrow>
        swagger_serve K D swagger ''v1'' frq p = (Some DocPage, p))"
proof (intro conjI impI allI)
  assume "doc_name \<noteq> ''v1''" and "\<forall>frq \<in> set rqs. all_routes K D (snd frq) \<noteq> None"
  then show "swagger_serve_all K D swagger doc_name rqs p
      = (case serve_all K D (map snd rqs) p of (reps, q) \<Rightarrow> (map (map_option ApiPage) reps, q))"
    by (induction rqs arbitrary: p) (simp_all add: swagger_serve_api split: prod.split)
next
  fix frq :: "string \<times> http_request"
  assume "hq_method (snd frq) = http_method.GET" and "all_routes K D (snd frq) \<noteq> None"
  with all_routes_v1 [OF this(2)] show "swagger_serve K D swagger ''v1'' frq p = (Some DocPage, p)"
    by (cases frq) (auto simp: swagger_serve_def)
qed

text \<open>
  Documentation that is written can be read: \<^verbatim>\<open>docs --output\<close> ends normally exactly when the file has the document,
  and touches no other file.
\<close>

lemma generate_docs_writes:
  assumes "generate_docs openapi F (Some path) fs = (r, fs')"
  shows "(is_ok r \<longrightarrow> fs' path = openapi \<and> openapi \<noteq> None) \<and> (\<forall>q. q \<noteq> path \<longrightarrow> fs' q = fs q)"
  using assms
  by (auto simp: generate_docs_def is_ok_iff obind_Ok_iff split: option.splits prod.splits
      dest: write_file_frame dest!: write_file_Ok)

end
