(* ===== verification/SbtcCli.thy ===== *)
theory SbtcCli
  imports Prelude "HOL-Library.Multiset"
begin

text \<open>
  The command line tool for deposits and withdrawals (\<^verbatim>\<open>sbtc-cli/src/commands\<close>): the payload of a deposit
  and of a withdrawal request, the transactions that carry them, their broadcast, and the generation of
  credentials. The bitcoin and wallet libraries are the record \<open>bdk\<close>; what a built transaction looks like
  is its parameter \<open>finish\<close>.
\<close>

section \<open>Libraries\<close>

datatype bitcoin_network = BitcoinNet | TestnetNet | SignetNet | RegtestNet

record 'sc TxOut =
  out_value :: u64
  script_pubkey :: 'sc

record ('sc, 'tx) Psbt =
  unsigned_output :: "'sc TxOut list"
  psbt_rest :: 'tx

datatype cli_error =
    WifError
  | WalletError
  | RecipientError
  | AddressError
  | DustError u64 u64
  | BuildError
  | SignError
  | HexParseError
  | DeserializeError
  | BlockchainError
  | KeyError
  | MnemonicError

record StacksAddr =
  sa_version :: u8
  sa_bytes :: bytes

text \<open>
  A private key has a network and an inner key. \<open>finish\<close> builds the transaction for a list of recipients with
  the wallet of a key; \<open>sign_psbt\<close> signs it and \<open>extract_tx\<close> takes the transaction out of it.
\<close>

record ('sc, 'tx, 'k, 'ad, 'fin, 'm) bdk =
  from_wif :: "string \<Rightarrow> 'k option"
  key_network :: "'k \<Rightarrow> bitcoin_network"
  connect_electrum :: bool
  open_wallet :: "'k \<Rightarrow> bool"
  stacks_from_string :: "string \<Rightarrow> StacksAddr option"
  btc_address_from_str :: "string \<Rightarrow> 'ad option"
  address_script :: "'ad \<Rightarrow> 'sc"
  script_bytes :: "'sc \<Rightarrow> bytes"
  dust_value :: "'sc \<Rightarrow> u64"
  op_return_script :: "bytes \<Rightarrow> 'sc"
  finish :: "'k \<Rightarrow> ('sc \<times> u64) list \<Rightarrow> ('sc, 'tx) Psbt option"
  sign_psbt :: "'k \<Rightarrow> ('sc, 'tx) Psbt \<Rightarrow> ('sc, 'tx) Psbt option"
  extract_tx :: "('sc, 'tx) Psbt \<Rightarrow> 'fin"
  tx_id_string :: "'fin \<Rightarrow> string"
  tx_serialize :: "'fin \<Rightarrow> bytes"
  tx_deserialize :: "bytes \<Rightarrow> 'fin option"
  bytes2hex :: "string \<Rightarrow> bytes \<Rightarrow> string"
  hex2bytes :: "string \<Rightarrow> bytes option"
  sha256_digest :: "bytes \<Rightarrow> string"
  message_from_slice :: "bytes \<Rightarrow> 'm option"
  sign_recoverable :: "'m \<Rightarrow> 'k \<Rightarrow> int \<times> bytes"

section \<open>utils.rs\<close>

record TransactionData =
  td_tx_id :: string
  td_tx_hex :: string

definition setup_wallet :: "('sc, 'tx, 'k, 'ad, 'fin, 'm) bdk \<Rightarrow> 'k \<Rightarrow> (cli_error, unit) outcome" where
  "setup_wallet B k =
     (if \<not> connect_electrum B then Err BlockchainError
      else if \<not> open_wallet B k then Err WalletError
      else Ok ())"

definition build_op_return_script :: "('sc, 'tx, 'k, 'ad, 'fin, 'm) bdk \<Rightarrow> bytes \<Rightarrow> 'sc" where
  "build_op_return_script B data = op_return_script B data"

text \<open>The index of each requested output; of equal ones the last. Outputs that were not requested share the
  largest index.\<close>

definition output_indices :: "('sc \<times> u64) list \<Rightarrow> (('sc \<times> u64) \<times> u64) list" where
  "output_indices order = fold (\<lambda>(i, val). hm_insert val (of_nat i)) (enumerate 0 order) []"

definition output_index :: "('sc \<times> u64) list \<Rightarrow> 'sc TxOut \<Rightarrow> u64" where
  "output_index order out =
     (case map_of (output_indices order) (script_pubkey out, out_value out) of
        Some i \<Rightarrow> i
      | None \<Rightarrow> - 1)"

definition reorder_outputs :: "'sc TxOut list \<Rightarrow> ('sc \<times> u64) list \<Rightarrow> 'sc TxOut list" where
  "reorder_outputs outputs order =
     map snd (fold (\<lambda>out. bt_insert (output_index order out) out) outputs [])"

fun magic_bytes :: "bitcoin_network \<Rightarrow> bytes" where
  "magic_bytes BitcoinNet = [0x58, 0x32]"
| "magic_bytes TestnetNet = [0x54, 0x32]"
| "magic_bytes _ = [0x69, 0x64]"

section \<open>deposit.rs\<close>

record DepositArgs =
  da_wif :: string
  da_recipient :: string
  da_amount :: u64
  da_dkg_wallet :: string

definition deposit_data :: "StacksAddr \<Rightarrow> bitcoin_network \<Rightarrow> bytes" where
  "deposit_data recipient network = magic_bytes network @ [0x3c] @ [sa_version recipient] @ sa_bytes recipient"

definition deposit_psbt ::
  "('sc, 'tx, 'k, 'ad, 'fin, 'm) bdk \<Rightarrow> 'k \<Rightarrow> StacksAddr \<Rightarrow> 'ad \<Rightarrow> u64 \<Rightarrow> bitcoin_network
    \<Rightarrow> (cli_error, ('sc, 'tx) Psbt) outcome" where
  "deposit_psbt B wallet recipient dkg_address amount network =
     (let op_return = build_op_return_script B (deposit_data recipient network);
          dkg_script = address_script B dkg_address;
          dust_amount = dust_value B dkg_script
      in if amount < dust_amount then Err (DustError amount dust_amount)
         else
           (let outputs = [(op_return, 0), (dkg_script, amount)]
            in obind (ok_or BuildError (finish B wallet outputs)) (\<lambda>partial_tx.
                 Ok (partial_tx\<lparr>unsigned_output := reorder_outputs (unsigned_output partial_tx) outputs\<rparr>))))"

definition tx_data :: "('sc, 'tx, 'k, 'ad, 'fin, 'm) bdk \<Rightarrow> 'fin \<Rightarrow> TransactionData" where
  "tx_data B tx = \<lparr>td_tx_id = tx_id_string B tx, td_tx_hex = bytes2hex B [] (tx_serialize B tx)\<rparr>"

text \<open>The value is what is printed.\<close>

definition build_deposit_tx ::
  "('sc, 'tx, 'k, 'ad, 'fin, 'm) bdk \<Rightarrow> DepositArgs \<Rightarrow> (cli_error, TransactionData) outcome" where
  "build_deposit_tx B args =
     obind (ok_or WifError (from_wif B (da_wif args))) (\<lambda>private_key.
     obind (setup_wallet B private_key) (\<lambda>_.
     obind (ok_or RecipientError (stacks_from_string B (da_recipient args))) (\<lambda>recipient.
     obind (ok_or AddressError (btc_address_from_str B (da_dkg_wallet args))) (\<lambda>dkg_address.
     obind (deposit_psbt B private_key recipient dkg_address (da_amount args) (key_network B private_key)) (\<lambda>psbt.
     obind (ok_or SignError (sign_psbt B private_key psbt)) (\<lambda>psbt.
       Ok (tx_data B (extract_tx B psbt))))))))"

section \<open>withdraw.rs\<close>

record WithdrawalArgs =
  wa_wif :: string
  wa_sender_wif :: string
  wa_recipient :: string
  wa_amount :: u64
  wa_fulfillment_fee :: u64
  wa_dkg_wallet :: string

text \<open>The two \<^verbatim>\<open>unwrap\<close>s are on the digest, which is 32 bytes in hexadecimal.\<close>

definition withdrawal_data ::
  "('sc, 'tx, 'k, 'ad, 'fin, 'm) bdk \<Rightarrow> 'ad \<Rightarrow> u64 \<Rightarrow> 'k \<Rightarrow> bitcoin_network \<Rightarrow> (cli_error, bytes) outcome" where
  "withdrawal_data B recipient amount sender network =
     (let msg = u64_be amount @ script_bytes B (address_script B recipient);
          msg_hash = sha256_digest B msg
      in obind (unwrap (hex2bytes B msg_hash)) (\<lambda>msg_hash_bytes.
         obind (unwrap (message_from_slice B msg_hash_bytes)) (\<lambda>msg_ecdsa.
           (let (recovery_id, signature) = sign_recoverable B msg_ecdsa sender
            in Ok (magic_bytes network @ [0x3e] @ u64_be amount @ [word_of_int recovery_id] @ signature)))))"

definition withdrawal_psbt ::
  "('sc, 'tx, 'k, 'ad, 'fin, 'm) bdk \<Rightarrow> 'k \<Rightarrow> 'k \<Rightarrow> 'ad \<Rightarrow> 'ad \<Rightarrow> u64 \<Rightarrow> u64 \<Rightarrow> bitcoin_network
    \<Rightarrow> (cli_error, ('sc, 'tx) Psbt) outcome" where
  "withdrawal_psbt B wallet sender recipient dkg_address amount fulfillment_fee network =
     (let recipient_script = address_script B recipient;
          dkg_script = address_script B dkg_address;
          recipient_dust = dust_value B recipient_script;
          dkg_dust = dust_value B dkg_script
      in if fulfillment_fee < dkg_dust then Err (DustError fulfillment_fee dkg_dust)
         else
           obind (withdrawal_data B recipient amount sender network) (\<lambda>data.
             (let outputs = [(build_op_return_script B data, 0), (recipient_script, recipient_dust),
                             (dkg_script, fulfillment_fee)]
              in obind (ok_or BuildError (finish B wallet outputs)) (\<lambda>partial_tx.
                   Ok (partial_tx\<lparr>unsigned_output := reorder_outputs (unsigned_output partial_tx) outputs\<rparr>)))))"

definition build_withdrawal_tx ::
  "('sc, 'tx, 'k, 'ad, 'fin, 'm) bdk \<Rightarrow> WithdrawalArgs \<Rightarrow> (cli_error, TransactionData) outcome" where
  "build_withdrawal_tx B args =
     obind (ok_or WifError (from_wif B (wa_wif args))) (\<lambda>private_key.
     obind (setup_wallet B private_key) (\<lambda>_.
     obind (ok_or WifError (from_wif B (wa_sender_wif args))) (\<lambda>sender.
     obind (ok_or AddressError (btc_address_from_str B (wa_recipient args))) (\<lambda>recipient.
     obind (ok_or AddressError (btc_address_from_str B (wa_dkg_wallet args))) (\<lambda>dkg_address.
     obind (withdrawal_psbt B private_key sender recipient dkg_address (wa_amount args) (wa_fulfillment_fee args)
       (key_network B private_key)) (\<lambda>psbt.
     obind (ok_or SignError (sign_psbt B private_key psbt)) (\<lambda>psbt.
       Ok (tx_data B (extract_tx B psbt)))))))))"

section \<open>broadcast.rs\<close>

text \<open>The result and the transactions that were broadcast.\<close>

definition broadcast_tx ::
  "('sc, 'tx, 'k, 'ad, 'fin, 'm) bdk \<Rightarrow> ('fin \<Rightarrow> bool) \<Rightarrow> string \<Rightarrow> (cli_error, TransactionData) outcome \<times> 'fin list" where
  "broadcast_tx B accepts tx_hex =
     (if \<not> connect_electrum B then (Err BlockchainError, [])
      else
        (case obind (ok_or HexParseError (hex2bytes B tx_hex)) (\<lambda>bs. ok_or DeserializeError (tx_deserialize B bs)) of
           Ok tx \<Rightarrow> (if accepts tx then (Ok (tx_data B tx), [tx]) else (Err BlockchainError, []))
         | Err e \<Rightarrow> (Err e, [])
         | Panic \<Rightarrow> (Panic, [])))"

section \<open>generate.rs\<close>

datatype GenerateSubcommand = GenNew | GenWif string | GenPrivateKeyHex string | GenMnemonic string

record Credentials =
  cr_mnemonic :: string
  cr_wif :: string
  cr_private_key :: string
  cr_public_key :: string
  cr_stacks_address :: string
  cr_taproot_tweaked :: string
  cr_taproot_untweaked :: string
  cr_p2pkh :: string

text \<open>The key libraries: \<open>'pk\<close> are public keys, \<open>'mn\<close> mnemonics. \<open>hash160\<close> takes the hash of a public key if it
  has 20 bytes.\<close>

record ('k, 'pk, 'mn) key_lib =
  mnemonic_from_entropy :: "bytes \<Rightarrow> 'mn option"
  mnemonic_parse :: "string \<Rightarrow> 'mn option"
  mnemonic_string :: "'mn \<Rightarrow> string"
  extended_key :: "'mn \<Rightarrow> bitcoin_network \<Rightarrow> 'k option"
  kl_from_wif :: "string \<Rightarrow> 'k option"
  kl_hex2bytes :: "string \<Rightarrow> bytes option"
  kl_bytes2hex :: "string \<Rightarrow> bytes \<Rightarrow> string"
  key_from_slice :: "bytes \<Rightarrow> bitcoin_network \<Rightarrow> 'k option"
  kl_network :: "'k \<Rightarrow> bitcoin_network"
  kl_to_wif :: "'k \<Rightarrow> string"
  kl_to_bytes :: "'k \<Rightarrow> bytes"
  public_key_of :: "'k \<Rightarrow> 'pk"
  public_to_bytes :: "'pk \<Rightarrow> bytes"
  pubkey_hash :: "'pk \<Rightarrow> bytes"
  stacks_to_string :: "u8 \<Rightarrow> bytes \<Rightarrow> string"
  p2tr_string :: "'pk \<Rightarrow> bitcoin_network \<Rightarrow> string"
  p2tr_tweaked_string :: "'pk \<Rightarrow> bitcoin_network \<Rightarrow> string"
  p2pkh_string :: "'pk \<Rightarrow> bitcoin_network \<Rightarrow> string"
  version_mainnet :: u8
  version_testnet :: u8

definition random_mnemonic :: "('k, 'pk, 'mn) key_lib \<Rightarrow> (nat \<Rightarrow> u8) \<Rightarrow> (cli_error, 'mn) outcome" where
  "random_mnemonic L random = ok_or MnemonicError (mnemonic_from_entropy L (map random [0..<32]))"

definition private_key_from_wif :: "('k, 'pk, 'mn) key_lib \<Rightarrow> string \<Rightarrow> (cli_error, 'k) outcome" where
  "private_key_from_wif L wif = ok_or WifError (kl_from_wif L wif)"

definition parse_private_key_from_hex ::
  "('k, 'pk, 'mn) key_lib \<Rightarrow> string \<Rightarrow> bitcoin_network \<Rightarrow> (cli_error, 'k) outcome" where
  "parse_private_key_from_hex L s network =
     obind (ok_or HexParseError (kl_hex2bytes L s)) (\<lambda>slice. ok_or KeyError (key_from_slice L slice network))"

definition private_key_from_mnemonic ::
  "('k, 'pk, 'mn) key_lib \<Rightarrow> bitcoin_network \<Rightarrow> 'mn \<Rightarrow> (cli_error, 'k) outcome" where
  "private_key_from_mnemonic L network mnemonic = ok_or KeyError (extended_key L mnemonic network)"

definition stacks_address_version :: "('k, 'pk, 'mn) key_lib \<Rightarrow> bitcoin_network \<Rightarrow> (cli_error, u8) outcome" where
  "stacks_address_version L network =
     (case network of
        TestnetNet \<Rightarrow> Ok (version_testnet L)
      | BitcoinNet \<Rightarrow> Ok (version_mainnet L)
      | _ \<Rightarrow> Panic)"

definition hash160_from_vec :: "bytes \<Rightarrow> bytes option" where
  "hash160_from_vec bs = (if length bs = 20 then Some bs else None)"

definition generate_credentials ::
  "('k, 'pk, 'mn) key_lib \<Rightarrow> 'k \<Rightarrow> 'mn option \<Rightarrow> (cli_error, Credentials) outcome" where
  "generate_credentials L key maybe_mnemonic =
     (let pk = public_key_of L key
      in obind (stacks_address_version L (kl_network L key)) (\<lambda>version.
         obind (unwrap (hash160_from_vec (pubkey_hash L pk))) (\<lambda>hash.
           Ok \<lparr>cr_mnemonic = (case maybe_mnemonic of None \<Rightarrow> [] | Some m \<Rightarrow> mnemonic_string L m),
               cr_wif = kl_to_wif L key, cr_private_key = kl_bytes2hex L ''0x'' (kl_to_bytes L key),
               cr_public_key = kl_bytes2hex L ''0x'' (public_to_bytes L pk),
               cr_stacks_address = stacks_to_string L version hash,
               cr_taproot_tweaked = p2tr_string L pk (kl_network L key),
               cr_taproot_untweaked = p2tr_tweaked_string L pk (kl_network L key),
               cr_p2pkh = p2pkh_string L pk (kl_network L key)\<rparr>)))"

definition generate_key ::
  "('k, 'pk, 'mn) key_lib \<Rightarrow> (nat \<Rightarrow> u8) \<Rightarrow> GenerateSubcommand \<Rightarrow> bitcoin_network
    \<Rightarrow> (cli_error, 'k \<times> 'mn option) outcome" where
  "generate_key L random cmd network =
     (case cmd of
        GenNew \<Rightarrow>
          obind (random_mnemonic L random) (\<lambda>m.
          obind (private_key_from_mnemonic L network m) (\<lambda>k. Ok (k, Some m)))
      | GenWif wif \<Rightarrow> obind (private_key_from_wif L wif) (\<lambda>k. Ok (k, None))
      | GenPrivateKeyHex s \<Rightarrow> obind (parse_private_key_from_hex L s network) (\<lambda>k. Ok (k, None))
      | GenMnemonic s \<Rightarrow>
          obind (ok_or MnemonicError (mnemonic_parse L s)) (\<lambda>m.
          obind (private_key_from_mnemonic L network m) (\<lambda>k. Ok (k, Some m))))"

definition generate ::
  "('k, 'pk, 'mn) key_lib \<Rightarrow> (nat \<Rightarrow> u8) \<Rightarrow> GenerateSubcommand \<Rightarrow> bitcoin_network
    \<Rightarrow> (cli_error, Credentials) outcome" where
  "generate L random cmd network =
     obind (generate_key L random cmd network) (\<lambda>(k, m). generate_credentials L k m)"

section \<open>main.rs\<close>

datatype sbtc_command =
    DepositCmd DepositArgs
  | WithdrawCmd WithdrawalArgs
  | BroadcastCmd string
  | GenerateFromCmd GenerateSubcommand bitcoin_network

datatype sbtc_output = PrintTransaction TransactionData | PrintCredentials Credentials

text \<open>What is printed, and the transactions that were broadcast.\<close>

definition sbtc_main ::
  "('sc, 'tx, 'k, 'ad, 'fin, 'm) bdk \<Rightarrow> ('k2, 'pk, 'mn) key_lib \<Rightarrow> ('fin \<Rightarrow> bool) \<Rightarrow> (nat \<Rightarrow> u8) \<Rightarrow> sbtc_command
    \<Rightarrow> (cli_error, sbtc_output) outcome \<times> 'fin list" where
  "sbtc_main B L accepts random cmd =
     (case cmd of
        DepositCmd args \<Rightarrow> (obind (build_deposit_tx B args) (\<lambda>d. Ok (PrintTransaction d)), [])
      | WithdrawCmd args \<Rightarrow> (obind (build_withdrawal_tx B args) (\<lambda>d. Ok (PrintTransaction d)), [])
      | BroadcastCmd tx_hex \<Rightarrow>
          (case broadcast_tx B accepts tx_hex of (r, txs) \<Rightarrow> (obind r (\<lambda>d. Ok (PrintTransaction d)), txs))
      | GenerateFromCmd sub network \<Rightarrow> (obind (generate L random sub network) (\<lambda>c. Ok (PrintCredentials c)), []))"

section \<open>Reordering\<close>

definition mk_out :: "'sc \<times> u64 \<Rightarrow> 'sc TxOut" where
  "mk_out sv = \<lparr>out_value = snd sv, script_pubkey = fst sv\<rparr>"

lemma mk_out_sel [simp]: "out_value (mk_out sv) = snd sv" "script_pubkey (mk_out sv) = fst sv"
  by (simp_all add: mk_out_def)

lemma inj_mk_out: "inj mk_out"
  by (auto simp: inj_def mk_out_def)

lemma hm_fold_lookup_other:
  "val \<notin> snd ` set ivs \<Longrightarrow> map_of (fold (\<lambda>(i, v). hm_insert v (f i)) ivs m) val = map_of m val"
  by (induction ivs arbitrary: m) (auto simp: hm_lookup_insert)

lemma hm_fold_lookup:
  "(i, val) \<in> set ivs \<Longrightarrow> distinct (map snd ivs) \<Longrightarrow> map_of (fold (\<lambda>(i, v). hm_insert v (f i)) ivs m) val = Some (f i)"
  by (induction ivs arbitrary: m) (auto simp: hm_lookup_insert hm_fold_lookup_other rev_image_eqI)

lemma output_index_requested:
  assumes "distinct order" and "i < length order"
  shows "output_index order (mk_out (order ! i)) = of_nat i"
proof -
  have "(i, order ! i) \<in> set (enumerate 0 order)" using assms(2) by (simp add: in_set_enumerate_eq)
  then have "map_of (output_indices order) (order ! i) = Some (of_nat i)"
    unfolding output_indices_def using assms(1) by (intro hm_fold_lookup) simp_all
  then show ?thesis by (simp add: output_index_def)
qed

lemma output_index_other: "(script_pubkey out, out_value out) \<notin> set order \<Longrightarrow> output_index order out = - 1"
  unfolding output_index_def output_indices_def
  by (subst hm_fold_lookup_other) (auto simp: in_set_enumerate_eq image_iff, metis nth_mem)

text \<open>A sorted association list is determined by its entries.\<close>

lemma bt_insert_fresh: "k \<notin> fst ` set m \<Longrightarrow> set (bt_insert k v m) = insert (k, v) (set m)"
  by (induction k v m rule: bt_insert.induct) auto

lemma bt_sorted_fold: "bt_sorted m \<Longrightarrow> bt_sorted (fold (\<lambda>x. bt_insert (f x) x) xs m)"
  by (induction xs arbitrary: m) auto

lemma set_bt_fold:
  "distinct (map f xs) \<Longrightarrow> f ` set xs \<inter> fst ` set m = {} \<Longrightarrow>
    set (fold (\<lambda>x. bt_insert (f x) x) xs m) = (\<lambda>x. (f x, x)) ` set xs \<union> set m"
proof (induction xs arbitrary: m)
  case (Cons x xs)
  then have fresh: "f x \<notin> fst ` set m" by auto
  then have "f ` set xs \<inter> fst ` set (bt_insert (f x) x m) = {}"
    using Cons.prems by (auto simp: bt_insert_fresh)
  then show ?case using Cons fresh by (simp add: bt_insert_fresh)
qed simp

lemma bt_sorted_unique:
  fixes m :: "('k::linorder \<times> 'v) list"
  assumes "bt_sorted m" and "bt_sorted m'" and "set m = set m'"
  shows "m = m'"
proof -
  have keys: "map fst m = map fst m'"
    using assms unfolding bt_sorted_def by (intro strict_sorted_equal) auto
  then have len: "length m = length m'" by (metis length_map)
  have d: "distinct (map fst m')" using assms(2) by (simp add: bt_sorted_def strict_sorted_iff)
  show ?thesis
  proof (rule nth_equalityI [OF len])
    fix i assume i: "i < length m"
    have "fst (m ! i) = fst (m' ! i)" using keys i len by (metis nth_map)
    moreover have "m ! i \<in> set m'" "m' ! i \<in> set m'" using i len assms(3) nth_mem by metis+
    ultimately show "m ! i = m' ! i" using d by (metis eq_key_imp_eq_value prod.collapse)
  qed
qed

lemma length_bt_fold:
  "bt_sorted m \<Longrightarrow> length (fold (\<lambda>x. bt_insert (f x) x) xs m) = card (f ` set xs \<union> fst ` set m)"
proof (induction xs arbitrary: m)
  case Nil
  then show ?case by (simp add: bt_size)
next
  case (Cons x xs)
  then show ?case by (simp add: bt_fst_insert Un_insert_right)
qed

text \<open>One output is left for each index.\<close>

lemma reorder_outputs_length: "length (reorder_outputs outputs order) = card (output_index order ` set outputs)"
  unfolding reorder_outputs_def using length_bt_fold [of "[]" "output_index order" outputs] by (simp add: bt_sorted_def)

lemma reorder_in_order:
  assumes "distinct order" and len: "length order < 2 ^ 64 - 1"
    and outs: "mset outputs = mset (map mk_out order @ change)" and one: "length change \<le> 1"
    and other: "\<forall>c \<in> set change. (script_pubkey c, out_value c) \<notin> set order"
  shows "reorder_outputs outputs order = map mk_out order @ change"
proof -
  let ?ix = "output_index order" and ?n = "length order"
  let ?L = "map (\<lambda>i. (of_nat i :: u64, mk_out (order ! i))) [0..<?n] @ map (\<lambda>c. (- 1 :: u64, c)) change"
  have small: "i < ?n \<Longrightarrow> unat (of_nat i :: u64) = i" for i
    using len by (simp add: unat_of_nat)
  have top: "unat (- 1 :: u64) = 2 ^ 64 - 1" by (simp add: unsigned_minus_1_eq_mask mask_eq_exp_minus_1)
  have ix_change: "c \<in> set change \<Longrightarrow> ?ix c = - 1" for c
    using other by (simp add: output_index_other)
  have ix_order: "i < ?n \<Longrightarrow> ?ix (mk_out (order ! i)) = of_nat i" for i
    by (rule output_index_requested [OF assms(1)])
  have sorted: "bt_sorted ?L"
  proof -
    have "sorted_wrt (<) (map of_nat [0..<?n] :: u64 list)"
      unfolding sorted_wrt_map by (rule sorted_wrt_mono_rel [OF _ sorted_wrt_upt]) (simp add: word_less_nat_alt small)
    moreover have "sorted_wrt (<) (map (\<lambda>c. - 1 :: u64) change)"
      using one by (cases change) auto
    moreover have "(of_nat i :: u64) < - 1" if "i < ?n" for i
      using that len by (simp add: word_less_nat_alt small top)
    ultimately show ?thesis
      unfolding bt_sorted_def by (simp add: sorted_wrt_append o_def)
  qed
  have set_outs: "set outputs = set (map mk_out order @ change)"
    using outs by (metis set_mset_mset)
  have "map (\<lambda>x. (?ix x, x)) (map mk_out order) = map (\<lambda>i. (of_nat i, mk_out (order ! i))) [0..<?n]"
    by (rule nth_equalityI) (simp_all add: ix_order)
  moreover have "map (\<lambda>x. (?ix x, x)) change = map (\<lambda>c. (- 1, c)) change"
    by (simp add: ix_change)
  ultimately have L: "map (\<lambda>x. (?ix x, x)) (map mk_out order @ change) = ?L"
    by simp
  then have entries: "(\<lambda>x. (?ix x, x)) ` set outputs = set ?L"
    unfolding set_outs by (metis list.set_map)
  have "map ?ix (map mk_out order @ change) = map fst ?L"
    unfolding L [symmetric] by simp
  moreover have "distinct (map fst ?L)"
    using sorted unfolding bt_sorted_def strict_sorted_iff by (rule conjunct2)
  ultimately have "distinct (map ?ix (map mk_out order @ change))"
    by (simp only:)
  then have "distinct (map ?ix outputs)"
    using outs by (metis mset_map mset_eq_imp_distinct_iff)
  then have "set (fold (\<lambda>x. bt_insert (?ix x) x) outputs []) = set ?L"
    using set_bt_fold [of ?ix outputs "[]"] entries by simp
  then have "fold (\<lambda>x. bt_insert (?ix x) x) outputs [] = ?L"
    using bt_sorted_unique [OF bt_sorted_fold sorted] by (simp add: bt_sorted_def [of "[]"])
  moreover have "map snd ?L = map mk_out order @ change"
    unfolding L [symmetric] by (simp add: comp_def)
  ultimately show ?thesis by (simp add: reorder_outputs_def)
qed

text \<open>
  C35. Reordering puts the requested outputs into the order of the request and the change behind them,
  whatever order the wallet library has chosen, when the requested outputs are distinct and there is at most
  one more output, which is not one of them.
\<close>

theorem reorder_outputs_restores_order:
  assumes "distinct order" and len: "length order < 2 ^ 64 - 1"
    and outs: "mset outputs = mset (map mk_out order @ change)" and one: "length change \<le> 1"
    and other: "\<forall>c \<in> set change. (script_pubkey c, out_value c) \<notin> set order"
  shows "reorder_outputs outputs order = map mk_out order @ change"
  using assms by (rule reorder_in_order)

theorem reorder_outputs_restores_order_witness:
  "reorder_outputs [mk_out (''me'', 5), mk_out (''dkg'', 9), mk_out (''ret'', 0)] [(''ret'', 0), (''dkg'', 9)]
    = [mk_out (''ret'', 0), mk_out (''dkg'', 9), mk_out (''me'', 5)]"
  using reorder_outputs_restores_order [of "[(''ret'', 0), (''dkg'', 9)]"
      "[mk_out (''me'', 5), mk_out (''dkg'', 9), mk_out (''ret'', 0)]" "[mk_out (''me'', 5)]"] by simp

section \<open>The transactions\<close>

text \<open>
  The transaction of a deposit. It is refused exactly when the amount is below the dust limit of the wallet's
  script or the library cannot build it; otherwise its outputs are the payload, the payment of the
  amount to the wallet, and the change, in this order.
\<close>

theorem deposit_psbt_outputs:
  assumes fin: "finish B k [(op_return_script B (deposit_data r net), 0), (address_script B dkg, amount)] = Some p0"
    and outs: "mset (unsigned_output p0) = mset (map mk_out
      [(op_return_script B (deposit_data r net), 0), (address_script B dkg, amount)] @ change)"
    and "length change \<le> 1"
    and "\<forall>c \<in> set change. (script_pubkey c, out_value c)
      \<notin> {(op_return_script B (deposit_data r net), 0), (address_script B dkg, amount)}"
    and "address_script B dkg \<noteq> op_return_script B (deposit_data r net)"
  shows "deposit_psbt B k r dkg amount net =
    (if amount < dust_value B (address_script B dkg) then Err (DustError amount (dust_value B (address_script B dkg)))
     else Ok (p0\<lparr>unsigned_output :=
       [mk_out (op_return_script B (deposit_data r net), 0), mk_out (address_script B dkg, amount)] @ change\<rparr>))"
proof -
  have "reorder_outputs (unsigned_output p0)
      [(op_return_script B (deposit_data r net), 0), (address_script B dkg, amount)]
    = [mk_out (op_return_script B (deposit_data r net), 0), mk_out (address_script B dkg, amount)] @ change"
    using reorder_in_order [OF _ _ outs] assms(3-5) by simp
  with fin show ?thesis by (simp add: deposit_psbt_def Let_def build_op_return_script_def)
qed

text \<open>
  A withdrawal request can lose an output. When the recipient's script is that of the wallet and the
  fulfillment fee is exactly the dust amount, the two payments are equal and the reordering keeps one of
  them: the transaction has fewer outputs than the one the wallet library has built, and the difference
  goes to the miners.
\<close>

theorem withdrawal_psbt_drops_output:
  assumes same: "address_script B recipient = address_script B dkg" and "fee = dust_value B (address_script B dkg)"
    and data: "withdrawal_data B recipient amount sender net = Ok data"
    and fin: "finish B k [(op_return_script B data, 0), (address_script B dkg, fee), (address_script B dkg, fee)] = Some p0"
    and outs: "mset (unsigned_output p0) = mset (map mk_out
      [(op_return_script B data, 0), (address_script B dkg, fee), (address_script B dkg, fee)] @ change)"
  shows "\<exists>psbt. withdrawal_psbt B k sender recipient dkg amount fee net = Ok psbt
    \<and> length (unsigned_output psbt) < length (unsigned_output p0)"
proof -
  let ?order = "[(op_return_script B data, 0), (address_script B dkg, fee), (address_script B dkg, fee)]"
  let ?outs = "unsigned_output p0"
  have "set ?outs = set (map mk_out ?order @ change)" using outs by (metis set_mset_mset)
  then have set_outs: "set ?outs = insert (mk_out (op_return_script B data, 0))
      (insert (mk_out (address_script B dkg, fee)) (set change))" by auto
  have "card (output_index ?order ` set ?outs) \<le> card (set ?outs)" by (rule card_image_le) simp
  also have "\<dots> \<le> Suc (Suc (card (set change)))"
    unfolding set_outs by (simp add: card_insert_if)
  also have "\<dots> < length ?outs"
    using card_length [of change] arg_cong [OF outs, of size] by simp
  finally have "length (reorder_outputs ?outs ?order) < length ?outs"
    by (simp only: reorder_outputs_length)
  with assms show ?thesis
    by (simp add: withdrawal_psbt_def Let_def build_op_return_script_def)
qed

text \<open>
  The payload of a withdrawal request: it has 76 bytes, and the network's magic bytes, the opcode, the
  amount, the recovery id and the signature can be read back from it at fixed places.
\<close>

theorem withdrawal_data_readback:
  assumes "withdrawal_data B recipient amount sender net = Ok data"
    and "\<And>m k. length (snd (sign_recoverable B m k)) = 64"
  shows "length data = 76 \<and> take 2 data = magic_bytes net \<and> data ! 2 = 0x3e
    \<and> be_value (take 8 (drop 3 data)) = unat amount
    \<and> (\<exists>m h. hex2bytes B (sha256_digest B (u64_be amount @ script_bytes B (address_script B recipient))) = Some h
        \<and> message_from_slice B h = Some m
        \<and> data ! 11 = word_of_int (fst (sign_recoverable B m sender))
        \<and> drop 12 data = snd (sign_recoverable B m sender))"
proof -
  obtain h m where h: "hex2bytes B (sha256_digest B (u64_be amount @ script_bytes B (address_script B recipient))) = Some h"
      "message_from_slice B h = Some m"
    and data: "data = magic_bytes net @ [0x3e] @ u64_be amount @ [word_of_int (fst (sign_recoverable B m sender))]
      @ snd (sign_recoverable B m sender)"
    using assms(1) by (auto simp: withdrawal_data_def Let_def obind_Ok_iff case_prod_beta)
  obtain x y where magic: "magic_bytes net = [x, y]" by (cases net) auto
  have "be_value (u64_be amount) = unat amount"
    using unsigned_less [of amount, where ?'a = nat] by (simp only: u64_be_def be_value_be_bytes) simp
  moreover have "(u64_be amount @ z # zs) ! 8 = z" "drop 9 (u64_be amount @ z # zs) = zs"
    "take 8 (u64_be amount @ z # zs) = u64_be amount" for z zs
    by (simp_all add: nth_append)
  ultimately show ?thesis
    using assms(2) [of m sender] h unfolding data magic by (simp del: be_value.simps)
qed

text \<open>
  Credentials are generated for the main network and the test network only: with a key of another network
  the program panics, whether the key is new or given.
\<close>

theorem generate_panics_iff:
  assumes "\<And>k. length (pubkey_hash L (public_key_of L k)) = 20" and "generate_key L random cmd net = Ok (k, m)"
  shows "(generate L random cmd net = Panic) \<longleftrightarrow> kl_network L k \<in> {SignetNet, RegtestNet}"
  using assms
  by (cases "kl_network L k")
    (simp_all add: generate_def generate_credentials_def stacks_address_version_def hash160_from_vec_def Let_def)

section \<open>Witnesses\<close>

text \<open>A library on strings: the built transaction has the requested outputs in reverse order behind the change.\<close>

definition demo_bdk :: "(string, nat, bool, string, nat, nat) bdk" where
  "demo_bdk =
     \<lparr>from_wif = (\<lambda>s. Some True), key_network = (\<lambda>k. TestnetNet), connect_electrum = True, open_wallet = (\<lambda>k. True),
      stacks_from_string = (\<lambda>s. Some \<lparr>sa_version = 26, sa_bytes = replicate 20 7\<rparr>),
      btc_address_from_str = (\<lambda>s. Some s), address_script = (\<lambda>a. ''a'' @ a), script_bytes = (\<lambda>s. map of_char s),
      dust_value = (\<lambda>s. 294), op_return_script = (\<lambda>d. ''r''),
      finish = (\<lambda>k outs. Some \<lparr>unsigned_output = mk_out (''me'', 3) # rev (map mk_out outs), psbt_rest = 0\<rparr>),
      sign_psbt = (\<lambda>k p. Some p), extract_tx = (\<lambda>p. length (unsigned_output p)),
      tx_id_string = (\<lambda>t. []), tx_serialize = (\<lambda>t. []), tx_deserialize = (\<lambda>b. None),
      bytes2hex = (\<lambda>s b. s), hex2bytes = (\<lambda>s. Some []), sha256_digest = (\<lambda>b. []),
      message_from_slice = (\<lambda>b. Some 0), sign_recoverable = (\<lambda>m k. (1, replicate 64 9))\<rparr>"

theorem deposit_psbt_outputs_witness:
  "deposit_psbt demo_bdk True \<lparr>sa_version = 26, sa_bytes = []\<rparr> ''d'' 500 TestnetNet
    = Ok \<lparr>unsigned_output = [mk_out (''r'', 0), mk_out (''ad'', 500), mk_out (''me'', 3)], psbt_rest = 0\<rparr>"
  using deposit_psbt_outputs [of demo_bdk True "\<lparr>sa_version = 26, sa_bytes = []\<rparr>" TestnetNet "''d''" 500
      "\<lparr>unsigned_output = [mk_out (''me'', 3), mk_out (''ad'', 500), mk_out (''r'', 0)], psbt_rest = 0\<rparr>"
      "[mk_out (''me'', 3)]"]
  by (simp add: demo_bdk_def)

definition demo_payload :: bytes where
  "demo_payload = magic_bytes TestnetNet @ [0x3e] @ u64_be 1000 @ [1] @ replicate 64 9"

lemma demo_withdrawal_data: "withdrawal_data demo_bdk ''d'' 1000 True TestnetNet = Ok demo_payload"
  by (simp add: withdrawal_data_def demo_bdk_def demo_payload_def Let_def)

lemma demo_bdk_finish:
  "finish demo_bdk k outs = Some \<lparr>unsigned_output = mk_out (''me'', 3) # rev (map mk_out outs), psbt_rest = 0\<rparr>"
  by (simp add: demo_bdk_def)

lemma demo_bdk_script: "dust_value demo_bdk s = 294"
  by (simp add: demo_bdk_def)

theorem withdrawal_psbt_drops_output_witness:
  "\<exists>psbt. withdrawal_psbt demo_bdk True True ''d'' ''d'' 1000 294 TestnetNet = Ok psbt
    \<and> length (unsigned_output psbt) < 4"
  using withdrawal_psbt_drops_output [OF refl _ demo_withdrawal_data demo_bdk_finish, where change = "[mk_out (''me'', 3)]"
      and fee = 294 and k = True]
  by (simp add: demo_bdk_script eval_nat_numeral)

theorem withdrawal_data_readback_witness:
  "length demo_payload = 76 \<and> be_value (take 8 (drop 3 demo_payload)) = 1000"
  using withdrawal_data_readback [OF demo_withdrawal_data]
  by (simp add: demo_bdk_def del: be_value.simps)

definition demo_key_lib :: "(bitcoin_network, unit, unit) key_lib" where
  "demo_key_lib =
     \<lparr>mnemonic_from_entropy = (\<lambda>b. Some ()), mnemonic_parse = (\<lambda>s. Some ()), mnemonic_string = (\<lambda>m. []),
      extended_key = (\<lambda>m n. Some n), kl_from_wif = (\<lambda>s. Some RegtestNet), kl_hex2bytes = (\<lambda>s. Some []),
      kl_bytes2hex = (\<lambda>s b. s), key_from_slice = (\<lambda>b n. Some n), kl_network = (\<lambda>k. k), kl_to_wif = (\<lambda>k. []),
      kl_to_bytes = (\<lambda>k. []), public_key_of = (\<lambda>k. ()), public_to_bytes = (\<lambda>p. []),
      pubkey_hash = (\<lambda>p. replicate 20 0), stacks_to_string = (\<lambda>v b. []), p2tr_string = (\<lambda>p n. []),
      p2tr_tweaked_string = (\<lambda>p n. []), p2pkh_string = (\<lambda>p n. []), version_mainnet = 22, version_testnet = 26\<rparr>"

theorem generate_panics_iff_witness:
  "generate demo_key_lib (\<lambda>i. 0) (GenWif ''x'') TestnetNet = Panic"
  using generate_panics_iff [of demo_key_lib "\<lambda>i. 0" "GenWif ''x''" TestnetNet RegtestNet None]
  by (simp add: demo_key_lib_def generate_key_def private_key_from_wif_def)

text \<open>
  What is built is what is broadcast. Let hexadecimal text and the serialization of transactions be read back
  as they were written. The text that \<^verbatim>\<open>sbtc-cli deposit\<close> or \<^verbatim>\<open>sbtc-cli withdraw\<close> prints for its transaction, given to
  \<^verbatim>\<open>sbtc-cli broadcast\<close>, broadcasts exactly that transaction, once, and prints the same data again, if the
  server is reached and accepts it; building alone broadcasts nothing.
\<close>

theorem built_transaction_broadcast:
  assumes "\<And>bs. hex2bytes B (bytes2hex B [] bs) = Some bs" and "\<And>tx. tx_deserialize B (tx_serialize B tx) = Some tx"
    and "connect_electrum B" and "\<And>tx. accepts tx"
    and "cmd = DepositCmd da \<or> cmd = WithdrawCmd wa" and "sbtc_main B L accepts random cmd = (Ok (PrintTransaction d), txs)"
  shows "txs = [] \<and> (\<exists>tx. d = tx_data B tx
    \<and> sbtc_main B L accepts random (BroadcastCmd (td_tx_hex d)) = (Ok (PrintTransaction d), [tx]))"
proof -
  from assms(5,6) obtain tx where "d = tx_data B tx" "txs = []"
    by (auto simp: sbtc_main_def build_deposit_tx_def build_withdrawal_tx_def obind_Ok_iff)
  with assms(1-4) show ?thesis by (auto simp: sbtc_main_def broadcast_tx_def tx_data_def)
qed

definition demo_wire_bdk :: "(string, nat, bool, string, nat, nat) bdk" where
  "demo_wire_bdk = demo_bdk\<lparr>tx_serialize := \<lambda>t. replicate t 0, tx_deserialize := \<lambda>b. Some (length b),
     bytes2hex := \<lambda>s b. s @ map (\<lambda>x. char_of (unat x)) b, hex2bytes := \<lambda>s. Some (map (\<lambda>c. of_nat (of_char c)) s)\<rparr>"

definition demo_deposit_args :: DepositArgs where
  "demo_deposit_args = \<lparr>da_wif = [], da_recipient = [], da_amount = 500, da_dkg_wallet = ''d''\<rparr>"

theorem built_transaction_broadcast_witness:
  "\<exists>d tx. fst (sbtc_main demo_wire_bdk demo_key_lib (\<lambda>t. True) (\<lambda>i. 0) (DepositCmd demo_deposit_args)) = Ok (PrintTransaction d)
     \<and> sbtc_main demo_wire_bdk demo_key_lib (\<lambda>t. True) (\<lambda>i. 0) (BroadcastCmd (td_tx_hex d)) = (Ok (PrintTransaction d), [tx])"
proof -
  let ?main = "sbtc_main demo_wire_bdk demo_key_lib (\<lambda>t. True) (\<lambda>i. 0)"
  have "hex2bytes demo_wire_bdk (bytes2hex demo_wire_bdk [] bs) = Some bs" for bs
  proof -
    have "of_nat (of_char (char_of (unat b))) = b" for b :: u8
      using unsigned_less [of b, where ?'a = nat] by simp
    then show ?thesis by (simp add: demo_wire_bdk_def comp_def)
  qed
  moreover have "tx_deserialize demo_wire_bdk (tx_serialize demo_wire_bdk tx) = Some tx" for tx
    by (simp add: demo_wire_bdk_def)
  moreover have "connect_electrum demo_wire_bdk" by (simp add: demo_wire_bdk_def demo_bdk_def)
  moreover obtain d where "?main (DepositCmd demo_deposit_args) = (Ok (PrintTransaction d), [])"
    by (simp add: sbtc_main_def build_deposit_tx_def setup_wallet_def deposit_psbt_def demo_wire_bdk_def demo_bdk_def
        demo_deposit_args_def Let_def)
  ultimately show ?thesis
    using built_transaction_broadcast [of demo_wire_bdk "\<lambda>t. True" "DepositCmd demo_deposit_args" demo_deposit_args _ demo_key_lib
        "\<lambda>i. 0" d "[]"] by fastforce
qed

end
