(* ===== verification/TestVectors.thy ===== *)
theory TestVectors
  imports SbtcCli
begin

text \<open>
  The generator of reference transactions (\<^verbatim>\<open>test-vectors/src\<close>): peg-in, peg-out request and handoff, with the payload
  in the transaction or in a witness. A script is the list of its pieces; its bytes, hashing and
  signing are parameters, as in \<open>SbtcCli\<close>. The payloads are compared with those that \<^verbatim>\<open>sbtc-cli\<close> builds.
\<close>

section \<open>Scripts and transactions\<close>

datatype opcode = OP_RETURN | OP_DROP | OP_DUP | OP_HASH160 | OP_EQUAL | OP_CHECKSIGVERIFY

datatype script_item = PushOpcode opcode | PushSlice bytes | PushInt int

type_synonym script = "script_item list"

record vector_input =
  vi_sequence :: u32
  vi_witness :: "bytes list"

record vector_tx =
  vt_version :: int
  vt_lock_time :: u32
  vt_input :: "vector_input list"
  vt_output :: "script TxOut list"

text \<open>
  Signing: the digest of a message as hexadecimal text, its bytes, the message of the library, the recoverable
  signature; a secret key from 32 bytes; the bytes of a script.
\<close>

record ('m, 'k) signing =
  sg_digest :: "bytes \<Rightarrow> string"
  sg_hex2bytes :: "string \<Rightarrow> bytes option"
  sg_message :: "bytes \<Rightarrow> 'm option"
  sg_sign :: "'m \<Rightarrow> 'k \<Rightarrow> int \<times> bytes"
  sg_key :: "bytes \<Rightarrow> 'k option"
  sg_script :: "script \<Rightarrow> bytes"

section \<open>utils.rs\<close>

definition generate_signature :: "('m, 'k) signing \<Rightarrow> bytes \<Rightarrow> 'k \<Rightarrow> (unit, int \<times> bytes) outcome" where
  "generate_signature S msg key =
     obind (unwrap (sg_hex2bytes S (sg_digest S msg))) (\<lambda>h.
     obind (unwrap (sg_message S h)) (\<lambda>m. Ok (sg_sign S m key)))"

definition generate_test_vector :: "vector_input list \<Rightarrow> script TxOut list \<Rightarrow> vector_tx" where
  "generate_test_vector input output =
     \<lparr>vt_version = 2, vt_lock_time = 0, vt_input = input, vt_output = output\<rparr>"

section \<open>peg_in.rs\<close>

definition TESTNET_SINGLESIG :: u8 where
  "TESTNET_SINGLESIG = 26"

text \<open>\<^verbatim>\<open>chain(repeat(0)).take(78)\<close>: cut or padded to 78 bytes.\<close>

definition take_padded :: "nat \<Rightarrow> bytes \<Rightarrow> bytes" where
  "take_padded n bs = take n (bs @ replicate n 0)"

definition name_bytes :: "bytes \<Rightarrow> bytes" where
  "name_bytes name = of_nat (length name) # name"

definition peg_in_data :: "bytes \<Rightarrow> bytes \<Rightarrow> u8 \<Rightarrow> bytes option \<Rightarrow> u64 option \<Rightarrow> bytes" where
  "peg_in_data magic address version contract_name maybe_fee_subsidy =
     (let principal_byte = (case contract_name of Some _ \<Rightarrow> 0x06 | None \<Rightarrow> 0x05)
      in take_padded 78 (magic @ [0x3c] @ [principal_byte] @ [version] @ address
           @ (case contract_name of Some name \<Rightarrow> name_bytes name | None \<Rightarrow> []))
         @ (case maybe_fee_subsidy of Some fee \<Rightarrow> u64_be fee | None \<Rightarrow> []))"

text \<open>\<^verbatim>\<open>"sbtc-receiver-contract"\<close>\<close>

definition receiver_contract :: bytes where
  "receiver_contract = map of_char ''sbtc-receiver-contract''"

definition peg_wallet_script :: "bytes \<Rightarrow> script" where
  "peg_wallet_script wallet = [PushInt 1, PushSlice wallet]"

definition generate_peg_in_output :: "bytes \<Rightarrow> bytes \<Rightarrow> u8 \<Rightarrow> u64 \<Rightarrow> script TxOut list" where
  "generate_peg_in_output address wallet version amount =
     (let data = peg_in_data [105, 100] address version (Some receiver_contract) None
      in [\<lparr>out_value = 0, script_pubkey = [PushOpcode OP_RETURN, PushSlice data]\<rparr>,
          \<lparr>out_value = amount, script_pubkey = peg_wallet_script wallet\<rparr>])"

definition generate_peg_in_test_vector :: vector_tx where
  "generate_peg_in_test_vector =
     generate_test_vector [\<lparr>vi_sequence = - 1, vi_witness = []\<rparr>]
       (generate_peg_in_output (replicate 20 1) (replicate 32 4) TESTNET_SINGLESIG 1337)"

definition reveal_script :: "bytes \<Rightarrow> bytes \<Rightarrow> script" where
  "reveal_script data wallet =
     [PushSlice data, PushOpcode OP_DROP, PushOpcode OP_DUP, PushOpcode OP_HASH160, PushSlice wallet,
      PushOpcode OP_EQUAL, PushOpcode OP_CHECKSIGVERIFY]"

definition reveal_marker :: script where
  "reveal_marker = [PushOpcode OP_RETURN, PushSlice [105, 100, 0x77]]"

definition generate_peg_in_reveal_test_vector :: "('m, 'k) signing \<Rightarrow> vector_tx" where
  "generate_peg_in_reveal_test_vector S =
     (let data = peg_in_data [] (replicate 20 1) TESTNET_SINGLESIG (Some receiver_contract) None;
          witness = [sg_script S (reveal_script data (replicate 32 4)), replicate 97 60]
      in generate_test_vector [\<lparr>vi_sequence = - 1, vi_witness = witness\<rparr>]
           [\<lparr>out_value = 0, script_pubkey = reveal_marker\<rparr>,
            \<lparr>out_value = 1337, script_pubkey = peg_wallet_script (replicate 32 4)\<rparr>])"

section \<open>peg_out.rs\<close>

definition peg_out_request_data :: "bytes \<Rightarrow> u64 \<Rightarrow> u8 \<Rightarrow> bytes \<Rightarrow> u64 option \<Rightarrow> bytes" where
  "peg_out_request_data magic amount recovery_id signature maybe_fee_subsidy =
     take_padded 78 (magic @ [0x3e] @ u64_be amount @ [recovery_id] @ signature)
     @ (case maybe_fee_subsidy of Some fee \<Rightarrow> u64_be fee | None \<Rightarrow> [])"

definition recipient_script :: "bytes \<Rightarrow> script" where
  "recipient_script recipient =
     [PushOpcode OP_DUP, PushOpcode OP_HASH160, PushSlice recipient, PushOpcode OP_EQUAL, PushOpcode OP_CHECKSIGVERIFY]"

definition generate_peg_out_request_output ::
  "('m, 'k) signing \<Rightarrow> u64 \<Rightarrow> 'k \<Rightarrow> bytes \<Rightarrow> bytes \<Rightarrow> u64 \<Rightarrow> u64 \<Rightarrow> (unit, script TxOut list) outcome" where
  "generate_peg_out_request_output S amount key wallet recipient fulfillment_fee dust_amount =
     obind (generate_signature S (u64_be amount @ sg_script S (recipient_script recipient)) key) (\<lambda>(recovery_id, signature).
       (let data = peg_out_request_data [105, 100] amount (word_of_int recovery_id) signature None
        in Ok [\<lparr>out_value = 0, script_pubkey = [PushOpcode OP_RETURN, PushSlice data]\<rparr>,
               \<lparr>out_value = dust_amount, script_pubkey = recipient_script recipient\<rparr>,
               \<lparr>out_value = fulfillment_fee, script_pubkey = peg_wallet_script wallet\<rparr>]))"

definition vector_key :: "('m, 'k) signing \<Rightarrow> (unit, 'k) outcome" where
  "vector_key S =
     obind (unwrap (sg_hex2bytes S ''42faca653724860da7a41bfcef7e6ba78db55146f6900de8cb2a9f760ffac70c01'')) (\<lambda>bs.
       if length bs < 32 then Panic else unwrap (sg_key S (take 32 bs)))"

definition generate_peg_out_request_test_vector :: "('m, 'k) signing \<Rightarrow> (unit, vector_tx) outcome" where
  "generate_peg_out_request_test_vector S =
     obind (vector_key S) (\<lambda>key.
     obind (generate_peg_out_request_output S 1337 key (replicate 32 4) (replicate 20 5) 42 21) (\<lambda>output.
       Ok (generate_test_vector [\<lparr>vi_sequence = 65535, vi_witness = []\<rparr>] output)))"

definition generate_peg_out_request_reveal_test_vector :: "('m, 'k) signing \<Rightarrow> (unit, vector_tx) outcome" where
  "generate_peg_out_request_reveal_test_vector S =
     obind (vector_key S) (\<lambda>key.
     obind (generate_signature S (u64_be 1337 @ sg_script S (recipient_script (replicate 20 5))) key) (\<lambda>(recovery_id, signature).
       (let data = peg_out_request_data [] 1337 (word_of_int recovery_id) signature None;
            witness = [sg_script S (reveal_script data (replicate 32 4)), replicate 97 60]
        in Ok (generate_test_vector [\<lparr>vi_sequence = - 1, vi_witness = witness\<rparr>]
             [\<lparr>out_value = 0, script_pubkey = reveal_marker\<rparr>,
              \<lparr>out_value = 21, script_pubkey = recipient_script (replicate 20 5)\<rparr>,
              \<lparr>out_value = 42, script_pubkey = peg_wallet_script (replicate 32 4)\<rparr>]))))"

section \<open>peg_handoff.rs\<close>

definition generate_peg_handoff_output :: "bytes \<Rightarrow> u64 \<Rightarrow> script TxOut list" where
  "generate_peg_handoff_output wallet reward_cycle =
     [\<lparr>out_value = 0, script_pubkey = [PushOpcode OP_RETURN, PushSlice [105, 100, 0x48],
        PushSlice (u64_be reward_cycle), PushSlice (replicate 68 0)]\<rparr>,
      \<lparr>out_value = 0, script_pubkey = peg_wallet_script wallet\<rparr>]"

definition generate_peg_handoff_test_vector :: vector_tx where
  "generate_peg_handoff_test_vector =
     generate_test_vector [\<lparr>vi_sequence = 65535, vi_witness = []\<rparr>] (generate_peg_handoff_output (replicate 32 4) 67)"

section \<open>main.rs\<close>

datatype vector_operation = VectorPegIn | VectorPegOutRequest | VectorPegHandoff

datatype vector_protocol = OpReturn | CommitReveal

fun vector_main :: "('m, 'k) signing \<Rightarrow> vector_operation \<Rightarrow> vector_protocol \<Rightarrow> (unit, vector_tx) outcome" where
  "vector_main S VectorPegIn OpReturn = Ok generate_peg_in_test_vector"
| "vector_main S VectorPegIn CommitReveal = Ok (generate_peg_in_reveal_test_vector S)"
| "vector_main S VectorPegOutRequest OpReturn = generate_peg_out_request_test_vector S"
| "vector_main S VectorPegOutRequest CommitReveal = generate_peg_out_request_reveal_test_vector S"
| "vector_main S VectorPegHandoff OpReturn = Ok generate_peg_handoff_test_vector"
| "vector_main S VectorPegHandoff CommitReveal = Panic"

section \<open>Payloads\<close>

lemma length_take_padded [simp]: "length (take_padded n bs) = n"
  by (simp add: take_padded_def)

lemma take_padded_fits: "length bs \<le> n \<Longrightarrow> take_padded n bs = bs @ replicate (n - length bs) 0"
  by (simp add: take_padded_def)

lemma take_take_padded: "m \<le> n \<Longrightarrow> m \<le> length bs \<Longrightarrow> take m (take_padded n bs) = take m bs"
  by (simp add: take_padded_def min_absorb1)

lemma peg_in_data_layout:
  assumes "length address = 20"
  shows "peg_in_data [a, b] address version name fee =
    [a, b, 0x3c, if name = None then 0x05 else 0x06, version] @ address
    @ take 53 ((case name of Some n \<Rightarrow> name_bytes n | None \<Rightarrow> []) @ replicate 78 0)
    @ (case fee of Some f \<Rightarrow> u64_be f | None \<Rightarrow> [])"
  using assms by (cases name) (simp_all add: peg_in_data_def take_padded_def)

text \<open>
  The payload of a peg-in has 78 bytes, and 8 more with a fee subsidy. The opcode, the kind of the principal,
  the version and the address can be read back from it, and so can the name of the contract with its length
  when it has at most 52 bytes; a longer name is cut.
\<close>

theorem peg_in_data_readback:
  assumes "length address = 20"
  shows "length (peg_in_data [a, b] address version name fee) = 78 + (if fee = None then 0 else 8)
    \<and> peg_in_data [a, b] address version name fee ! 2 = 0x3c
    \<and> peg_in_data [a, b] address version name fee ! 3 = (if name = None then 0x05 else 0x06)
    \<and> peg_in_data [a, b] address version name fee ! 4 = version
    \<and> take 20 (drop 5 (peg_in_data [a, b] address version name fee)) = address
    \<and> (\<forall>n. name = Some n \<and> length n \<le> 52 \<longrightarrow>
        take (Suc (length n)) (drop 25 (peg_in_data [a, b] address version name fee)) = name_bytes n)"
proof -
  let ?tail = "take 53 ((case name of Some n \<Rightarrow> name_bytes n | None \<Rightarrow> []) @ replicate 78 0)
    @ (case fee of Some f \<Rightarrow> u64_be f | None \<Rightarrow> [])"
  have drop25: "drop 25 (peg_in_data [a, b] address version name fee) = ?tail"
    using assms by (simp add: peg_in_data_layout)
  have "take (Suc (length n)) ?tail = name_bytes n" if "name = Some n" "length n \<le> 52" for n
    using that by (simp add: name_bytes_def)
  then show ?thesis
    using assms drop25 by (auto simp: peg_in_data_layout split: option.split)
qed

theorem peg_in_data_readback_witness:
  "take 20 (drop 5 (peg_in_data [105, 100] (replicate 20 1) 26 (Some receiver_contract) None)) = replicate 20 1"
  using peg_in_data_readback [of "replicate 20 1"] by simp

text \<open>
  The payload of a withdrawal request that \<^verbatim>\<open>sbtc-cli\<close> builds agrees with the reference: it is the reference
  payload for the same network, amount and signature without the two bytes of padding, and the signature is
  over the same message.
\<close>

theorem withdrawal_payload_agrees:
  assumes "withdrawal_data B recipient amount sender net = Ok data"
    and "\<And>m k. length (snd (sign_recoverable B m k)) = 64"
    and S: "sg_digest S = sha256_digest B" "sg_hex2bytes S = hex2bytes B" "sg_message S = message_from_slice B"
      "sg_sign S = sign_recoverable B"
  shows "\<exists>recovery_id signature.
    generate_signature S (u64_be amount @ script_bytes B (address_script B recipient)) sender = Ok (recovery_id, signature)
    \<and> peg_out_request_data (magic_bytes net) amount (word_of_int recovery_id) signature None = data @ [0, 0]"
proof -
  obtain h m where hm: "hex2bytes B (sha256_digest B (u64_be amount @ script_bytes B (address_script B recipient))) = Some h"
      "message_from_slice B h = Some m"
    and data: "data = magic_bytes net @ [0x3e] @ u64_be amount @ [word_of_int (fst (sign_recoverable B m sender))]
      @ snd (sign_recoverable B m sender)"
    using assms(1) by (auto simp: withdrawal_data_def Let_def obind_Ok_iff case_prod_beta)
  have "length (magic_bytes net) = 2" by (cases net) simp_all
  then have "length data = 76" using assms(2) data by simp
  then have "take_padded 78 data = data @ [0, 0]"
    by (simp add: take_padded_fits eval_nat_numeral)
  moreover have "generate_signature S (u64_be amount @ script_bytes B (address_script B recipient)) sender
      = Ok (sign_recoverable B m sender)"
    using hm by (simp add: generate_signature_def S)
  ultimately show ?thesis
    unfolding peg_out_request_data_def data by (intro exI [of _ "fst (sign_recoverable B m sender)"]
        exI [of _ "snd (sign_recoverable B m sender)"]) simp
qed

text \<open>
  The payload of a deposit that \<^verbatim>\<open>sbtc-cli\<close> builds does not agree with the reference: it lacks the byte that
  says what kind of principal the recipient is, so that for every address version in use it is not the
  beginning of the reference payload for the same network and recipient, with or without a contract.
\<close>

theorem deposit_payload_disagrees:
  assumes "length (sa_bytes r) = 20" and "sa_version r \<notin> {0x05, 0x06}"
  shows "take (length (deposit_data r net))
    (peg_in_data (magic_bytes net) (sa_bytes r) (sa_version r) name fee) \<noteq> deposit_data r net"
proof
  assume eq: "take (length (deposit_data r net))
    (peg_in_data (magic_bytes net) (sa_bytes r) (sa_version r) name fee) = deposit_data r net"
  obtain a b where magic: "magic_bytes net = [a, b]" by (cases net) simp_all
  have len: "length (deposit_data r net) = 24" using assms(1) magic by (simp add: deposit_data_def)
  have "deposit_data r net ! 3 = sa_version r" by (simp add: deposit_data_def magic)
  moreover have "peg_in_data (magic_bytes net) (sa_bytes r) (sa_version r) name fee ! 3 \<in> {0x05, 0x06}"
    using assms(1) by (simp add: magic peg_in_data_layout)
  moreover have "take 24 (peg_in_data (magic_bytes net) (sa_bytes r) (sa_version r) name fee) ! 3
      = peg_in_data (magic_bytes net) (sa_bytes r) (sa_version r) name fee ! 3"
    by simp
  ultimately show False using assms(2) unfolding eq [unfolded len] by simp
qed

theorem deposit_payload_disagrees_witness:
  "take 24 (peg_in_data (magic_bytes TestnetNet) (replicate 20 1) 26 None None)
    \<noteq> deposit_data \<lparr>sa_version = 26, sa_bytes = replicate 20 1\<rparr> TestnetNet"
  using deposit_payload_disagrees [of "\<lparr>sa_version = 26, sa_bytes = replicate 20 1\<rparr>" TestnetNet None None]
  by (simp add: deposit_data_def)

definition demo_signing :: "(nat, bool) signing" where
  "demo_signing =
     \<lparr>sg_digest = sha256_digest demo_bdk, sg_hex2bytes = hex2bytes demo_bdk, sg_message = message_from_slice demo_bdk,
      sg_sign = sign_recoverable demo_bdk, sg_key = (\<lambda>b. Some True), sg_script = (\<lambda>s. [])\<rparr>"

theorem withdrawal_payload_agrees_witness:
  "\<exists>recovery_id signature. peg_out_request_data (magic_bytes TestnetNet) 1000 (word_of_int recovery_id) signature None
    = demo_payload @ [0, 0]"
proof -
  have "\<And>m k. length (snd (sign_recoverable demo_bdk m k)) = 64" by (simp add: demo_bdk_def)
  then show ?thesis
    using withdrawal_payload_agrees [OF demo_withdrawal_data, of demo_signing] by (auto simp: demo_signing_def)
qed

text \<open>Every combination of operation and protocol has its vector, but for the handoff with a reveal.\<close>

theorem vector_main_panics_iff:
  assumes sign: "\<And>msg. \<exists>h m. sg_hex2bytes S (sg_digest S msg) = Some h \<and> sg_message S h = Some m"
    and key: "vector_key S = Ok key"
  shows "vector_main S op protocol = Panic \<longleftrightarrow> op = VectorPegHandoff \<and> protocol = CommitReveal"
proof -
  have sig: "\<exists>r s. generate_signature S msg k = Ok (r, s)" for msg k
  proof -
    obtain h m where "sg_hex2bytes S (sg_digest S msg) = Some h" "sg_message S h = Some m" using sign by blast
    then show ?thesis by (cases "sg_sign S m k") (simp add: generate_signature_def)
  qed
  have "generate_peg_out_request_test_vector S \<noteq> Panic"
    using sig [of "u64_be 1337 @ sg_script S (recipient_script (replicate 20 5))" key]
    by (auto simp: generate_peg_out_request_test_vector_def generate_peg_out_request_output_def key Let_def)
  moreover have "generate_peg_out_request_reveal_test_vector S \<noteq> Panic"
    using sig [of "u64_be 1337 @ sg_script S (recipient_script (replicate 20 5))" key]
    by (auto simp: generate_peg_out_request_reveal_test_vector_def key Let_def)
  ultimately show ?thesis by (cases op; cases protocol) simp_all
qed

end
