(* ===== verification/StacksDoctor.thy ===== *)
theory StacksDoctor
  imports Prelude "HOL-Library.Multiset"
begin

text \<open>
  The diagnosis tool for stacks nodes (\<^verbatim>\<open>stacks-doctor/src\<close>): the analysis of a log, the statistics of burn fees,
  the depths of reorganisations. Files and queries are parameters: the lines of the log, the rows of a
  query in the order in which the statement sorts them. A report is the value that is printed.
\<close>

section \<open>Command line\<close>

datatype network = Mainnet | Testnet

definition to_ascii_lowercase :: "string \<Rightarrow> string" where
  "to_ascii_lowercase =
     map (\<lambda>c. let n = of_char c :: nat in if 65 \<le> n \<and> n \<le> 90 then char_of (n + 32) else c)"

definition network_from_str :: "string \<Rightarrow> (string, network) outcome" where
  "network_from_str s =
     (if to_ascii_lowercase s = ''mainnet'' then Ok Mainnet
      else if to_ascii_lowercase s = ''testnet'' then Ok Testnet
      else Err (''Could not parse Network: '' @ s))"

fun network_dir :: "network \<Rightarrow> string" where
  "network_dir Mainnet = ''mainnet/''"
| "network_dir Testnet = ''xenon/''"

datatype doctor_error = OpenFailed | QueryFailed | RowFailed | NoData

section \<open>analyze_logs.rs\<close>

fun is_prefix :: "string \<Rightarrow> string \<Rightarrow> bool" where
  "is_prefix [] s = True"
| "is_prefix (c # cs) [] = False"
| "is_prefix (c # cs) (d # ds) = (c = d \<and> is_prefix cs ds)"

fun contains :: "string \<Rightarrow> string \<Rightarrow> bool" where
  "contains [] pat = is_prefix pat []"
| "contains (c # cs) pat = (is_prefix pat (c # cs) \<or> contains cs pat)"

text \<open>One line: the state of the scan and the lines reported so far.\<close>

definition scan_line :: "string \<Rightarrow> bool \<times> string list \<Rightarrow> bool \<times> string list" where
  "scan_line line st =
     (if contains line ''mined anchored block'' then (True, snd st)
      else if contains line ''Failure mining'' then (False, snd st @ [line])
      else st)"

text \<open>\<^verbatim>\<open>map_while(Result::ok)\<close>: the lines up to the first that cannot be read.\<close>

fun readable_lines :: "string option list \<Rightarrow> string list" where
  "readable_lines [] = []"
| "readable_lines (None # ls) = []"
| "readable_lines (Some l # ls) = l # readable_lines ls"

record log_report =
  problems :: "string list"
  is_okay :: bool

definition analyze_logs :: "string option list option \<Rightarrow> (doctor_error, log_report) outcome" where
  "analyze_logs lf =
     obind (ok_or OpenFailed lf) (\<lambda>ls.
       (let (okay, found) = fold scan_line (readable_lines ls) (True, [])
        in Ok \<lparr>problems = found, is_okay = okay\<rparr>))"

section \<open>burns.rs\<close>

text \<open>A cell of the result: \<^verbatim>\<open>NULL\<close> (the operation is no block commit), an integer, or something else that
  cannot be read as one.\<close>

datatype cell = Null | Integer int | BadCell

fun get_cell :: "cell \<Rightarrow> (doctor_error, int option) outcome" where
  "get_cell Null = Ok None"
| "get_cell (Integer i) = Ok (Some i)"
| "get_cell BadCell = Err RowFailed"

text \<open>The loop over the rows: height and fee of those that have both.\<close>

fun height_fee_pairs :: "(cell \<times> cell) list \<Rightarrow> (doctor_error, (u64 \<times> u64) list) outcome" where
  "height_fee_pairs [] = Ok []"
| "height_fee_pairs ((h, f) # rows) =
     obind (get_cell h) (\<lambda>height.
       (case height of
          None \<Rightarrow> height_fee_pairs rows
        | Some height \<Rightarrow>
            obind (get_cell f) (\<lambda>fee.
              (case fee of
                 None \<Rightarrow> height_fee_pairs rows
               | Some fee \<Rightarrow>
                   obind (height_fee_pairs rows) (\<lambda>pairs. Ok ((word_of_int height, word_of_int fee) # pairs))))))"

record burn_report =
  burn_min :: u64
  burn_max :: u64
  burn_mean :: u64
  burn_avg :: u64

definition burn_fees :: "u64 \<Rightarrow> (u64 \<times> u64) list \<Rightarrow> u64 list" where
  "burn_fees blocks pairs =
     (let last_block = fst (hd pairs);
          cutoff_block = last_block - blocks
      in sort (map snd (filter (\<lambda>(height, fee). cutoff_block \<le> height) pairs)))"

definition burns :: "(cell \<times> cell) list option \<Rightarrow> u64 \<Rightarrow> (doctor_error, burn_report) outcome" where
  "burns rows blocks =
     obind (ok_or QueryFailed rows) (\<lambda>rs.
     obind (height_fee_pairs rs) (\<lambda>pairs.
       if pairs = [] then Err NoData
       else
         (let fees = burn_fees blocks pairs
          in case fees of
               [] \<Rightarrow> Panic
             | f # fs \<Rightarrow>
                 Ok \<lparr>burn_min = f, burn_max = last fees, burn_mean = fees ! (length fees div 2),
                     burn_avg = sum_list fees div of_nat (length fees)\<rparr>)))"

section \<open>reorgs.rs\<close>

record reorg_row =
  rr_burn_height :: "64 word"
  rr_stacks_block_id :: string
  rr_miner :: string
  rr_stacks_height :: "64 word"

record Item =
  it_burn_height :: "64 word"
  it_stacks_block_id :: string
  it_miner :: string
  it_stacks_height :: "64 word"
  it_reorg_depth :: "64 word"

record ReorgResponse =
  max_reorg_depth :: "64 word"
  max_reorg_blocks_ago :: nat
  reorg_data :: "Item list"

definition item_of_row :: "reorg_row \<Rightarrow> Item" where
  "item_of_row r =
     \<lparr>it_burn_height = rr_burn_height r, it_stacks_block_id = rr_stacks_block_id r, it_miner = rr_miner r,
      it_stacks_height = rr_stacks_height r, it_reorg_depth = 0\<rparr>"

text \<open>64-bit signed arithmetic: \<open>smax0\<close> is \<^verbatim>\<open>max(0)\<close>.\<close>

definition smax0 :: "64 word \<Rightarrow> 64 word" where
  "smax0 w = (if sint w < 0 then 0 else w)"

text \<open>The loop over the items from the oldest to the newest, which is the order of the list here.\<close>

fun set_depths :: "64 word \<Rightarrow> Item list \<Rightarrow> Item list" where
  "set_depths last_height [] = []"
| "set_depths last_height (it # its) =
     it\<lparr>it_reorg_depth := smax0 (1 + last_height - it_stacks_height it)\<rparr> # set_depths (it_stacks_height it) its"

text \<open>\<^verbatim>\<open>max_by_key\<close>: the greatest depth, as a signed number.\<close>

fun max_depth :: "Item list \<Rightarrow> (64 word) option" where
  "max_depth [] = None"
| "max_depth (it # its) =
     (case max_depth its of
        None \<Rightarrow> Some (it_reorg_depth it)
      | Some d \<Rightarrow> Some (if sint (it_reorg_depth it) < sint d then d else it_reorg_depth it))"

fun find_depth :: "64 word \<Rightarrow> Item list \<Rightarrow> nat option" where
  "find_depth d [] = None"
| "find_depth d (it # its) = (if it_reorg_depth it = d then Some 0 else map_option Suc (find_depth d its))"

text \<open>The query returns at most \<open>limit\<close> rows, the newest first.\<close>

definition reorg_limit :: "u64 \<Rightarrow> 64 word" where
  "reorg_limit blocks = blocks + 1"

text \<open>A row that cannot be read is absent.\<close>

fun read_items :: "reorg_row option list \<Rightarrow> (doctor_error, Item list) outcome" where
  "read_items [] = Ok []"
| "read_items (None # rows) = Err RowFailed"
| "read_items (Some r # rows) = obind (read_items rows) (\<lambda>its. Ok (item_of_row r # its))"

definition reorgs ::
  "(64 word \<Rightarrow> reorg_row option list option) \<Rightarrow> u64 \<Rightarrow> (doctor_error, ReorgResponse) outcome" where
  "reorgs query blocks =
     obind (ok_or QueryFailed (query (reorg_limit blocks))) (\<lambda>rows.
     obind (read_items rows) (\<lambda>data.
       if data = [] then Err NoData
       else
         (let data' = rev (set_depths (it_stacks_height (last data)) (rev (butlast data)))
          in obind (unwrap (max_depth data')) (\<lambda>depth.
             obind (unwrap (find_depth depth data')) (\<lambda>ago.
               Ok \<lparr>max_reorg_depth = depth, max_reorg_blocks_ago = ago, reorg_data = data'\<rparr>)))))"

section \<open>env.rs\<close>

definition show_env :: "(string \<times> string) list \<Rightarrow> string list" where
  "show_env vars =
     map (\<lambda>(k, v). k @ ''='' @ v) (filter (\<lambda>(k, v). contains k ''DOCTOR'') vars)"

section \<open>main.rs\<close>

datatype doctor_command = Analyze | Burns u64 | Reorgs u64 | Env

record doctor_args =
  ar_network :: network
  ar_log_file :: "string option"
  ar_db_dir :: "string option"
  ar_cmd :: doctor_command

text \<open>What the tool finds outside: the log files, the two databases by their path, the environment.\<close>

record doctor_world =
  log_files :: "string \<Rightarrow> string option list option"
  burn_query :: "string \<Rightarrow> (cell \<times> cell) list option"
  reorg_query :: "string \<Rightarrow> 64 word \<Rightarrow> reorg_row option list option"
  env_vars :: "(string \<times> string) list"

datatype doctor_report =
    LogReport log_report
  | BurnReport burn_report
  | ReorgReport ReorgResponse
  | EnvReport "string list"
  | PathMissing

definition path_join :: "string \<Rightarrow> string \<Rightarrow> string" where
  "path_join a b = (if a \<noteq> [] \<and> last a \<noteq> CHR ''/'' then a @ ''/'' @ b else a @ b)"

fun map_ok :: "('a \<Rightarrow> 'b) \<Rightarrow> ('e, 'a) outcome \<Rightarrow> ('e, 'b) outcome" where
  "map_ok f r = obind r (\<lambda>a. Ok (f a))"

text \<open>The final \<^verbatim>\<open>unwrap\<close> turns every error into a panic.\<close>

fun unwrap_result :: "('e, 'a) outcome \<Rightarrow> ('f, 'a) outcome" where
  "unwrap_result (Ok a) = Ok a"
| "unwrap_result (Err e) = Panic"
| "unwrap_result Panic = Panic"

definition doctor_main :: "doctor_world \<Rightarrow> doctor_args \<Rightarrow> (unit, doctor_report) outcome" where
  "doctor_main w args =
     unwrap_result
       (case ar_cmd args of
          Analyze \<Rightarrow>
            (case ar_log_file args of
               Some f \<Rightarrow> map_ok LogReport (analyze_logs (log_files w f))
             | None \<Rightarrow> Ok PathMissing)
        | Burns blocks \<Rightarrow>
            (case ar_db_dir args of
               Some d \<Rightarrow> map_ok BurnReport
                 (burns (burn_query w (path_join (path_join d (network_dir (ar_network args))) ''burnchain/burnchain.sqlite'')) blocks)
             | None \<Rightarrow> Ok PathMissing)
        | Reorgs blocks \<Rightarrow>
            (case ar_db_dir args of
               Some d \<Rightarrow> map_ok ReorgReport
                 (reorgs (reorg_query w (path_join (path_join d (network_dir (ar_network args))) ''chainstate/vm/index.sqlite'')) blocks)
             | None \<Rightarrow> Ok PathMissing)
        | Env \<Rightarrow> Ok (EnvReport (show_env (env_vars w))))"

section \<open>The log\<close>

text \<open>What a line says about mining, if anything.\<close>

definition verdict :: "string \<Rightarrow> bool option" where
  "verdict line =
     (if contains line ''mined anchored block'' then Some True
      else if contains line ''Failure mining'' then Some False
      else None)"

lemma scan_lines:
  "fold scan_line ls (okay, found)
    = (last (okay # List.map_filter verdict ls), found @ filter (\<lambda>l. verdict l = Some False) ls)"
proof (induction ls arbitrary: okay found)
  case (Cons l ls)
  have "scan_line l (okay, found)
      = (case verdict l of None \<Rightarrow> okay | Some b \<Rightarrow> b, if verdict l = Some False then found @ [l] else found)"
    by (simp add: scan_line_def verdict_def)
  then show ?case
    using Cons.IH by (cases "verdict l") (simp_all add: List.map_filter_simps)
qed simp

text \<open>
  The log is reported as fine exactly when the last of its readable lines that speaks about mining reports a
  mined block, or none does; the problems that are listed are all lines that report a failure, in order.
\<close>

theorem analyze_logs_verdict:
  "analyze_logs lf =
     (case lf of
        None \<Rightarrow> Err OpenFailed
      | Some ls \<Rightarrow> Ok
          \<lparr>problems = filter (\<lambda>l. verdict l = Some False) (readable_lines ls),
           is_okay = last (True # List.map_filter verdict (readable_lines ls))\<rparr>)"
  by (cases lf) (simp_all add: analyze_logs_def scan_lines)

section \<open>Burn fees\<close>

lemma burn_fees_props:
  "sorted (burn_fees blocks pairs)"
  "mset (burn_fees blocks pairs) = mset (map snd (filter (\<lambda>(h, f). fst (hd pairs) - blocks \<le> h) pairs))"
  by (simp_all add: burn_fees_def Let_def)

lemma sorted_last_Max: "sorted xs \<Longrightarrow> xs \<noteq> [] \<Longrightarrow> last xs = Max (set xs)" for xs :: "'a::linorder list"
  by (induction xs) auto

text \<open>
  The statistics of burn fees panic exactly when more blocks are requested than the chain has: the
  subtraction wraps, no block is recent enough, and the first of no fees is taken. The query lists the heights
  in descending order.
\<close>

theorem burns_panics_iff:
  assumes "height_fee_pairs rows = Ok pairs" and "pairs \<noteq> []"
    and "\<forall>(h, f) \<in> set pairs. h \<le> fst (hd pairs)"
  shows "burns (Some rows) blocks = Panic \<longleftrightarrow> fst (hd pairs) < blocks"
proof -
  let ?top = "fst (hd pairs)"
  have "burn_fees blocks pairs = [] \<longleftrightarrow> (\<forall>p \<in> set pairs. \<not> ?top - blocks \<le> fst p)"
  proof -
    have "burn_fees blocks pairs = [] \<longleftrightarrow> filter (\<lambda>(h, f). ?top - blocks \<le> h) pairs = []"
      using burn_fees_props(2) [of blocks pairs] by (metis map_is_Nil_conv mset_zero_iff)
    then show ?thesis by (auto simp: filter_empty_conv)
  qed
  also have "\<dots> \<longleftrightarrow> \<not> ?top - blocks \<le> ?top"
  proof
    assume "\<forall>p \<in> set pairs. \<not> ?top - blocks \<le> fst p"
    then show "\<not> ?top - blocks \<le> ?top" using assms(2) hd_in_set by blast
  next
    assume "\<not> ?top - blocks \<le> ?top"
    then show "\<forall>p \<in> set pairs. \<not> ?top - blocks \<le> fst p" using assms(3) by (auto split: prod.splits)
  qed
  also have "\<dots> \<longleftrightarrow> ?top < blocks" by (simp add: word_sub_le_iff not_le)
  finally show ?thesis
    using assms(1,2) by (auto simp: burns_def Let_def split: list.split)
qed

text \<open>
  Otherwise the report is about the fees of exactly the blocks at most \<open>blocks\<close> below the highest one: the
  least and the greatest of them and, under the name of the mean, the middle one of the sorted fees, with
  as many fees at most as large before it as the index says.
\<close>

theorem burns_report:
  assumes "height_fee_pairs rows = Ok pairs" and "burns (Some rows) blocks = Ok r"
  shows "\<exists>fees. sorted fees \<and> mset fees = mset (map snd (filter (\<lambda>(h, f). fst (hd pairs) - blocks \<le> h) pairs))
    \<and> burn_min r = Min (set fees) \<and> burn_max r = Max (set fees) \<and> burn_mean r = fees ! (length fees div 2)
    \<and> burn_avg r = sum_list fees div of_nat (length fees)"
proof -
  let ?fees = "burn_fees blocks pairs"
  obtain f fs where fees: "?fees = f # fs" and
    r: "r = \<lparr>burn_min = f, burn_max = last ?fees, burn_mean = ?fees ! (length ?fees div 2),
      burn_avg = sum_list ?fees div of_nat (length ?fees)\<rparr>"
    using assms by (auto simp: burns_def Let_def split: if_splits list.splits)
  have sorted: "sorted ?fees" by (rule burn_fees_props(1))
  have "f = Min (set ?fees)"
    using sorted unfolding fees by (intro Min_eqI [symmetric]) auto
  moreover have "last ?fees = Max (set ?fees)"
    using sorted fees by (intro sorted_last_Max) simp_all
  ultimately show ?thesis
    using sorted burn_fees_props(2) [of blocks pairs] r by (intro exI [of _ ?fees]) simp
qed

section \<open>Reorganisations\<close>

text \<open>The reference, from the newest item on: how far the height of an item is below one more than that of the
  item before it.\<close>

fun depths :: "Item list \<Rightarrow> Item list" where
  "depths [] = []"
| "depths [it] = []"
| "depths (it # older # its) =
     it\<lparr>it_reorg_depth := smax0 (1 + it_stacks_height older - it_stacks_height it)\<rparr> # depths (older # its)"

lemma set_depths_snoc:
  "set_depths h (its @ [it]) = set_depths h its
     @ [it\<lparr>it_reorg_depth := smax0 (1 + (if its = [] then h else it_stacks_height (last its)) - it_stacks_height it)\<rparr>]"
  by (induction h its rule: set_depths.induct) auto

lemma set_depths_depths:
  "data \<noteq> [] \<Longrightarrow> rev (set_depths (it_stacks_height (last data)) (rev (butlast data))) = depths data"
proof (induction data rule: depths.induct)
  case (3 it older its)
  let ?rest = "older # its" and ?h = "it_stacks_height (last (older # its))"
  let ?it = "it\<lparr>it_reorg_depth := smax0 (1 + it_stacks_height older - it_stacks_height it)\<rparr>"
  have prev: "(if rev (butlast ?rest) = [] then ?h else it_stacks_height (last (rev (butlast ?rest)))) = it_stacks_height older"
    by (cases its) (simp_all add: last_rev)
  have "set_depths ?h (rev (butlast (it # ?rest))) = set_depths ?h (rev (butlast ?rest) @ [it])"
    by simp
  also have "\<dots> = set_depths ?h (rev (butlast ?rest)) @ [?it]"
    unfolding set_depths_snoc prev ..
  finally have step: "set_depths ?h (rev (butlast (it # ?rest))) = set_depths ?h (rev (butlast ?rest)) @ [?it]" .
  have "rev (set_depths ?h (rev (butlast ?rest))) = depths ?rest" by (rule "3.IH") simp
  then show ?case using step by simp
qed simp_all

lemma depths_length: "length (depths data) = length data - 1"
  by (induction data rule: depths.induct) auto

lemma max_depth_Some: "its \<noteq> [] \<Longrightarrow> \<exists>d. max_depth its = Some d"
  by (cases its) (auto split: option.split)

lemma max_depth_greatest:
  "max_depth its = Some d \<Longrightarrow> (\<exists>it \<in> set its. it_reorg_depth it = d) \<and> (\<forall>it \<in> set its. sint (it_reorg_depth it) \<le> sint d)"
proof (induction its arbitrary: d)
  case (Cons it its)
  show ?case
  proof (cases "max_depth its")
    case None
    then have "its = []" using max_depth_Some by fastforce
    with Cons.prems show ?thesis by simp
  next
    case (Some e)
    with Cons.IH [OF Some] Cons.prems show ?thesis by (fastforce split: if_splits)
  qed
qed simp

lemma find_depth_first:
  "it \<in> set its \<Longrightarrow> it_reorg_depth it = d \<Longrightarrow>
    \<exists>i. find_depth d its = Some i \<and> i < length its \<and> it_reorg_depth (its ! i) = d
      \<and> (\<forall>j < i. it_reorg_depth (its ! j) \<noteq> d)"
proof (induction its)
  case (Cons x its)
  show ?case
  proof (cases "it_reorg_depth x = d")
    case False
    with Cons obtain i where i: "find_depth d its = Some i" "i < length its" "it_reorg_depth (its ! i) = d"
      "\<forall>j < i. it_reorg_depth (its ! j) \<noteq> d" by auto
    then have "\<forall>j < Suc i. it_reorg_depth ((x # its) ! j) \<noteq> d"
      using False by (simp add: less_Suc_eq_0_disj) auto
    with i False show ?thesis by simp
  qed simp
qed simp

text \<open>
  The report on reorganisations. With one row only the program panics, since the greatest of no depths is
  asked for. With more rows it gives every block but the oldest its depth, the greatest depth, and
  the most recent block that has it.
\<close>

theorem reorgs_report:
  assumes "query (reorg_limit blocks) = Some rows" and "read_items rows = Ok data"
  shows "(reorgs query blocks = Panic \<longleftrightarrow> length data = 1)
    \<and> (2 \<le> length data \<longrightarrow>
        (\<exists>r. reorgs query blocks = Ok r \<and> reorg_data r = depths data
          \<and> max_reorg_blocks_ago r < length (depths data)
          \<and> it_reorg_depth (depths data ! max_reorg_blocks_ago r) = max_reorg_depth r
          \<and> (\<forall>it \<in> set (depths data). sint (it_reorg_depth it) \<le> sint (max_reorg_depth r))
          \<and> (\<forall>j < max_reorg_blocks_ago r. it_reorg_depth (depths data ! j) \<noteq> max_reorg_depth r)))"
proof -
  have eq: "reorgs query blocks = (if data = [] then Err NoData
      else obind (unwrap (max_depth (depths data))) (\<lambda>depth. obind (unwrap (find_depth depth (depths data))) (\<lambda>ago.
        Ok \<lparr>max_reorg_depth = depth, max_reorg_blocks_ago = ago, reorg_data = depths data\<rparr>)))"
    using assms by (simp add: reorgs_def Let_def set_depths_depths)
  show ?thesis
  proof (cases "depths data = []")
    case True
    then have "length data \<le> 1" using depths_length [of data] by simp
    with True show ?thesis unfolding eq by (cases data) auto
  next
    case False
    obtain d where d: "max_depth (depths data) = Some d" using max_depth_Some [OF False] by blast
    note g = max_depth_greatest [OF d]
    obtain i where "find_depth d (depths data) = Some i" "i < length (depths data)"
        "it_reorg_depth (depths data ! i) = d" "\<forall>j < i. it_reorg_depth (depths data ! j) \<noteq> d"
      using g find_depth_first by blast
    moreover have "2 \<le> length data" using False depths_length [of data] by (cases "depths data") auto
    ultimately show ?thesis unfolding eq using d g by auto
  qed
qed

section \<open>Witnesses\<close>

theorem burns_panics_iff_witness:
  "burns (Some [(Integer 120, Integer 7), (Null, Null), (Integer 119, Integer 5)]) 1000 = Panic"
  using burns_panics_iff [of "[(Integer 120, Integer 7), (Null, Null), (Integer 119, Integer 5)]" "[(120, 7), (119, 5)]" 1000]
  by simp

theorem burns_report_witness:
  "\<exists>r fees. burns (Some [(Integer 120, Integer 7), (Integer 119, Integer 5)]) 100 = Ok r
    \<and> mset fees = mset [7, 5] \<and> burn_min r = Min (set fees) \<and> burn_max r = Max (set fees)"
proof -
  have "burns (Some [(Integer 120, Integer 7), (Integer 119, Integer 5)]) 100
      = Ok \<lparr>burn_min = 5, burn_max = 7, burn_mean = 7, burn_avg = 6\<rparr>"
    by (simp add: burns_def burn_fees_def)
  then show ?thesis
    using burns_report [of "[(Integer 120, Integer 7), (Integer 119, Integer 5)]" "[(120, 7), (119, 5)]" 100] by auto
qed

definition demo_row :: "64 word \<Rightarrow> 64 word \<Rightarrow> reorg_row" where
  "demo_row b h = \<lparr>rr_burn_height = b, rr_stacks_block_id = [], rr_miner = [], rr_stacks_height = h\<rparr>"

theorem reorgs_report_witness:
  "reorgs (\<lambda>n. Some [Some (demo_row 9 4)]) 0 = Panic"
  using reorgs_report [of "\<lambda>n. Some [Some (demo_row 9 4)]" 0 "[Some (demo_row 9 4)]" "[item_of_row (demo_row 9 4)]"]
  by simp

end
