(* ===== verification/TestUtils.thy ===== *)
theory TestUtils
  imports Prelude
begin

text \<open>
  The harness that starts bitcoin nodes for tests (\<^verbatim>\<open>test-utils/src/lib.rs\<close>): the factory of ports, the calls to a node, the
  wait for it, its start and its end, the transactions it is given. What the operating system and the node
  answer is a parameter. A step relation gives the states of the factory with the running nodes: no two of them
  share a port; a start that fails can keep its ports for good.
\<close>

section \<open>ClaimedPortFactory\<close>

type_synonym uuid = nat

type_synonym ClaimedPortFactory = "u16 \<rightharpoonup> uuid"

definition MIN_PORT :: u16 where
  "MIN_PORT = 20000"

definition MAX_PORT :: u16 where
  "MAX_PORT = 25000"

definition port_range :: "u16 \<Rightarrow> u16 \<Rightarrow> u16 list" where
  "port_range minport maxport = map of_nat [unat minport ..< Suc (unat maxport)]"

text \<open>The closure of \<^verbatim>\<open>find\<close>: a port that can be bound and inserted ends the search.\<close>

fun find_port ::
  "(u16 \<Rightarrow> bool) \<Rightarrow> uuid \<Rightarrow> u16 list \<Rightarrow> ClaimedPortFactory \<Rightarrow> u16 option \<times> ClaimedPortFactory" where
  "find_port port_is_open claimant [] m = (None, m)"
| "find_port port_is_open claimant (port # ports) m =
     (if port_is_open port then
        (case m port of
           None \<Rightarrow> (Some port, m(port \<mapsto> claimant))
         | Some _ \<Rightarrow> find_port port_is_open claimant ports m)
      else find_port port_is_open claimant ports m)"

definition claim_port_in_range ::
  "(u16 \<Rightarrow> bool) \<Rightarrow> uuid \<Rightarrow> u16 \<Rightarrow> u16 \<Rightarrow> ClaimedPortFactory \<Rightarrow> u16 option \<times> ClaimedPortFactory" where
  "claim_port_in_range port_is_open claimant minport maxport m =
     find_port port_is_open claimant (port_range minport maxport) m"

definition drop_all_ports_for_claimant :: "uuid \<Rightarrow> ClaimedPortFactory \<Rightarrow> ClaimedPortFactory" where
  "drop_all_ports_for_claimant claimant m = (\<lambda>port. if m port = Some claimant then None else m port)"

section \<open>Calls to the node\<close>

datatype Value = JNull | JBool bool | JNumber int | JString string | JArray "Value list" | JObject "(string \<times> Value) list"

text \<open>
  What \<^verbatim>\<open>ureq\<close> returns: a response with its body, if that is JSON; or an error with its text and the response
  that came with it, if any.
\<close>

datatype http_result = Answered "Value option" | Failed string "Value option option"

type_synonym post_json = "string \<Rightarrow> Value list \<Rightarrow> http_result"

definition rpc :: "post_json \<Rightarrow> string \<Rightarrow> Value list \<Rightarrow> (string, Value) outcome" where
  "rpc post m params =
     (case post m params of
        Answered body \<Rightarrow>
          obind (unwrap body) (\<lambda>json.
            (case json of JObject obj \<Rightarrow> unwrap (map_of obj ''result'') | _ \<Rightarrow> Panic))
      | Failed err_str (Some body) \<Rightarrow> unwrap body
      | Failed err_str None \<Rightarrow> Ok (JObject [(''error'', JString err_str)]))"

fun is_number :: "Value \<Rightarrow> bool" where
  "is_number (JNumber n) = True"
| "is_number _ = False"

text \<open>The node at every try is a parameter; the time that passes is left out.\<close>

fun await_uptime :: "(nat \<Rightarrow> post_json) \<Rightarrow> nat list \<Rightarrow> (string, unit) outcome" where
  "await_uptime node [] = Err ''connection timeout''"
| "await_uptime node (k # tries) =
     obind (rpc (node k) ''uptime'' []) (\<lambda>uptime.
       if is_number uptime then Ok () else await_uptime node tries)"

definition connectivity_check :: "(nat \<Rightarrow> post_json) \<Rightarrow> (string, unit) outcome" where
  "connectivity_check node = await_uptime node [1..<120]"

fun as_str :: "Value \<Rightarrow> string option" where
  "as_str (JString s) = Some s"
| "as_str _ = None"

fun as_array :: "Value \<Rightarrow> Value list option" where
  "as_array (JArray vs) = Some vs"
| "as_array _ = None"

fun get_key :: "string \<Rightarrow> Value \<Rightarrow> Value option" where
  "get_key k (JObject obj) = map_of obj k"
| "get_key k _ = None"

fun get_first :: "Value \<Rightarrow> Value option" where
  "get_first (JArray (v # vs)) = Some v"
| "get_first _ = None"

text \<open>\<^verbatim>\<open>as_array().unwrap()[0]\<close> panics for an empty array, as the other accesses do for a missing value.\<close>

definition mine_and_get_coinbase_txid ::
  "post_json \<Rightarrow> (string \<Rightarrow> 't option) \<Rightarrow> string \<Rightarrow> (string, 't \<times> string) outcome" where
  "mine_and_get_coinbase_txid post txid_from_str addr =
     obind (rpc post ''generatetoaddress'' [JNumber 100, JString addr]) (\<lambda>blocks.
     obind (unwrap (as_array blocks)) (\<lambda>bs.
     obind (case bs of b # _ \<Rightarrow> unwrap (as_str b) | [] \<Rightarrow> Panic) (\<lambda>block_id.
     obind (rpc post ''getblock'' [JString block_id, JNumber 1]) (\<lambda>block.
     obind (unwrap (Option.bind (get_key ''hash'' block) as_str)) (\<lambda>blockhash.
     obind (unwrap (Option.bind (Option.bind (Option.bind (get_key ''tx'' block) get_first) as_str) txid_from_str)) (\<lambda>txid.
       Ok (txid, blockhash)))))))"

definition get_raw_transaction ::
  "post_json \<Rightarrow> (string \<Rightarrow> bytes option) \<Rightarrow> (bytes \<Rightarrow> (string, 'tx) outcome) \<Rightarrow> string \<Rightarrow> string option
    \<Rightarrow> (string, 'tx) outcome" where
  "get_raw_transaction post hex_decode consensus_decode txid blockhash =
     obind (rpc post ''getrawtransaction''
        (case blockhash of
           Some h \<Rightarrow> [JString txid, JBool False, JString h]
         | None \<Rightarrow> [JString txid, JBool False])) (\<lambda>v.
     obind (unwrap (as_str v)) (\<lambda>tx_raw.
     obind (unwrap (hex_decode tx_raw)) consensus_decode))"

section \<open>BitcoinProcess\<close>

record BitcoinProcess =
  testid :: uuid
  port :: u16
  rpcport :: u16

text \<open>
  What a start meets: the ports that can be bound at the two claims, whether the directory can be created and
  the program started, and the node while it is waited for.
\<close>

record start_world =
  open_first :: "u16 \<Rightarrow> bool"
  open_second :: "u16 \<Rightarrow> bool"
  dir_created :: bool
  spawned :: bool
  node_at :: "nat \<Rightarrow> post_json"

text \<open>
  The process exists once it is spawned: a panic of the check after that drops it, and \<^verbatim>\<open>drop\<close> gives back its ports. (The
  child is taken to be killed and its directory removed.) A panic before leaves the claims.
\<close>

definition BitcoinProcess_drop :: "BitcoinProcess \<Rightarrow> ClaimedPortFactory \<Rightarrow> ClaimedPortFactory" where
  "BitcoinProcess_drop this m = drop_all_ports_for_claimant (testid this) m"

definition BitcoinProcess_new ::
  "start_world \<Rightarrow> uuid \<Rightarrow> ClaimedPortFactory \<Rightarrow> (string, BitcoinProcess) outcome \<times> ClaimedPortFactory" where
  "BitcoinProcess_new w t m =
     (let (p, m1) = claim_port_in_range (open_first w) t MIN_PORT MAX_PORT m;
          (r, m2) = claim_port_in_range (open_second w) t MIN_PORT MAX_PORT m1
      in if \<not> dir_created w then (Panic, m2)
         else case (p, r) of
           (Some pt, Some rpt) \<Rightarrow>
             if \<not> spawned w then (Panic, m2)
             else (let this = \<lparr>testid = t, port = pt, rpcport = rpt\<rparr> in
               (case connectivity_check (node_at w) of
                  Ok _ \<Rightarrow> (Ok this, m2)
                | _ \<Rightarrow> (Panic, BitcoinProcess_drop this m2)))
         | _ \<Rightarrow> (Panic, m2))"

text \<open>
  The steps of the factory with the running nodes; every start draws an identifier that is not in use.
\<close>

inductive ports_step ::
  "ClaimedPortFactory \<times> BitcoinProcess list \<Rightarrow> ClaimedPortFactory \<times> BitcoinProcess list \<Rightarrow> bool" where
  started: "t \<notin> ran m \<Longrightarrow> BitcoinProcess_new w t m = (Ok b, m') \<Longrightarrow> ports_step (m, live) (m', b # live)"
| not_started: "t \<notin> ran m \<Longrightarrow> BitcoinProcess_new w t m = (Panic, m') \<Longrightarrow> ports_step (m, live) (m', live)"
| dropped: "ports_step (m, xs @ b # ys) (BitcoinProcess_drop b m, xs @ ys)"

inductive_cases ports_stepE: "ports_step (m, live) s"

section \<open>Properties of the ports\<close>

lemma set_port_range: "set (port_range lo hi) = {p. lo \<le> p \<and> p \<le> hi}"
proof -
  have "p \<in> set (port_range lo hi)" if "lo \<le> p" "p \<le> hi" for p
    using that unfolding port_range_def set_map image_iff
    by (intro bexI [of _ "unat p"]) (auto simp: word_le_nat_alt)
  moreover have "lo \<le> of_nat k \<and> of_nat k \<le> hi" if "unat lo \<le> k" "k \<le> unat hi" for k
  proof -
    have "k < 2 ^ 16" using that(2) unsigned_less [of hi, where ?'a = nat] by simp
    then have "unat (of_nat k :: u16) = k" by (simp add: unat_of_nat take_bit_nat_eq_self)
    with that show ?thesis by (simp add: word_le_nat_alt)
  qed
  ultimately show ?thesis by (auto simp: port_range_def)
qed

lemma find_port_Some:
  "find_port is_open t ps m = (Some p, m') \<Longrightarrow> p \<in> set ps \<and> is_open p \<and> m p = None \<and> m' = m(p \<mapsto> t)"
  by (induction is_open t ps m rule: find_port.induct) (auto split: if_splits option.splits)

lemma find_port_None:
  "find_port is_open t ps m = (None, m') \<Longrightarrow> m' = m \<and> (\<forall>p \<in> set ps. is_open p \<longrightarrow> p \<in> dom m)"
  by (induction is_open t ps m rule: find_port.induct) (auto split: if_splits option.splits)

lemma claim_Some:
  "claim_port_in_range is_open t lo hi m = (Some p, m') \<Longrightarrow>
    lo \<le> p \<and> p \<le> hi \<and> is_open p \<and> p \<notin> dom m \<and> m' = m(p \<mapsto> t)"
  by (auto simp: claim_port_in_range_def set_port_range dest: find_port_Some)

lemma map_leD: "m \<subseteq>\<^sub>m m' \<Longrightarrow> m x = Some y \<Longrightarrow> m' x = Some y"
  by (metis domI map_le_def)

lemma claim_None:
  "claim_port_in_range is_open t lo hi m = (None, m') \<Longrightarrow>
    m' = m \<and> {p. lo \<le> p \<and> p \<le> hi \<and> is_open p} \<subseteq> dom m"
  by (auto simp: claim_port_in_range_def set_port_range dest!: find_port_None)

lemma claim_extends: "claim_port_in_range is_open t lo hi m = (p, m') \<Longrightarrow> m \<subseteq>\<^sub>m m'"
  by (cases p) (auto dest!: claim_Some claim_None simp: map_le_def split: if_splits)

lemma drop_keeps:
  assumes "m \<subseteq>\<^sub>m m'" "t \<notin> ran m"
  shows "m \<subseteq>\<^sub>m drop_all_ports_for_claimant t m'"
  unfolding map_le_def
proof
  fix p assume p: "p \<in> dom m"
  then have "m p = m' p" using assms(1) by (simp add: map_le_def)
  moreover have "m p \<noteq> Some t" using assms(2) by (auto simp: ran_def)
  ultimately show "m p = drop_all_ports_for_claimant t m' p"
    by (simp add: drop_all_ports_for_claimant_def)
qed

lemma BitcoinProcess_new_Ok:
  assumes "BitcoinProcess_new w t m = (Ok b, m')"
  obtains p r where "b = \<lparr>testid = t, port = p, rpcport = r\<rparr>" "m' = m(p \<mapsto> t, r \<mapsto> t)" "p \<noteq> r"
    "p \<notin> dom m" "r \<notin> dom m" "MIN_PORT \<le> p" "p \<le> MAX_PORT" "MIN_PORT \<le> r" "r \<le> MAX_PORT"
proof -
  obtain po m1 where c1: "claim_port_in_range (open_first w) t MIN_PORT MAX_PORT m = (po, m1)" by fastforce
  obtain ro m2 where c2: "claim_port_in_range (open_second w) t MIN_PORT MAX_PORT m1 = (ro, m2)" by fastforce
  obtain p r where "po = Some p" "ro = Some r" "m' = m2" "b = \<lparr>testid = t, port = p, rpcport = r\<rparr>"
    using assms by (auto simp: BitcoinProcess_new_def c1 c2 Let_def split: if_splits option.splits outcome.splits)
  with that [of p r] claim_Some [of "open_first w" t MIN_PORT MAX_PORT m p m1]
    claim_Some [of "open_second w" t MIN_PORT MAX_PORT m1 r m2] c1 c2
  show ?thesis by (auto split: if_splits)
qed

lemma BitcoinProcess_new_extends:
  assumes "BitcoinProcess_new w t m = (res, m')" and "t \<notin> ran m"
  shows "m \<subseteq>\<^sub>m m'"
proof -
  obtain po m1 where c1: "claim_port_in_range (open_first w) t MIN_PORT MAX_PORT m = (po, m1)" by fastforce
  obtain ro m2 where c2: "claim_port_in_range (open_second w) t MIN_PORT MAX_PORT m1 = (ro, m2)" by fastforce
  have le: "m \<subseteq>\<^sub>m m2" using claim_extends [OF c1] claim_extends [OF c2] by (blast intro: map_le_trans)
  have "m' = m2 \<or> m' = drop_all_ports_for_claimant t m2"
    using assms(1) by (auto simp: BitcoinProcess_new_def BitcoinProcess_drop_def c1 c2 Let_def
        split: if_splits option.splits outcome.splits)
  with le drop_keeps [OF le assms(2)] show ?thesis by blast
qed

section \<open>Running nodes\<close>

definition ports_inv :: "ClaimedPortFactory \<Rightarrow> BitcoinProcess list \<Rightarrow> bool" where
  "ports_inv m live \<longleftrightarrow> distinct (map testid live)
     \<and> (\<forall>b \<in> set live. {port b, rpcport b} \<subseteq> {p. MIN_PORT \<le> p \<and> p \<le> MAX_PORT \<and> m p = Some (testid b)}
         \<and> port b \<noteq> rpcport b)"

lemma ports_inv_mono: "ports_inv m live \<Longrightarrow> m \<subseteq>\<^sub>m m' \<Longrightarrow> ports_inv m' live"
  unfolding ports_inv_def map_le_def by (auto simp: domIff) (metis domI)+

lemma ports_inv_testids: "ports_inv m live \<Longrightarrow> testid ` set live \<subseteq> ran m"
  by (fastforce simp: ports_inv_def ran_def)

lemma ports_inv_started:
  assumes "ports_inv m live" "t \<notin> ran m" "BitcoinProcess_new w t m = (Ok b, m')"
  shows "ports_inv m' (b # live)"
proof -
  have "ports_inv m' live"
    using ports_inv_mono [OF assms(1)] BitcoinProcess_new_extends [OF assms(3,2)] .
  moreover obtain p r where "b = \<lparr>testid = t, port = p, rpcport = r\<rparr>" "m' = m(p \<mapsto> t, r \<mapsto> t)" "p \<noteq> r"
      "MIN_PORT \<le> p" "p \<le> MAX_PORT" "MIN_PORT \<le> r" "r \<le> MAX_PORT"
    using BitcoinProcess_new_Ok [OF assms(3)] by metis
  moreover have "t \<notin> testid ` set live"
    using ports_inv_testids [OF assms(1)] assms(2) by blast
  ultimately show ?thesis by (auto simp: ports_inv_def)
qed

lemma ports_inv_dropped:
  assumes "ports_inv m (xs @ b # ys)"
  shows "ports_inv (BitcoinProcess_drop b m) (xs @ ys)"
proof -
  have "testid b \<notin> testid ` set (xs @ ys)"
    using assms by (auto simp: ports_inv_def)
  then have "testid b' \<noteq> testid b" if "b' \<in> set (xs @ ys)" for b'
    using that by (metis imageI)
  with assms show ?thesis
    by (auto simp: ports_inv_def BitcoinProcess_drop_def drop_all_ports_for_claimant_def)
qed

lemma ports_step_inv: "ports_step s s' \<Longrightarrow> ports_inv (fst s) (snd s) \<Longrightarrow> ports_inv (fst s') (snd s')"
proof (induction rule: ports_step.induct)
  case (started t m w b m' live)
  then show ?case using ports_inv_started by simp
next
  case (not_started t m w m' live)
  then show ?case using ports_inv_mono BitcoinProcess_new_extends by fastforce
next
  case (dropped m xs b ys)
  then show ?case using ports_inv_dropped by simp
qed

lemma ports_steps_inv: "ports_step\<^sup>*\<^sup>* s s' \<Longrightarrow> ports_inv (fst s) (snd s) \<Longrightarrow> ports_inv (fst s') (snd s')"
  by (induction rule: rtranclp_induct) (auto intro: ports_step_inv)

text \<open>The ports of a claimant that is not a running node are never given back.\<close>

lemma ports_step_orphan:
  "ports_step s s' \<Longrightarrow> fst s p = Some t \<Longrightarrow> t \<notin> testid ` set (snd s) \<Longrightarrow>
    fst s' p = Some t \<and> t \<notin> testid ` set (snd s')"
proof (induction rule: ports_step.induct)
  case (started t' m w b m' live)
  then have "t' \<noteq> t" by (auto simp: ran_def)
  moreover have "m \<subseteq>\<^sub>m m'" using BitcoinProcess_new_extends started by blast
  moreover have "testid b = t'" using BitcoinProcess_new_Ok [OF started(2)] by (metis BitcoinProcess.select_convs(1))
  ultimately show ?case using started map_leD by fastforce
next
  case (not_started t' m w m' live)
  moreover have "m \<subseteq>\<^sub>m m'" using BitcoinProcess_new_extends not_started by blast
  ultimately show ?case using map_leD by fastforce
next
  case (dropped m xs b ys)
  then show ?case by (auto simp: BitcoinProcess_drop_def drop_all_ports_for_claimant_def)
qed

lemma ports_steps_orphan:
  assumes "ports_step\<^sup>*\<^sup>* s s'" "fst s p = Some t" "t \<notin> testid ` set (snd s)"
  shows "fst s' p = Some t \<and> t \<notin> testid ` set (snd s')"
  using assms by (induction rule: rtranclp_induct) (auto dest: ports_step_orphan)

text \<open>
  However nodes are started and ended, with starts that fail in between, no two running nodes share a port, a node's two
  ports differ, all are in the range, and they stay claimed in its name.
\<close>

theorem reachable_ports_disjoint:
  assumes "ports_step\<^sup>*\<^sup>* (Map.empty, []) (m, live)"
  shows "distinct (concat (map (\<lambda>b. [port b, rpcport b]) live))
    \<and> (\<forall>b \<in> set live. MIN_PORT \<le> port b \<and> port b \<le> MAX_PORT \<and> MIN_PORT \<le> rpcport b \<and> rpcport b \<le> MAX_PORT
        \<and> m (port b) = Some (testid b) \<and> m (rpcport b) = Some (testid b))"
proof -
  have inv: "ports_inv m live" using ports_steps_inv [OF assms] by (simp add: ports_inv_def)
  then have "distinct (concat (map (\<lambda>b. [port b, rpcport b]) live))"
  proof (induction live)
    case (Cons b live)
    then have "ports_inv m live" by (simp add: ports_inv_def)
    moreover have "{port b, rpcport b} \<inter> {port b', rpcport b'} = {}" if "b' \<in> set live" for b'
    proof -
      have "testid b \<noteq> testid b'" using Cons.prems that by (force simp: ports_inv_def)
      with Cons.prems that show ?thesis by (fastforce simp: ports_inv_def)
    qed
    moreover have "port b \<noteq> rpcport b" using Cons.prems by (simp add: ports_inv_def)
    ultimately show ?case using Cons.IH by fastforce
  qed simp
  with inv show ?thesis by (auto simp: ports_inv_def)
qed

text \<open>
  A start whose program cannot be run, while two ports of the range are free at both claims, panics with two ports claimed
  in its name, and these stay claimed whatever nodes are started and ended later: the panic comes before
  there is a process whose end would give them back.
\<close>

theorem failed_spawn_leaks_ports:
  assumes inv: "ports_step\<^sup>*\<^sup>* (Map.empty, []) (m, live)" and t: "t \<notin> ran m"
    and free: "\<exists>p q. p \<noteq> q \<and> {p, q} \<subseteq> {x. MIN_PORT \<le> x \<and> x \<le> MAX_PORT \<and> x \<notin> dom m \<and> open_first w x \<and> open_second w x}"
    and failed: "\<not> spawned w"
  shows "\<exists>a b m'. a \<noteq> b \<and> a \<notin> dom m \<and> b \<notin> dom m \<and> BitcoinProcess_new w t m = (Panic, m')
    \<and> (\<forall>m'' live''. ports_step\<^sup>*\<^sup>* (m', live) (m'', live'') \<longrightarrow> m'' a = Some t \<and> m'' b = Some t)"
proof -
  obtain po m1 where c1: "claim_port_in_range (open_first w) t MIN_PORT MAX_PORT m = (po, m1)" by fastforce
  obtain ro m2 where c2: "claim_port_in_range (open_second w) t MIN_PORT MAX_PORT m1 = (ro, m2)" by fastforce
  obtain a where a: "po = Some a" "a \<notin> dom m" "m1 = m(a \<mapsto> t)"
    using c1 free by (cases po) (auto dest!: claim_None claim_Some)
  obtain b where b: "ro = Some b" "b \<notin> dom m1" "m2 = m1(b \<mapsto> t)"
  proof (cases ro)
    case None
    then have "{p. MIN_PORT \<le> p \<and> p \<le> MAX_PORT \<and> open_second w p} \<subseteq> insert a (dom m)"
      using claim_None [of "open_second w" t MIN_PORT MAX_PORT m1 m2] c2 a(3) by simp
    moreover obtain p q where "p \<noteq> q" "p \<notin> dom m" "q \<notin> dom m"
        "{p, q} \<subseteq> {p. MIN_PORT \<le> p \<and> p \<le> MAX_PORT \<and> open_second w p}"
      using free by auto
    ultimately have "p = a" "q = a" by (meson insert_iff insert_subset subset_iff)+
    with \<open>p \<noteq> q\<close> show ?thesis by simp
  next
    case (Some b)
    with claim_Some c2 that show ?thesis by blast
  qed
  have new: "BitcoinProcess_new w t m = (Panic, m2)"
    using failed by (simp add: BitcoinProcess_new_def c1 c2 a(1) b(1))
  have orphan: "t \<notin> testid ` set live"
    using ports_inv_testids ports_steps_inv [OF inv] t by (auto simp: ports_inv_def)
  have "m2 a = Some t" "m2 b = Some t" using a b by auto
  then have "m'' a = Some t \<and> m'' b = Some t" if "ports_step\<^sup>*\<^sup>* (m2, live) (m'', live'')" for m'' live''
    using ports_steps_orphan [OF that] orphan by simp
  moreover have "a \<noteq> b" "a \<notin> dom m" "b \<notin> dom m" using a b by auto
  ultimately show ?thesis using new by blast
qed

text \<open>When every port that can be bound is claimed, no node can be started.\<close>

theorem exhausted_ports_panic:
  assumes "{p. MIN_PORT \<le> p \<and> p \<le> MAX_PORT \<and> open_first w p} \<subseteq> dom m"
  shows "fst (BitcoinProcess_new w t m) = Panic"
proof -
  obtain po m1 where c1: "claim_port_in_range (open_first w) t MIN_PORT MAX_PORT m = (po, m1)" by fastforce
  obtain ro m2 where c2: "claim_port_in_range (open_second w) t MIN_PORT MAX_PORT m1 = (ro, m2)" by fastforce
  have "po = None" using c1 assms by (cases po) (auto dest!: claim_Some)
  then show ?thesis by (simp add: BitcoinProcess_new_def c1 c2)
qed

text \<open>
  The wait succeeds if and only if the node gives a number at some of the 119 tries and no answer before makes the
  harness panic.
\<close>

lemma await_uptime_Ok_iff:
  "await_uptime node ks = Ok () \<longleftrightarrow>
    (\<exists>xs k ys n. ks = xs @ k # ys \<and> rpc (node k) ''uptime'' [] = Ok (JNumber n)
      \<and> (\<forall>x \<in> set xs. \<exists>v. rpc (node x) ''uptime'' [] = Ok v \<and> \<not> is_number v))"
proof (induction ks)
  case (Cons k ks)
  show ?case
  proof (cases "rpc (node k) ''uptime'' []")
    case (Ok v)
    show ?thesis
    proof (cases "is_number v")
      case True
      then obtain n where "v = JNumber n" by (cases v) auto
      with Ok True show ?thesis by (auto intro!: exI [of _ "[]"])
    next
      case False
      have "(\<exists>xs k' ys n. k # ks = xs @ k' # ys \<and> rpc (node k') ''uptime'' [] = Ok (JNumber n)
          \<and> (\<forall>x \<in> set xs. \<exists>v. rpc (node x) ''uptime'' [] = Ok v \<and> \<not> is_number v))
        \<longleftrightarrow> (\<exists>xs k' ys n. ks = xs @ k' # ys \<and> rpc (node k') ''uptime'' [] = Ok (JNumber n)
          \<and> (\<forall>x \<in> set xs. \<exists>v. rpc (node x) ''uptime'' [] = Ok v \<and> \<not> is_number v))" (is "?L \<longleftrightarrow> ?R")
      proof
        assume ?L
        then obtain xs k' ys n where L: "k # ks = xs @ k' # ys" "rpc (node k') ''uptime'' [] = Ok (JNumber n)"
            "\<forall>x \<in> set xs. \<exists>v. rpc (node x) ''uptime'' [] = Ok v \<and> \<not> is_number v" by blast
        with Ok False show ?R by (cases xs) auto
      next
        assume ?R
        with Ok False show ?L by (metis append_Cons set_ConsD)
      qed
      with Cons.IH Ok False show ?thesis by simp
    qed
  qed (auto simp: Cons_eq_append_conv)
qed simp

end
