(* ===== verification/TestWallet.thy ===== *)
theory TestWallet
  imports BitcoinWallet
begin

text \<open>
  The wallets of the test harness (\<^verbatim>\<open>test-utils/src/lib.rs\<close>): a key pair with its address, a group of three signers
  that generates a key and signs with it, deposits to the group's wallet and withdrawals from it, and their
  signatures. The records \<open>wsts_lib\<close> and \<open>btc_lib\<close> hold what is called of the crates for threshold signatures and for
  bitcoin; a call that is unwrapped in the source and fails is a panic.
\<close>

section \<open>Libraries\<close>

record ('rng, 'sg, 'po, 'pt, 'nc, 'sh, 'ag, 'sig, 'proof) wsts_lib =
  w_signer_new :: "u32 \<Rightarrow> u32 list \<Rightarrow> u32 \<Rightarrow> u32 \<Rightarrow> 'rng \<Rightarrow> 'sg \<times> 'rng"
  w_dkg :: "'sg list \<Rightarrow> 'rng \<Rightarrow> bytes option \<Rightarrow> 'po list option \<times> 'sg list \<times> 'rng"
  w_first :: "'po \<Rightarrow> 'pt option"
  w_zero :: 'pt
  w_add :: "'pt \<Rightarrow> 'pt \<Rightarrow> 'pt"
  w_tweak :: "'pt \<Rightarrow> bytes option \<Rightarrow> 'pt"
  w_compress :: "'pt \<Rightarrow> bytes"
  w_x :: "'pt \<Rightarrow> bytes"
  w_sign :: "bytes \<Rightarrow> 'sg list \<Rightarrow> 'rng \<Rightarrow> bytes option \<Rightarrow> ('nc list \<times> 'sh list) \<times> 'rng"
  w_aggregator :: "u32 \<Rightarrow> u32 \<Rightarrow> 'po list \<Rightarrow> 'ag option"
  w_sign_taproot :: "'ag \<Rightarrow> bytes \<Rightarrow> 'nc list \<Rightarrow> 'sh list \<Rightarrow> bytes option \<Rightarrow> 'sig option"
  w_proof :: "'sig \<Rightarrow> 'proof option"
  w_verify :: "'proof \<Rightarrow> bytes \<Rightarrow> bytes \<Rightarrow> bool"
  w_r_bytes :: "'proof \<Rightarrow> bytes"
  w_s_bytes :: "'proof \<Rightarrow> bytes"

record ('sk, 'pk, 'xk, 'addr, 'msg, 'es, 'bt) btc_lib =
  b_public :: "'sk \<Rightarrow> 'pk"
  b_xonly_of :: "'sk \<Rightarrow> 'xk"
  b_p2tr_address :: "'xk \<Rightarrow> 'addr"
  b_p2wpkh_address :: "'pk \<Rightarrow> 'addr option"
  b_from_slice :: "bytes \<Rightarrow> 'pk option"
  b_key_bytes :: "'pk \<Rightarrow> bytes"
  b_xonly_from :: "bytes \<Rightarrow> 'xk option"
  b_op_return :: "bytes \<Rightarrow> bytes"
  b_p2tr_script :: "'xk \<Rightarrow> bytes"
  b_wpubkey_hash :: "'pk \<Rightarrow> bytes option"
  b_p2wpkh_script :: "bytes \<Rightarrow> bytes"
  b_script_code :: "'addr \<Rightarrow> bytes option"
  b_segwit_hash :: "'bt Transaction \<Rightarrow> nat \<Rightarrow> bytes \<Rightarrow> u64 \<Rightarrow> bytes option"
  b_taproot_hash :: "'bt Transaction \<Rightarrow> nat \<Rightarrow> TxOut list \<Rightarrow> bytes option"
  b_message :: "bytes \<Rightarrow> 'msg option"
  b_sign_ecdsa :: "'msg \<Rightarrow> 'sk \<Rightarrow> 'es"
  b_verify_ecdsa :: "'msg \<Rightarrow> 'es \<Rightarrow> 'pk \<Rightarrow> bool"
  b_der :: "'es \<Rightarrow> bytes"
  b_encode :: "'bt Transaction \<Rightarrow> bytes option"
  b_hex :: "bytes \<Rightarrow> string"

section \<open>Keys and signers\<close>

record ('sk, 'pk, 'xk, 'addr) test_wallet =
  tw_secret_key :: 'sk
  tw_public_key :: 'pk
  tw_xonly :: 'xk
  tw_address :: 'addr

text \<open>The secret key is drawn by the caller; the context of the library carries nothing.\<close>

definition generate_wallet ::
  "('sk, 'pk, 'xk, 'addr, 'msg, 'es, 'bt) btc_lib \<Rightarrow> 'sk \<Rightarrow> bool \<Rightarrow> ('e, ('sk, 'pk, 'xk, 'addr) test_wallet) outcome" where
  "generate_wallet B sk is_taproot =
     obind (if is_taproot then Ok (b_p2tr_address B (b_xonly_of B sk)) else unwrap (b_p2wpkh_address B (b_public B sk))) (\<lambda>address.
       Ok \<lparr>tw_secret_key = sk, tw_public_key = b_public B sk, tw_xonly = b_xonly_of B sk, tw_address = address\<rparr>)"

record ('rng, 'sg) SignerHelper =
  sh_threshold :: u32
  sh_total :: u32
  sh_rng :: 'rng
  sh_signers :: "'sg list"

definition SignerHelper_default ::
  "('rng, 'sg, 'po, 'pt, 'nc, 'sh, 'ag, 'sig, 'proof) wsts_lib \<Rightarrow> 'rng \<Rightarrow> ('rng, 'sg) SignerHelper" where
  "SignerHelper_default W rng =
     (let threshold = 3; total = 4;
          (s1, rng1) = w_signer_new W 1 [0, 1] total threshold rng;
          (s2, rng2) = w_signer_new W 2 [2] total threshold rng1;
          (s3, rng3) = w_signer_new W 3 [3] total threshold rng2
      in \<lparr>sh_threshold = threshold, sh_total = total, sh_rng = rng3, sh_signers = [s1, s2, s3]\<rparr>)"

fun sum_commitments ::
  "('rng, 'sg, 'po, 'pt, 'nc, 'sh, 'ag, 'sig, 'proof) wsts_lib \<Rightarrow> 'po list \<Rightarrow> 'pt \<Rightarrow> ('e, 'pt) outcome" where
  "sum_commitments W [] s = Ok s"
| "sum_commitments W (p # ps) s = obind (unwrap (w_first W p)) (\<lambda>a. sum_commitments W ps (w_add W s a))"

definition helper_dkg ::
  "('rng, 'sg, 'po, 'pt, 'nc, 'sh, 'ag, 'sig, 'proof) wsts_lib \<Rightarrow> ('sk, 'pk, 'xk, 'addr, 'msg, 'es, 'bt) btc_lib
    \<Rightarrow> bytes option \<Rightarrow> ('rng, 'sg) SignerHelper \<Rightarrow> ('e, 'po list \<times> 'pt \<times> 'pk) outcome \<times> ('rng, 'sg) SignerHelper" where
  "helper_dkg W B merkle_root h =
     (let (res, signers, rng) = w_dkg W (sh_signers h) (sh_rng h) merkle_root
      in (obind (unwrap res) (\<lambda>commitments.
          obind (sum_commitments W commitments (w_zero W)) (\<lambda>point.
          (let tweaked = w_tweak W point merkle_root
           in obind (unwrap (b_from_slice B (w_compress W tweaked))) (\<lambda>key. Ok (commitments, tweaked, key))))),
          h\<lparr>sh_signers := signers, sh_rng := rng\<rparr>))"

text \<open>The first two signers sign, on copies; indexing panics when there are fewer.\<close>

definition helper_signing_round ::
  "('rng, 'sg, 'po, 'pt, 'nc, 'sh, 'ag, 'sig, 'proof) wsts_lib \<Rightarrow> bytes \<Rightarrow> 'po list \<Rightarrow> bytes option
    \<Rightarrow> ('rng, 'sg) SignerHelper \<Rightarrow> ('e, 'proof) outcome \<times> ('rng, 'sg) SignerHelper" where
  "helper_signing_round W message commitments merkle_root h =
     (if length (sh_signers h) < 2 then (Panic, h)
      else
        (let ((nonces, shares), rng) = w_sign W message (take 2 (sh_signers h)) (sh_rng h) merkle_root
         in (obind (unwrap (w_aggregator W (sh_total h) (sh_threshold h) commitments)) (\<lambda>agg.
             obind (unwrap (w_sign_taproot W agg message nonces shares merkle_root)) (\<lambda>sig. unwrap (w_proof W sig))),
             h\<lparr>sh_rng := rng\<rparr>)))"

section \<open>Transactions\<close>

definition push_witnesses :: "bytes list \<Rightarrow> 'bt Transaction \<Rightarrow> 'bt Transaction" where
  "push_witnesses ws tx =
     tx\<lparr>tx_input := (tx_input tx)[0 := (tx_input tx ! 0)\<lparr>ti_witness := ti_witness (tx_input tx ! 0) @ ws\<rparr>]\<rparr>"

text \<open>The byte behind a signature in DER form is \<^verbatim>\<open>EcdsaSighashType::All\<close>.\<close>

definition sign_transaction_ecdsa ::
  "('sk, 'pk, 'xk, 'addr, 'msg, 'es, 'bt) btc_lib \<Rightarrow> 'addr \<Rightarrow> 'sk \<Rightarrow> 'pk \<Rightarrow> TxOut \<Rightarrow> 'bt Transaction
    \<Rightarrow> ('e, string \<times> 'bt Transaction) outcome" where
  "sign_transaction_ecdsa B addr secret_key public_key prev_output tx =
     obind (unwrap (b_script_code B addr)) (\<lambda>code.
     obind (unwrap (b_segwit_hash B tx 0 code (to_value prev_output))) (\<lambda>h.
     obind (unwrap (b_message B h)) (\<lambda>m.
     (let sig = b_sign_ecdsa B m secret_key in
      if \<not> b_verify_ecdsa B m sig (b_public B secret_key) then Panic
      else if tx_input tx = [] then Panic
      else
        (let tx1 = push_witnesses [b_der B sig @ [1], b_key_bytes B public_key] tx
         in obind (unwrap (b_encode B tx1)) (\<lambda>bs. Ok (b_hex B bs, tx1)))))))"

definition sign_transaction_taproot ::
  "('rng, 'sg, 'po, 'pt, 'nc, 'sh, 'ag, 'sig, 'proof) wsts_lib \<Rightarrow> ('sk, 'pk, 'xk, 'addr, 'msg, 'es, 'bt) btc_lib
    \<Rightarrow> TxOut \<Rightarrow> 'pt \<Rightarrow> 'po list \<Rightarrow> bytes option \<Rightarrow> 'bt Transaction \<Rightarrow> ('rng, 'sg) SignerHelper
    \<Rightarrow> ('e, string \<times> 'bt Transaction) outcome \<times> ('rng, 'sg) SignerHelper" where
  "sign_transaction_taproot W B prev_output group_public_key commitments merkle_root tx h =
     (case b_taproot_hash B tx 0 [prev_output] of
        None \<Rightarrow> (Panic, h)
      | Some payload \<Rightarrow>
          (case helper_signing_round W payload commitments merkle_root h of
             (r, h1) \<Rightarrow>
               (obind r (\<lambda>p.
                  if \<not> w_verify W p (w_x W group_public_key) payload then Panic
                  else if tx_input tx = [] then Panic
                  else
                    (let tx1 = push_witnesses [w_r_bytes W p @ w_s_bytes W p] tx
                     in obind (unwrap (b_encode B tx1)) (\<lambda>bs. Ok (b_hex B bs, tx1)))), h1)))"

definition build_transaction_deposit ::
  "('sk, 'pk, 'xk, 'addr, 'msg, 'es, 'bt) btc_lib \<Rightarrow> u64 \<Rightarrow> 'pk \<Rightarrow> bytes \<Rightarrow> 'bt \<times> u32 \<Rightarrow> ('e, 'bt Transaction) outcome" where
  "build_transaction_deposit B satoshis wallet_key stx_address prev =
     obind (unwrap (b_xonly_from B (b_key_bytes B wallet_key))) (\<lambda>xonly.
       Ok \<lparr>tx_version = 2, tx_lock_time = 0,
           tx_input = [\<lparr>ti_txid = fst prev, ti_vout = snd prev, ti_script_sig = [], ti_sequence = 0xFFFFFFFF, ti_witness = []\<rparr>],
           tx_output = [\<lparr>to_value = 0, to_script_pubkey = b_op_return B ([0, 0, 0x3C] @ stx_address)\<rparr>,
                        \<lparr>to_value = satoshis, to_script_pubkey = b_p2tr_script B xonly\<rparr>]\<rparr>)"

definition build_transaction_withdrawal ::
  "('sk, 'pk, 'xk, 'addr, 'msg, 'es, 'bt) btc_lib \<Rightarrow> u64 \<Rightarrow> 'pk \<Rightarrow> 'bt \<times> u32 \<Rightarrow> ('e, 'bt Transaction) outcome" where
  "build_transaction_withdrawal B satoshis public_key utxo =
     obind (unwrap (b_wpubkey_hash B public_key)) (\<lambda>h.
       Ok \<lparr>tx_version = 2, tx_lock_time = 0,
           tx_input = [\<lparr>ti_txid = fst utxo, ti_vout = snd utxo, ti_script_sig = [], ti_sequence = 0xFFFFFFFF, ti_witness = []\<rparr>],
           tx_output = [\<lparr>to_value = satoshis, to_script_pubkey = b_p2wpkh_script B h\<rparr>]\<rparr>)"

text \<open>The variable of the environment, parsed, or the default when it is not set.\<close>

definition parse_env :: "(string \<Rightarrow> string option) \<Rightarrow> (string \<Rightarrow> 'a option) \<Rightarrow> string \<Rightarrow> 'a \<Rightarrow> ('e, 'a) outcome" where
  "parse_env env parse var dflt =
     (case env var of Some v \<Rightarrow> unwrap (parse v) | None \<Rightarrow> Ok dflt)"

section \<open>Properties\<close>

text \<open>
  What the harness deposits, the group can spend. Let the compressed form of a point be read as the public key with the
  same x coordinate. A key that the group generates and a deposit to it: the deposit's second output carries the
  amount, under the taproot script of the key's x coordinate. A withdrawal that spends this output and is signed by the group
  has on its only input exactly one witness, a Schnorr signature that verifies under that x coordinate for the
  hash of the unsigned withdrawal with the deposited output; nothing else of the withdrawal has changed.
\<close>

theorem deposit_spent_by_group:
  assumes codec: "\<And>P key. b_from_slice B (w_compress W P) = Some key \<Longrightarrow> b_xonly_from B (b_key_bytes B key) = Some (xonly (w_x W P))"
    and dkg: "helper_dkg W B root h = (Ok (commitments, P, key), h1)"
    and dep: "build_transaction_deposit B sat key stx prev = Ok deposit"
    and wd: "build_transaction_withdrawal B sat' user (txid, 1) = Ok tx"
    and sign: "sign_transaction_taproot W B (tx_output deposit ! 1) P commitments root tx h1 = (Ok (hex, tx'), h2)"
  shows "tx_output deposit ! 1 = \<lparr>to_value = sat, to_script_pubkey = b_p2tr_script B (xonly (w_x W P))\<rparr>
    \<and> (\<exists>payload p. b_taproot_hash B tx 0 [tx_output deposit ! 1] = Some payload \<and> w_verify W p (w_x W P) payload
         \<and> map ti_witness (tx_input tx') = [[w_r_bytes W p @ w_s_bytes W p]])
    \<and> tx' = tx\<lparr>tx_input := tx_input tx'\<rparr> \<and> map (\<lambda>i. (ti_txid i, ti_vout i)) (tx_input tx') = [(txid, 1)]"
proof -
  from dkg have "b_from_slice B (w_compress W P) = Some key"
    by (auto simp: helper_dkg_def Let_def obind_Ok_iff split: prod.splits)
  from codec [OF this] dep have out: "tx_output deposit ! 1 = \<lparr>to_value = sat, to_script_pubkey = b_p2tr_script B (xonly (w_x W P))\<rparr>"
    by (auto simp: build_transaction_deposit_def)
  from wd obtain i where i: "tx_input tx = [i]" "ti_witness i = []" "ti_txid i = txid" "ti_vout i = 1"
    by (auto simp: build_transaction_withdrawal_def obind_Ok_iff)
  from sign obtain payload p where "b_taproot_hash B tx 0 [tx_output deposit ! 1] = Some payload"
    "w_verify W p (w_x W P) payload" "tx' = push_witnesses [w_r_bytes W p @ w_s_bytes W p] tx"
    by (auto simp: sign_transaction_taproot_def obind_Ok_iff Let_def split: option.splits prod.splits if_splits)
  with out i show ?thesis by (auto simp: push_witnesses_def)
qed

end
