(* ===== verification/Spec2Isabelle.thy ===== *)
theory Spec2Isabelle
  imports SignerSystem SignerPrograms RelayClient FrostCrypto Restarts ApiServer TestVectors StacksDoctor
    TestUtils TestWallet
begin

text \<open>
  Verification of the sBTC core engineering repository: a peg between Bitcoin and Stacks whose
  bitcoin wallet is held by a group of signers with a threshold Schnorr (FROST) key.

  \<^bold>\<open>The program.\<close> Signers (\<^verbatim>\<open>frost-signer\<close>) and a coordinator (\<^verbatim>\<open>frost-coordinator\<close>) exchange signed
  messages through a relay (\<^verbatim>\<open>relay-server\<close>) that speaks a small HTTP of its own (\<^verbatim>\<open>yarpc\<close>). They
  generate a key together and sign with it. The stacks coordinator (\<^verbatim>\<open>stacks-coordinator\<close>) polls a stacks
  node for peg operations, keeps them in a SQLite queue, and carries them out: a peg-in is minted, a
  peg-out is burned on Stacks and paid out by a bitcoin transaction that the signers sign. Beside this core
  there are a service on which a signer's operator votes on transactions (\<^verbatim>\<open>stacks-signer-api\<close>), a tool that
  builds deposits and withdrawal requests (\<^verbatim>\<open>sbtc-cli\<close>), one that examines a running node (\<^verbatim>\<open>stacks-doctor\<close>),
  a generator of reference transactions (\<^verbatim>\<open>test-vectors\<close>) and a harness for tests (\<^verbatim>\<open>test-utils\<close>).

  \<^bold>\<open>Theories.\<close> Each theory follows one part of the code; definitions carry the names of the source,
  with a prefix where a name is taken.

  \<^item> \<open>Prelude\<close>: machine integers, the outcome type (\<open>Ok\<close>, \<open>Err\<close>, \<open>Panic\<close>), big-endian encodings, the
    lists that stand for \<^verbatim>\<open>BTreeMap\<close> (sorted by key) and \<^verbatim>\<open>HashMap\<close> (in some fixed order).
  \<^item> \<open>Programs\<close>: how the programs end, and files that they write.
  \<^item> \<open>Http\<close>: \<^verbatim>\<open>yarpc/src/http\<close>, \<^verbatim>\<open>read_ex.rs\<close>. Streams are byte lists; reading returns the rest. Requests
    and responses survive the round trip.
  \<^item> \<open>Rpc\<close>: \<^verbatim>\<open>io_stream.rs\<close> and \<^verbatim>\<open>yarpc/src/rpc\<close>: calls to a peer that is a parameter; lines are read in the order
    in which they were written.
  \<^item> \<open>Relay\<close>: \<^verbatim>\<open>relay-server/src\<close>: the store (\<open>MemState\<close>), the server on one connection after another, the
    client (\<open>ProxyState\<close>). Locale \<open>relay_state\<close>: messages are delivered in order, each once;
    the proxy over HTTP refines the store; which input ends the server.
  \<^item> \<open>RelayClient\<close>: \<^verbatim>\<open>relay-server/src/bin\<close>: a client that connects for every request. A second interpretation of
    \<open>relay_state\<close>; the test program passes, because remote runs refine those of the store.
  \<^item> \<open>FrostConfig\<close>: \<^verbatim>\<open>frost-signer/src/config.rs\<close>: a configuration that loads is consistent.
  \<^item> \<open>FrostMessages\<close>: the messages, their hashes, signing and \<^verbatim>\<open>verify_msg\<close> (\<^verbatim>\<open>signing_round.rs\<close>,
    \<^verbatim>\<open>signer.rs\<close>): who must have signed what is accepted, and which fields the hashes leave open.
  \<^item> \<open>FrostCrypto\<close>: \<^verbatim>\<open>util.rs\<close>: encryption of private shares.
  \<^item> \<open>SigningRound\<close>: the signer's state machine (\<^verbatim>\<open>signing_round.rs\<close>, \<^verbatim>\<open>state_machine.rs\<close>). An inductive
    predicate gives the reachable rounds; the invariant, the phases of key generation, what a reported
    success means, when a signer panics.
  \<^item> \<open>FrostNet\<close>: \<^verbatim>\<open>net.rs\<close> and the loops of \<^verbatim>\<open>signer.rs\<close> over a finite script of what the network does
    (\<open>wire\<close>); only verified messages reach the round, and what a signer sends verifies.
  \<^item> \<open>SignerThreads\<close>: \<^verbatim>\<open>start_p2p_sync\<close> of \<^verbatim>\<open>signer.rs\<close>: the polling and the signing thread with the channel between them as a
    step relation. Every interleaving has the result of the loops one after the other.
  \<^item> \<open>SignerPrograms\<close>: the mains of \<^verbatim>\<open>frost-signer\<close> and \<^verbatim>\<open>stacks-signer\<close> on a schedule of the threads: a signer never stops by
    itself; a generated key is the one that is configured.
  \<^item> \<open>FrostCoordinator\<close>: \<^verbatim>\<open>frost-coordinator/src\<close>: key generation and signing. Every loop takes messages
    from the finite script, so all of them are total, with the remaining script as measure.
  \<^item> \<open>SignerGroup\<close>: relay, signers and coordinator together. What a signer shows of a round (\<open>public_view\<close>) is a function of the
    verified messages on the relay alone, a refinement; so signers agree, and the coordinator's key is the one
    that the signers hold shares of. A share that nobody signed gets into the coordinator's key.
  \<^item> \<open>SignerSystem\<close>: the relay and the signers stepped against each other, with anybody else posting and reading in between, as a
    step relation. Its invariant joins that of the threads with the relay's; the signers agree in every state that is reached, and
    the commitments they hold are ones that signers have posted.
  \<^item> \<open>BitcoinNode\<close>, \<open>StacksNode\<close>: the clients of the two nodes (\<^verbatim>\<open>bitcoin_node.rs\<close>, \<^verbatim>\<open>stacks_node/\<close>). What
    the nodes answer is a parameter.
  \<^item> \<open>PegQueue\<close>: \<^verbatim>\<open>peg_queue/\<close>: a table of rows. Locale \<open>work_queue\<close>; the queue refines a map of entries.
  \<^item> \<open>BitcoinWallet\<close>, \<open>StacksWallet\<close>: the wallets, and the coordinator's configuration.
  \<^item> \<open>PegCoordinator\<close>: the provided methods of the traits of \<^verbatim>\<open>coordinator.rs\<close> over a record of the required
    ones. Locales \<open>coordinator_frame\<close>, \<open>coordinator_sends\<close>, \<open>coordinator_queue\<close>, \<open>coordinator_signer\<close>
    state what the methods promise about the log of sent transactions, the queue and the key, and prove
    what follows for the loops.
  \<^item> \<open>StacksCoordinator\<close>: the implementation of these methods on top of all components above, the
    interpretation of the locales on it, its creation from a configuration. The properties that span
    components are there: each operation carried out exactly once, payment after burning, signatures
    under the wallet's key.
  \<^item> \<open>CoordinatorRun\<close>: the mains of both coordinators, and the rounds of polling and processing over a chain: from the
    start of \<^verbatim>\<open>stacks-coordinator run\<close>, every operation of the chain is carried out once.
  \<^item> \<open>Restarts\<close>: runs one after the other on one database, whatever ended them. A ledger of the table survives failed
    polls and failed operations, and over all runs no operation is taken twice. A second interpretation of \<open>coordinator_queue\<close>
    carries the ledger through the loop.
  \<^item> \<open>SignerDb\<close>: \<^verbatim>\<open>stacks-signer-api/src/db\<close> with \<^verbatim>\<open>vote.rs\<close>, \<^verbatim>\<open>transaction.rs\<close>, \<^verbatim>\<open>config.rs\<close> and the
    migration: tables as lists of rows with the cascade and the trigger, and a script of failing statements.
    Locale \<open>db_invariant\<close>: what every statement keeps holds after every operation. The tables stay
    sound; what survives storing a configuration, a transaction, a vote.
  \<^item> \<open>SignerApi\<close>: its \<^verbatim>\<open>routes\<close> and \<^verbatim>\<open>main.rs\<close>. Locale \<open>api_invariant\<close> extends the one before to the server.
    A vote is cast once when requests come one by one, and a step relation on concurrent requests shows how
    two can be; no internal errors; pages partition the listing.
  \<^item> \<open>ApiServer\<close>: the other commands of its \<^verbatim>\<open>main.rs\<close>, and \<^verbatim>\<open>error.rs\<close>: the swagger server answers as the plain one does.
  \<^item> \<open>SbtcCli\<close>: \<^verbatim>\<open>sbtc-cli/src\<close>: payloads and outputs of the transactions, and when an output is lost.
  \<^item> \<open>TestVectors\<close>: \<^verbatim>\<open>test-vectors/src\<close>: the reference payloads, with which the withdrawal of \<^verbatim>\<open>sbtc-cli\<close> agrees and
    its deposit does not.
  \<^item> \<open>TestUtils\<close>: \<^verbatim>\<open>test-utils/src/lib.rs\<close>: nodes for tests and their ports as a step relation: running nodes
    never share one, and a start that fails can keep two for good.
  \<^item> \<open>TestWallet\<close>: the wallets of \<^verbatim>\<open>test-utils\<close>: what is deposited to the group, the group can spend.
  \<^item> \<open>StacksDoctor\<close>: \<^verbatim>\<open>stacks-doctor/src\<close>: what the reports say and when the tool panics.

  \<^bold>\<open>Choices.\<close> Arithmetic wraps as in a release build. A panic is the outcome \<open>Panic\<close>. Cryptography, the
  chain libraries, JSON, TOML and bincode codecs, SQLite, HTTP clients and files are records of
  functions; what a theorem needs of them is a hypothesis, and a witness instantiates it. The network
  is a finite script of answers, so a wait for a message ends with the message or with the timeout of
  the backoff library. Statements on the queue's database are taken to succeed, except for conversions of
  rows and for queries that find nothing; those of the signer's service fail as a script says. Iteration over a \<^verbatim>\<open>HashMap\<close> follows the list that stands for it.
  \<open>process_queue\<close> has no bound in the code: it is a partial function and is shown to end. \<open>coordinator_run\<close>
  follows \<^verbatim>\<open>run\<close> for a number of rounds, since the code leaves it only with an error.

  \<^bold>\<open>Not modelled.\<close> Logging, pauses, version texts and the parsing of command lines, which other crates do; the texts of the
  OpenAPI document and of the swagger pages; the crate \<^verbatim>\<open>frost-test\<close>, which holds tests only; unit tests; the Clarity
  contracts and the TypeScript code. The signer's threads are interleaved iteration by iteration: they share nothing but
  the channel, and an iteration touches it once. In the system of signers a request that fails does so before the relay has handled
  it: an answer that is lost on the way would be a message that a signer never sees. The coordinator is one of those who post and read
  there; its own loops are in \<open>FrostCoordinator\<close>, over any script of what it receives.
\<close>

end
